(* ===== verification/Prelude.thy ===== *)
theory Prelude
  imports Main "HOL-Library.Word"
begin

text \<open>
  The vocabulary the components share: machine words, C strings, the ways a handler can fail to
  return, decimal rendering, output tokens, the C library routines \<open>atoi\<close>, \<open>strcmp\<close>,
  \<open>strtok\<close> the tools call. The contracts several components provide are in \<open>Contracts\<close>.
\<close>

named_theorems tool_defs "unfolding equations of the handlers"
named_theorems inv_intros "introduction rules of the state invariants"

type_synonym u8 = "8 word"
type_synonym u32 = "32 word"
type_synonym u64 = "64 word"

section \<open>Handlers that do not return\<close>

text \<open>
  \<open>Exit c\<close> is \<open>exit(c)\<close>, \<open>Abort\<close> is \<open>abort()\<close> or a failed \<open>assert\<close>, \<open>Throw m\<close> an
  exception that leaves the handler, and \<open>Undefined w\<close> an operation the language leaves
  undefined (an index past an array, a read through a null pointer), with a note saying which.
\<close>

datatype stop = Exit int | Abort | Throw string | Undefined string

type_synonym 'a outcome = "stop + 'a"

definition returns :: "'a outcome \<Rightarrow> bool" where
  "returns r = (case r of Inl _ \<Rightarrow> False | Inr _ \<Rightarrow> True)"

lemma returns_simps [simp]: "returns (Inr x)" "\<not> returns (Inl e)"
  by (simp_all add: returns_def)

lemma returns_iff: "returns r \<longleftrightarrow> (\<exists>x. r = Inr x)"
  by (cases r) simp_all

text \<open>Sequencing: what follows a call that may not return.\<close>

definition obind :: "'a outcome \<Rightarrow> ('a \<Rightarrow> 'b outcome) \<Rightarrow> 'b outcome" where
  "obind r f = (case r of Inl x \<Rightarrow> Inl x | Inr a \<Rightarrow> f a)"

lemma obind_simps [simp]: "obind (Inl x) f = Inl x" "obind (Inr a) f = f a"
  by (simp_all add: obind_def)

lemma obind_Inr: "obind r f = Inr b \<longleftrightarrow> (\<exists>a. r = Inr a \<and> f a = Inr b)"
  by (cases r) simp_all

fun run_events :: "('s \<Rightarrow> 'e \<Rightarrow> 's outcome) \<Rightarrow> 's \<Rightarrow> 'e list \<Rightarrow> 's outcome" where
  "run_events step s [] = Inr s"
| "run_events step s (e # es) =
     (case step s e of Inl x \<Rightarrow> Inl x | Inr s' \<Rightarrow> run_events step s' es)"

lemma run_events_append:
  "run_events step s (xs @ ys) =
     (case run_events step s xs of Inl x \<Rightarrow> Inl x | Inr s' \<Rightarrow> run_events step s' ys)"
  by (induction xs arbitrary: s) (auto split: sum.splits)

lemma run_events_invariant:
  assumes "\<And>s e s'. I s \<Longrightarrow> step s e = Inr s' \<Longrightarrow> I s'"
    and "I s" and "run_events step s es = Inr s'"
  shows "I s'"
  using assms(2,3)
proof (induction es arbitrary: s)
  case (Cons e es)
  then show ?case using assms(1) by (auto split: sum.splits)
qed simp

section \<open>Decimal rendering and output\<close>

fun digit_char :: "nat \<Rightarrow> char" where
  "digit_char n = char_of (48 + n mod 10)"

fun dec_nat :: "nat \<Rightarrow> string" where
  "dec_nat n = (if n < 10 then [digit_char n] else dec_nat (n div 10) @ [digit_char n])"

declare dec_nat.simps [simp del]

definition dec_int :: "int \<Rightarrow> string" where
  "dec_int i = (if i < 0 then CHR ''-'' # dec_nat (nat (- i)) else dec_nat (nat i))"

lemma dec_nat_nonempty [simp]: "dec_nat n \<noteq> []"
  by (subst dec_nat.simps) simp

text \<open>
  What a tool prints or writes. Literal text, strings and integers are rendered to characters;
  a floating-point number is kept with the conversion that prints it (\<open>Num fmt d\<close>), and a
  pointer with its value, because their spelling is the C library's.
\<close>

datatype token = Txt string | Num string u64 | Ptr u64

definition eol :: string where
  "eol = [CHR 0x0A]"

definition quot :: string where
  "quot = [CHR 0x22]"

text \<open>Characters a printed piece of text contributes; numbers and pointers are opaque.\<close>

fun token_text :: "token \<Rightarrow> string" where
  "token_text (Txt s) = s"
| "token_text (Num f d) = []"
| "token_text (Ptr p) = []"

section \<open>C library routines\<close>

definition is_space :: "char \<Rightarrow> bool" where
  "is_space c = (c \<in> {CHR '' '', CHR 0x09, CHR 0x0A, CHR 0x0B, CHR 0x0C, CHR 0x0D})"

definition is_digit :: "char \<Rightarrow> bool" where
  "is_digit c = (48 \<le> (of_char c :: nat) \<and> (of_char c :: nat) \<le> 57)"

definition digit_val :: "char \<Rightarrow> nat" where
  "digit_val c = (of_char c :: nat) - 48"

fun digits_val :: "nat \<Rightarrow> string \<Rightarrow> nat" where
  "digits_val acc [] = acc"
| "digits_val acc (c # cs) = (if is_digit c then digits_val (10 * acc + digit_val c) cs else acc)"

text \<open>\<open>atoi\<close>: leading white space, an optional sign, digits; anything else ends the number.\<close>

definition atoi :: "string \<Rightarrow> int" where
  "atoi s = (let t = dropWhile is_space s in
     case t of [] \<Rightarrow> 0
     | c # cs \<Rightarrow> if c = CHR ''-'' then - int (digits_val 0 cs)
                 else if c = CHR ''+'' then int (digits_val 0 cs)
                 else int (digits_val 0 t))"

text \<open>
  \<open>strtok\<close> over one delimiter character: empty pieces are skipped. The code calls it once with the
  buffer and then with \<open>NULL\<close>; after the last piece every further call returns \<open>NULL\<close>, so the
  \<open>n\<close>-th call returns the \<open>n\<close>-th piece if there is one.
\<close>

fun split_on :: "char \<Rightarrow> string \<Rightarrow> string \<Rightarrow> string list" where
  "split_on d acc [] = (if acc = [] then [] else [rev acc])"
| "split_on d acc (c # cs) =
     (if c = d then (if acc = [] then split_on d [] cs else rev acc # split_on d [] cs)
      else split_on d (c # acc) cs)"

definition strtok_nth :: "char \<Rightarrow> string \<Rightarrow> nat \<Rightarrow> string option" where
  "strtok_nth d s n = (let ts = split_on d [] s in if n < length ts then Some (ts ! n) else None)"

text \<open>\<open>strstr\<close>: whether one string occurs in another.\<close>

fun strstr :: "string \<Rightarrow> string \<Rightarrow> bool" where
  "strstr [] pat = (pat = [])"
| "strstr (c # cs) pat = (take (length pat) (c # cs) = pat \<or> strstr cs pat)"

text \<open>
  A name held in a \<open>char[64]\<close> array: what a C string function reads of it ends at the first NUL.
  \<open>strncmp\<close> with a bound no longer than the second string asks for a prefix.
\<close>

definition cstr :: "string \<Rightarrow> string" where
  "cstr s = takeWhile (\<lambda>c. c \<noteq> CHR 0x00) s"

definition strncmp_eq :: "string \<Rightarrow> string \<Rightarrow> nat \<Rightarrow> bool" where
  "strncmp_eq a b n = (take n (cstr a) = take n (cstr b))"

definition strcmp_eq :: "string \<Rightarrow> string \<Rightarrow> bool" where
  "strcmp_eq a b = (cstr a = cstr b)"

lemma cstr_cstr [simp]: "cstr (cstr s) = cstr s"
  by (simp add: cstr_def)

section \<open>Words\<close>

lemma unat_u64_add: "unat ((a :: u64) + b) = (unat a + unat b) mod 2 ^ 64"
  by (simp add: unat_word_ariths)

lemma of_nat_u64_inj:
  "m < 2 ^ 64 \<Longrightarrow> n < 2 ^ 64 \<Longrightarrow> (of_nat m :: u64) = of_nat n \<longleftrightarrow> m = n"
  by (simp add: word_of_nat_eq_iff take_bit_nat_eq_self)

end
