(* ===== verification/Interface.thy ===== *)
theory Interface
  imports Prelude
begin

unbundle bit_operations_syntax

text \<open>
  The Kokkos Tools interface (\<open>profiling/all/impl/Kokkos_Profiling_Interface.hpp\<close> and
  \<open>Kokkos_Profiling_C_Interface.h\<close>): execution space identifiers packed into 32 bits, and the
  callbacks a program under measurement makes, in the vocabulary every tool is modelled with.
\<close>

section \<open>Execution space identifiers\<close>

datatype DeviceType = Serial | OpenMP | Cuda | HIP | OpenMPTarget | HPX | Threads | SYCL | OpenACC
  | Unknown

record ExecutionSpaceIdentifier =
  esi_type :: DeviceType
  esi_device_id :: u32
  esi_instance_id :: u32

definition num_type_bits :: nat where "num_type_bits = 8"
definition num_device_bits :: nat where "num_device_bits = 7"
definition num_instance_bits :: nat where "num_instance_bits = 17"
definition num_avail_bits :: nat where "num_avail_bits = 32"

lemmas num_bits_defs = num_type_bits_def num_device_bits_def num_instance_bits_def
  num_avail_bits_def

definition devicetype_from_uint32t :: "u32 \<Rightarrow> DeviceType" where
  "devicetype_from_uint32t i =
     (if i = 0 then Serial else if i = 1 then OpenMP else if i = 2 then Cuda
      else if i = 3 then HIP else if i = 4 then OpenMPTarget else if i = 5 then HPX
      else if i = 6 then Threads else if i = 7 then SYCL else if i = 8 then OpenACC
      else Unknown)"

definition identifier_from_devid :: "u32 \<Rightarrow> ExecutionSpaceIdentifier" where
  "identifier_from_devid i = (let shift = num_avail_bits - num_type_bits in
     \<lparr>esi_type = devicetype_from_uint32t (drop_bit shift i),
      esi_device_id = NOT (push_bit num_device_bits (- 1)) AND drop_bit num_instance_bits i,
      esi_instance_id = NOT (push_bit num_instance_bits (- 1)) AND i\<rparr>)"

text \<open>The enumerator's number, \<open>DeviceTypeTraits<ExecutionSpace>::id\<close> converted to \<open>uint32_t\<close>.\<close>

fun type_number :: "DeviceType \<Rightarrow> u32" where
  "type_number Serial = 0" | "type_number OpenMP = 1" | "type_number Cuda = 2"
| "type_number HIP = 3" | "type_number OpenMPTarget = 4" | "type_number HPX = 5"
| "type_number Threads = 6" | "type_number SYCL = 7" | "type_number OpenACC = 8"
| "type_number Unknown = 9"

text \<open>
  The packing direction is a template over the execution space; its type, device and instance are
  what the specialisation of \<open>DeviceTypeTraits\<close> and \<open>impl_instance_id()\<close> supply.
\<close>

definition device_id_root :: "DeviceType \<Rightarrow> u32" where
  "device_id_root t = push_bit (num_instance_bits + num_device_bits) (type_number t)"

definition device_id :: "DeviceType \<Rightarrow> u32 \<Rightarrow> u32 \<Rightarrow> u32" where
  "device_id t dev inst = device_id_root t + push_bit num_instance_bits dev + inst"

datatype SpecialSynchronizationCases = GlobalDeviceSynchronization | DeepCopyResourceSynchronization

fun int_for_synchronization_reason :: "SpecialSynchronizationCases \<Rightarrow> u32" where
  "int_for_synchronization_reason GlobalDeviceSynchronization = 0"
| "int_for_synchronization_reason DeepCopyResourceSynchronization = 0x00ffffff"

text \<open>A field of \<open>n\<close> one bits as the code writes it: the complement of all ones shifted left.\<close>

lemma field_mask: "NOT (push_bit n (- 1)) AND w = take_bit n (w :: 'a :: len word)"
  by (simp add: push_bit_minus_one_eq_not_mask take_bit_eq_mask and.commute)

lemma identifier_fields:
  "identifier_from_devid i =
     \<lparr>esi_type = devicetype_from_uint32t (drop_bit 24 i),
      esi_device_id = take_bit 7 (drop_bit 17 i), esi_instance_id = take_bit 17 i\<rparr>"
  by (simp add: identifier_from_devid_def num_bits_defs take_bit_eq_mask and.commute)

lemma unat_take_bit: "unat (take_bit n w) = unat w mod 2 ^ n"
  by (rule trans [OF unsigned_take_bit_eq take_bit_eq_mod])

lemma unat_drop_bit: "unat (drop_bit n w) = unat w div 2 ^ n"
  by (rule trans [OF unat_drop_bit_eq drop_bit_eq_div])

lemma unat_type_number: "unat (type_number t) \<le> 9"
  by (cases t) simp_all

lemma devicetype_type_number: "devicetype_from_uint32t (type_number t) = t"
  by (cases t) (simp_all add: devicetype_from_uint32t_def)

lemma unat_device_id:
  assumes "unat dev < 2 ^ 7" and "unat inst < 2 ^ 17"
  shows "unat (device_id t dev inst) = unat (type_number t) * 2 ^ 24 + unat dev * 2 ^ 17 + unat inst"
proof -
  have "unat (type_number t) \<le> 9" by (rule unat_type_number)
  then show ?thesis using assms
    by (simp add: device_id_def device_id_root_def num_bits_defs push_bit_eq_mult
        unat_word_ariths)
qed


text \<open>
  C33. Packing and unpacking agree: \<open>identifier_from_devid\<close> applied to what \<open>device_id\<close> builds
  gives back the type, the device number and the instance number, for every device number that
  fits its 7 bits and every instance number that fits its 17 bits.
\<close>

theorem identifier_from_device_id:
  assumes "unat dev < 2 ^ 7" and "unat inst < 2 ^ 17"
  shows "identifier_from_devid (device_id t dev inst) =
    \<lparr>esi_type = t, esi_device_id = dev, esi_instance_id = inst\<rparr>"
proof -
  let ?t = "unat (type_number t)"
  note u = unat_device_id [OF assms, of t]
  have "unat (drop_bit 24 (device_id t dev inst)) = ?t"
    unfolding unat_drop_bit u using assms by simp
  then have t: "drop_bit 24 (device_id t dev inst) = type_number t" by (simp only: word_unat_eq_iff)
  have "unat (take_bit 7 (drop_bit 17 (device_id t dev inst))) = unat dev"
  proof -
    have "?t * 2 ^ 24 + unat dev * 2 ^ 17 + unat inst = (?t * 2 ^ 7 + unat dev) * 2 ^ 17 + unat inst"
      by simp
    then have "(?t * 2 ^ 24 + unat dev * 2 ^ 17 + unat inst) div 2 ^ 17 = ?t * 2 ^ 7 + unat dev"
      using assms(2) by simp
    then show ?thesis unfolding unat_take_bit unat_drop_bit u using assms(1) by simp
  qed
  then have d: "take_bit 7 (drop_bit 17 (device_id t dev inst)) = dev" by (simp only: word_unat_eq_iff)
  have "unat (take_bit 17 (device_id t dev inst)) = unat inst"
  proof -
    have "?t * 2 ^ 24 + unat dev * 2 ^ 17 + unat inst = unat inst + (?t * 2 ^ 7 + unat dev) * 2 ^ 17"
      by simp
    then show ?thesis unfolding unat_take_bit u using assms(2) by (simp only: mod_mult_self1) simp
  qed
  then have i: "take_bit 17 (device_id t dev inst) = inst" by (simp only: word_unat_eq_iff)
  show ?thesis by (simp only: identifier_fields t d i devicetype_type_number)
qed

theorem identifier_from_device_id_witness:
  "identifier_from_devid (device_id HIP 5 77) =
     \<lparr>esi_type = HIP, esi_device_id = 5, esi_instance_id = 77\<rparr>"
  by (rule identifier_from_device_id) simp_all

section \<open>Callbacks\<close>

text \<open>
  The three kinds of kernel, and the memory space handle (a \<open>char[64]\<close> name, kept as the string
  before its first NUL).
\<close>

datatype pkind = ParFor | ParReduce | ParScan

record SpaceHandle =
  sh_name :: string

text \<open>The settings a tool fills in (\<open>Kokkos_Tools_ToolSettings\<close>).\<close>

record ToolSettings =
  requires_global_fencing :: bool

end
