(* ===== verification/Event_Sets.thy ===== *)
theory Event_Sets
  imports Interface
begin

text \<open>
  How callbacks reach a tool: the \<open>EXPOSE_\<close> macros of \<open>profiling/all/kp_core.hpp\<close>, which export
  one symbol each from a tool built as its own library, the table of function pointers
  (\<open>Kokkos_Profiling_EventSet\<close>) each tool's \<open>get_event_set\<close> fills in, and the dispatcher
  \<open>KokkosTools::get_event_set\<close> of \<open>profiling/all/kp_all.cpp\<close>. A function pointer is the
  tool and the name of the function; \<open>memset\<close> to zero leaves every slot without one.
\<close>

section \<open>Slots and exported symbols\<close>

text \<open>The members of \<open>Kokkos_Profiling_EventSet\<close> that hold a function pointer.\<close>

datatype slot =
    S_init | S_finalize | S_parse_args | S_print_help
  | S_begin_parallel_for | S_end_parallel_for
  | S_begin_parallel_reduce | S_end_parallel_reduce
  | S_begin_parallel_scan | S_end_parallel_scan
  | S_push_region | S_pop_region
  | S_allocate_data | S_deallocate_data
  | S_create_profile_section | S_start_profile_section
  | S_stop_profile_section | S_destroy_profile_section
  | S_profile_event
  | S_begin_deep_copy | S_end_deep_copy
  | S_begin_fence | S_end_fence
  | S_sync_dual_view | S_modify_dual_view | S_declare_metadata
  | S_provide_tool_programming_interface | S_request_tool_settings
  | S_declare_output_type | S_declare_input_type | S_request_output_values
  | S_begin_tuning_context | S_end_tuning_context | S_declare_optimization_goal

text \<open>The functions of a tool, by their name after the prefix \<open>kokkosp_\<close>, and the tools that define them.\<close>

datatype handler =
    H_allocate_data | H_begin_deep_copy | H_begin_fence | H_begin_parallel_for |
    H_begin_parallel_reduce | H_begin_parallel_scan | H_create_profile_section |
    H_deallocate_data | H_destroy_profile_section | H_dual_view_modify | H_dual_view_sync |
    H_end_deep_copy | H_end_fence | H_end_parallel_for | H_end_parallel_reduce |
    H_end_parallel_scan | H_finalize_library | H_init_library | H_pop_profile_region |
    H_profile_event | H_provide_tool_programming_interface | H_push_profile_region |
    H_request_tool_settings | H_start_profile_section | H_stop_profile_section

datatype tool_name =
    T_KernelTimer | T_MemoryEvents | T_MemoryUsage | T_HighwaterMark | T_HighwaterMarkMPI |
    T_ChromeTracing | T_SpaceTimeStack | T_SystemtapConnector | T_VariorumConnector |
    T_VTuneConnector | T_VTuneFocusedConnector | T_NVTXConnector | T_NVTXFocusedConnector |
    T_ROCTXConnector | T_PerfettoConnector | T_Sampler

datatype fn = Fn tool_name handler

type_synonym EventSet = "slot \<Rightarrow> fn option"

definition event_set :: "tool_name \<Rightarrow> (slot \<times> handler) list \<Rightarrow> EventSet" where
  "event_set ns es s = map_option (Fn ns) (map_of es s)"

datatype Expose =
    EXPOSE_PROVIDE_TOOL_PROGRAMMING_INTERFACE | EXPOSE_TOOL_SETTINGS | EXPOSE_INIT
  | EXPOSE_FINALIZE | EXPOSE_ALLOCATE | EXPOSE_DEALLOCATE | EXPOSE_PUSH_REGION
  | EXPOSE_POP_REGION | EXPOSE_BEGIN_PARALLEL_FOR | EXPOSE_END_PARALLEL_FOR
  | EXPOSE_BEGIN_PARALLEL_SCAN | EXPOSE_END_PARALLEL_SCAN | EXPOSE_BEGIN_PARALLEL_REDUCE
  | EXPOSE_END_PARALLEL_REDUCE | EXPOSE_BEGIN_DEEP_COPY | EXPOSE_END_DEEP_COPY
  | EXPOSE_CREATE_PROFILE_SECTION | EXPOSE_START_PROFILE_SECTION
  | EXPOSE_STOP_PROFILE_SECTION | EXPOSE_DESTROY_PROFILE_SECTION | EXPOSE_PROFILE_EVENT
  | EXPOSE_BEGIN_FENCE | EXPOSE_END_FENCE | EXPOSE_DUAL_VIEW_SYNC | EXPOSE_DUAL_VIEW_MODIFY

text \<open>The symbol a macro defines (outside \<open>WIN32\<close>; there a macro expands to nothing or is not defined).\<close>

fun expose_symbol :: "Expose \<Rightarrow> handler" where
  "expose_symbol EXPOSE_PROVIDE_TOOL_PROGRAMMING_INTERFACE =
     H_provide_tool_programming_interface"
| "expose_symbol EXPOSE_TOOL_SETTINGS = H_request_tool_settings"
| "expose_symbol EXPOSE_INIT = H_init_library"
| "expose_symbol EXPOSE_FINALIZE = H_finalize_library"
| "expose_symbol EXPOSE_ALLOCATE = H_allocate_data"
| "expose_symbol EXPOSE_DEALLOCATE = H_deallocate_data"
| "expose_symbol EXPOSE_PUSH_REGION = H_push_profile_region"
| "expose_symbol EXPOSE_POP_REGION = H_pop_profile_region"
| "expose_symbol EXPOSE_BEGIN_PARALLEL_FOR = H_begin_parallel_for"
| "expose_symbol EXPOSE_END_PARALLEL_FOR = H_end_parallel_for"
| "expose_symbol EXPOSE_BEGIN_PARALLEL_SCAN = H_begin_parallel_scan"
| "expose_symbol EXPOSE_END_PARALLEL_SCAN = H_end_parallel_scan"
| "expose_symbol EXPOSE_BEGIN_PARALLEL_REDUCE = H_begin_parallel_reduce"
| "expose_symbol EXPOSE_END_PARALLEL_REDUCE = H_end_parallel_reduce"
| "expose_symbol EXPOSE_BEGIN_DEEP_COPY = H_begin_deep_copy"
| "expose_symbol EXPOSE_END_DEEP_COPY = H_end_deep_copy"
| "expose_symbol EXPOSE_CREATE_PROFILE_SECTION = H_create_profile_section"
| "expose_symbol EXPOSE_START_PROFILE_SECTION = H_start_profile_section"
| "expose_symbol EXPOSE_STOP_PROFILE_SECTION = H_stop_profile_section"
| "expose_symbol EXPOSE_DESTROY_PROFILE_SECTION = H_destroy_profile_section"
| "expose_symbol EXPOSE_PROFILE_EVENT = H_profile_event"
| "expose_symbol EXPOSE_BEGIN_FENCE = H_begin_fence"
| "expose_symbol EXPOSE_END_FENCE = H_end_fence"
| "expose_symbol EXPOSE_DUAL_VIEW_SYNC = H_dual_view_sync"
| "expose_symbol EXPOSE_DUAL_VIEW_MODIFY = H_dual_view_modify"

text \<open>
  The slot of the table whose callback a macro's symbol serves; every macro exports the callback
  of one slot.
\<close>

fun expose_slot :: "Expose \<Rightarrow> slot" where
  "expose_slot EXPOSE_PROVIDE_TOOL_PROGRAMMING_INTERFACE = S_provide_tool_programming_interface"
| "expose_slot EXPOSE_TOOL_SETTINGS = S_request_tool_settings"
| "expose_slot EXPOSE_INIT = S_init"
| "expose_slot EXPOSE_FINALIZE = S_finalize"
| "expose_slot EXPOSE_ALLOCATE = S_allocate_data"
| "expose_slot EXPOSE_DEALLOCATE = S_deallocate_data"
| "expose_slot EXPOSE_PUSH_REGION = S_push_region"
| "expose_slot EXPOSE_POP_REGION = S_pop_region"
| "expose_slot EXPOSE_BEGIN_PARALLEL_FOR = S_begin_parallel_for"
| "expose_slot EXPOSE_END_PARALLEL_FOR = S_end_parallel_for"
| "expose_slot EXPOSE_BEGIN_PARALLEL_SCAN = S_begin_parallel_scan"
| "expose_slot EXPOSE_END_PARALLEL_SCAN = S_end_parallel_scan"
| "expose_slot EXPOSE_BEGIN_PARALLEL_REDUCE = S_begin_parallel_reduce"
| "expose_slot EXPOSE_END_PARALLEL_REDUCE = S_end_parallel_reduce"
| "expose_slot EXPOSE_BEGIN_DEEP_COPY = S_begin_deep_copy"
| "expose_slot EXPOSE_END_DEEP_COPY = S_end_deep_copy"
| "expose_slot EXPOSE_CREATE_PROFILE_SECTION = S_create_profile_section"
| "expose_slot EXPOSE_START_PROFILE_SECTION = S_start_profile_section"
| "expose_slot EXPOSE_STOP_PROFILE_SECTION = S_stop_profile_section"
| "expose_slot EXPOSE_DESTROY_PROFILE_SECTION = S_destroy_profile_section"
| "expose_slot EXPOSE_PROFILE_EVENT = S_profile_event"
| "expose_slot EXPOSE_BEGIN_FENCE = S_begin_fence"
| "expose_slot EXPOSE_END_FENCE = S_end_fence"
| "expose_slot EXPOSE_DUAL_VIEW_SYNC = S_sync_dual_view"
| "expose_slot EXPOSE_DUAL_VIEW_MODIFY = S_modify_dual_view"

text \<open>What a tool built as its own library offers: one function per exported callback.\<close>

definition exported :: "tool_name \<Rightarrow> (Expose \<times> handler) list \<Rightarrow> EventSet" where
  "exported ns xs s = map_option (Fn ns) (map_of (map (\<lambda>(m, f). (expose_slot m, f)) xs) s)"

section \<open>The tools' tables\<close>

definition KernelTimer_event_set :: EventSet where
  "KernelTimer_event_set = event_set T_KernelTimer
     [(S_init, H_init_library),
      (S_finalize, H_finalize_library),
      (S_begin_parallel_for, H_begin_parallel_for),
      (S_begin_parallel_reduce, H_begin_parallel_reduce),
      (S_begin_parallel_scan, H_begin_parallel_scan),
      (S_end_parallel_for, H_end_parallel_for),
      (S_end_parallel_reduce, H_end_parallel_reduce),
      (S_end_parallel_scan, H_end_parallel_scan),
      (S_push_region, H_push_profile_region),
      (S_pop_region, H_pop_profile_region)]"

definition KernelTimer_exports :: "(Expose \<times> handler) list" where
  "KernelTimer_exports =
     [(EXPOSE_INIT, H_init_library),
      (EXPOSE_FINALIZE, H_finalize_library),
      (EXPOSE_BEGIN_PARALLEL_FOR, H_begin_parallel_for),
      (EXPOSE_END_PARALLEL_FOR, H_end_parallel_for),
      (EXPOSE_BEGIN_PARALLEL_SCAN, H_begin_parallel_scan),
      (EXPOSE_END_PARALLEL_SCAN, H_end_parallel_scan),
      (EXPOSE_BEGIN_PARALLEL_REDUCE, H_begin_parallel_reduce),
      (EXPOSE_END_PARALLEL_REDUCE, H_end_parallel_reduce),
      (EXPOSE_PUSH_REGION, H_push_profile_region),
      (EXPOSE_POP_REGION, H_pop_profile_region)]"

definition MemoryEvents_event_set :: EventSet where
  "MemoryEvents_event_set = event_set T_MemoryEvents
     [(S_init, H_init_library),
      (S_finalize, H_finalize_library),
      (S_allocate_data, H_allocate_data),
      (S_deallocate_data, H_deallocate_data),
      (S_push_region, H_push_profile_region),
      (S_pop_region, H_pop_profile_region)]"

definition MemoryEvents_exports :: "(Expose \<times> handler) list" where
  "MemoryEvents_exports =
     [(EXPOSE_INIT, H_init_library),
      (EXPOSE_FINALIZE, H_finalize_library),
      (EXPOSE_ALLOCATE, H_allocate_data),
      (EXPOSE_DEALLOCATE, H_deallocate_data),
      (EXPOSE_PUSH_REGION, H_push_profile_region),
      (EXPOSE_POP_REGION, H_pop_profile_region)]"

definition MemoryUsage_event_set :: EventSet where
  "MemoryUsage_event_set = event_set T_MemoryUsage
     [(S_init, H_init_library),
      (S_finalize, H_finalize_library),
      (S_allocate_data, H_allocate_data),
      (S_deallocate_data, H_deallocate_data)]"

definition MemoryUsage_exports :: "(Expose \<times> handler) list" where
  "MemoryUsage_exports =
     [(EXPOSE_INIT, H_init_library),
      (EXPOSE_FINALIZE, H_finalize_library),
      (EXPOSE_ALLOCATE, H_allocate_data),
      (EXPOSE_DEALLOCATE, H_deallocate_data)]"

definition HighwaterMark_event_set :: EventSet where
  "HighwaterMark_event_set = event_set T_HighwaterMark
     [(S_init, H_init_library),
      (S_finalize, H_finalize_library)]"

definition HighwaterMark_exports :: "(Expose \<times> handler) list" where
  "HighwaterMark_exports =
     [(EXPOSE_INIT, H_init_library),
      (EXPOSE_FINALIZE, H_finalize_library)]"

definition HighwaterMarkMPI_event_set :: EventSet where
  "HighwaterMarkMPI_event_set = event_set T_HighwaterMarkMPI
     [(S_init, H_init_library),
      (S_finalize, H_finalize_library)]"

definition HighwaterMarkMPI_exports :: "(Expose \<times> handler) list" where
  "HighwaterMarkMPI_exports =
     [(EXPOSE_INIT, H_init_library),
      (EXPOSE_FINALIZE, H_finalize_library)]"

definition ChromeTracing_event_set :: EventSet where
  "ChromeTracing_event_set = event_set T_ChromeTracing
     [(S_init, H_init_library),
      (S_finalize, H_finalize_library),
      (S_push_region, H_push_profile_region),
      (S_pop_region, H_pop_profile_region),
      (S_begin_parallel_for, H_begin_parallel_for),
      (S_begin_parallel_reduce, H_begin_parallel_reduce),
      (S_begin_parallel_scan, H_begin_parallel_scan),
      (S_end_parallel_for, H_end_parallel_for),
      (S_end_parallel_reduce, H_end_parallel_reduce),
      (S_end_parallel_scan, H_end_parallel_scan),
      (S_begin_deep_copy, H_begin_deep_copy),
      (S_end_deep_copy, H_end_deep_copy)]"

definition ChromeTracing_exports :: "(Expose \<times> handler) list" where
  "ChromeTracing_exports =
     [(EXPOSE_INIT, H_init_library),
      (EXPOSE_FINALIZE, H_finalize_library),
      (EXPOSE_PUSH_REGION, H_push_profile_region),
      (EXPOSE_POP_REGION, H_pop_profile_region),
      (EXPOSE_BEGIN_PARALLEL_FOR, H_begin_parallel_for),
      (EXPOSE_END_PARALLEL_FOR, H_end_parallel_for),
      (EXPOSE_BEGIN_PARALLEL_SCAN, H_begin_parallel_scan),
      (EXPOSE_END_PARALLEL_SCAN, H_end_parallel_scan),
      (EXPOSE_BEGIN_PARALLEL_REDUCE, H_begin_parallel_reduce),
      (EXPOSE_ALLOCATE, H_allocate_data),
      (EXPOSE_DEALLOCATE, H_deallocate_data),
      (EXPOSE_END_PARALLEL_REDUCE, H_end_parallel_reduce),
      (EXPOSE_BEGIN_DEEP_COPY, H_begin_deep_copy),
      (EXPOSE_END_DEEP_COPY, H_end_deep_copy)]"

definition SpaceTimeStack_event_set :: EventSet where
  "SpaceTimeStack_event_set = event_set T_SpaceTimeStack
     [(S_init, H_init_library),
      (S_finalize, H_finalize_library),
      (S_push_region, H_push_profile_region),
      (S_pop_region, H_pop_profile_region),
      (S_allocate_data, H_allocate_data),
      (S_deallocate_data, H_deallocate_data),
      (S_begin_deep_copy, H_begin_deep_copy),
      (S_end_deep_copy, H_end_deep_copy),
      (S_begin_parallel_for, H_begin_parallel_for),
      (S_begin_parallel_reduce, H_begin_parallel_reduce),
      (S_begin_parallel_scan, H_begin_parallel_scan),
      (S_end_parallel_for, H_end_parallel_for),
      (S_end_parallel_reduce, H_end_parallel_reduce),
      (S_end_parallel_scan, H_end_parallel_scan)]"

definition SpaceTimeStack_exports :: "(Expose \<times> handler) list" where
  "SpaceTimeStack_exports =
     [(EXPOSE_INIT, H_init_library),
      (EXPOSE_FINALIZE, H_finalize_library),
      (EXPOSE_PUSH_REGION, H_push_profile_region),
      (EXPOSE_POP_REGION, H_pop_profile_region),
      (EXPOSE_ALLOCATE, H_allocate_data),
      (EXPOSE_DEALLOCATE, H_deallocate_data),
      (EXPOSE_BEGIN_DEEP_COPY, H_begin_deep_copy),
      (EXPOSE_END_DEEP_COPY, H_end_deep_copy),
      (EXPOSE_BEGIN_PARALLEL_FOR, H_begin_parallel_for),
      (EXPOSE_END_PARALLEL_FOR, H_end_parallel_for),
      (EXPOSE_BEGIN_PARALLEL_SCAN, H_begin_parallel_scan),
      (EXPOSE_END_PARALLEL_SCAN, H_end_parallel_scan),
      (EXPOSE_BEGIN_PARALLEL_REDUCE, H_begin_parallel_reduce),
      (EXPOSE_END_PARALLEL_REDUCE, H_end_parallel_reduce)]"

definition SystemtapConnector_event_set :: EventSet where
  "SystemtapConnector_event_set = event_set T_SystemtapConnector
     [(S_init, H_init_library),
      (S_finalize, H_finalize_library),
      (S_push_region, H_push_profile_region),
      (S_pop_region, H_pop_profile_region),
      (S_allocate_data, H_allocate_data),
      (S_deallocate_data, H_deallocate_data),
      (S_begin_deep_copy, H_begin_deep_copy),
      (S_end_deep_copy, H_end_deep_copy),
      (S_begin_parallel_for, H_begin_parallel_for),
      (S_begin_parallel_reduce, H_begin_parallel_reduce),
      (S_begin_parallel_scan, H_begin_parallel_scan),
      (S_end_parallel_for, H_end_parallel_for),
      (S_end_parallel_reduce, H_end_parallel_reduce),
      (S_end_parallel_scan, H_end_parallel_scan),
      (S_create_profile_section, H_create_profile_section),
      (S_start_profile_section, H_start_profile_section),
      (S_stop_profile_section, H_stop_profile_section),
      (S_destroy_profile_section, H_destroy_profile_section),
      (S_profile_event, H_profile_event)]"

definition SystemtapConnector_exports :: "(Expose \<times> handler) list" where
  "SystemtapConnector_exports =
     [(EXPOSE_INIT, H_init_library),
      (EXPOSE_FINALIZE, H_finalize_library),
      (EXPOSE_PUSH_REGION, H_push_profile_region),
      (EXPOSE_POP_REGION, H_pop_profile_region),
      (EXPOSE_ALLOCATE, H_allocate_data),
      (EXPOSE_DEALLOCATE, H_deallocate_data),
      (EXPOSE_BEGIN_PARALLEL_FOR, H_begin_parallel_for),
      (EXPOSE_END_PARALLEL_FOR, H_end_parallel_for),
      (EXPOSE_BEGIN_PARALLEL_SCAN, H_begin_parallel_scan),
      (EXPOSE_END_PARALLEL_SCAN, H_end_parallel_scan),
      (EXPOSE_BEGIN_PARALLEL_REDUCE, H_begin_parallel_reduce),
      (EXPOSE_END_PARALLEL_REDUCE, H_end_parallel_reduce),
      (EXPOSE_CREATE_PROFILE_SECTION, H_create_profile_section),
      (EXPOSE_START_PROFILE_SECTION, H_start_profile_section),
      (EXPOSE_STOP_PROFILE_SECTION, H_stop_profile_section),
      (EXPOSE_DESTROY_PROFILE_SECTION, H_destroy_profile_section),
      (EXPOSE_PROFILE_EVENT, H_profile_event)]"

definition VariorumConnector_event_set :: EventSet where
  "VariorumConnector_event_set = event_set T_VariorumConnector
     [(S_begin_parallel_for, H_begin_parallel_for),
      (S_begin_parallel_reduce, H_begin_parallel_reduce),
      (S_begin_parallel_scan, H_begin_parallel_scan),
      (S_end_parallel_for, H_end_parallel_for),
      (S_end_parallel_reduce, H_end_parallel_reduce),
      (S_end_parallel_scan, H_end_parallel_scan)]"

definition VariorumConnector_exports :: "(Expose \<times> handler) list" where
  "VariorumConnector_exports =
     [(EXPOSE_INIT, H_init_library),
      (EXPOSE_BEGIN_PARALLEL_FOR, H_begin_parallel_for),
      (EXPOSE_END_PARALLEL_FOR, H_end_parallel_for),
      (EXPOSE_BEGIN_PARALLEL_SCAN, H_begin_parallel_scan),
      (EXPOSE_END_PARALLEL_SCAN, H_end_parallel_scan),
      (EXPOSE_BEGIN_PARALLEL_REDUCE, H_begin_parallel_reduce),
      (EXPOSE_END_PARALLEL_REDUCE, H_end_parallel_reduce)]"

definition VTuneConnector_event_set :: EventSet where
  "VTuneConnector_event_set = event_set T_VTuneConnector
     [(S_init, H_init_library),
      (S_finalize, H_finalize_library),
      (S_begin_parallel_for, H_begin_parallel_for),
      (S_begin_parallel_reduce, H_begin_parallel_reduce),
      (S_begin_parallel_scan, H_begin_parallel_scan),
      (S_end_parallel_for, H_end_parallel_for),
      (S_end_parallel_reduce, H_end_parallel_reduce),
      (S_end_parallel_scan, H_end_parallel_scan)]"

definition VTuneConnector_exports :: "(Expose \<times> handler) list" where
  "VTuneConnector_exports =
     [(EXPOSE_INIT, H_init_library),
      (EXPOSE_FINALIZE, H_finalize_library),
      (EXPOSE_BEGIN_PARALLEL_FOR, H_begin_parallel_for),
      (EXPOSE_END_PARALLEL_FOR, H_end_parallel_for),
      (EXPOSE_BEGIN_PARALLEL_SCAN, H_begin_parallel_scan),
      (EXPOSE_END_PARALLEL_SCAN, H_end_parallel_scan),
      (EXPOSE_BEGIN_PARALLEL_REDUCE, H_begin_parallel_reduce),
      (EXPOSE_END_PARALLEL_REDUCE, H_end_parallel_reduce)]"

definition VTuneFocusedConnector_event_set :: EventSet where
  "VTuneFocusedConnector_event_set = event_set T_VTuneFocusedConnector
     [(S_init, H_init_library),
      (S_finalize, H_finalize_library),
      (S_begin_parallel_for, H_begin_parallel_for),
      (S_begin_parallel_reduce, H_begin_parallel_reduce),
      (S_begin_parallel_scan, H_begin_parallel_scan),
      (S_end_parallel_for, H_end_parallel_for),
      (S_end_parallel_reduce, H_end_parallel_reduce),
      (S_end_parallel_scan, H_end_parallel_scan)]"

definition VTuneFocusedConnector_exports :: "(Expose \<times> handler) list" where
  "VTuneFocusedConnector_exports =
     [(EXPOSE_INIT, H_init_library),
      (EXPOSE_FINALIZE, H_finalize_library),
      (EXPOSE_BEGIN_PARALLEL_FOR, H_begin_parallel_for),
      (EXPOSE_END_PARALLEL_FOR, H_end_parallel_for),
      (EXPOSE_BEGIN_PARALLEL_SCAN, H_begin_parallel_scan),
      (EXPOSE_END_PARALLEL_SCAN, H_end_parallel_scan),
      (EXPOSE_BEGIN_PARALLEL_REDUCE, H_begin_parallel_reduce),
      (EXPOSE_END_PARALLEL_REDUCE, H_end_parallel_reduce)]"

definition NVTXConnector_event_set :: EventSet where
  "NVTXConnector_event_set = event_set T_NVTXConnector
     [(S_request_tool_settings, H_request_tool_settings),
      (S_init, H_init_library),
      (S_finalize, H_finalize_library),
      (S_push_region, H_push_profile_region),
      (S_pop_region, H_pop_profile_region),
      (S_begin_parallel_for, H_begin_parallel_for),
      (S_begin_parallel_reduce, H_begin_parallel_reduce),
      (S_begin_parallel_scan, H_begin_parallel_scan),
      (S_end_parallel_for, H_end_parallel_for),
      (S_end_parallel_reduce, H_end_parallel_reduce),
      (S_end_parallel_scan, H_end_parallel_scan),
      (S_create_profile_section, H_create_profile_section),
      (S_start_profile_section, H_start_profile_section),
      (S_stop_profile_section, H_stop_profile_section),
      (S_profile_event, H_profile_event),
      (S_begin_fence, H_begin_fence),
      (S_end_fence, H_end_fence)]"

definition NVTXConnector_exports :: "(Expose \<times> handler) list" where
  "NVTXConnector_exports =
     [(EXPOSE_TOOL_SETTINGS, H_request_tool_settings),
      (EXPOSE_INIT, H_init_library),
      (EXPOSE_FINALIZE, H_finalize_library),
      (EXPOSE_PUSH_REGION, H_push_profile_region),
      (EXPOSE_POP_REGION, H_pop_profile_region),
      (EXPOSE_BEGIN_PARALLEL_FOR, H_begin_parallel_for),
      (EXPOSE_END_PARALLEL_FOR, H_end_parallel_for),
      (EXPOSE_BEGIN_PARALLEL_SCAN, H_begin_parallel_scan),
      (EXPOSE_END_PARALLEL_SCAN, H_end_parallel_scan),
      (EXPOSE_BEGIN_PARALLEL_REDUCE, H_begin_parallel_reduce),
      (EXPOSE_END_PARALLEL_REDUCE, H_end_parallel_reduce),
      (EXPOSE_CREATE_PROFILE_SECTION, H_create_profile_section),
      (EXPOSE_START_PROFILE_SECTION, H_start_profile_section),
      (EXPOSE_STOP_PROFILE_SECTION, H_stop_profile_section),
      (EXPOSE_PROFILE_EVENT, H_profile_event),
      (EXPOSE_BEGIN_FENCE, H_begin_fence),
      (EXPOSE_END_FENCE, H_end_fence)]"

definition NVTXFocusedConnector_event_set :: EventSet where
  "NVTXFocusedConnector_event_set = event_set T_NVTXFocusedConnector
     [(S_request_tool_settings, H_request_tool_settings),
      (S_init, H_init_library),
      (S_finalize, H_finalize_library),
      (S_begin_parallel_for, H_begin_parallel_for),
      (S_begin_parallel_reduce, H_begin_parallel_reduce),
      (S_begin_parallel_scan, H_begin_parallel_scan),
      (S_end_parallel_for, H_end_parallel_for),
      (S_end_parallel_reduce, H_end_parallel_reduce),
      (S_end_parallel_scan, H_end_parallel_scan)]"

definition NVTXFocusedConnector_exports :: "(Expose \<times> handler) list" where
  "NVTXFocusedConnector_exports =
     [(EXPOSE_TOOL_SETTINGS, H_request_tool_settings),
      (EXPOSE_INIT, H_init_library),
      (EXPOSE_FINALIZE, H_finalize_library),
      (EXPOSE_BEGIN_PARALLEL_FOR, H_begin_parallel_for),
      (EXPOSE_END_PARALLEL_FOR, H_end_parallel_for),
      (EXPOSE_BEGIN_PARALLEL_SCAN, H_begin_parallel_scan),
      (EXPOSE_END_PARALLEL_SCAN, H_end_parallel_scan),
      (EXPOSE_BEGIN_PARALLEL_REDUCE, H_begin_parallel_reduce),
      (EXPOSE_END_PARALLEL_REDUCE, H_end_parallel_reduce)]"

definition ROCTXConnector_event_set :: EventSet where
  "ROCTXConnector_event_set = event_set T_ROCTXConnector
     [(S_request_tool_settings, H_request_tool_settings),
      (S_init, H_init_library),
      (S_finalize, H_finalize_library),
      (S_push_region, H_push_profile_region),
      (S_pop_region, H_pop_profile_region),
      (S_begin_parallel_for, H_begin_parallel_for),
      (S_begin_parallel_reduce, H_begin_parallel_reduce),
      (S_begin_parallel_scan, H_begin_parallel_scan),
      (S_end_parallel_for, H_end_parallel_for),
      (S_end_parallel_reduce, H_end_parallel_reduce),
      (S_end_parallel_scan, H_end_parallel_scan),
      (S_create_profile_section, H_create_profile_section),
      (S_start_profile_section, H_start_profile_section),
      (S_stop_profile_section, H_stop_profile_section),
      (S_destroy_profile_section, H_destroy_profile_section),
      (S_profile_event, H_profile_event),
      (S_begin_fence, H_begin_fence),
      (S_end_fence, H_end_fence)]"

definition ROCTXConnector_exports :: "(Expose \<times> handler) list" where
  "ROCTXConnector_exports =
     [(EXPOSE_TOOL_SETTINGS, H_request_tool_settings),
      (EXPOSE_INIT, H_init_library),
      (EXPOSE_FINALIZE, H_finalize_library),
      (EXPOSE_PUSH_REGION, H_push_profile_region),
      (EXPOSE_POP_REGION, H_pop_profile_region),
      (EXPOSE_BEGIN_PARALLEL_FOR, H_begin_parallel_for),
      (EXPOSE_END_PARALLEL_FOR, H_end_parallel_for),
      (EXPOSE_BEGIN_PARALLEL_SCAN, H_begin_parallel_scan),
      (EXPOSE_END_PARALLEL_SCAN, H_end_parallel_scan),
      (EXPOSE_BEGIN_PARALLEL_REDUCE, H_begin_parallel_reduce),
      (EXPOSE_END_PARALLEL_REDUCE, H_end_parallel_reduce),
      (EXPOSE_CREATE_PROFILE_SECTION, H_create_profile_section),
      (EXPOSE_START_PROFILE_SECTION, H_start_profile_section),
      (EXPOSE_STOP_PROFILE_SECTION, H_stop_profile_section),
      (EXPOSE_DESTROY_PROFILE_SECTION, H_destroy_profile_section),
      (EXPOSE_PROFILE_EVENT, H_profile_event),
      (EXPOSE_BEGIN_FENCE, H_begin_fence),
      (EXPOSE_END_FENCE, H_end_fence)]"

definition PerfettoConnector_exports :: "(Expose \<times> handler) list" where
  "PerfettoConnector_exports =
     [(EXPOSE_INIT, H_init_library),
      (EXPOSE_FINALIZE, H_finalize_library),
      (EXPOSE_PUSH_REGION, H_push_profile_region),
      (EXPOSE_POP_REGION, H_pop_profile_region),
      (EXPOSE_ALLOCATE, H_allocate_data),
      (EXPOSE_DEALLOCATE, H_deallocate_data),
      (EXPOSE_BEGIN_PARALLEL_FOR, H_begin_parallel_for),
      (EXPOSE_END_PARALLEL_FOR, H_end_parallel_for),
      (EXPOSE_BEGIN_PARALLEL_SCAN, H_begin_parallel_scan),
      (EXPOSE_END_PARALLEL_SCAN, H_end_parallel_scan),
      (EXPOSE_BEGIN_PARALLEL_REDUCE, H_begin_parallel_reduce),
      (EXPOSE_END_PARALLEL_REDUCE, H_end_parallel_reduce),
      (EXPOSE_BEGIN_DEEP_COPY, H_begin_deep_copy),
      (EXPOSE_END_DEEP_COPY, H_end_deep_copy),
      (EXPOSE_PROFILE_EVENT, H_profile_event),
      (EXPOSE_DUAL_VIEW_SYNC, H_dual_view_sync),
      (EXPOSE_DUAL_VIEW_MODIFY, H_dual_view_modify)]"

definition Sampler_exports :: "(Expose \<times> handler) list" where
  "Sampler_exports =
     [(EXPOSE_TOOL_SETTINGS, H_request_tool_settings),
      (EXPOSE_PROVIDE_TOOL_PROGRAMMING_INTERFACE, H_provide_tool_programming_interface),
      (EXPOSE_INIT, H_init_library),
      (EXPOSE_FINALIZE, H_finalize_library),
      (EXPOSE_BEGIN_PARALLEL_FOR, H_begin_parallel_for),
      (EXPOSE_END_PARALLEL_FOR, H_end_parallel_for),
      (EXPOSE_BEGIN_PARALLEL_SCAN, H_begin_parallel_scan),
      (EXPOSE_END_PARALLEL_SCAN, H_end_parallel_scan),
      (EXPOSE_BEGIN_PARALLEL_REDUCE, H_begin_parallel_reduce),
      (EXPOSE_END_PARALLEL_REDUCE, H_end_parallel_reduce)]"

section \<open>The dispatcher\<close>

text \<open>
  What the build was configured with; Caliper's table comes from that library
  (\<open>cali::get_kokkos_event_set\<close>), so it is a parameter.
\<close>

record build_config =
  cfg_win32 :: bool
  cfg_use_mpi :: bool
  cfg_systemtap :: bool
  cfg_variorum :: bool
  cfg_vtune :: bool
  cfg_caliper :: bool
  cfg_nvtx :: bool
  cfg_roctx :: bool

definition handlers :: "(string \<Rightarrow> EventSet) \<Rightarrow> build_config \<Rightarrow> string \<Rightarrow> (string \<times> EventSet) list" where
  "handlers cali cfg config_str =
     (if cfg_win32 cfg then [] else
        [(''kernel-timer'', KernelTimer_event_set),
         (''memory-events'', MemoryEvents_event_set),
         (''memory-usage'', MemoryUsage_event_set)]
        @ (if cfg_use_mpi cfg then [(''highwater-mark-mpi'', HighwaterMarkMPI_event_set)] else [])
        @ [(''highwater-mark'', HighwaterMark_event_set),
           (''chrome-tracing'', ChromeTracing_event_set),
           (''space-time-stack'', SpaceTimeStack_event_set)]
        @ (if cfg_systemtap cfg
           then [(''systemtap-connector'', SystemtapConnector_event_set)] else []))
     @ (if cfg_variorum cfg then [(''variorum'', VariorumConnector_event_set)] else [])
     @ (if cfg_vtune cfg
        then [(''vtune-connector'', VTuneConnector_event_set),
              (''vtune-focused-connector'', VTuneFocusedConnector_event_set)] else [])
     @ (if cfg_caliper cfg then [(''caliper'', cali config_str)] else [])
     @ (if cfg_nvtx cfg
        then [(''nvtx-connector'', NVTXConnector_event_set),
              (''nvtx-focused-connector'', NVTXFocusedConnector_event_set)] else [])
     @ (if cfg_roctx cfg then [(''roctx-connector'', ROCTXConnector_event_set)] else [])"

definition get_event_set ::
  "(string \<Rightarrow> EventSet) \<Rightarrow> build_config \<Rightarrow> string \<Rightarrow> string \<Rightarrow> EventSet outcome" where
  "get_event_set cali cfg profiler config_str =
     (case map_of (handlers cali cfg config_str) profiler of
        Some e \<Rightarrow> Inr e
      | None \<Rightarrow> if 0 < length profiler
          then Inl (Throw (''Profiler not supported: '' @ profiler @ '' (unknown tool)''))
          else Inr (\<lambda>_. None))"

lemmas event_set_defs = KernelTimer_event_set_def MemoryEvents_event_set_def
  MemoryUsage_event_set_def HighwaterMark_event_set_def HighwaterMarkMPI_event_set_def
  ChromeTracing_event_set_def SpaceTimeStack_event_set_def SystemtapConnector_event_set_def
  VariorumConnector_event_set_def VTuneConnector_event_set_def VTuneFocusedConnector_event_set_def
  NVTXConnector_event_set_def NVTXFocusedConnector_event_set_def ROCTXConnector_event_set_def

lemmas export_defs = KernelTimer_exports_def MemoryEvents_exports_def
  MemoryUsage_exports_def HighwaterMark_exports_def HighwaterMarkMPI_exports_def
  ChromeTracing_exports_def SpaceTimeStack_exports_def SystemtapConnector_exports_def
  VariorumConnector_exports_def VTuneConnector_exports_def VTuneFocusedConnector_exports_def
  NVTXConnector_exports_def NVTXFocusedConnector_exports_def ROCTXConnector_exports_def
  PerfettoConnector_exports_def Sampler_exports_def

text \<open>The two tables as functions of the slot, ready for a case split.\<close>

lemma exports_eqI:
  assumes "\<And>s. map_of es s = map_of (map (\<lambda>(m, f). (expose_slot m, f)) xs) s"
  shows "event_set ns es = exported ns xs"
  using assms by (simp add: event_set_def exported_def fun_eq_iff)

text \<open>
  A tool behaves the same whether it is loaded as its own library, where Kokkos looks up the
  exported symbols, or through the dispatcher, where Kokkos calls the function pointers of the
  table: for the kernel timer, memory events, memory usage, both high-water-mark tools, the
  space-time stack, and the NVTX, ROCTX and VTune connectors the two offer the same function for
  every callback.
\<close>

theorem tables_agree_with_exports:
  "KernelTimer_event_set = exported T_KernelTimer KernelTimer_exports
   \<and> MemoryEvents_event_set = exported T_MemoryEvents MemoryEvents_exports
   \<and> MemoryUsage_event_set = exported T_MemoryUsage MemoryUsage_exports
   \<and> HighwaterMark_event_set = exported T_HighwaterMark HighwaterMark_exports
   \<and> HighwaterMarkMPI_event_set = exported T_HighwaterMarkMPI HighwaterMarkMPI_exports
   \<and> SpaceTimeStack_event_set = exported T_SpaceTimeStack SpaceTimeStack_exports
   \<and> NVTXConnector_event_set = exported T_NVTXConnector NVTXConnector_exports
   \<and> NVTXFocusedConnector_event_set = exported T_NVTXFocusedConnector NVTXFocusedConnector_exports
   \<and> ROCTXConnector_event_set = exported T_ROCTXConnector ROCTXConnector_exports
   \<and> VTuneConnector_event_set = exported T_VTuneConnector VTuneConnector_exports
   \<and> VTuneFocusedConnector_event_set =
       exported T_VTuneFocusedConnector VTuneFocusedConnector_exports"
  unfolding event_set_defs
  by (intro conjI; rule exports_eqI; case_tac s; simp add: export_defs)

text \<open>
  The exceptions: loaded through the dispatcher, the Variorum connector never gets the
  \<open>init\<close> callback that creates its output file although its own library exports it, and the
  SystemTap connector built as its own library never gets the deep-copy callbacks its table has.
  No other slot of these two tools differs.
\<close>

theorem tables_disagree_with_exports:
  "(VariorumConnector_event_set s \<noteq> exported T_VariorumConnector VariorumConnector_exports s
      \<longleftrightarrow> s = S_init)
   \<and> (SystemtapConnector_event_set s \<noteq> exported T_SystemtapConnector SystemtapConnector_exports s
      \<longleftrightarrow> s = S_begin_deep_copy \<or> s = S_end_deep_copy)"
  by (cases s; simp add: event_set_defs export_defs event_set_def exported_def)

text \<open>The callbacks that open something, with the one that closes it.\<close>

definition bracket_slots :: "(slot \<times> slot) list" where
  "bracket_slots =
     [(S_begin_parallel_for, S_end_parallel_for), (S_begin_parallel_reduce, S_end_parallel_reduce),
      (S_begin_parallel_scan, S_end_parallel_scan), (S_push_region, S_pop_region),
      (S_allocate_data, S_deallocate_data), (S_begin_deep_copy, S_end_deep_copy),
      (S_start_profile_section, S_stop_profile_section), (S_begin_fence, S_end_fence)]"

definition brackets_paired :: "EventSet \<Rightarrow> bool" where
  "brackets_paired e = list_all (\<lambda>(b, f). (e b = None) = (e f = None)) bracket_slots"

definition all_exports :: "(tool_name \<times> (Expose \<times> handler) list) list" where
  "all_exports =
     [(T_KernelTimer, KernelTimer_exports), (T_MemoryEvents, MemoryEvents_exports),
      (T_MemoryUsage, MemoryUsage_exports), (T_HighwaterMark, HighwaterMark_exports),
      (T_HighwaterMarkMPI, HighwaterMarkMPI_exports), (T_ChromeTracing, ChromeTracing_exports),
      (T_SpaceTimeStack, SpaceTimeStack_exports),
      (T_SystemtapConnector, SystemtapConnector_exports),
      (T_VariorumConnector, VariorumConnector_exports), (T_VTuneConnector, VTuneConnector_exports),
      (T_VTuneFocusedConnector, VTuneFocusedConnector_exports),
      (T_NVTXConnector, NVTXConnector_exports),
      (T_NVTXFocusedConnector, NVTXFocusedConnector_exports),
      (T_ROCTXConnector, ROCTXConnector_exports), (T_PerfettoConnector, PerfettoConnector_exports),
      (T_Sampler, Sampler_exports)]"

lemma exports_paired: "list_all (\<lambda>(t, xs). brackets_paired (exported t xs)) all_exports"
  by (simp add: all_exports_def brackets_paired_def bracket_slots_def exported_def export_defs)

lemma tables_paired:
  "list_all (\<lambda>(n, e). brackets_paired e) (handlers (\<lambda>_ _. None) cfg c)"
  by (simp add: handlers_def brackets_paired_def bracket_slots_def event_set_def event_set_defs)

text \<open>
  No tool is told of an opening whose closing it misses: for every exported library and for
  every table the dispatcher can return (Caliper's being well paired), a begin, push, allocate or
  start callback is there exactly when the matching end, pop, deallocate or stop callback is.
\<close>

theorem brackets_always_paired:
  assumes cali: "\<And>c. brackets_paired (cali c)"
  shows "list_all (\<lambda>(t, xs). brackets_paired (exported t xs)) all_exports
    \<and> (get_event_set cali cfg profiler c = Inr e \<longrightarrow> brackets_paired e)"
proof -
  have "list_all (\<lambda>(n, e). brackets_paired e) (handlers cali cfg c)"
    using tables_paired [of cfg c] cali unfolding handlers_def by (simp split: if_splits)
  moreover have "brackets_paired (\<lambda>_. None)"
    by (simp add: brackets_paired_def bracket_slots_def)
  ultimately have "get_event_set cali cfg profiler c = Inr e \<longrightarrow> brackets_paired e"
    by (auto simp: get_event_set_def list_all_iff dest!: map_of_SomeD split: option.splits if_splits)
  with exports_paired show ?thesis by blast
qed

theorem brackets_always_paired_witness:
  "brackets_paired ChromeTracing_event_set"
proof -
  let ?cfg = "\<lparr>cfg_win32 = False, cfg_use_mpi = False, cfg_systemtap = False, cfg_variorum = False,
    cfg_vtune = False, cfg_caliper = True, cfg_nvtx = False, cfg_roctx = False\<rparr>"
  have cali: "brackets_paired ((\<lambda>_ _. None) c)" for c :: string
    by (simp add: brackets_paired_def bracket_slots_def)
  have "get_event_set (\<lambda>_ _. None) ?cfg ''chrome-tracing'' [] = Inr ChromeTracing_event_set"
    by (simp add: get_event_set_def handlers_def)
  with brackets_always_paired [where cali = "\<lambda>_ _. None", OF cali] show ?thesis by blast
qed

end
