(* ===== verification/C_Interface.thy ===== *)
theory C_Interface
  imports Event_Sets
begin

text \<open>
  The binary interface between Kokkos and a tool, \<open>profiling/all/impl/Kokkos_Profiling_C_Interface.h\<close>:
  the C types of the callbacks' parameters and of the structures that cross the boundary, with the
  layout the System V ABI for x86-64 gives them. Shown: the layout rules keep members apart and
  aligned, the static assertions of \<open>Kokkos_Profiling_Interface.hpp\<close> hold, reserved space can be
  turned into callbacks without moving the others; a table of the parameters of the functions tools
  export by hand is compared with the types of the pointers they are called through.
\<close>

section \<open>C types\<close>

text \<open>
  A scalar has its name and its size, which is its alignment too; a pointer has the name of what it
  points to.
\<close>

datatype ctype =
    Scalar string nat | Pointer string | Function_pointer | Array nat ctype
  | Struct members | Union members
and members = No_member | Member string ctype members

fun c_align :: "ctype \<Rightarrow> nat" and m_align :: "members \<Rightarrow> nat" where
  "c_align (Scalar n s) = s"
| "c_align (Pointer n) = 8"
| "c_align Function_pointer = 8"
| "c_align (Array k t) = c_align t"
| "c_align (Struct ms) = m_align ms"
| "c_align (Union ms) = m_align ms"
| "m_align No_member = 1"
| "m_align (Member n t ms) = max (c_align t) (m_align ms)"

definition round_up :: "nat \<Rightarrow> nat \<Rightarrow> nat" where
  "round_up n a = (n + a - 1) div a * a"

text \<open>The size of a type, and where the members of a structure end when they start at \<open>off\<close>.\<close>

fun c_size :: "ctype \<Rightarrow> nat" and m_end :: "members \<Rightarrow> nat \<Rightarrow> nat" and m_largest :: "members \<Rightarrow> nat" where
  "c_size (Scalar n s) = s"
| "c_size (Pointer n) = 8"
| "c_size Function_pointer = 8"
| "c_size (Array k t) = k * c_size t"
| "c_size (Struct ms) = round_up (m_end ms 0) (m_align ms)"
| "c_size (Union ms) = round_up (m_largest ms) (m_align ms)"
| "m_end No_member off = off"
| "m_end (Member n t ms) off = m_end ms (round_up off (c_align t) + c_size t)"
| "m_largest No_member = 0"
| "m_largest (Member n t ms) = max (c_size t) (m_largest ms)"

text \<open>The members of a structure with their offsets and sizes.\<close>

fun placed :: "members \<Rightarrow> nat \<Rightarrow> (string \<times> nat \<times> nat) list" where
  "placed No_member off = []"
| "placed (Member n t ms) off =
     (let o1 = round_up off (c_align t) in (n, o1, c_size t) # placed ms (o1 + c_size t))"

fun members_of :: "(string \<times> ctype) list \<Rightarrow> members" where
  "members_of [] = No_member"
| "members_of ((n, t) # ms) = Member n t (members_of ms)"

definition offset_of :: "ctype \<Rightarrow> string \<Rightarrow> nat option" where
  "offset_of t n = (case t of Struct ms \<Rightarrow> map_option fst (map_of (placed ms 0) n) | _ \<Rightarrow> None)"

section \<open>The layout rules\<close>

fun sound :: "ctype \<Rightarrow> bool" and m_sound :: "members \<Rightarrow> bool" where
  "sound (Scalar n s) = (0 < s)"
| "sound (Pointer n) = True"
| "sound Function_pointer = True"
| "sound (Array k t) = sound t"
| "sound (Struct ms) = m_sound ms"
| "sound (Union ms) = m_sound ms"
| "m_sound No_member = True"
| "m_sound (Member n t ms) = (sound t \<and> m_sound ms)"

lemma sound_align: "sound t \<Longrightarrow> 0 < c_align t" and "m_sound ms \<Longrightarrow> 0 < m_align ms"
  by (induction t and ms rule: sound_m_sound.induct) simp_all

lemma round_up_ge: "0 < a \<Longrightarrow> n \<le> round_up n a"
proof -
  assume "0 < a"
  have "n + a - 1 = (n + a - 1) div a * a + (n + a - 1) mod a" by simp
  moreover have "(n + a - 1) mod a \<le> a - 1" using \<open>0 < a\<close> by (simp add: Suc_leI less_eq_Suc_le [symmetric] flip: less_Suc_eq_le)
  ultimately show ?thesis using \<open>0 < a\<close> unfolding round_up_def by linarith
qed

lemma round_up_dvd: "a dvd round_up n a"
  by (simp add: round_up_def)

lemma round_up_same: "a dvd n \<Longrightarrow> 0 < a \<Longrightarrow> round_up n a = n"
proof -
  assume "a dvd n" "0 < a"
  then obtain k where k: "n = a * k" by auto
  have "(a * k + (a - 1)) div a = k" using \<open>0 < a\<close> by (subst div_mult_self4) simp_all
  moreover have "n + a - 1 = a * k + (a - 1)" using k \<open>0 < a\<close> by simp
  ultimately show ?thesis by (simp add: round_up_def k mult.commute)
qed

lemma m_end_ge: "m_sound ms \<Longrightarrow> off \<le> m_end ms off"
proof (induction ms off rule: placed.induct)
  case (2 n t ms off)
  have "off \<le> round_up off (c_align t)" using "2.prems" by (simp add: round_up_ge sound_align)
  also have "\<dots> \<le> m_end ms (round_up off (c_align t) + c_size t)"
    using "2.IH" [OF refl] "2.prems" by simp
  finally show ?case by simp
qed simp

text \<open>
  No member overlaps another or lies outside its structure, and each is at a multiple of its
  alignment, which divides the alignment of the structure for the scalars of this ABI.
\<close>

lemma placed_apart:
  "m_sound ms \<Longrightarrow> sorted_wrt (\<lambda>(n, o1, s1) (m, o2, s2). o1 + s1 \<le> o2) (placed ms off)
    \<and> (\<forall>(n, o1, s1) \<in> set (placed ms off). off \<le> o1 \<and> o1 + s1 \<le> m_end ms off)"
proof (induction ms off rule: placed.induct)
  case (2 n t ms off)
  let ?o = "round_up off (c_align t)"
  from "2.prems" have ms: "m_sound ms" and t: "off \<le> ?o" by (simp_all add: round_up_ge sound_align)
  from "2.IH" [OF refl ms] t m_end_ge [OF ms, of "?o + c_size t"] show ?case
    by (fastforce simp: Let_def)
qed simp

section \<open>The structures\<close>

abbreviation "c_char \<equiv> Scalar ''char'' 1"
abbreviation "c_bool \<equiv> Scalar ''bool'' 1"
abbreviation "c_int \<equiv> Scalar ''int'' 4"
abbreviation "c_enum n \<equiv> Scalar n 4"
abbreviation "uint32_t \<equiv> Scalar ''uint32_t'' 4"
abbreviation "uint64_t \<equiv> Scalar ''uint64_t'' 8"
abbreviation "int64_t \<equiv> Scalar ''int64_t'' 8"
abbreviation "size_t \<equiv> Scalar ''size_t'' 8"
abbreviation "c_double \<equiv> Scalar ''double'' 8"

definition KokkosPDeviceInfo_t :: ctype where
  "KokkosPDeviceInfo_t = Struct (members_of [(''deviceID'', size_t)])"

definition SpaceHandle_t :: ctype where
  "SpaceHandle_t = Struct (members_of [(''name'', Array 64 c_char)])"

definition ToolProgrammingInterface_t :: ctype where
  "ToolProgrammingInterface_t = Struct (members_of [(''fence'', Function_pointer), (''padding'', Array 31 Function_pointer)])"

definition ToolSettings_t :: ctype where
  "ToolSettings_t = Struct (members_of [(''requires_global_fencing'', c_bool), (''padding'', Array 255 c_bool)])"

text \<open>The types of the tuning callbacks.\<close>

definition Tuning_String_t :: ctype where
  "Tuning_String_t = Array 64 c_char"

definition ValueUnion_t :: ctype where
  "ValueUnion_t = Union (members_of
     [(''int_value'', int64_t), (''double_value'', c_double), (''string_value'', Tuning_String_t)])"

definition ValueUnionSet_t :: ctype where
  "ValueUnionSet_t = Union (members_of
     [(''int_value'', Pointer ''int64_t''), (''double_value'', Pointer ''double''),
      (''string_value'', Pointer ''Kokkos_Tools_Tuning_String'')])"

definition ValueSet_t :: ctype where
  "ValueSet_t = Struct (members_of [(''size'', size_t), (''values'', ValueUnionSet_t)])"

definition OptimizationGoal_t :: ctype where
  "OptimizationGoal_t = Struct (members_of
     [(''type_id'', size_t), (''goal'', c_enum ''Kokkos_Tools_OptimizationType'')])"

definition ValueRange_t :: ctype where
  "ValueRange_t = Struct (members_of
     [(''lower'', ValueUnion_t), (''upper'', ValueUnion_t), (''step'', ValueUnion_t),
      (''openLower'', c_bool), (''openUpper'', c_bool)])"

definition SetOrRange_t :: ctype where
  "SetOrRange_t = Union (members_of [(''set'', ValueSet_t), (''range'', ValueRange_t)])"

definition VariableInfo_t :: ctype where
  "VariableInfo_t = Struct (members_of
     [(''type'', c_enum ''Kokkos_Tools_VariableInfo_ValueType''),
      (''category'', c_enum ''Kokkos_Tools_VariableInfo_StatisticalCategory''),
      (''valueQuantity'', c_enum ''Kokkos_Tools_VariableInfo_CandidateValueType''),
      (''candidates'', SetOrRange_t), (''toolProvidedInfo'', Pointer ''void'')])"

definition VariableValue_t :: ctype where
  "VariableValue_t = Struct (members_of
     [(''type_id'', size_t), (''value'', ValueUnion_t), (''metadata'', Pointer ''Kokkos_Tools_VariableInfo'')])"

section \<open>The table of callbacks\<close>

fun slot_name :: "slot \<Rightarrow> string" where
  "slot_name S_init = ''init''"
| "slot_name S_finalize = ''finalize''"
| "slot_name S_parse_args = ''parse_args''"
| "slot_name S_print_help = ''print_help''"
| "slot_name S_begin_parallel_for = ''begin_parallel_for''"
| "slot_name S_end_parallel_for = ''end_parallel_for''"
| "slot_name S_begin_parallel_reduce = ''begin_parallel_reduce''"
| "slot_name S_end_parallel_reduce = ''end_parallel_reduce''"
| "slot_name S_begin_parallel_scan = ''begin_parallel_scan''"
| "slot_name S_end_parallel_scan = ''end_parallel_scan''"
| "slot_name S_push_region = ''push_region''"
| "slot_name S_pop_region = ''pop_region''"
| "slot_name S_allocate_data = ''allocate_data''"
| "slot_name S_deallocate_data = ''deallocate_data''"
| "slot_name S_create_profile_section = ''create_profile_section''"
| "slot_name S_start_profile_section = ''start_profile_section''"
| "slot_name S_stop_profile_section = ''stop_profile_section''"
| "slot_name S_destroy_profile_section = ''destroy_profile_section''"
| "slot_name S_profile_event = ''profile_event''"
| "slot_name S_begin_deep_copy = ''begin_deep_copy''"
| "slot_name S_end_deep_copy = ''end_deep_copy''"
| "slot_name S_begin_fence = ''begin_fence''"
| "slot_name S_end_fence = ''end_fence''"
| "slot_name S_sync_dual_view = ''sync_dual_view''"
| "slot_name S_modify_dual_view = ''modify_dual_view''"
| "slot_name S_declare_metadata = ''declare_metadata''"
| "slot_name S_provide_tool_programming_interface = ''provide_tool_programming_interface''"
| "slot_name S_request_tool_settings = ''request_tool_settings''"
| "slot_name S_declare_output_type = ''declare_output_type''"
| "slot_name S_declare_input_type = ''declare_input_type''"
| "slot_name S_request_output_values = ''request_output_values''"
| "slot_name S_begin_tuning_context = ''begin_tuning_context''"
| "slot_name S_end_tuning_context = ''end_tuning_context''"
| "slot_name S_declare_optimization_goal = ''declare_optimization_goal''"

definition profiling_slots :: "slot list" where
  "profiling_slots =
     [S_init, S_finalize, S_parse_args, S_print_help, S_begin_parallel_for, S_end_parallel_for,
      S_begin_parallel_reduce, S_end_parallel_reduce, S_begin_parallel_scan, S_end_parallel_scan,
      S_push_region, S_pop_region, S_allocate_data, S_deallocate_data, S_create_profile_section,
      S_start_profile_section, S_stop_profile_section, S_destroy_profile_section, S_profile_event,
      S_begin_deep_copy, S_end_deep_copy, S_begin_fence, S_end_fence, S_sync_dual_view, S_modify_dual_view,
      S_declare_metadata, S_provide_tool_programming_interface, S_request_tool_settings]"

definition tuning_slots :: "slot list" where
  "tuning_slots =
     [S_declare_output_type, S_declare_input_type, S_request_output_values, S_begin_tuning_context,
      S_end_tuning_context, S_declare_optimization_goal]"

text \<open>
  The table with further profiling callbacks \<open>xs\<close> in front of the profiling padding and further
  callbacks \<open>ys\<close> in front of the final one, each padding shortened by what they take; the code's own
  table has none.
\<close>

fun pointers :: "string list \<Rightarrow> (string \<times> ctype) list" where
  "pointers [] = []"
| "pointers (n # ns) = (n, Function_pointer) # pointers ns"

definition event_set_with :: "string list \<Rightarrow> string list \<Rightarrow> ctype" where
  "event_set_with xs ys = Struct (members_of
     (pointers (map slot_name profiling_slots) @ pointers xs
      @ (''profiling_padding'', Array ((9 - length xs) * c_size Function_pointer) c_char)
      # pointers (map slot_name tuning_slots) @ pointers ys
      @ [(''padding'', Array ((232 - length ys) * c_size Function_pointer) c_char)]))"

definition EventSet_t :: ctype where
  "EventSet_t = event_set_with [] []"

fun pointer_row :: "string list \<Rightarrow> nat \<Rightarrow> (string \<times> nat \<times> nat) list" where
  "pointer_row [] off = []"
| "pointer_row (n # ns) off = (n, off, 8) # pointer_row ns (off + 8)"

lemma placed_pointers:
  "8 dvd off \<Longrightarrow> placed (members_of (pointers ns @ ms)) off
     = pointer_row ns off @ placed (members_of ms) (off + 8 * length ns)"
  by (induction ns arbitrary: off) (simp_all add: Let_def round_up_same add.assoc)

lemma m_end_pointers:
  "8 dvd off \<Longrightarrow> m_end (members_of (pointers ns @ ms)) off = m_end (members_of ms) (off + 8 * length ns)"
  by (induction ns arbitrary: off) (simp_all add: round_up_same add.assoc)

lemma m_align_pointers:
  "max 8 (m_align (members_of (pointers ns @ ms))) = max 8 (m_align (members_of ms))"
  by (induction ns) (auto simp: max.assoc [symmetric])

lemma m_align_slots:
  "m_align (members_of (pointers (map slot_name profiling_slots) @ ms)) = max 8 (m_align (members_of ms))"
  using m_align_pointers [of "map slot_name (tl profiling_slots)" ms] by (simp add: profiling_slots_def)

lemma fst_pointer_row [simp]: "fst ` set (pointer_row ns off) = set ns"
  by (induction ns arbitrary: off) auto

lemma map_of_pointer_row_None [simp]: "n \<notin> set ns \<Longrightarrow> map_of (pointer_row ns off) n = None"
  by (induction ns arbitrary: off) auto

lemma length_slots [simp]: "length profiling_slots = 28" "length tuning_slots = 6"
  by (simp_all add: profiling_slots_def tuning_slots_def)

lemma slots_complete: "s \<in> set profiling_slots \<or> s \<in> set tuning_slots"
  by (cases s) (simp_all add: profiling_slots_def tuning_slots_def)

lemma slot_names_distinct:
  "distinct (map slot_name (profiling_slots @ tuning_slots) @ [''profiling_padding'', ''padding''])"
  by code_simp

lemma event_set_placed:
  assumes "length xs \<le> 9" and "length ys \<le> 232"
  shows "\<exists>ms. event_set_with xs ys = Struct ms \<and> c_size (event_set_with xs ys) = 2200
    \<and> placed ms 0 = pointer_row (map slot_name profiling_slots) 0 @ pointer_row xs 224
      @ (''profiling_padding'', 224 + 8 * length xs, 72 - 8 * length xs)
      # pointer_row (map slot_name tuning_slots) 296 @ pointer_row ys 344
      @ [(''padding'', 344 + 8 * length ys, 1856 - 8 * length ys)]"
proof -
  let ?last = "[(''padding'', Array ((232 - length ys) * 8) c_char)]"
  let ?tune = "pointers (map slot_name tuning_slots) @ pointers ys @ ?last"
  let ?rest = "pointers xs @ (''profiling_padding'', Array ((9 - length xs) * 8) c_char) # ?tune"
  have "m_align (members_of (pointers (map slot_name profiling_slots) @ ?rest)) = 8"
    using m_align_pointers [of xs "(''profiling_padding'', Array ((9 - length xs) * 8) c_char) # ?tune"]
      m_align_pointers [of "map slot_name tuning_slots" "pointers ys @ ?last"] m_align_pointers [of ys ?last]
    by (simp add: m_align_slots max.left_commute max.assoc [symmetric])
  moreover have len: "224 + 8 * length xs + (9 - length xs) * 8 = 296" "344 + 8 * length ys + (232 - length ys) * 8 = 2200"
    "(9 - length xs) * 8 = 72 - 8 * length xs" "(232 - length ys) * 8 = 1856 - 8 * length ys"
    using assms by simp_all
  ultimately show ?thesis
    by (simp add: event_set_with_def placed_pointers m_end_pointers round_up_same round_up_def [of 2200] Let_def)
qed

text \<open>The word of the table a callback is in, counted in function pointers.\<close>

fun position :: "'a \<Rightarrow> 'a list \<Rightarrow> nat" where
  "position x [] = 0"
| "position x (y # ys) = (if x = y then 0 else Suc (position x ys))"

definition slot_word :: "slot \<Rightarrow> nat" where
  "slot_word s = (if s \<in> set profiling_slots then position s profiling_slots else 37 + position s tuning_slots)"

lemma position_less: "x \<in> set xs \<Longrightarrow> position x xs < length xs"
  by (induction xs) auto

lemma position_inj: "x \<in> set xs \<Longrightarrow> y \<in> set xs \<Longrightarrow> position x xs = position y xs \<longleftrightarrow> x = y"
  by (induction xs) auto

lemma slot_word_less: "slot_word s < 275"
  using position_less [of s profiling_slots] position_less [of s tuning_slots] slots_complete [of s]
  by (auto simp: slot_word_def)

lemma inj_slot_word: "inj slot_word"
proof (rule injI)
  fix s t assume eq: "slot_word s = slot_word t"
  have "position s profiling_slots < 28" if "s \<in> set profiling_slots" for s
    using position_less [OF that] by simp
  with eq show "s = t"
    using slots_complete [of s] slots_complete [of t] position_inj [of s profiling_slots t] position_inj [of s tuning_slots t]
    by (fastforce simp: slot_word_def split: if_splits)
qed

lemma map_of_pointer_row:
  "distinct ns \<Longrightarrow> n \<in> set ns \<Longrightarrow> map_of (pointer_row ns off) n = Some (off + 8 * position n ns, 8)"
  by (induction ns arbitrary: off) auto

lemma position_map: "inj_on f (set xs) \<Longrightarrow> x \<in> set xs \<Longrightarrow> position (f x) (map f xs) = position x xs"
  by (induction xs) (auto simp: inj_on_def)

lemma slot_row:
  assumes "distinct (map slot_name ss)" and "s \<in> set ss"
  shows "map_of (pointer_row (map slot_name ss) off) (slot_name s) = Some (off + 8 * position s ss, 8)"
  using map_of_pointer_row [OF assms(1), of "slot_name s" off] assms position_map [of slot_name ss s]
  by (simp add: distinct_map)

text \<open>The static assertions of \<open>Kokkos_Profiling_Interface.hpp\<close>, for a table of type \<open>es\<close>.\<close>

definition static_assertions :: "ctype \<Rightarrow> bool" where
  "static_assertions es =
     (c_size es div c_size Function_pointer = 275
      \<and> c_size ToolSettings_t div c_size c_bool = 256
      \<and> c_size ToolProgrammingInterface_t div c_size Function_pointer = 32)"

lemma static_assertions_iff: "static_assertions es = (c_size es div 8 = 275)"
proof -
  have "c_size ToolSettings_t div c_size c_bool = 256" "c_size ToolProgrammingInterface_t div c_size Function_pointer = 32"
    by code_simp+
  then show ?thesis by (simp add: static_assertions_def)
qed

text \<open>
  C32. The table of callbacks has a fixed layout. With up to 9 further profiling callbacks and up to 232
  other ones in place of padding, the size of the table is still that of 275 pointers and the static
  assertions hold, and each callback that is there now is in the word it is in today, no two in
  the same.
\<close>

theorem event_set_layout:
  assumes "length xs \<le> 9" and "length ys \<le> 232" and "set (xs @ ys) \<inter> range slot_name = {}"
  shows "static_assertions (event_set_with xs ys)
    \<and> (\<forall>s. offset_of (event_set_with xs ys) (slot_name s) = Some (c_size Function_pointer * slot_word s)
        \<and> slot_word s < 275)
    \<and> inj slot_word"
proof -
  from event_set_placed [OF assms(1,2)] obtain ms where ms: "event_set_with xs ys = Struct ms"
    "c_size (event_set_with xs ys) = 2200"
    "placed ms 0 = pointer_row (map slot_name profiling_slots) 0 @ pointer_row xs 224
      @ (''profiling_padding'', 224 + 8 * length xs, 72 - 8 * length xs)
      # pointer_row (map slot_name tuning_slots) 296 @ pointer_row ys 344
      @ [(''padding'', 344 + 8 * length ys, 1856 - 8 * length ys)]" by blast
  have d: "distinct (map slot_name profiling_slots)" "distinct (map slot_name tuning_slots)"
    "slot_name ` set profiling_slots \<inter> slot_name ` set tuning_slots = {}"
    "''profiling_padding'' \<notin> slot_name ` set tuning_slots"
    using slot_names_distinct by (simp_all only: map_append distinct_append set_append set_map) auto
  have "offset_of (event_set_with xs ys) (slot_name s) = Some (8 * slot_word s)" for s
  proof -
    have xs: "slot_name s \<notin> set xs" "slot_name s \<notin> set ys" using assms(3) by auto
    show ?thesis
    proof (cases "s \<in> set profiling_slots")
      case True
      with slot_row [OF d(1) True, of 0] show ?thesis
        by (simp add: offset_of_def ms map_add_def slot_word_def)
    next
      case False
      then have t: "s \<in> set tuning_slots" using slots_complete [of s] by blast
      have row: "slot_name s \<in> slot_name ` set tuning_slots" using t by (rule imageI)
      then have "slot_name s \<notin> slot_name ` set profiling_slots" using d(3) by blast
      moreover have "slot_name s \<noteq> ''profiling_padding''"
      proof
        assume "slot_name s = ''profiling_padding''"
        with row d(4) show False by simp
      qed
      ultimately have "slot_name s \<notin> slot_name ` set profiling_slots" "slot_name s \<noteq> ''profiling_padding''"
        by blast+
      with slot_row [OF d(2) t, of 296] xs False show ?thesis
        by (simp add: offset_of_def ms map_add_def slot_word_def)
    qed
  qed
  with ms(2) slot_word_less inj_slot_word show ?thesis by (simp add: static_assertions_iff)
qed

theorem event_set_layout_witness:
  "offset_of EventSet_t ''declare_output_type'' = Some 296
    \<and> offset_of (event_set_with [''begin_graph''] []) ''declare_output_type'' = Some 296"
proof -
  have w: "slot_word S_declare_output_type = 37" by (simp add: slot_word_def profiling_slots_def tuning_slots_def)
  have "slot_name s \<noteq> ''begin_graph''" for s by (cases s) simp_all
  then have new: "set ([''begin_graph''] @ []) \<inter> range slot_name = {}" by (auto simp: image_iff dest: sym)
  from event_set_layout [OF _ _ new]
  have "\<forall>s. offset_of (event_set_with [''begin_graph''] []) (slot_name s) = Some (8 * slot_word s)" by simp
  from spec [OF this, of S_declare_output_type]
  have "offset_of (event_set_with [''begin_graph''] []) ''declare_output_type'' = Some 296" by (simp add: w)
  moreover from event_set_layout [of "[]" "[]"]
  have "\<forall>s. offset_of (event_set_with [] []) (slot_name s) = Some (8 * slot_word s)" by simp
  from spec [OF this, of S_declare_output_type]
  have "offset_of (event_set_with [] []) ''declare_output_type'' = Some 296" by (simp add: w)
  ultimately show ?thesis by (simp add: EventSet_t_def)
qed

text \<open>The sizes of the other structures.\<close>

lemma structure_sizes:
  "c_size KokkosPDeviceInfo_t = 8" "c_size SpaceHandle_t = 64" "c_size OptimizationGoal_t = 16"
  "c_size ValueSet_t = 16" "c_size ValueRange_t = 200" "c_size VariableInfo_t = 224" "c_size VariableValue_t = 80"
  by code_simp+

section \<open>Parameters\<close>

text \<open>The parameter types of the callbacks, without qualifiers.\<close>

type_synonym params = "ctype list"

definition initFunction :: params where
  "initFunction = [c_int, uint64_t, uint32_t, Pointer ''Kokkos_Profiling_KokkosPDeviceInfo'']"

definition finalizeFunction :: params where "finalizeFunction = []"
definition parseArgsFunction :: params where "parseArgsFunction = [c_int, Pointer ''char *'']"
definition printHelpFunction :: params where "printHelpFunction = [Pointer ''char'']"
definition beginFunction :: params where "beginFunction = [Pointer ''char'', uint32_t, Pointer ''uint64_t'']"
definition endFunction :: params where "endFunction = [uint64_t]"
definition pushFunction :: params where "pushFunction = [Pointer ''char'']"
definition popFunction :: params where "popFunction = []"
definition allocateDataFunction :: params where "allocateDataFunction = [SpaceHandle_t, Pointer ''char'', Pointer ''void'', uint64_t]"
definition deallocateDataFunction :: params where "deallocateDataFunction = [SpaceHandle_t, Pointer ''char'', Pointer ''void'', uint64_t]"
definition createProfileSectionFunction :: params where "createProfileSectionFunction = [Pointer ''char'', Pointer ''uint32_t'']"
definition startProfileSectionFunction :: params where "startProfileSectionFunction = [uint32_t]"
definition stopProfileSectionFunction :: params where "stopProfileSectionFunction = [uint32_t]"
definition destroyProfileSectionFunction :: params where "destroyProfileSectionFunction = [uint32_t]"
definition profileEventFunction :: params where "profileEventFunction = [Pointer ''char'']"
definition beginDeepCopyFunction :: params where
  "beginDeepCopyFunction = [SpaceHandle_t, Pointer ''char'', Pointer ''void'', SpaceHandle_t, Pointer ''char'', Pointer ''void'', uint64_t]"

definition endDeepCopyFunction :: params where "endDeepCopyFunction = []"
definition beginFenceFunction :: params where "beginFenceFunction = [Pointer ''char'', uint32_t, Pointer ''uint64_t'']"
definition endFenceFunction :: params where "endFenceFunction = [uint64_t]"
definition dualViewSyncFunction :: params where "dualViewSyncFunction = [Pointer ''char'', Pointer ''void'', c_bool]"
definition dualViewModifyFunction :: params where "dualViewModifyFunction = [Pointer ''char'', Pointer ''void'', c_bool]"
definition declareMetadataFunction :: params where "declareMetadataFunction = [Pointer ''char'', Pointer ''char'']"
definition provideToolProgrammingInterfaceFunction :: params where "provideToolProgrammingInterfaceFunction = [uint32_t, ToolProgrammingInterface_t]"
definition requestToolSettingsFunction :: params where "requestToolSettingsFunction = [uint32_t, Pointer ''Kokkos_Tools_ToolSettings'']"
definition outputTypeDeclarationFunction :: params where
  "outputTypeDeclarationFunction = [Pointer ''char'', size_t, Pointer ''Kokkos_Tools_VariableInfo'']"

definition inputTypeDeclarationFunction :: params where
  "inputTypeDeclarationFunction = [Pointer ''char'', size_t, Pointer ''Kokkos_Tools_VariableInfo'']"

definition requestValueFunction :: params where
  "requestValueFunction = [size_t, size_t, Pointer ''Kokkos_Tools_VariableValue'', size_t, Pointer ''Kokkos_Tools_VariableValue'']"

definition contextBeginFunction :: params where "contextBeginFunction = [size_t]"
definition contextEndFunction :: params where "contextEndFunction = [size_t, VariableValue_t]"
definition optimizationGoalDeclarationFunction :: params where "optimizationGoalDeclarationFunction = [size_t, OptimizationGoal_t]"

lemmas function_types = initFunction_def finalizeFunction_def parseArgsFunction_def printHelpFunction_def beginFunction_def
  endFunction_def pushFunction_def popFunction_def allocateDataFunction_def
  deallocateDataFunction_def createProfileSectionFunction_def startProfileSectionFunction_def
  stopProfileSectionFunction_def destroyProfileSectionFunction_def profileEventFunction_def
  beginDeepCopyFunction_def endDeepCopyFunction_def beginFenceFunction_def endFenceFunction_def
  dualViewSyncFunction_def dualViewModifyFunction_def declareMetadataFunction_def
  provideToolProgrammingInterfaceFunction_def requestToolSettingsFunction_def
  outputTypeDeclarationFunction_def inputTypeDeclarationFunction_def requestValueFunction_def
  contextBeginFunction_def contextEndFunction_def optimizationGoalDeclarationFunction_def

text \<open>The type of each member of the table.\<close>

fun slot_params :: "slot \<Rightarrow> params" where
  "slot_params S_init = initFunction"
| "slot_params S_finalize = finalizeFunction"
| "slot_params S_parse_args = parseArgsFunction"
| "slot_params S_print_help = printHelpFunction"
| "slot_params S_begin_parallel_for = beginFunction"
| "slot_params S_end_parallel_for = endFunction"
| "slot_params S_begin_parallel_reduce = beginFunction"
| "slot_params S_end_parallel_reduce = endFunction"
| "slot_params S_begin_parallel_scan = beginFunction"
| "slot_params S_end_parallel_scan = endFunction"
| "slot_params S_push_region = pushFunction"
| "slot_params S_pop_region = popFunction"
| "slot_params S_allocate_data = allocateDataFunction"
| "slot_params S_deallocate_data = deallocateDataFunction"
| "slot_params S_create_profile_section = createProfileSectionFunction"
| "slot_params S_start_profile_section = startProfileSectionFunction"
| "slot_params S_stop_profile_section = stopProfileSectionFunction"
| "slot_params S_destroy_profile_section = destroyProfileSectionFunction"
| "slot_params S_profile_event = profileEventFunction"
| "slot_params S_begin_deep_copy = beginDeepCopyFunction"
| "slot_params S_end_deep_copy = endDeepCopyFunction"
| "slot_params S_begin_fence = beginFenceFunction"
| "slot_params S_end_fence = endFenceFunction"
| "slot_params S_sync_dual_view = dualViewSyncFunction"
| "slot_params S_modify_dual_view = dualViewModifyFunction"
| "slot_params S_declare_metadata = declareMetadataFunction"
| "slot_params S_provide_tool_programming_interface = provideToolProgrammingInterfaceFunction"
| "slot_params S_request_tool_settings = requestToolSettingsFunction"
| "slot_params S_declare_output_type = outputTypeDeclarationFunction"
| "slot_params S_declare_input_type = inputTypeDeclarationFunction"
| "slot_params S_request_output_values = requestValueFunction"
| "slot_params S_begin_tuning_context = contextBeginFunction"
| "slot_params S_end_tuning_context = contextEndFunction"
| "slot_params S_declare_optimization_goal = optimizationGoalDeclarationFunction"

text \<open>The parameters of the function each \<open>EXPOSE_\<close> macro defines; \<open>EXPOSE_NOARGFUNCTION\<close> has none.\<close>

fun expose_params :: "Expose \<Rightarrow> params" where
  "expose_params EXPOSE_PROVIDE_TOOL_PROGRAMMING_INTERFACE = [uint32_t, ToolProgrammingInterface_t]"
| "expose_params EXPOSE_TOOL_SETTINGS = [uint32_t, Pointer ''Kokkos_Tools_ToolSettings'']"
| "expose_params EXPOSE_INIT =
     [c_int, uint64_t, uint32_t, Pointer ''Kokkos_Profiling_KokkosPDeviceInfo'']"
| "expose_params EXPOSE_FINALIZE = []"
| "expose_params EXPOSE_ALLOCATE = [SpaceHandle_t, Pointer ''char'', Pointer ''void'', uint64_t]"
| "expose_params EXPOSE_DEALLOCATE = [SpaceHandle_t, Pointer ''char'', Pointer ''void'', uint64_t]"
| "expose_params EXPOSE_PUSH_REGION = [Pointer ''char'']"
| "expose_params EXPOSE_POP_REGION = []"
| "expose_params EXPOSE_BEGIN_PARALLEL_FOR = [Pointer ''char'', uint32_t, Pointer ''uint64_t'']"
| "expose_params EXPOSE_END_PARALLEL_FOR = [uint64_t]"
| "expose_params EXPOSE_BEGIN_PARALLEL_SCAN = [Pointer ''char'', uint32_t, Pointer ''uint64_t'']"
| "expose_params EXPOSE_END_PARALLEL_SCAN = [uint64_t]"
| "expose_params EXPOSE_BEGIN_PARALLEL_REDUCE = [Pointer ''char'', uint32_t, Pointer ''uint64_t'']"
| "expose_params EXPOSE_END_PARALLEL_REDUCE = [uint64_t]"
| "expose_params EXPOSE_BEGIN_DEEP_COPY =
     [SpaceHandle_t, Pointer ''char'', Pointer ''void'', SpaceHandle_t, Pointer ''char'', Pointer ''void'', uint64_t]"
| "expose_params EXPOSE_END_DEEP_COPY = []"
| "expose_params EXPOSE_CREATE_PROFILE_SECTION = [Pointer ''char'', Pointer ''uint32_t'']"
| "expose_params EXPOSE_START_PROFILE_SECTION = [uint32_t]"
| "expose_params EXPOSE_STOP_PROFILE_SECTION = [uint32_t]"
| "expose_params EXPOSE_DESTROY_PROFILE_SECTION = [uint32_t]"
| "expose_params EXPOSE_PROFILE_EVENT = [Pointer ''char'']"
| "expose_params EXPOSE_BEGIN_FENCE = [Pointer ''char'', uint32_t, Pointer ''uint64_t'']"
| "expose_params EXPOSE_END_FENCE = [uint64_t]"
| "expose_params EXPOSE_DUAL_VIEW_SYNC = [Pointer ''char'', Pointer ''void'', c_bool]"
| "expose_params EXPOSE_DUAL_VIEW_MODIFY = [Pointer ''char'', Pointer ''void'', c_bool]"

text \<open>
  The functions of the libraries that do without the macros (the PAPI connector, the kernel logger and
  the kernel filter), with the parameters they are declared with: the compiler does not compare
  these with the table. The first two declare a \<open>SpaceHandle\<close> of their own, which has the same layout.
\<close>

definition papi_SpaceHandle_t :: ctype where
  "papi_SpaceHandle_t = Struct (members_of [(''name'', Array 64 c_char)])"

definition papi_params :: "(handler \<times> params) list" where
  "papi_params =
     [(H_init_library, [c_int, uint64_t, uint32_t, Pointer ''void'']),
      (H_finalize_library, []),
      (H_begin_parallel_for, [Pointer ''char'', uint32_t, Pointer ''uint64_t'']),
      (H_end_parallel_for, [uint64_t]),
      (H_begin_parallel_reduce, [Pointer ''char'', uint32_t, Pointer ''uint64_t'']),
      (H_end_parallel_reduce, [uint64_t]),
      (H_begin_parallel_scan, [Pointer ''char'', uint32_t, Pointer ''uint64_t'']),
      (H_end_parallel_scan, [uint64_t]),
      (H_push_profile_region, [Pointer ''char'']),
      (H_profile_event, [Pointer ''char'']),
      (H_pop_profile_region, []),
      (H_begin_deep_copy, [papi_SpaceHandle_t, Pointer ''char'', Pointer ''void'', papi_SpaceHandle_t, Pointer ''char'', Pointer ''void'', uint64_t]),
      (H_end_deep_copy, []),
      (H_create_profile_section, [Pointer ''char'', Pointer ''uint32_t'']),
      (H_destroy_profile_section, [uint32_t]),
      (H_start_profile_section, [uint32_t]),
      (H_stop_profile_section, [uint32_t])]"

definition logger_SpaceHandle_t :: ctype where
  "logger_SpaceHandle_t = Struct (members_of [(''name'', Array 64 c_char)])"

definition logger_params :: "(handler \<times> params) list" where
  "logger_params =
     [(H_init_library, [c_int, uint64_t, uint32_t, Pointer ''void'']),
      (H_finalize_library, []),
      (H_begin_parallel_for, [Pointer ''char'', uint32_t, Pointer ''uint64_t'']),
      (H_end_parallel_for, [uint64_t]),
      (H_begin_parallel_scan, [Pointer ''char'', uint32_t, Pointer ''uint64_t'']),
      (H_end_parallel_scan, [uint64_t]),
      (H_begin_parallel_reduce, [Pointer ''char'', uint32_t, Pointer ''uint64_t'']),
      (H_end_parallel_reduce, [uint64_t]),
      (H_begin_fence, [Pointer ''char'', uint32_t, Pointer ''uint64_t'']),
      (H_end_fence, [uint64_t]),
      (H_push_profile_region, [Pointer ''char'']),
      (H_pop_profile_region, []),
      (H_allocate_data, [logger_SpaceHandle_t, Pointer ''char'', Pointer ''void'', uint64_t]),
      (H_deallocate_data, [logger_SpaceHandle_t, Pointer ''char'', Pointer ''void'', uint64_t]),
      (H_begin_deep_copy, [logger_SpaceHandle_t, Pointer ''char'', Pointer ''void'', logger_SpaceHandle_t, Pointer ''char'', Pointer ''void'', uint64_t])]"

definition filter_params :: "(handler \<times> params) list" where
  "filter_params =
     [(H_init_library, [c_int, uint64_t, uint32_t, Pointer ''void'']),
      (H_finalize_library, []),
      (H_begin_parallel_for, [Pointer ''char'', uint32_t, Pointer ''uint64_t'']),
      (H_end_parallel_for, [uint64_t]),
      (H_begin_parallel_scan, [Pointer ''char'', uint32_t, Pointer ''uint64_t'']),
      (H_end_parallel_scan, [uint64_t]),
      (H_begin_parallel_reduce, [Pointer ''char'', uint32_t, Pointer ''uint64_t'']),
      (H_end_parallel_reduce, [uint64_t])]"

text \<open>
  The types the sampler and the kernel filter give to the function pointers they find in their child
  with \<open>dlsym\<close>, by the symbol they look up.
\<close>

definition callee_params :: "(handler \<times> params) list" where
  "callee_params =
     [(H_begin_parallel_for, [Pointer ''char'', uint32_t, Pointer ''uint64_t'']),
      (H_begin_parallel_scan, [Pointer ''char'', uint32_t, Pointer ''uint64_t'']),
      (H_begin_parallel_reduce, [Pointer ''char'', uint32_t, Pointer ''uint64_t'']),
      (H_end_parallel_for, [uint64_t]),
      (H_end_parallel_scan, [uint64_t]),
      (H_end_parallel_reduce, [uint64_t]),
      (H_init_library, [c_int, uint64_t, uint32_t, Pointer ''void'']),
      (H_finalize_library, [])]"

text \<open>The slot whose callback a symbol stands for.\<close>

fun handler_slot :: "handler \<Rightarrow> slot" where
  "handler_slot H_allocate_data = S_allocate_data"
| "handler_slot H_begin_deep_copy = S_begin_deep_copy"
| "handler_slot H_begin_fence = S_begin_fence"
| "handler_slot H_begin_parallel_for = S_begin_parallel_for"
| "handler_slot H_begin_parallel_reduce = S_begin_parallel_reduce"
| "handler_slot H_begin_parallel_scan = S_begin_parallel_scan"
| "handler_slot H_create_profile_section = S_create_profile_section"
| "handler_slot H_deallocate_data = S_deallocate_data"
| "handler_slot H_destroy_profile_section = S_destroy_profile_section"
| "handler_slot H_dual_view_modify = S_modify_dual_view"
| "handler_slot H_dual_view_sync = S_sync_dual_view"
| "handler_slot H_end_deep_copy = S_end_deep_copy"
| "handler_slot H_end_fence = S_end_fence"
| "handler_slot H_end_parallel_for = S_end_parallel_for"
| "handler_slot H_end_parallel_reduce = S_end_parallel_reduce"
| "handler_slot H_end_parallel_scan = S_end_parallel_scan"
| "handler_slot H_finalize_library = S_finalize"
| "handler_slot H_init_library = S_init"
| "handler_slot H_pop_profile_region = S_pop_region"
| "handler_slot H_profile_event = S_profile_event"
| "handler_slot H_provide_tool_programming_interface = S_provide_tool_programming_interface"
| "handler_slot H_push_profile_region = S_push_region"
| "handler_slot H_request_tool_settings = S_request_tool_settings"
| "handler_slot H_start_profile_section = S_start_profile_section"
| "handler_slot H_stop_profile_section = S_stop_profile_section"

lemma handler_slot_expose: "handler_slot (expose_symbol m) = expose_slot m"
  by (cases m) simp_all

text \<open>
  The two callbacks the space-time stack exports by hand. \<open>kokkosp_print_help\<close> takes a \<open>const char*\<close>,
  the member \<open>print_help\<close> of the table is of a function type that takes a \<open>char*\<close>.
\<close>

definition stack_params :: "(slot \<times> params) list" where
  "stack_params = [(S_print_help, [Pointer ''const char'']), (S_parse_args, [c_int, Pointer ''char *''])]"

text \<open>
  Whether a function with parameters \<open>ps\<close> is passed its arguments the way a pointer with parameters \<open>qs\<close>
  passes them: the same number, any pointer for any pointer, and otherwise the same type. What a
  pointer points to, and whether that is constant, is not compared (the tables leave \<open>const\<close> out elsewhere): it
  makes two function types different in C, but not the registers that are used.
\<close>

fun same_passing :: "ctype \<Rightarrow> ctype \<Rightarrow> bool" where
  "same_passing (Pointer n) (Pointer m) = True"
| "same_passing a b = (a = b)"

definition callable_as :: "params \<Rightarrow> params \<Rightarrow> bool" where
  "callable_as qs ps = list_all2 same_passing qs ps"

definition table_callable :: "(handler \<times> params) list \<Rightarrow> bool" where
  "table_callable fs = list_all (\<lambda>(h, ps). callable_as (slot_params (handler_slot h)) ps) fs"

text \<open>
  A check of the tables. The function a macro exports
  has the type of the member of the table its callback is in; the functions that the PAPI connector, the kernel logger,
  the kernel filter and the space-time stack export by hand are passed their arguments the way the pointers of the table pass
  them; and so are the child's functions by the pointers of the sampler and the filter.
\<close>

lemma callbacks_callable:
  "expose_params m = slot_params (expose_slot m)"
  "table_callable papi_params" "table_callable logger_params" "table_callable filter_params"
  "table_callable callee_params"
  "list_all (\<lambda>(s, ps). callable_as (slot_params s) ps) stack_params"
  by (cases m, simp_all add: function_types)
    (simp_all add: table_callable_def callable_as_def papi_params_def logger_params_def filter_params_def callee_params_def
      stack_params_def function_types SpaceHandle_t_def papi_SpaceHandle_t_def logger_SpaceHandle_t_def)

text \<open>
  In a build for Windows the macros expand to nothing, so that a tool is reached through the
  dispatcher only. Three macros that tools use are not defined there at all.
\<close>

definition defined_on_windows :: "Expose \<Rightarrow> bool" where
  "defined_on_windows m = (m \<notin> {EXPOSE_TOOL_SETTINGS, EXPOSE_DUAL_VIEW_SYNC, EXPOSE_DUAL_VIEW_MODIFY})"

lemma windows_builds:
  "map fst (filter (\<lambda>(t, xs). \<not> list_all (defined_on_windows \<circ> fst) xs) all_exports)
    = [T_NVTXConnector, T_NVTXFocusedConnector, T_ROCTXConnector, T_PerfettoConnector, T_Sampler]"
  by (simp add: all_exports_def export_defs defined_on_windows_def)

end
