(* ===== verification/Double.thy ===== *)
theory Double
  imports Complex_Main Prelude
begin

text \<open>
  IEEE 754 binary64, the C++ \<open>double\<close>: a value is its 64-bit pattern, arithmetic is the exact
  rational result rounded to nearest, ties to even, with subnormals, signed zeros, infinities and
  NaN (one quiet NaN stands for every NaN an operation returns).

  A magnitude (the low 63 bits as a number) is read in units of \<open>2 ^ -1074\<close>, the least positive
  double. Two facts carry everything proved about sums and comparisons elsewhere: rounding is
  monotone (\<open>enc_mono\<close>) and exact on what is representable (\<open>enc_units\<close>).
\<close>

type_synonym double = u64

section \<open>Magnitudes\<close>

fun bit_length :: "nat \<Rightarrow> nat" where
  "bit_length n = (if n = 0 then 0 else Suc (bit_length (n div 2)))"

declare bit_length.simps [simp del]

lemma bit_length_0 [simp]: "bit_length 0 = 0"
  by (simp add: bit_length.simps)

lemma bit_length_upper: "n < 2 ^ bit_length n"
proof (induction n rule: bit_length.induct)
  case (1 n)
  then show ?case by (cases "n = 0") (auto simp: bit_length.simps [of n])
qed

lemma bit_length_lower: "n \<noteq> 0 \<Longrightarrow> 2 ^ (bit_length n - 1) \<le> n"
proof (induction n rule: bit_length.induct)
  case (1 n)
  show ?case
  proof (cases "n div 2 = 0")
    case True
    with "1.prems" have "n = 1" by auto
    then show ?thesis by (simp add: bit_length.simps)
  next
    case False
    with 1 have "2 ^ (bit_length (n div 2) - 1) \<le> n div 2" by simp
    moreover have "bit_length (n div 2) = Suc (bit_length (n div 2) - 1)"
      using False by (simp add: bit_length.simps [of "n div 2"])
    ultimately have "2 ^ bit_length (n div 2) \<le> 2 * (n div 2)"
      by (metis mult_le_mono2 power_Suc)
    then have "2 ^ bit_length (n div 2) \<le> n" by linarith
    then show ?thesis using "1.prems" by (simp add: bit_length.simps [of n])
  qed
qed

lemma bit_length_le: "n < 2 ^ k \<Longrightarrow> bit_length n \<le> k"
proof (cases "n = 0")
  case False
  assume "n < 2 ^ k"
  with bit_length_lower [OF False] have "(2::nat) ^ (bit_length n - 1) < 2 ^ k" by linarith
  then have "bit_length n - 1 < k" by simp
  then show ?thesis by linarith
qed simp

lemma bit_length_mono: "m \<le> n \<Longrightarrow> bit_length m \<le> bit_length n"
  using bit_length_le bit_length_upper le_less_trans by blast

lemma bit_length_eq: "2 ^ k \<le> n \<Longrightarrow> n < 2 ^ Suc k \<Longrightarrow> bit_length n = Suc k"
  using bit_length_le [of n "Suc k"] bit_length_upper [of n]
  by (metis le_SucE le_less_trans linorder_not_less nat_power_less_imp_less one_less_numeral_iff
      order_less_irrefl pos2 power_increasing_iff semiring_norm(76))

text \<open>Rounding a non-negative rational to the nearest natural number, ties to even.\<close>

definition round_even :: "rat \<Rightarrow> nat" where
  "round_even q = (let f = nat \<lfloor>q\<rfloor>; r = q - of_nat f
     in if r < 1 / 2 \<or> r = 1 / 2 \<and> even f then f else Suc f)"

lemma round_even_of_nat [simp]: "round_even (of_nat n) = n"
  by (simp add: round_even_def)

lemma round_even_bounds:
  assumes "0 \<le> q"
  shows "of_nat (round_even q) \<le> q + 1 / 2" "q - 1 / 2 \<le> of_nat (round_even q)"
proof -
  have "of_nat (nat \<lfloor>q\<rfloor>) = (of_int \<lfloor>q\<rfloor> :: rat)" using assms by simp
  moreover have "of_int \<lfloor>q\<rfloor> \<le> q" "q < of_int \<lfloor>q\<rfloor> + 1" by linarith+
  ultimately show "of_nat (round_even q) \<le> q + 1 / 2" "q - 1 / 2 \<le> of_nat (round_even q)"
    by ((auto simp: round_even_def Let_def field_simps; linarith)+)
qed

lemma round_even_mono:
  assumes "0 \<le> p" and "p \<le> q"
  shows "round_even p \<le> round_even q"
proof (cases "\<lfloor>p\<rfloor> = \<lfloor>q\<rfloor>")
  case True
  then show ?thesis using assms by (auto simp: round_even_def Let_def)
next
  case False
  with assms(2) have "\<lfloor>p\<rfloor> < \<lfloor>q\<rfloor>" by (simp add: floor_mono order_less_le)
  moreover have "0 \<le> \<lfloor>p\<rfloor>" using assms by simp
  ultimately have "Suc (nat \<lfloor>p\<rfloor>) \<le> nat \<lfloor>q\<rfloor>" by linarith
  moreover have "round_even p \<le> Suc (nat \<lfloor>p\<rfloor>)" "nat \<lfloor>q\<rfloor> \<le> round_even q"
    by (auto simp: round_even_def Let_def)
  ultimately show ?thesis by linarith
qed

lemma round_even_le: "0 \<le> q \<Longrightarrow> q \<le> of_nat n \<Longrightarrow> round_even q \<le> n"
  using round_even_mono [of q "of_nat n"] by simp

lemma round_even_ge: "of_nat n \<le> q \<Longrightarrow> n \<le> round_even q"
  using round_even_mono [of "of_nat n" q] by simp

text \<open>
  The magnitude nearest to \<open>y\<close> units of \<open>2 ^ -1074\<close>: keep 53 significant bits. The exponent
  and the fraction fields are added, so a fraction that rounds up to a power of two carries into
  the exponent by itself.
\<close>

definition enc_shift :: "rat \<Rightarrow> nat" where
  "enc_shift y = bit_length (nat \<lfloor>y\<rfloor>) - 53"

definition inf_mag :: nat where
  "inf_mag = 2047 * 2 ^ 52"

definition enc :: "rat \<Rightarrow> nat" where
  "enc y = min inf_mag (enc_shift y * 2 ^ 52 + round_even (y / 2 ^ enc_shift y))"

text \<open>The value of a finite magnitude, in the same units.\<close>

definition units :: "nat \<Rightarrow> nat" where
  "units m = (if m < 2 ^ 52 then m else (2 ^ 52 + m mod 2 ^ 52) * 2 ^ (m div 2 ^ 52 - 1))"

lemma enc_shift_of_nat [simp]: "enc_shift (of_nat n) = bit_length n - 53"
  by (simp add: enc_shift_def)

lemma enc_shift_mono: "x \<le> y \<Longrightarrow> enc_shift x \<le> enc_shift y"
  unfolding enc_shift_def by (intro diff_le_mono bit_length_mono nat_mono floor_mono)

lemma enc_shift_upper:
  assumes "0 \<le> y"
  shows "y / 2 ^ enc_shift y < 2 ^ 53"
proof -
  let ?n = "nat \<lfloor>y\<rfloor>"
  have "?n < 2 ^ (enc_shift y + 53)"
    using bit_length_upper [of ?n]
    by (rule order_less_le_trans) (simp add: enc_shift_def)
  then have "\<lfloor>y\<rfloor> < 2 ^ (enc_shift y + 53)"
    using assms by (simp add: nat_less_iff)
  then have "\<lfloor>y\<rfloor> + 1 \<le> 2 ^ (enc_shift y + 53)" by simp
  then have "of_int (\<lfloor>y\<rfloor> + 1) \<le> (of_int (2 ^ (enc_shift y + 53)) :: rat)"
    by (simp only: of_int_le_iff)
  then have "of_int \<lfloor>y\<rfloor> + 1 \<le> (2 :: rat) ^ (enc_shift y + 53)" by simp
  moreover have "y < of_int \<lfloor>y\<rfloor> + 1" by linarith
  ultimately have "y < 2 ^ (enc_shift y + 53)" by linarith
  then show ?thesis by (simp add: field_simps power_add)
qed

lemma enc_shift_lower:
  assumes "0 < enc_shift y"
  shows "2 ^ 52 \<le> y / 2 ^ enc_shift y"
proof -
  let ?n = "nat \<lfloor>y\<rfloor>"
  have "?n \<noteq> 0" using assms by (metis bit_length_0 diff_0_eq_0 enc_shift_def less_irrefl)
  from bit_length_lower [OF this] assms have "2 ^ (52 + enc_shift y) \<le> ?n"
    by (simp add: enc_shift_def)
  then have "(of_nat (2 ^ (52 + enc_shift y)) :: rat) \<le> of_nat ?n" by (simp only: of_nat_le_iff)
  moreover have "of_nat ?n \<le> y" using \<open>?n \<noteq> 0\<close> by (simp add: of_nat_nat)
  ultimately have "2 ^ (52 + enc_shift y) \<le> y" by (metis of_nat_numeral of_nat_power order_trans)
  then show ?thesis by (simp add: field_simps power_add)
qed

lemma enc_mono:
  assumes "0 \<le> x" and "x \<le> y"
  shows "enc x \<le> enc y"
proof -
  let ?a = "enc_shift x" and ?b = "enc_shift y"
  have le: "?a \<le> ?b" using assms(2) by (rule enc_shift_mono)
  have "?a * 2 ^ 52 + round_even (x / 2 ^ ?a) \<le> ?b * 2 ^ 52 + round_even (y / 2 ^ ?b)"
  proof (cases "?a = ?b")
    case True
    then show ?thesis using assms by (simp add: round_even_mono divide_right_mono)
  next
    case False
    with le have lt: "Suc ?a \<le> ?b" by simp
    have "round_even (x / 2 ^ ?a) \<le> 2 ^ 53"
      using enc_shift_upper [OF assms(1)] assms(1) by (intro round_even_le) auto
    moreover have "2 ^ 52 \<le> round_even (y / 2 ^ ?b)"
      using enc_shift_lower [of y] lt by (intro round_even_ge) auto
    moreover have "Suc ?a * 2 ^ 52 \<le> ?b * 2 ^ 52" using lt by (rule mult_le_mono1)
    ultimately show ?thesis by simp
  qed
  then show ?thesis unfolding enc_def by linarith
qed

lemma enc_units:
  assumes "m \<le> inf_mag"
  shows "enc (of_nat (units m)) = m"
proof (cases "m < 2 ^ 53")
  case True
  then have "units m = m"
  proof (cases "m < 2 ^ 52")
    case False
    with True have "m div 2 ^ 52 = 1" by simp
    moreover from this have "2 ^ 52 + m mod 2 ^ 52 = m"
      by (metis mult.right_neutral mult_div_mod_eq)
    ultimately show ?thesis using False by (simp add: units_def)
  qed (simp add: units_def)
  moreover have "bit_length m - 53 = 0" using bit_length_le [OF True] by simp
  ultimately show ?thesis using assms by (simp add: enc_def)
next
  case False
  define k where "k = m div 2 ^ 52 - 1"
  define f where "f = 2 ^ 52 + m mod 2 ^ 52"
  have k: "m div 2 ^ 52 = Suc k" using False by (simp add: k_def)
  have u: "units m = f * 2 ^ k" using False by (simp add: units_def k_def f_def)
  have f: "2 ^ 52 \<le> f" "f < 2 ^ 53" by (simp_all add: f_def)
  have "bit_length (f * 2 ^ k) = Suc (52 + k)"
  proof (rule bit_length_eq)
    show "2 ^ (52 + k) \<le> f * 2 ^ k" using f(1) by (simp add: power_add)
    have "f * 2 ^ k < 2 ^ 53 * 2 ^ k" using f(2) by simp
    also have "\<dots> = 2 ^ Suc (52 + k)" by (simp add: power_add)
    finally show "f * 2 ^ k < 2 ^ Suc (52 + k)" .
  qed
  then have s: "enc_shift (of_nat (units m)) = k" by (simp add: u del: of_nat_mult)
  have "(of_nat (units m) :: rat) / 2 ^ k = of_nat f" by (simp add: u)
  then have "enc (of_nat (units m)) = min inf_mag (k * 2 ^ 52 + f)"
    by (simp only: enc_def s round_even_of_nat)
  also have "k * 2 ^ 52 + f = m"
    using div_mult_mod_eq [of m "2 ^ 52", unfolded k] unfolding f_def mult_Suc by (simp only: ac_simps)
  finally show ?thesis using assms by simp
qed

lemma enc_0 [simp]: "enc 0 = 0"
  using enc_units [of 0] by (simp add: units_def inf_mag_def)

lemma enc_le_inf [simp]: "enc y \<le> inf_mag"
  by (simp add: enc_def)

lemma units_strict_mono:
  assumes "m < n" and "n \<le> inf_mag"
  shows "units m < units n"
proof (rule ccontr)
  assume "\<not> units m < units n"
  then have "enc (of_nat (units n)) \<le> enc (of_nat (units m))" by (intro enc_mono) simp_all
  with assms show False by (simp add: enc_units)
qed


lemma units_mono: "m \<le> n \<Longrightarrow> n \<le> inf_mag \<Longrightarrow> units m \<le> units n"
  using units_strict_mono by (cases "m = n") (auto intro: less_imp_le)

lemma units_0 [simp]: "units 0 = 0"
  by (simp add: units_def)

lemma units_eq_0_iff [simp]: "m \<le> inf_mag \<Longrightarrow> units m = 0 \<longleftrightarrow> m = 0"
  using units_strict_mono [of 0 m] by (cases "m = 0") auto

text \<open>Fields to value: a fraction of 53 bits scaled by a power of two is read back exactly.\<close>

lemma units_fields:
  assumes "M < 2 ^ 53" and "s = 0 \<or> 2 ^ 52 \<le> M"
  shows "units (s * 2 ^ 52 + M) = M * 2 ^ s"
proof (cases "M < 2 ^ 52")
  case True
  with assms show ?thesis by (simp add: units_def)
next
  case False
  define f where "f = M - 2 ^ 52"
  have M: "M = 2 ^ 52 + f" and f: "f < 2 ^ 52" using False assms by (auto simp: f_def)
  have eq: "s * 2 ^ 52 + M = f + Suc s * 2 ^ 52" by (simp only: M mult_Suc ac_simps)
  have fields: "(f + c * B) div B = c" "(f + c * B) mod B = f" if "f < B" for c B :: nat
    using that by simp_all
  have "(s * 2 ^ 52 + M) div 2 ^ 52 = Suc s" unfolding eq using f by (rule fields)
  moreover have "(s * 2 ^ 52 + M) mod 2 ^ 52 = f" unfolding eq using f by (rule fields)
  moreover have "\<not> s * 2 ^ 52 + M < 2 ^ 52" using False by linarith
  ultimately show ?thesis unfolding units_def by (simp only: if_False M) simp
qed

lemma bit_length_scaled: "f \<noteq> 0 \<Longrightarrow> bit_length (f * 2 ^ k) = bit_length f + k"
proof (induction k)
  case (Suc k)
  have "f * 2 ^ Suc k \<noteq> 0" "f * 2 ^ Suc k div 2 = f * 2 ^ k" using Suc.prems by simp_all
  then show ?case using Suc by (simp add: bit_length.simps [of "f * 2 ^ Suc k"] del: power_Suc)
qed simp

lemma units_enc_exact:
  assumes "f < 2 ^ 53" and "k \<le> 2044"
  shows "units (enc (of_nat (f * 2 ^ k))) = f * 2 ^ k"
proof (cases "f = 0")
  case False
  define s where "s = bit_length f + k - 53"
  have bl: "bit_length f \<le> 53" using assms(1) by (rule bit_length_le)
  then have sk: "s \<le> k" by (simp add: s_def)
  have sh: "enc_shift (of_nat (f * 2 ^ k)) = s"
    using bit_length_scaled [OF False, of k] by (simp add: s_def del: of_nat_mult)
  define M where "M = f * 2 ^ (k - s)"
  have y: "f * 2 ^ k = M * 2 ^ s" using sk by (simp add: M_def power_add [symmetric])
  then have div: "(of_nat (f * 2 ^ k) :: rat) / 2 ^ s = of_nat M" by simp
  have up: "M < 2 ^ 53"
  proof -
    have "(of_nat M :: rat) < 2 ^ 53" using enc_shift_upper [of "of_nat (f * 2 ^ k)"] sh div by simp
    then have "(of_nat M :: rat) < of_nat (2 ^ 53)" by simp
    then show ?thesis by (simp only: of_nat_less_iff)
  qed
  have lo: "s = 0 \<or> 2 ^ 52 \<le> M"
  proof (cases "s = 0")
    case False
    then have "(2 :: rat) ^ 52 \<le> of_nat M"
      using enc_shift_lower [of "of_nat (f * 2 ^ k)"] sh div by simp
    then have "(of_nat (2 ^ 52) :: rat) \<le> of_nat M" by simp
    then have "2 ^ 52 \<le> M" by (simp only: of_nat_le_iff)
    then show ?thesis ..
  qed simp
  have "s * 2 ^ 52 + M \<le> inf_mag" using sk assms(2) up by (simp add: inf_mag_def)
  then have "enc (of_nat (f * 2 ^ k)) = s * 2 ^ 52 + M"
    using div by (simp only: enc_def sh round_even_of_nat min_absorb2)
  then show ?thesis using units_fields [OF up lo] y by simp
qed simp

section \<open>Bit patterns\<close>

definition mk_double :: "bool \<Rightarrow> nat \<Rightarrow> double" where
  "mk_double s m = of_nat ((if s then 2 ^ 63 else 0) + m)"

definition d_sign :: "double \<Rightarrow> bool" where
  "d_sign w = (2 ^ 63 \<le> unat w)"

definition d_mag :: "double \<Rightarrow> nat" where
  "d_mag w = unat w mod 2 ^ 63"

definition d_nan :: "double \<Rightarrow> bool" where
  "d_nan w = (inf_mag < d_mag w)"

definition d_inf :: "double \<Rightarrow> bool" where
  "d_inf w = (d_mag w = inf_mag)"

lemma inf_mag_bound: "inf_mag < 2 ^ 63"
  by (simp add: inf_mag_def)

lemma unat_mk_double: "m < 2 ^ 63 \<Longrightarrow> unat (mk_double s m) = (if s then 2 ^ 63 else 0) + m"
  unfolding mk_double_def by (subst unat_of_nat) (simp add: take_bit_eq_mod)

lemma d_sign_mk [simp]: "m < 2 ^ 63 \<Longrightarrow> d_sign (mk_double s m) = s"
  by (simp add: d_sign_def unat_mk_double)

lemma d_mag_mk [simp]: "m < 2 ^ 63 \<Longrightarrow> d_mag (mk_double s m) = m"
  by (simp add: d_mag_def unat_mk_double)

lemma mk_double_eta [simp]: "mk_double (d_sign w) (d_mag w) = w"
proof -
  have "unat w < 2 * 2 ^ 63" using unsigned_less [where ?'a = nat, of w] by simp
  then have "(if d_sign w then 2 ^ 63 else 0) + d_mag w = unat w"
    by (auto simp: d_sign_def d_mag_def mod_if le_mod_geq)
  then show ?thesis by (simp add: mk_double_def)
qed

lemma d_mag_bound: "d_mag w < 2 ^ 63"
  by (simp add: d_mag_def)

lemma double_eqI:
  assumes "d_sign a = d_sign b" and "d_mag a = d_mag b"
  shows "a = b"
proof -
  have "a = mk_double (d_sign a) (d_mag a)" by simp
  also have "\<dots> = mk_double (d_sign b) (d_mag b)" by (simp only: assms)
  finally show ?thesis by simp
qed

text \<open>The signed value in units of \<open>2 ^ -1074\<close>; infinity counts as one binade above the rest.\<close>

definition s_units :: "double \<Rightarrow> rat" where
  "s_units w = (if d_sign w then - of_nat (units (d_mag w)) else of_nat (units (d_mag w)))"

definition scale :: rat where
  "scale = 2 ^ 1074"

text \<open>The double nearest to \<open>y\<close> units; \<open>z\<close> is the sign given to an exact zero.\<close>

definition of_units :: "bool \<Rightarrow> rat \<Rightarrow> double" where
  "of_units z y = (if y = 0 then mk_double z 0 else mk_double (y < 0) (enc \<bar>y\<bar>))"

definition d_of_rat :: "rat \<Rightarrow> double" where
  "d_of_rat r = of_units False (r * scale)"

definition d_of_nat :: "nat \<Rightarrow> double" where
  "d_of_nat n = of_units False (of_nat n * scale)"

definition d_of_int :: "int \<Rightarrow> double" where
  "d_of_int n = of_units False (of_int n * scale)"

definition d_zero :: double where
  "d_zero = mk_double False 0"

definition nan :: double where
  "nan = mk_double False (inf_mag + 2 ^ 51)"

section \<open>Arithmetic and comparison\<close>

definition dneg :: "double \<Rightarrow> double" where
  "dneg a = mk_double (\<not> d_sign a) (d_mag a)"

definition dadd :: "double \<Rightarrow> double \<Rightarrow> double" where
  "dadd a b =
     (if d_nan a \<or> d_nan b then nan
      else if d_inf a then (if d_inf b \<and> d_sign a \<noteq> d_sign b then nan else a)
      else if d_inf b then b
      else of_units (d_sign a \<and> d_sign b) (s_units a + s_units b))"

definition dsub :: "double \<Rightarrow> double \<Rightarrow> double" where
  "dsub a b = dadd a (dneg b)"

definition dmul :: "double \<Rightarrow> double \<Rightarrow> double" where
  "dmul a b = (let s = (d_sign a \<noteq> d_sign b) in
     if d_nan a \<or> d_nan b then nan
     else if d_inf a \<or> d_inf b then
       (if d_mag a = 0 \<or> d_mag b = 0 then nan else mk_double s inf_mag)
     else of_units s (s_units a * s_units b / scale))"

definition ddiv :: "double \<Rightarrow> double \<Rightarrow> double" where
  "ddiv a b = (let s = (d_sign a \<noteq> d_sign b) in
     if d_nan a \<or> d_nan b then nan
     else if d_inf a then (if d_inf b then nan else mk_double s inf_mag)
     else if d_inf b then mk_double s 0
     else if d_mag b = 0 then (if d_mag a = 0 then nan else mk_double s inf_mag)
     else of_units s (s_units a / s_units b * scale))"

definition dlt :: "double \<Rightarrow> double \<Rightarrow> bool" where
  "dlt a b = (\<not> d_nan a \<and> \<not> d_nan b \<and> s_units a < s_units b)"

definition dle :: "double \<Rightarrow> double \<Rightarrow> bool" where
  "dle a b = (\<not> d_nan a \<and> \<not> d_nan b \<and> s_units a \<le> s_units b)"

definition deq :: "double \<Rightarrow> double \<Rightarrow> bool" where
  "deq a b = (\<not> d_nan a \<and> \<not> d_nan b \<and> s_units a = s_units b)"

text \<open>\<open>std::max(a, b)\<close> returns \<open>a\<close> unless \<open>a < b\<close>, so a NaN first argument is returned.\<close>

definition std_max :: "double \<Rightarrow> double \<Rightarrow> double" where
  "std_max a b = (if dlt a b then b else a)"

abbreviation d_nonneg :: "double \<Rightarrow> bool" where
  "d_nonneg w \<equiv> dle d_zero w"

section \<open>Laws the tools rely on\<close>

lemma s_units_mk [simp]:
  "m < 2 ^ 63 \<Longrightarrow> s_units (mk_double s m) = (if s then - of_nat (units m) else of_nat (units m))"
  by (simp add: s_units_def)

lemma enc_bound [simp]: "enc y < 9223372036854775808"
  by (rule le_less_trans [OF enc_le_inf]) (simp add: inf_mag_def)

lemma d_nan_mk [simp]: "m < 2 ^ 63 \<Longrightarrow> d_nan (mk_double s m) \<longleftrightarrow> inf_mag < m"
  by (simp add: d_nan_def)

lemma d_zero_facts [simp]: "s_units d_zero = 0" "\<not> d_nan d_zero" "\<not> d_inf d_zero"
  by (simp_all add: d_zero_def d_inf_def inf_mag_def)

lemma s_units_of_units: "s_units (of_units z y) = (if y < 0 then - 1 else 1) * of_nat (units (enc \<bar>y\<bar>))"
  by (simp add: of_units_def)

lemma of_units_not_nan [simp]: "\<not> d_nan (of_units z y)"
  by (simp add: of_units_def not_less)

lemma enc_of_s_units:
  assumes "\<not> d_nan a"
  shows "enc \<bar>s_units a\<bar> = d_mag a"
  using assms by (simp add: s_units_def d_nan_def enc_units)

text \<open>Rounding is monotone on the signed line as well.\<close>

lemma s_units_of_units_mono:
  assumes "x \<le> y"
  shows "s_units (of_units z x) \<le> s_units (of_units z' y)"
proof -
  consider "0 \<le> x" | "x < 0" "0 \<le> y" | "y < 0" using assms by linarith
  then show ?thesis
  proof cases
    case 1
    then show ?thesis using assms by (simp add: s_units_of_units enc_mono units_mono)
  next
    case 2
    then have "- (of_nat (units (enc \<bar>x\<bar>)) :: rat) \<le> 0" by simp
    also have "(0 :: rat) \<le> of_nat (units (enc \<bar>y\<bar>))" by simp
    finally show ?thesis using 2 by (simp add: s_units_of_units)
  next
    case 3
    then have "units (enc \<bar>y\<bar>) \<le> units (enc \<bar>x\<bar>)"
      using assms by (intro units_mono enc_mono) auto
    then show ?thesis using 3 assms by (simp add: s_units_of_units)
  qed
qed

lemma s_units_of_units_self [simp]: "\<not> d_nan a \<Longrightarrow> s_units (of_units z (s_units a)) = s_units a"
proof -
  assume a: "\<not> d_nan a"
  have "s_units a < 0 \<Longrightarrow> d_sign a" "\<not> s_units a < 0 \<Longrightarrow> d_sign a \<Longrightarrow> d_mag a = 0"
    using a by (auto simp: s_units_def d_nan_def not_less split: if_splits)
  then show ?thesis using a
    by (auto simp: s_units_of_units enc_of_s_units) (auto simp: s_units_def)
qed

lemma dle_refl [simp]: "dle a a \<longleftrightarrow> \<not> d_nan a"
  by (simp add: dle_def)

lemma dle_trans: "dle a b \<Longrightarrow> dle b c \<Longrightarrow> dle a c"
  by (auto simp: dle_def)

lemma dlt_irrefl [simp]: "\<not> dlt a a"
  by (simp add: dlt_def)

lemma not_dlt: "\<not> d_nan a \<Longrightarrow> \<not> d_nan b \<Longrightarrow> \<not> dlt a b \<longleftrightarrow> dle b a"
  by (auto simp: dlt_def dle_def)

lemma d_nonneg_iff: "d_nonneg a \<longleftrightarrow> \<not> d_nan a \<and> 0 \<le> s_units a"
  by (simp add: dle_def)

lemma d_nonneg_inf_sign: "d_nonneg a \<Longrightarrow> d_inf a \<Longrightarrow> \<not> d_sign a"
  by (auto simp: d_nonneg_iff s_units_def d_inf_def inf_mag_def units_def)

lemma s_units_le_inf: "\<not> d_nan a \<Longrightarrow> s_units a \<le> of_nat (units inf_mag)"
proof -
  assume "\<not> d_nan a"
  then have "units (d_mag a) \<le> units inf_mag" by (intro units_mono) (simp_all add: d_nan_def)
  then show ?thesis by (simp add: s_units_def order_trans [of _ 0])
qed

lemma dadd_comm: "dadd a b = dadd b a"
  by (auto simp: dadd_def d_inf_def add.commute conj_commute intro: double_eqI)

text \<open>Adding a non-negative double never makes a sum smaller, whatever the rounding.\<close>

lemma dle_dadd:
  assumes "d_nonneg a" and "d_nonneg b"
  shows "dle a (dadd a b)"
proof -
  have fin: ?thesis if "\<not> d_inf a" "\<not> d_inf b"
  proof -
    have "s_units (of_units False (s_units a)) \<le>
        s_units (of_units (d_sign a \<and> d_sign b) (s_units a + s_units b))"
      using assms by (intro s_units_of_units_mono) (simp add: d_nonneg_iff)
    then show ?thesis using assms that by (simp add: d_nonneg_iff dle_def dadd_def)
  qed
  have inf: ?thesis if "d_inf b" "\<not> d_inf a"
    using assms that d_nonneg_inf_sign [OF assms(2)] s_units_le_inf [of a]
    by (simp add: d_nonneg_iff dle_def dadd_def s_units_def [of b] d_inf_def)
  show ?thesis
    using fin inf assms d_nonneg_inf_sign by (cases "d_inf a") (auto simp: dadd_def d_nonneg_iff)
qed

lemma dle_dadd2: "d_nonneg a \<Longrightarrow> d_nonneg b \<Longrightarrow> dle b (dadd a b)"
  by (subst dadd_comm) (rule dle_dadd)

lemma d_nonneg_dadd [intro]: "d_nonneg a \<Longrightarrow> d_nonneg b \<Longrightarrow> d_nonneg (dadd a b)"
  using dle_dadd dle_trans by blast

lemma d_nonneg_zero [simp]: "d_nonneg d_zero"
  by simp

lemma d_nonneg_sum:
  "d_nonneg a \<Longrightarrow> (\<And>x. x \<in> set xs \<Longrightarrow> d_nonneg x) \<Longrightarrow> d_nonneg (foldl dadd a xs)"
  by (induction xs arbitrary: a) auto

lemma dle_sum:
  "d_nonneg a \<Longrightarrow> (\<And>x. x \<in> set xs \<Longrightarrow> d_nonneg x) \<Longrightarrow> dle a (foldl dadd a xs)"
proof (induction xs arbitrary: a)
  case (Cons x xs)
  then have "dle a (dadd a x)" "dle (dadd a x) (foldl dadd (dadd a x) xs)"
    by (auto intro: dle_dadd)
  then show ?case by (auto intro: dle_trans)
qed (simp add: d_nonneg_iff)

text \<open>\<open>std::max(x, 0.)\<close> cleans a negative remainder.\<close>

lemma d_nonneg_std_max [simp]: "\<not> d_nan a \<Longrightarrow> d_nonneg (std_max a d_zero)"
  by (auto simp: std_max_def dlt_def d_nonneg_iff)

lemma std_max_id: "d_nonneg a \<Longrightarrow> std_max a d_zero = a"
  by (auto simp: std_max_def dlt_def d_nonneg_iff)

text \<open>Natural numbers below \<open>2 ^ 53\<close> convert exactly, and a quotient below one rounds below one.\<close>

lemma scale_pos [simp]: "0 < scale"
  by (simp add: scale_def)

lemma s_units_d_of_nat:
  assumes "n < 2 ^ 53"
  shows "s_units (d_of_nat n) = of_nat n * scale"
proof -
  have "(of_nat n * scale :: rat) = of_nat (n * 2 ^ 1074)" by (simp add: scale_def)
  moreover have "units (enc (of_nat (n * 2 ^ 1074))) = n * 2 ^ 1074"
    using assms by (rule units_enc_exact) simp
  ultimately show ?thesis by (simp only: d_of_nat_def s_units_of_units) simp
qed

lemma d_of_nat_not_nan [simp]: "\<not> d_nan (d_of_nat n)"
  by (simp add: d_of_nat_def)

lemma d_sign_d_of_nat [simp]: "\<not> d_sign (d_of_nat n)"
proof -
  have "\<not> of_nat n * scale < (0 :: rat)" using scale_pos by (simp add: not_less del: scale_pos)
  then show ?thesis by (auto simp: d_of_nat_def of_units_def)
qed

lemma d_of_nat_finite: "n < 2 ^ 53 \<Longrightarrow> \<not> d_inf (d_of_nat n)"
proof
  assume n: "n < 2 ^ 53" and "d_inf (d_of_nat n)"
  then have "of_nat (units inf_mag) = (of_nat n * scale :: rat)"
    using s_units_d_of_nat [OF n] by (simp add: s_units_def d_inf_def)
  then have "of_nat (units inf_mag) = (of_nat (n * 2 ^ 1074) :: rat)" by (simp add: scale_def)
  then have "units inf_mag = n * 2 ^ 1074" by (simp only: of_nat_eq_iff)
  moreover have "units inf_mag = 2 ^ 52 * 2 ^ 2046" by (simp add: units_def inf_mag_def)
  ultimately have "(2 :: nat) ^ 2098 = n * 2 ^ 1074" by (simp add: power_add [symmetric])
  also have "\<dots> < 2 ^ 53 * 2 ^ 1074" using n by (intro mult_strict_right_mono) simp_all
  also have "\<dots> = 2 ^ 1127" by (simp add: power_add [symmetric])
  finally show False by simp
qed

lemma dlt_d_of_nat:
  "m < 2 ^ 53 \<Longrightarrow> n < 2 ^ 53 \<Longrightarrow> dlt (d_of_nat m) (d_of_nat n) \<longleftrightarrow> m < n"
  by (simp add: dlt_def s_units_d_of_nat)

lemma d_mag_eq_0_iff: "\<not> d_nan a \<Longrightarrow> d_mag a = 0 \<longleftrightarrow> s_units a = 0"
  by (simp add: s_units_def d_nan_def not_less)

lemma dmul_one:
  assumes "n < 2 ^ 53"
  shows "dmul (d_of_nat 1) (d_of_nat n) = d_of_nat n"
proof -
  have "dmul (d_of_nat 1) (d_of_nat n) =
      of_units False (s_units (d_of_nat 1) * s_units (d_of_nat n) / scale)"
    using assms by (simp add: dmul_def d_of_nat_finite)
  also have "s_units (d_of_nat 1) * s_units (d_of_nat n) / scale = of_nat n * scale"
    using assms by (simp add: s_units_d_of_nat scale_def)
  finally show ?thesis by (simp add: d_of_nat_def)
qed

lemma ddiv_d_of_nat:
  assumes "m < 2 ^ 53" and "n < 2 ^ 53" and "n \<noteq> 0"
  shows "ddiv (d_of_nat m) (d_of_nat n) = of_units False (of_nat m / of_nat n * scale)"
proof -
  have "d_mag (d_of_nat n) \<noteq> 0"
    using assms by (simp add: d_mag_eq_0_iff s_units_d_of_nat scale_def)
  moreover have "s_units (d_of_nat m) / s_units (d_of_nat n) = of_nat m / of_nat n"
    using assms by (simp add: s_units_d_of_nat scale_def)
  ultimately show ?thesis using assms by (simp add: ddiv_def d_of_nat_finite)
qed

lemma ddiv_self: "n < 2 ^ 53 \<Longrightarrow> n \<noteq> 0 \<Longrightarrow> ddiv (d_of_nat n) (d_of_nat n) = d_of_nat 1"
  by (simp add: ddiv_d_of_nat) (simp add: d_of_nat_def)

lemma ddiv_lt_one:
  assumes "m < n" and "n < 2 ^ 53"
  shows "dlt (ddiv (d_of_nat m) (d_of_nat n)) (d_of_nat 1)"
proof -
  let ?top = "of_nat ((2 ^ 53 - 1) * 2 ^ 1021) :: rat"
  have "(of_nat m :: rat) \<le> of_nat n - 1" using assms(1) by (simp add: of_nat_diff [symmetric])
  then have "of_nat m / of_nat n \<le> (1 :: rat) - 1 / of_nat n" using assms(1) by (simp add: field_simps)
  also have "\<dots> \<le> 1 - 1 / 2 ^ 53"
  proof -
    have "(of_nat n :: rat) \<le> of_nat (2 ^ 53)" using assms(2) by (simp only: of_nat_le_iff)
    then have "(of_nat n :: rat) \<le> 2 ^ 53" by simp
    then have "1 / 2 ^ 53 \<le> (1 :: rat) / of_nat n" using assms(1) by (intro divide_left_mono) auto
    then show ?thesis by simp
  qed
  finally have "of_nat m / of_nat n * scale \<le> (1 - 1 / 2 ^ 53) * scale"
    by (rule mult_right_mono) (simp add: less_imp_le)
  also have "\<dots> = ?top"
  proof -
    have "scale = 2 ^ 53 * 2 ^ 1021" by (simp add: scale_def power_add [symmetric])
    then show ?thesis by (simp add: left_diff_distrib)
  qed
  finally have le: "of_nat m / of_nat n * scale \<le> ?top" .
  have "s_units (of_units False (of_nat m / of_nat n * scale)) \<le> s_units (of_units False ?top)"
    using le by (rule s_units_of_units_mono)
  also have "s_units (of_units False ?top) = ?top"
  proof -
    have "units (enc ?top) = (2 ^ 53 - 1) * 2 ^ 1021" by (rule units_enc_exact) simp_all
    then show ?thesis by (simp add: s_units_of_units)
  qed
  also have "?top < s_units (d_of_nat 1)"
  proof -
    have "((2 :: nat) ^ 53 - 1) * 2 ^ 1021 < 2 ^ 53 * 2 ^ 1021" by simp
    also have "\<dots> = 2 ^ 1074" by (simp add: power_add [symmetric])
    finally have "?top < of_nat (2 ^ 1074)" by (simp only: of_nat_less_iff)
    then show ?thesis by (simp add: s_units_d_of_nat scale_def)
  qed
  finally show ?thesis using assms by (simp add: dlt_def ddiv_d_of_nat)
qed

text \<open>A difference of two finite doubles in order is non-negative.\<close>

lemma d_sign_dneg [simp]: "d_sign (dneg a) = (\<not> d_sign a)"
  using d_mag_bound [of a] by (simp add: dneg_def)

lemma d_mag_dneg [simp]: "d_mag (dneg a) = d_mag a"
  using d_mag_bound [of a] by (simp add: dneg_def)

lemma d_nan_dneg [simp]: "d_nan (dneg a) = d_nan a"
  by (simp add: d_nan_def)

lemma d_inf_dneg [simp]: "d_inf (dneg a) = d_inf a"
  by (simp add: d_inf_def)

lemma s_units_dneg [simp]: "s_units (dneg a) = - s_units a"
  by (simp add: s_units_def)

lemma d_nonneg_dsub:
  assumes "dle b a" and "\<not> d_inf a" and "\<not> d_inf b"
  shows "d_nonneg (dsub a b)"
proof -
  have "s_units (of_units False 0) \<le> s_units (of_units (d_sign a \<and> \<not> d_sign b) (s_units a - s_units b))"
    using assms by (intro s_units_of_units_mono) (simp add: dle_def)
  then show ?thesis using assms by (simp add: dsub_def dadd_def dle_def s_units_of_units)
qed

end
