(* ===== verification/Contracts.thy ===== *)
theory Contracts
  imports Prelude
begin

text \<open>
  The contracts several components provide, as locales, with what follows from each proved once:
  a source of kernel identifiers (\<open>id_source\<close>), a stack of frames (\<open>frame_stack\<close>), a
  fixed-width byte encoding (\<open>byte_codec\<close>) and a strict total order of container keys
  (\<open>key_order\<close>), on which the ordered containers of the C++ library rest.
\<close>

section \<open>Identifier sources\<close>

text \<open>
  A tool that hands out kernel identifiers: a step either issues the next value of a 64-bit
  counter or leaves the counter alone. Over any run the issued identifiers are consecutive, hence
  distinct until the counter wraps.
\<close>

fun run_ids :: "('s \<Rightarrow> 'e \<Rightarrow> ('s \<times> u64 option) outcome) \<Rightarrow> 's \<Rightarrow> 'e list \<Rightarrow> (u64 list \<times> 's) outcome"
where
  "run_ids step s [] = Inr ([], s)"
| "run_ids step s (e # es) =
     (case step s e of Inl x \<Rightarrow> Inl x
      | Inr (s', i) \<Rightarrow> (case run_ids step s' es of Inl x \<Rightarrow> Inl x
          | Inr (is, s'') \<Rightarrow> Inr (case i of None \<Rightarrow> is | Some j \<Rightarrow> j # is, s'')))"

definition counting :: "u64 \<Rightarrow> nat \<Rightarrow> u64 list" where
  "counting i n = map (\<lambda>k. i + of_nat k) [0..<n]"

lemma counting_0 [simp]: "counting i 0 = []"
  by (simp add: counting_def)

lemma counting_Suc: "counting i (Suc n) = i # counting (i + 1) n"
  unfolding counting_def
  by (subst upt_conv_Cons) (simp_all add: map_Suc_upt [symmetric] o_def algebra_simps del: upt_Suc)

lemma length_counting [simp]: "length (counting i n) = n"
  by (simp add: counting_def)

lemma distinct_counting:
  assumes "n \<le> 2 ^ 64"
  shows "distinct (counting i n)"
proof -
  have "inj_on (\<lambda>k. i + of_nat k) {0..<n}"
  proof (rule inj_onI)
    fix j k assume "j \<in> {0..<n}" "k \<in> {0..<n}" "i + of_nat j = i + of_nat k"
    then have "(of_nat j :: u64) = of_nat k" "j < 2 ^ 64" "k < 2 ^ 64" using assms by auto
    then show "j = k" using of_nat_u64_inj by blast
  qed
  then show ?thesis by (simp add: counting_def distinct_map)
qed

locale id_source =
  fixes step :: "'s \<Rightarrow> 'e \<Rightarrow> ('s \<times> u64 option) outcome"
    and next_id :: "'s \<Rightarrow> u64"
  assumes issue: "step s e = Inr (s', Some i) \<Longrightarrow> i = next_id s \<and> next_id s' = next_id s + 1"
    and keep: "step s e = Inr (s', None) \<Longrightarrow> next_id s' = next_id s"
begin

lemma run_ids_counting: "run_ids step s es = Inr (is, s') \<Longrightarrow> is = counting (next_id s) (length is)"
proof (induction es arbitrary: s "is")
  case (Cons e es)
  from Cons.prems obtain t i js where t: "step s e = Inr (t, i)"
    and js: "run_ids step t es = Inr (js, s')" and eq: "is = (case i of None \<Rightarrow> js | Some j \<Rightarrow> j # js)"
    by (auto split: sum.splits)
  from Cons.IH [OF js] show ?case
    using issue [of s e t] keep [of s e t] t eq by (cases i) (auto simp: counting_Suc)
qed simp

theorem run_ids_distinct:
  "run_ids step s es = Inr (is, s') \<Longrightarrow> length is \<le> 2 ^ 64 \<Longrightarrow> distinct is"
  using run_ids_counting distinct_counting by metis

end

section \<open>Frame stacks\<close>

text \<open>
  A tool that keeps a stack of open frames: events open a frame, close the innermost one, or leave
  the stack alone. In a balanced sequence every opening is closed by the matching closing;
  running one from any state that satisfies the invariant ends with the frames it started from.
\<close>

datatype ('a, 'b, 'c) bracket = Open 'a | Close 'b | Other 'c

inductive balanced :: "('a, 'b, 'c) bracket list \<Rightarrow> bool" where
  nil: "balanced []"
| other: "balanced xs \<Longrightarrow> balanced (Other c # xs)"
| frame: "balanced xs \<Longrightarrow> balanced ys \<Longrightarrow> balanced (Open a # xs @ Close b # ys)"

inductive_cases balanced_CloseE: "balanced (Close b # xs)"

lemma balanced_pair: "balanced [Open a, Close b]"
  using balanced.frame [OF balanced.nil balanced.nil, of a b] by simp

lemma not_balanced_Close: "\<not> balanced (Close b # xs)"
  by (auto elim: balanced_CloseE)

locale frame_stack =
  fixes push :: "'s \<Rightarrow> 'a \<Rightarrow> 's outcome"
    and pop :: "'s \<Rightarrow> 'b \<Rightarrow> 's outcome"
    and other :: "'s \<Rightarrow> 'c \<Rightarrow> 's outcome"
    and frames :: "'s \<Rightarrow> 'f list"
    and inv :: "'s \<Rightarrow> bool"
  assumes push_frame: "inv s \<Longrightarrow> push s a = Inr s' \<Longrightarrow> inv s' \<and> (\<exists>f. frames s' = f # frames s)"
    and pop_frame: "inv s \<Longrightarrow> pop s b = Inr s' \<Longrightarrow> frames s = f # fs \<Longrightarrow> inv s' \<and> frames s' = fs"
    and other_frame: "inv s \<Longrightarrow> other s c = Inr s' \<Longrightarrow> inv s' \<and> frames s' = frames s"
begin

fun fs_step :: "'s \<Rightarrow> ('a, 'b, 'c) bracket \<Rightarrow> 's outcome" where
  "fs_step s (Open a) = push s a"
| "fs_step s (Close b) = pop s b"
| "fs_step s (Other c) = other s c"

theorem balanced_restores:
  "balanced es \<Longrightarrow> inv s \<Longrightarrow> run_events fs_step s es = Inr s' \<Longrightarrow> inv s' \<and> frames s' = frames s"
proof (induction es arbitrary: s s' rule: balanced.induct)
  case (other xs c)
  then obtain s1 where "other s c = Inr s1" "run_events fs_step s1 xs = Inr s'"
    by (auto split: sum.splits)
  with other.IH other.prems(1) other_frame show ?case by metis
next
  case (frame xs ys a b)
  from frame.prems(2) obtain s1 s2 s3 where
      s1: "push s a = Inr s1" and s2: "run_events fs_step s1 xs = Inr s2"
    and s3: "pop s2 b = Inr s3" and s4: "run_events fs_step s3 ys = Inr s'"
    by (auto simp: run_events_append split: sum.splits)
  from push_frame [OF frame.prems(1) s1] obtain f where i1: "inv s1" and f1: "frames s1 = f # frames s"
    by blast
  from frame.IH(1) [OF i1 s2] f1 have i2: "inv s2" and f2: "frames s2 = f # frames s" by simp_all
  from pop_frame [OF i2 s3 f2] have "inv s3" "frames s3 = frames s" by simp_all
  with frame.IH(2) [OF _ s4] show ?case by simp
qed simp

text \<open>The same for a step function that acts on events that stand for the three kinds.\<close>

lemma run_events_kind:
  assumes "\<And>s e. step s e = fs_step s (kind e)"
  shows "run_events step s es = run_events fs_step s (map kind es)"
  by (induction es arbitrary: s) (auto simp: assms split: sum.splits)

lemma balanced_restores_kind:
  assumes "\<And>s e. step s e = fs_step s (kind e)" and "balanced (map kind es)"
    and "inv s" and "run_events step s es = Inr s'"
  shows "inv s' \<and> frames s' = frames s"
  using balanced_restores [OF assms(2,3)] assms(4) run_events_kind [of step kind, OF assms(1)] by metis

end

section \<open>Byte codecs\<close>

locale byte_codec =
  fixes encode :: "'a \<Rightarrow> u8 list" and decode :: "u8 list \<Rightarrow> 'a" and width :: nat
  assumes width: "length (encode x) = width"
    and decode_encode: "decode (encode x) = x"
begin

lemma decode_take [simp]: "decode (take width (encode x @ r)) = x"
  by (simp add: width [of x, symmetric] decode_encode)

lemma drop_encode [simp]: "drop width (encode x @ r) = r"
  by (simp add: width [of x, symmetric])

end

section \<open>Key orders\<close>

text \<open>The strict weak orderings the C++ containers are keyed by are total here: keys that compare
  neither way are equal.\<close>

locale key_order =
  fixes lt :: "'k \<Rightarrow> 'k \<Rightarrow> bool"
  assumes irrefl: "\<not> lt k k"
    and trans: "lt a b \<Longrightarrow> lt b c \<Longrightarrow> lt a c"
    and total: "a \<noteq> b \<Longrightarrow> lt a b \<or> lt b a"
begin

lemma asym: "lt a b \<Longrightarrow> \<not> lt b a"
  using irrefl trans by blast

end

end
