(* ===== verification/Demangle.thy ===== *)
theory Demangle
  imports Prelude
begin

text \<open>
  \<open>common/utils/demangle.hpp\<close>. \<open>abi::__cxa_demangle\<close> belongs to the C++ ABI library: it is the
  parameter \<open>cxa\<close>, which reads a NUL-terminated string and returns the demangled name or
  nothing. A \<open>string_view\<close> is a string; its characters up to the first NUL are what the ABI
  function sees.
\<close>

type_synonym cxa_demangle = "string \<Rightarrow> string option"

definition demangleName :: "cxa_demangle \<Rightarrow> string \<Rightarrow> string" where
  "demangleName cxa mangled_name =
     (case cxa (cstr mangled_name) of Some demangled_name \<Rightarrow> cstr demangled_name
      | None \<Rightarrow> mangled_name)"

text \<open>Position of the first occurrence of a character, \<open>string_view::find\<close>.\<close>

fun find_char :: "char \<Rightarrow> string \<Rightarrow> nat option" where
  "find_char c [] = None"
| "find_char c (d # ds) = (if d = c then Some 0 else map_option Suc (find_char c ds))"

definition demangleNameKokkos :: "cxa_demangle \<Rightarrow> string \<Rightarrow> string" where
  "demangleNameKokkos cxa mangled_name =
     (case find_char (CHR ''/'') mangled_name of
        Some pos \<Rightarrow>
          if 0 < pos
          then demangleName cxa (take pos mangled_name) @ ''/'' @
               demangleName cxa (drop (pos + 1) mangled_name)
          else demangleName cxa mangled_name
      | None \<Rightarrow> demangleName cxa mangled_name)"

lemma find_char_Some:
  "find_char c s = Some n \<longleftrightarrow> n < length s \<and> s ! n = c \<and> c \<notin> set (take n s)"
proof (induction c s arbitrary: n rule: find_char.induct)
  case (2 c d ds)
  then show ?case by (cases n) auto
qed simp

lemma find_char_None: "find_char c s = None \<longleftrightarrow> c \<notin> set s"
  by (induction c s rule: find_char.induct) auto

lemma find_char_append: "c \<notin> set a \<Longrightarrow> find_char c (a @ c # b) = Some (length a)"
  by (induction a) auto

text \<open>A name the ABI cannot demangle passes through unchanged.\<close>

lemma demangleNameKokkos_identity:
  assumes none: "\<And>s. cxa s = None"
  shows "demangleNameKokkos cxa name = name"
proof (cases "find_char (CHR ''/'') name")
  case (Some n)
  then have "n < length name" "name ! n = CHR ''/''" by (simp_all add: find_char_Some)
  then have "take n name @ CHR ''/'' # drop (Suc n) name = name" by (metis id_take_nth_drop)
  with Some show ?thesis by (simp add: demangleNameKokkos_def demangleName_def none)
qed (simp add: demangleNameKokkos_def demangleName_def none)

text \<open>
  A tagged kernel name \<open>functor/tag\<close> (Kokkos' convention; the functor part is not empty and
  has no slash) is demangled part by part: the first slash is the separator, and a tag that
  contains further slashes is demangled as one piece.
\<close>

theorem demangleNameKokkos_tagged:
  assumes "functor \<noteq> []" and "CHR ''/'' \<notin> set functor"
  shows "demangleNameKokkos cxa (functor @ ''/'' @ tag) =
    demangleName cxa functor @ ''/'' @ demangleName cxa tag"
  using assms by (simp add: demangleNameKokkos_def find_char_append)

text \<open>A demangler that knows one name.\<close>

definition cxa_example :: cxa_demangle where
  "cxa_example s = (if s = ''3Foo'' then Some ''Foo'' else None)"

theorem demangleNameKokkos_tagged_witness:
  "demangleNameKokkos cxa_example ''3Foo/3Tag/x'' = ''Foo/3Tag/x''"
proof -
  have "demangleNameKokkos cxa_example (''3Foo'' @ ''/'' @ ''3Tag/x'') =
      demangleName cxa_example ''3Foo'' @ ''/'' @ demangleName cxa_example ''3Tag/x''"
    by (rule demangleNameKokkos_tagged) simp_all
  then show ?thesis by (simp add: demangleName_def cxa_example_def cstr_def)
qed

end
