(* ===== verification/Kernel_Info.thy ===== *)
theory Kernel_Info
  imports Double Contracts Demangle
begin

text \<open>
  \<open>profiling/simple-kernel-timer/kp_kernel_info.h\<close>: the accumulated timing of one kernel or
  region, and the binary record it is saved as. A file is the bytes still to be read and the end-of-file
  indicator; the byte order is little endian, as on the machines the tool supports.
\<close>

section \<open>Timings\<close>

datatype KernelExecutionType = PARALLEL_FOR | PARALLEL_REDUCE | PARALLEL_SCAN | REGION

fun type_output :: "KernelExecutionType \<Rightarrow> u32" where
  "type_output PARALLEL_FOR = 0" | "type_output PARALLEL_REDUCE = 1"
| "type_output PARALLEL_SCAN = 2" | "type_output REGION = 3"

record KernelPerformanceInfo =
  kernelName :: string
  callCount :: u64
  kp_time :: double
  kp_timeSq :: double
  kp_startTime :: double
  kType :: KernelExecutionType

definition newKernelPerformanceInfo :: "string \<Rightarrow> KernelExecutionType \<Rightarrow> KernelPerformanceInfo" where
  "newKernelPerformanceInfo kName kernelType =
     \<lparr>kernelName = kName, callCount = 0, kp_time = d_zero, kp_timeSq = d_zero,
      kp_startTime = d_zero, kType = kernelType\<rparr>"

text \<open>\<open>seconds()\<close> of a \<open>gettimeofday\<close> reading: seconds and microseconds.\<close>

definition seconds :: "int \<times> int \<Rightarrow> double" where
  "seconds now = dadd (d_of_int (fst now)) (dmul (d_of_int (snd now)) (d_of_rat (1 / 10 ^ 6)))"

definition incrementCount :: "KernelPerformanceInfo \<Rightarrow> KernelPerformanceInfo" where
  "incrementCount k = k\<lparr>callCount := callCount k + 1\<rparr>"

definition addTime :: "double \<Rightarrow> KernelPerformanceInfo \<Rightarrow> KernelPerformanceInfo" where
  "addTime t k = k\<lparr>kp_time := dadd (kp_time k) t, kp_timeSq := dadd (kp_timeSq k) (dmul t t)\<rparr>"

definition addFromTimer :: "int \<times> int \<Rightarrow> KernelPerformanceInfo \<Rightarrow> KernelPerformanceInfo" where
  "addFromTimer now k = incrementCount (addTime (dsub (seconds now) (kp_startTime k)) k)"

definition startTimer :: "int \<times> int \<Rightarrow> KernelPerformanceInfo \<Rightarrow> KernelPerformanceInfo" where
  "startTimer now k = k\<lparr>kp_startTime := seconds now\<rparr>"

definition addCallCount :: "u64 \<Rightarrow> KernelPerformanceInfo \<Rightarrow> KernelPerformanceInfo" where
  "addCallCount newCalls k = k\<lparr>callCount := callCount k + newCalls\<rparr>"

lemmas info_defs = incrementCount_def addTime_def addFromTimer_def startTimer_def addCallCount_def

lemma kernelName_ops [simp]:
  "kernelName (addTime t k) = kernelName k" "kernelName (addFromTimer now k) = kernelName k"
  "kernelName (startTimer now k) = kernelName k" "kernelName (addCallCount c k) = kernelName k"
  "kernelName (newKernelPerformanceInfo n ty) = n"
  by (simp_all add: info_defs newKernelPerformanceInfo_def)

lemma kType_ops [simp]:
  "kType (addTime t k) = kType k" "kType (addFromTimer now k) = kType k"
  "kType (startTimer now k) = kType k" "kType (addCallCount c k) = kType k"
  "kType (newKernelPerformanceInfo n ty) = ty"
  by (simp_all add: info_defs newKernelPerformanceInfo_def)

lemma callCount_ops [simp]:
  "callCount (addTime t k) = callCount k" "callCount (addFromTimer now k) = callCount k + 1"
  "callCount (startTimer now k) = callCount k" "callCount (addCallCount c k) = callCount k + c"
  "callCount (newKernelPerformanceInfo n ty) = 0"
  by (simp_all add: info_defs newKernelPerformanceInfo_def)

section \<open>Bytes\<close>

fun le_bytes :: "nat \<Rightarrow> nat \<Rightarrow> u8 list" where
  "le_bytes 0 n = []"
| "le_bytes (Suc w) n = of_nat (n mod 256) # le_bytes w (n div 256)"

fun le_nat :: "u8 list \<Rightarrow> nat" where
  "le_nat [] = 0"
| "le_nat (b # bs) = unat b + 256 * le_nat bs"

definition u32_bytes :: "u32 \<Rightarrow> u8 list" where "u32_bytes w = le_bytes 4 (unat w)"
definition u64_bytes :: "u64 \<Rightarrow> u8 list" where "u64_bytes w = le_bytes 8 (unat w)"
definition u32_of_bytes :: "u8 list \<Rightarrow> u32" where "u32_of_bytes bs = of_nat (le_nat bs)"
definition u64_of_bytes :: "u8 list \<Rightarrow> u64" where "u64_of_bytes bs = of_nat (le_nat bs)"

definition chars_bytes :: "string \<Rightarrow> u8 list" where
  "chars_bytes s = map (\<lambda>c. of_nat (of_char c)) s"

definition bytes_chars :: "u8 list \<Rightarrow> string" where
  "bytes_chars bs = map (\<lambda>b. char_of (unat b)) bs"

lemma length_le_bytes [simp]: "length (le_bytes w n) = w"
  by (induction w n rule: le_bytes.induct) auto

lemma le_nat_le_bytes: "le_nat (le_bytes w n) = n mod 256 ^ w"
proof (induction w n rule: le_bytes.induct)
  case (2 w n)
  have "n mod 256 + 256 * (n div 256 mod 256 ^ w) = n mod (256 * 256 ^ w)"
    by (simp add: mod_mult2_eq)
  with 2 show ?case by (simp add: unat_of_nat)
qed simp

lemma bytes_chars_bytes [simp]: "bytes_chars (chars_bytes s) = s"
proof (induction s)
  case (Cons c s)
  have "(of_char c :: nat) < 256" by simp
  then have "unat (of_nat (of_char c) :: u8) = of_char c" by (simp add: unat_of_nat)
  with Cons show ?case by (simp add: bytes_chars_def chars_bytes_def)
qed (simp add: bytes_chars_def chars_bytes_def)

lemma length_chars_bytes [simp]: "length (chars_bytes s) = length s"
  by (simp add: chars_bytes_def)

interpretation u32_codec: byte_codec u32_bytes u32_of_bytes 4
proof
  fix w :: u32
  show "length (u32_bytes w) = 4" by (simp add: u32_bytes_def)
  have "unat w < 2 ^ 32" using unsigned_less [where ?'a = nat, of w] by simp
  then show "u32_of_bytes (u32_bytes w) = w"
    by (simp add: u32_of_bytes_def u32_bytes_def le_nat_le_bytes)
qed

interpretation u64_codec: byte_codec u64_bytes u64_of_bytes 8
proof
  fix w :: u64
  show "length (u64_bytes w) = 8" by (simp add: u64_bytes_def)
  have "unat w < 2 ^ 64" using unsigned_less [where ?'a = nat, of w] by simp
  then show "u64_of_bytes (u64_bytes w) = w"
    by (simp add: u64_of_bytes_def u64_bytes_def le_nat_le_bytes)
qed

lemmas codec_laws [simp] = u32_codec.width u64_codec.width
  u32_codec.decode_encode u64_codec.decode_encode

section \<open>Files\<close>

record FILE =
  f_bytes :: "u8 list"
  f_eof :: bool

text \<open>\<open>fread(buf, n, 1, f)\<close>: one object of \<open>n\<close> bytes, or the rest of the file and the end-of-file
  indicator; an object of no bytes reads nothing and counts as none.\<close>

definition fread1 :: "nat \<Rightarrow> FILE \<Rightarrow> u8 list option \<times> FILE" where
  "fread1 n f =
     (if n = 0 then (None, f)
      else if n \<le> length (f_bytes f)
      then (Some (take n (f_bytes f)), f\<lparr>f_bytes := drop n (f_bytes f)\<rparr>)
      else (None, f\<lparr>f_bytes := [], f_eof := True\<rparr>))"

section \<open>The binary record\<close>

text \<open>
  \<open>recordLen\<close> is computed in 64 bits and stored in 32. When it does not fit, the buffer of
  \<open>recordLen\<close> bytes is written past its end.
\<close>

definition writeToBinaryFile :: "KernelPerformanceInfo \<Rightarrow> u8 list outcome" where
  "writeToBinaryFile k = (let
     kernelNameLen = of_nat (length (kernelName k)) :: u32;
     recordSize = 4 + unat kernelNameLen + 8 + 8 + 8 + 4;
     recordLen = of_nat recordSize :: u32;
     entry = u32_bytes kernelNameLen @ take (unat kernelNameLen) (chars_bytes (kernelName k)) @
       u64_bytes (callCount k) @ u64_bytes (kp_time k) @ u64_bytes (kp_timeSq k) @
       u32_bytes (type_output (kType k))
     in if recordSize < 2 ^ 32 then Inr (u32_bytes recordLen @ entry)
        else Inl (Undefined ''writeToBinaryFile: entry overflow''))"

definition type_input :: "u32 \<Rightarrow> KernelExecutionType \<Rightarrow> KernelExecutionType" where
  "type_input kernelT old =
     (if kernelT = 0 then PARALLEL_FOR else if kernelT = 1 then PARALLEL_REDUCE
      else if kernelT = 2 then PARALLEL_SCAN else if kernelT = 3 then REGION else old)"

text \<open>
  The fields are copied out of a buffer of \<open>recordLen\<close> bytes at running offsets; an offset past
  the buffer is an out-of-bounds read. The name is demangled as it is read.
\<close>

definition readFromFile ::
  "cxa_demangle \<Rightarrow> FILE \<Rightarrow> KernelPerformanceInfo \<Rightarrow> (bool \<times> KernelPerformanceInfo \<times> FILE) outcome"
where
  "readFromFile cxa input k =
     (case fread1 4 input of
        (None, input1) \<Rightarrow> Inr (False, k, input1)
      | (Some lenb, input1) \<Rightarrow>
          (let recordLen = unat (u32_of_bytes lenb) in
           case fread1 recordLen input1 of
             (None, input2) \<Rightarrow> Inr (False, k, input2)
           | (Some entry, input2) \<Rightarrow>
               if recordLen < 4 then Inl (Undefined ''readFromFile: name length'')
               else (let len = unat (u32_of_bytes (take 4 entry)) in
                 if recordLen < 4 + len + 8 + 8 + 8 + 4
                 then Inl (Undefined ''readFromFile: past the record'')
                 else (let
                     rest = drop (4 + len) entry;
                     kernelT = u32_of_bytes (take 4 (drop 24 rest))
                   in Inr (True,
                       k\<lparr>kernelName := demangleNameKokkos cxa (bytes_chars (take len (drop 4 entry))),
                         callCount := u64_of_bytes (take 8 rest),
                         kp_time := u64_of_bytes (take 8 (drop 8 rest)),
                         kp_timeSq := u64_of_bytes (take 8 (drop 16 rest)),
                         kType := type_input kernelT (kType k)\<rparr>,
                       input2)))))"

lemma type_input_output [simp]: "type_input (type_output t) old = t"
  by (cases t) (simp_all add: type_input_def)


abbreviation fits_record :: "KernelPerformanceInfo \<Rightarrow> bool" where
  "fits_record k \<equiv> length (kernelName k) < 2 ^ 32 - 32"

definition record_entry :: "KernelPerformanceInfo \<Rightarrow> u8 list" where
  "record_entry k = u32_bytes (of_nat (length (kernelName k))) @ chars_bytes (kernelName k) @
     u64_bytes (callCount k) @ u64_bytes (kp_time k) @ u64_bytes (kp_timeSq k) @
     u32_bytes (type_output (kType k))"

lemma length_record_entry: "length (record_entry k) = 32 + length (kernelName k)"
  by (simp add: record_entry_def u32_codec.width u64_codec.width)

lemma unat_of_nat_u32: "n < 2 ^ 32 \<Longrightarrow> unat (of_nat n :: u32) = n"
  by (simp add: unat_of_nat take_bit_nat_eq_self)

lemma writeToBinaryFile_fits:
  "fits_record k \<Longrightarrow>
     writeToBinaryFile k = Inr (u32_bytes (of_nat (length (record_entry k))) @ record_entry k)"
  by (simp add: writeToBinaryFile_def Let_def unat_of_nat_u32 length_record_entry)
    (simp add: record_entry_def add.commute)

lemma fread1_append:
  "0 < length bs \<Longrightarrow>
     fread1 (length bs) \<lparr>f_bytes = bs @ rest, f_eof = e\<rparr> = (Some bs, \<lparr>f_bytes = rest, f_eof = e\<rparr>)"
  by (simp add: fread1_def)

lemma fread1_u32:
  "fread1 4 \<lparr>f_bytes = u32_bytes w @ rest, f_eof = e\<rparr> =
     (Some (u32_bytes w), \<lparr>f_bytes = rest, f_eof = e\<rparr>)"
  using fread1_append [of "u32_bytes w" rest e] by (simp add: u32_codec.width)

text \<open>The fields of an entry, at the offsets the reader uses.\<close>

lemma record_entry_fields:
  assumes "fits_record k"
  defines "n \<equiv> length (kernelName k)"
  shows "u32_of_bytes (take 4 (record_entry k)) = of_nat n"
    and "take n (drop 4 (record_entry k)) = chars_bytes (kernelName k)"
    and "drop (4 + n) (record_entry k) = u64_bytes (callCount k) @ u64_bytes (kp_time k) @
      u64_bytes (kp_timeSq k) @ u32_bytes (type_output (kType k))"
proof -
  have d4: "drop 4 (record_entry k) = chars_bytes (kernelName k) @ u64_bytes (callCount k) @
      u64_bytes (kp_time k) @ u64_bytes (kp_timeSq k) @ u32_bytes (type_output (kType k))"
    by (simp add: record_entry_def)
  show "u32_of_bytes (take 4 (record_entry k)) = of_nat n"
    by (simp add: record_entry_def n_def)
  show "take n (drop 4 (record_entry k)) = chars_bytes (kernelName k)"
    by (simp add: d4 n_def)
  have "drop (4 + n) (record_entry k) = drop n (drop 4 (record_entry k))" by (simp add: add.commute)
  then show "drop (4 + n) (record_entry k) = u64_bytes (callCount k) @ u64_bytes (kp_time k) @
      u64_bytes (kp_timeSq k) @ u32_bytes (type_output (kType k))"
    by (simp add: d4 n_def)
qed

lemma fixed_fields:
  fixes a b c :: u64 and d :: u32
  defines "r \<equiv> u64_bytes a @ u64_bytes b @ u64_bytes c @ u32_bytes d"
  shows "u64_of_bytes (take 8 r) = a" "u64_of_bytes (take 8 (drop 8 r)) = b"
    "u64_of_bytes (take 8 (drop 16 r)) = c" "u32_of_bytes (take 4 (drop 24 r)) = d"
proof -
  have d8: "drop 8 r = u64_bytes b @ u64_bytes c @ u32_bytes d" by (simp add: r_def)
  have "drop 16 r = drop 8 (drop 8 r)" by simp
  then have d16: "drop 16 r = u64_bytes c @ u32_bytes d" by (simp add: d8 del: drop_drop)
  have "drop 24 r = drop 8 (drop 16 r)" by simp
  then have d24: "drop 24 r = u32_bytes d" by (simp add: d16 del: drop_drop)
  show "u64_of_bytes (take 8 r) = a" by (simp add: r_def)
  show "u64_of_bytes (take 8 (drop 8 r)) = b" by (simp add: d8)
  show "u64_of_bytes (take 8 (drop 16 r)) = c" by (simp add: d16)
  show "u32_of_bytes (take 4 (drop 24 r)) = d"
    using u32_codec.decode_take [of d "[]"] by (simp add: d24)
qed

lemma record_roundtrip:
  assumes "fits_record k"
  shows "\<exists>bs. writeToBinaryFile k = Inr bs
    \<and> readFromFile cxa \<lparr>f_bytes = bs @ rest, f_eof = e\<rparr> k_in =
        Inr (True, k_in\<lparr>kernelName := demangleNameKokkos cxa (kernelName k), callCount := callCount k,
          kp_time := kp_time k, kp_timeSq := kp_timeSq k, kType := kType k\<rparr>,
          \<lparr>f_bytes = rest, f_eof = e\<rparr>)"
proof -
  let ?en = "record_entry k" and ?n = "length (kernelName k)"
  have len: "unat (of_nat (length ?en) :: u32) = length ?en" "unat (of_nat ?n :: u32) = ?n"
    by (rule unat_of_nat_u32, use assms in \<open>simp add: length_record_entry\<close>)+
  have room: "\<not> length ?en < 4" "\<not> length ?en < 32 + ?n"
    by (simp_all add: length_record_entry)
  have rd: "fread1 (length ?en) \<lparr>f_bytes = ?en @ rest, f_eof = e\<rparr> =
      (Some ?en, \<lparr>f_bytes = rest, f_eof = e\<rparr>)"
    by (rule fread1_append) (simp add: length_record_entry)
  note fields = record_entry_fields [OF assms]
  show ?thesis unfolding writeToBinaryFile_fits [OF assms]
    by (simp add: readFromFile_def fread1_u32 len room rd fields fixed_fields Let_def)
qed

text \<open>
  Saving and loading a kernel's timing is lossless: for a name that fits a record, what
  \<open>writeToBinaryFile\<close> writes is read back by \<open>readFromFile\<close>, which consumes exactly those bytes
  and returns the same call count, times (bit for bit) and type, and the demangled name.
\<close>

theorem readFromFile_writeToBinaryFile:
  assumes "fits_record k"
  shows "\<exists>bs. writeToBinaryFile k = Inr bs
    \<and> readFromFile cxa \<lparr>f_bytes = bs @ rest, f_eof = e\<rparr> k_in =
        Inr (True, k_in\<lparr>kernelName := demangleNameKokkos cxa (kernelName k), callCount := callCount k,
          kp_time := kp_time k, kp_timeSq := kp_timeSq k, kType := kType k\<rparr>,
          \<lparr>f_bytes = rest, f_eof = e\<rparr>)"
  by (rule record_roundtrip [OF assms])

definition example_info :: KernelPerformanceInfo where
  "example_info = \<lparr>kernelName = ''axpy'', callCount = 3, kp_time = 0x3FF8000000000000,
     kp_timeSq = 0x4002000000000000, kp_startTime = 7, kType = PARALLEL_REDUCE\<rparr>"

theorem readFromFile_writeToBinaryFile_witness:
  "\<exists>bs f. writeToBinaryFile example_info = Inr bs
    \<and> readFromFile (\<lambda>_. None) \<lparr>f_bytes = bs @ [1, 2], f_eof = False\<rparr>
        (newKernelPerformanceInfo [] PARALLEL_FOR) =
      Inr (True, example_info\<lparr>kp_startTime := d_zero\<rparr>, \<lparr>f_bytes = [1, 2], f_eof = False\<rparr>)"
proof -
  have "fits_record example_info" by (simp add: example_info_def)
  from readFromFile_writeToBinaryFile [OF this, where cxa = "\<lambda>_. None" and rest = "[1, 2]"
      and e = False and k_in = "newKernelPerformanceInfo [] PARALLEL_FOR"]
  show ?thesis
    by (simp add: demangleNameKokkos_identity newKernelPerformanceInfo_def example_info_def)
qed

end
