(* ===== verification/Ordered_Map.thy ===== *)
theory Ordered_Map
  imports Contracts
begin

text \<open>
  \<open>std::map\<close> and \<open>std::set\<close>: a list of entries kept in the order of the comparison object, which
  every operation takes as its argument \<open>lt\<close>; a search finds an entry whose key compares neither
  way with the one looked for. Under \<open>key_order\<close> the entries are the map they look like.
\<close>

fun om_find :: "('k \<Rightarrow> 'k \<Rightarrow> bool) \<Rightarrow> 'k \<Rightarrow> ('k \<times> 'v) list \<Rightarrow> 'v option" where
  "om_find lt k [] = None"
| "om_find lt k ((k', v) # m) =
     (if lt k' k then om_find lt k m else if lt k k' then None else Some v)"

text \<open>\<open>insert\<close> and \<open>emplace\<close>: an equivalent key that is already there stays.\<close>

fun om_insert :: "('k \<Rightarrow> 'k \<Rightarrow> bool) \<Rightarrow> 'k \<Rightarrow> 'v \<Rightarrow> ('k \<times> 'v) list \<Rightarrow> ('k \<times> 'v) list" where
  "om_insert lt k v [] = [(k, v)]"
| "om_insert lt k v ((k', v') # m) =
     (if lt k' k then (k', v') # om_insert lt k v m
      else if lt k k' then (k, v) # (k', v') # m else (k', v') # m)"

text \<open>Modify the value of a key in place.\<close>

fun om_update :: "('k \<Rightarrow> 'k \<Rightarrow> bool) \<Rightarrow> 'k \<Rightarrow> ('v \<Rightarrow> 'v) \<Rightarrow> ('k \<times> 'v) list \<Rightarrow> ('k \<times> 'v) list" where
  "om_update lt k f [] = []"
| "om_update lt k f ((k', v) # m) =
     (if lt k' k then (k', v) # om_update lt k f m
      else if lt k k' then (k', v) # m else (k', f v) # m)"

fun om_erase :: "('k \<Rightarrow> 'k \<Rightarrow> bool) \<Rightarrow> 'k \<Rightarrow> ('k \<times> 'v) list \<Rightarrow> ('k \<times> 'v) list" where
  "om_erase lt k [] = []"
| "om_erase lt k ((k', v) # m) =
     (if lt k' k then (k', v) # om_erase lt k m
      else if lt k k' then (k', v) # m else m)"

definition om_sorted :: "('k \<Rightarrow> 'k \<Rightarrow> bool) \<Rightarrow> ('k \<times> 'v) list \<Rightarrow> bool" where
  "om_sorted lt m = sorted_wrt lt (map fst m)"

lemma om_sorted_simps [simp]:
  "om_sorted lt []"
  "om_sorted lt ((k, v) # m) \<longleftrightarrow> (\<forall>k' \<in> fst ` set m. lt k k') \<and> om_sorted lt m"
  by (auto simp: om_sorted_def)

lemma keys_om_update [simp]: "map fst (om_update lt k f m) = map fst m"
  by (induction lt k f m rule: om_update.induct) auto

lemma om_sorted_update [simp]: "om_sorted lt (om_update lt k f m) = om_sorted lt m"
  by (simp add: om_sorted_def)

context key_order
begin

lemma order_cases [case_names less equal greater]:
  obtains "lt a b" "\<not> lt b a" "a \<noteq> b" | "a = b" "\<not> lt a b" | "lt b a" "\<not> lt a b" "a \<noteq> b"
  using irrefl asym total by metis

lemma om_find_none: "\<forall>k' \<in> fst ` set m. lt k k' \<Longrightarrow> map_of m k = None"
  using irrefl by (auto simp: map_of_eq_None_iff)

lemma om_find_map_of: "om_sorted lt m \<Longrightarrow> om_find lt k m = map_of m k"
proof (induction m)
  case (Cons e m)
  obtain k' v where e: "e = (k', v)" by (cases e)
  show ?case
  proof (cases k' k rule: order_cases)
    case greater
    then have "map_of m k = None"
      using Cons.prems e trans by (intro om_find_none) auto
    with greater show ?thesis by (simp add: e)
  qed (use Cons e in simp_all)
qed simp

lemma keys_om_insert: "fst ` set (om_insert lt k v m) = insert k (fst ` set m)"
proof (induction m)
  case (Cons e m)
  obtain k' w where e: "e = (k', w)" by (cases e)
  show ?case using Cons by (cases k' k rule: order_cases) (auto simp: e)
qed simp

lemma om_sorted_insert [simp]: "om_sorted lt m \<Longrightarrow> om_sorted lt (om_insert lt k v m)"
proof (induction m)
  case (Cons e m)
  obtain k' w where e: "e = (k', w)" by (cases e)
  show ?case using Cons
    by (cases k' k rule: order_cases) (auto simp: e keys_om_insert intro: trans)
qed simp

lemma map_of_om_insert:
  "om_sorted lt m \<Longrightarrow>
     map_of (om_insert lt k v m) = (if map_of m k = None then (map_of m)(k \<mapsto> v) else map_of m)"
proof (induction m)
  case (Cons e m)
  obtain k' w where e: "e = (k', w)" by (cases e)
  show ?case
  proof (cases k' k rule: order_cases)
    case less
    with Cons show ?thesis by (auto simp: e fun_upd_twist)
  next
    case equal
    then show ?thesis by (simp add: e)
  next
    case greater
    then have "map_of m k = None"
      using Cons.prems e trans by (intro om_find_none) auto
    with greater show ?thesis by (simp add: e)
  qed
qed simp

lemma map_of_om_update:
  "om_sorted lt m \<Longrightarrow> map_of (om_update lt k f m) = (map_of m)(k := map_option f (map_of m k))"
proof (induction m)
  case (Cons e m)
  obtain k' w where e: "e = (k', w)" by (cases e)
  show ?case
  proof (cases k' k rule: order_cases)
    case less
    with Cons show ?thesis by (auto simp: e fun_upd_twist)
  next
    case equal
    then show ?thesis by (auto simp: e fun_eq_iff)
  next
    case greater
    then have "map_of m k = None"
      using Cons.prems e trans by (intro om_find_none) auto
    with greater show ?thesis by (auto simp: e fun_eq_iff)
  qed
qed (simp add: fun_eq_iff)

lemma om_sorted_erase [simp]: "om_sorted lt m \<Longrightarrow> om_sorted lt (om_erase lt k m)"
  and keys_om_erase: "om_sorted lt m \<Longrightarrow> fst ` set (om_erase lt k m) = fst ` set m - {k}"
proof (induction m)
  case (Cons e m)
  obtain k' w where e: "e = (k', w)" by (cases e)
  { case 1 with Cons e show ?case by (cases k' k rule: order_cases) auto
  next
    case 2
    show ?case
    proof (cases k' k rule: order_cases)
      case greater
      then have "k \<notin> fst ` set m" using 2 e trans irrefl by auto
      with greater show ?thesis by (simp add: e)
    qed (use Cons 2 e irrefl in auto)
  }
qed simp_all

lemma map_of_om_erase:
  "om_sorted lt m \<Longrightarrow> map_of (om_erase lt k m) = (map_of m)(k := None)"
proof (induction m)
  case (Cons e m)
  obtain k' w where e: "e = (k', w)" by (cases e)
  show ?case
  proof (cases k' k rule: order_cases)
    case less
    with Cons show ?thesis by (auto simp: e fun_upd_twist)
  next
    case equal
    then have "map_of m k = None" using Cons.prems e by (intro om_find_none) auto
    with equal show ?thesis by (auto simp: e fun_eq_iff)
  next
    case greater
    then have "map_of m k = None"
      using Cons.prems e trans by (intro om_find_none) auto
    with greater show ?thesis by (auto simp: e fun_eq_iff)
  qed
qed (simp add: fun_eq_iff)

lemma om_sorted_distinct: "om_sorted lt m \<Longrightarrow> distinct (map fst m)"
proof (induction m)
  case (Cons e m)
  then show ?case using irrefl by (cases e) auto
qed simp

lemma om_find_in: "om_sorted lt m \<Longrightarrow> om_find lt k m = Some v \<Longrightarrow> (k, v) \<in> set m"
  by (simp add: om_find_map_of map_of_SomeD)

lemma om_find_iff: "om_sorted lt m \<Longrightarrow> om_find lt k m = Some v \<longleftrightarrow> (k, v) \<in> set m"
  by (simp add: om_find_map_of om_sorted_distinct)

lemmas om_simps = om_find_map_of map_of_om_insert map_of_om_update map_of_om_erase

end

section \<open>The orders of the containers in the tools\<close>

text \<open>\<open>std::string\<close> compares bytes as unsigned characters, lexicographically.\<close>

fun str_less :: "string \<Rightarrow> string \<Rightarrow> bool" where
  "str_less s [] = False"
| "str_less [] (c # cs) = True"
| "str_less (a # as) (b # bs) =
     ((of_char a :: nat) < of_char b \<or> (of_char a :: nat) = of_char b \<and> str_less as bs)"

lemma str_less_irrefl: "\<not> str_less s s"
  by (induction s) auto

lemma str_less_trans: "str_less a b \<Longrightarrow> str_less b c \<Longrightarrow> str_less a c"
proof (induction a b arbitrary: c rule: str_less.induct)
  case (2 b bs)
  then show ?case by (cases c) auto
next
  case (3 a as b bs)
  then show ?case by (cases c) auto
qed auto

lemma str_less_total: "a \<noteq> b \<Longrightarrow> str_less a b \<or> str_less b a"
proof (induction a b rule: str_less.induct)
  case (1 s)
  then show ?case by (cases s) auto
next
  case (3 a as b bs)
  then show ?case using inj_of_char [where ?'a = nat] by (auto dest: injD)
qed auto

interpretation str_order: key_order str_less
  using str_less_irrefl str_less_trans str_less_total by unfold_locales blast+

end
