(* ===== verification/Kernel_Timer.thy ===== *)
theory Kernel_Timer
  imports Kernel_Info Ordered_Map Interface
begin

text \<open>
  The simple kernel timer: the global state of \<open>profiling/simple-kernel-timer/kp_shared.cpp\<close> and
  the callbacks of \<open>kp_kernel_timer.cpp\<close> (the report is in \<open>Timer_Report\<close>).

  \<open>KernelPerformanceInfo\<close> objects are allocated by \<open>new\<close>, never freed, and shared: \<open>count_map\<close>,
  \<open>currentEntry\<close> and \<open>regions\<close> hold pointers to the same objects. The store \<open>kt_infos\<close> lists them
  in allocation order and a pointer is an index into it. \<open>count_map\<close> is the \<open>std::map\<close> from names,
  a list ordered by \<open>str_less\<close>. Every callback takes the clock reading it would get from
  \<open>gettimeofday\<close> as an argument.
\<close>

record timer_state =
  kt_uniqID :: u64
  kt_infos :: "KernelPerformanceInfo list"
  kt_currentEntry :: "nat option"
  kt_count_map :: "(string \<times> nat) list"
  kt_initTime :: double
  kt_outputDelimiter :: string
  kt_current_region_level :: int
  kt_regions :: "nat option list"
  kt_stdout :: "token list"
  kt_stderr :: "token list"

text \<open>Static initialisation of the globals.\<close>

definition timer_start :: timer_state where
  "timer_start = \<lparr>kt_uniqID = 0, kt_infos = [], kt_currentEntry = None, kt_count_map = [],
     kt_initTime = d_zero, kt_outputDelimiter = [], kt_current_region_level = 0,
     kt_regions = replicate 512 None, kt_stdout = [], kt_stderr = []\<rparr>"

definition modify_info :: "nat \<Rightarrow> (KernelPerformanceInfo \<Rightarrow> KernelPerformanceInfo) \<Rightarrow> timer_state \<Rightarrow> timer_state" where
  "modify_info p f s = s\<lparr>kt_infos := (kt_infos s)[p := f (kt_infos s ! p)]\<rparr>"

text \<open>The entry of a name: the one \<open>count_map\<close> has, or a new one put into it.\<close>

definition lookup_or_new :: "string \<Rightarrow> KernelExecutionType \<Rightarrow> timer_state \<Rightarrow> nat \<times> timer_state" where
  "lookup_or_new name ty s =
     (case om_find str_less name (kt_count_map s) of
        None \<Rightarrow> (length (kt_infos s),
          s\<lparr>kt_infos := kt_infos s @ [newKernelPerformanceInfo name ty],
            kt_count_map := om_insert str_less name (length (kt_infos s)) (kt_count_map s)\<rparr>)
      | Some p \<Rightarrow> (p, s))"

definition increment_counter :: "int \<times> int \<Rightarrow> string \<Rightarrow> KernelExecutionType \<Rightarrow> timer_state \<Rightarrow> timer_state" where
  "increment_counter now name ty s = (let (p, s1) = lookup_or_new name ty s
     in modify_info p (startTimer now) (s1\<lparr>kt_currentEntry := Some p\<rparr>))"

definition increment_counter_region ::
  "int \<times> int \<Rightarrow> string \<Rightarrow> KernelExecutionType \<Rightarrow> timer_state \<Rightarrow> timer_state outcome" where
  "increment_counter_region now name ty s = (let (p, s1) = lookup_or_new name ty s;
       level = kt_current_region_level s1
     in if 0 \<le> level \<and> level < 512
        then Inr ((modify_info p (startTimer now) (s1\<lparr>kt_regions := (kt_regions s1)[nat level := Some p]\<rparr>))
               \<lparr>kt_current_region_level := level + 1\<rparr>)
        else Inl (Undefined ''regions[current_region_level]''))"

definition kt_init_library ::
  "int \<Rightarrow> u64 \<Rightarrow> string option \<Rightarrow> int \<times> int \<Rightarrow> timer_state \<Rightarrow> timer_state" where
  "kt_init_library loadSeq interfaceVer output_delim_env now s = s
     \<lparr>kt_outputDelimiter := (case output_delim_env of None \<Rightarrow> '' '' | Some d \<Rightarrow> d),
      kt_regions := replicate 512 None,
      kt_stdout := kt_stdout s @
        [Txt (''KokkosP: Simple Kernel Timer Library Initialized (sequence is '' @ dec_int loadSeq
          @ '', version: '' @ dec_nat (unat interfaceVer) @ '')'' @ eol)],
      kt_initTime := seconds now\<rparr>"

fun kind_type :: "pkind \<Rightarrow> KernelExecutionType" where
  "kind_type ParFor = PARALLEL_FOR" | "kind_type ParReduce = PARALLEL_REDUCE"
| "kind_type ParScan = PARALLEL_SCAN"

text \<open>
  \<open>kokkosp_begin_parallel_for\<close>, \<open>_scan\<close> and \<open>_reduce\<close> differ in the type only. The name is a
  pointer: \<open>None\<close> is \<open>NULL\<close>.
\<close>

definition begin_parallel ::
  "KernelExecutionType \<Rightarrow> int \<times> int \<Rightarrow> string option \<Rightarrow> timer_state \<Rightarrow> (u64 \<times> timer_state) outcome" where
  "begin_parallel ty now name s = (let kID = kt_uniqID s; s1 = s\<lparr>kt_uniqID := kt_uniqID s + 1\<rparr> in
     case name of
       None \<Rightarrow> Inl (Exit (- 1))
     | Some n \<Rightarrow> if n = [] then Inl (Exit (- 1)) else Inr (kID, increment_counter now n ty s1))"

definition kt_begin_parallel_for :: "int \<times> int \<Rightarrow> string option \<Rightarrow> timer_state \<Rightarrow> (u64 \<times> timer_state) outcome" where
  "kt_begin_parallel_for = begin_parallel PARALLEL_FOR"

definition kt_begin_parallel_scan :: "int \<times> int \<Rightarrow> string option \<Rightarrow> timer_state \<Rightarrow> (u64 \<times> timer_state) outcome" where
  "kt_begin_parallel_scan = begin_parallel PARALLEL_SCAN"

definition kt_begin_parallel_reduce :: "int \<times> int \<Rightarrow> string option \<Rightarrow> timer_state \<Rightarrow> (u64 \<times> timer_state) outcome" where
  "kt_begin_parallel_reduce = begin_parallel PARALLEL_REDUCE"

text \<open>The three \<open>kokkosp_end_parallel_\<close> callbacks are the same function; the kernel identifier is not used.\<close>

definition kt_end_parallel :: "int \<times> int \<Rightarrow> u64 \<Rightarrow> timer_state \<Rightarrow> timer_state outcome" where
  "kt_end_parallel now kID s =
     (case kt_currentEntry s of
        None \<Rightarrow> Inl (Undefined ''currentEntry is null'')
      | Some p \<Rightarrow> Inr (modify_info p (addFromTimer now) s))"

definition kt_push_profile_region :: "int \<times> int \<Rightarrow> string \<Rightarrow> timer_state \<Rightarrow> timer_state outcome" where
  "kt_push_profile_region now regionName = increment_counter_region now regionName REGION"

text \<open>The names of the first five regions up to a null pointer, as the warning lists them.\<close>

fun region_names :: "KernelPerformanceInfo list \<Rightarrow> string \<Rightarrow> nat option list \<Rightarrow> string" where
  "region_names infos sep [] = []"
| "region_names infos sep (None # rs) = []"
| "region_names infos sep (Some p # rs) =
     sep @ kernelName (infos ! p) @ region_names infos '';'' rs"

definition kt_pop_profile_region :: "int \<times> int \<Rightarrow> timer_state \<Rightarrow> timer_state outcome" where
  "kt_pop_profile_region now s = (let level = kt_current_region_level s - 1 in
     if level < 0
     then Inr (s\<lparr>kt_current_region_level := 0,
       kt_stderr := kt_stderr s @
         [Txt (''WARNING:: Kokkos::Profiling::popRegion() called outside '' @
            '' of an actve region. Previous regions: '' @
            region_names (kt_infos s) '' '' (take 5 (kt_regions s)) @ eol)]\<rparr>)
     else if 512 \<le> level then Inl (Undefined ''regions[current_region_level]'')
     else (case kt_regions s ! nat level of
        None \<Rightarrow> Inl (Undefined ''regions[current_region_level] is null'')
      | Some p \<Rightarrow> Inr (modify_info p (addFromTimer now) (s\<lparr>kt_current_region_level := level\<rparr>))))"

section \<open>Events\<close>

datatype timer_event =
    KBegin pkind "string option" "int \<times> int" | KEnd pkind u64 "int \<times> int"
  | RPush string "int \<times> int" | RPop "int \<times> int"

fun timer_step :: "timer_state \<Rightarrow> timer_event \<Rightarrow> (timer_state \<times> u64 option) outcome" where
  "timer_step s (KBegin k name now) =
     (case (case k of ParFor \<Rightarrow> kt_begin_parallel_for | ParReduce \<Rightarrow> kt_begin_parallel_reduce
            | ParScan \<Rightarrow> kt_begin_parallel_scan) now name s of
        Inl x \<Rightarrow> Inl x | Inr (i, s') \<Rightarrow> Inr (s', Some i))"
| "timer_step s (KEnd k kID now) =
     (case kt_end_parallel now kID s of Inl x \<Rightarrow> Inl x | Inr s' \<Rightarrow> Inr (s', None))"
| "timer_step s (RPush name now) =
     (case kt_push_profile_region now name s of Inl x \<Rightarrow> Inl x | Inr s' \<Rightarrow> Inr (s', None))"
| "timer_step s (RPop now) =
     (case kt_pop_profile_region now s of Inl x \<Rightarrow> Inl x | Inr s' \<Rightarrow> Inr (s', None))"

lemma timer_step_begin:
  "timer_step s (KBegin k name now) =
     (case begin_parallel (kind_type k) now name s of Inl x \<Rightarrow> Inl x | Inr (i, s') \<Rightarrow> Inr (s', Some i))"
  by (cases k) (simp_all add: kt_begin_parallel_for_def kt_begin_parallel_reduce_def
      kt_begin_parallel_scan_def)

declare timer_step.simps(1) [simp del] timer_step_begin [simp]

definition timer_next :: "timer_state \<Rightarrow> timer_event \<Rightarrow> timer_state outcome" where
  "timer_next s e = (case timer_step s e of Inl x \<Rightarrow> Inl x | Inr (s', i) \<Rightarrow> Inr s')"

section \<open>Invariant\<close>

text \<open>
  Every object is in \<open>count_map\<close> under its own name, exactly once; the other pointers point to
  objects: \<open>currentEntry\<close>, and every slot of \<open>regions\<close> that is not null, also those at or above the region level,
  which a pop outside of any region still reads. Below the region level no slot is null.
\<close>

definition regions_ok :: "timer_state \<Rightarrow> bool" where
  "regions_ok s \<longleftrightarrow> length (kt_regions s) = 512 \<and> 0 \<le> kt_current_region_level s
     \<and> kt_current_region_level s \<le> 512
     \<and> (\<forall>i < nat (kt_current_region_level s). \<exists>p < length (kt_infos s). kt_regions s ! i = Some p)
     \<and> (\<forall>p. Some p \<in> set (kt_regions s) \<longrightarrow> p < length (kt_infos s))"

definition map_ok :: "timer_state \<Rightarrow> bool" where
  "map_ok s \<longleftrightarrow> om_sorted str_less (kt_count_map s)
     \<and> (\<forall>n p. map_of (kt_count_map s) n = Some p \<longrightarrow> p < length (kt_infos s) \<and> kernelName (kt_infos s ! p) = n)
     \<and> (\<forall>p < length (kt_infos s). map_of (kt_count_map s) (kernelName (kt_infos s ! p)) = Some p)"

definition timer_inv :: "timer_state \<Rightarrow> bool" where
  "timer_inv s \<longleftrightarrow> map_ok s \<and> regions_ok s
     \<and> (\<forall>p. kt_currentEntry s = Some p \<longrightarrow> p < length (kt_infos s))"

lemma timer_inv_start: "timer_inv timer_start"
  by (simp add: timer_inv_def map_ok_def regions_ok_def timer_start_def)


text \<open>The invariant through the two building blocks.\<close>

lemma in_set_update: "x \<in> set (xs[i := y]) \<Longrightarrow> x = y \<or> x \<in> set xs"
  using set_update_subset_insert [of xs i y] by blast

lemma modify_info_sel [simp]:
  "kt_uniqID (modify_info p f s) = kt_uniqID s"
  "kt_currentEntry (modify_info p f s) = kt_currentEntry s"
  "kt_count_map (modify_info p f s) = kt_count_map s"
  "kt_current_region_level (modify_info p f s) = kt_current_region_level s"
  "kt_regions (modify_info p f s) = kt_regions s"
  "length (kt_infos (modify_info p f s)) = length (kt_infos s)"
  by (simp_all add: modify_info_def)

lemma names_modify_info:
  assumes "\<And>k. kernelName (f k) = kernelName k"
  shows "map kernelName (kt_infos (modify_info p f s)) = map kernelName (kt_infos s)"
  using assms by (simp add: modify_info_def map_update) (metis list_update_id map_update)

lemma name_modify_info:
  assumes "\<And>k. kernelName (f k) = kernelName k" and "q < length (kt_infos s)"
  shows "kernelName (kt_infos (modify_info p f s) ! q) = kernelName (kt_infos s ! q)"
  using arg_cong [OF names_modify_info [of f p s, OF assms(1)], where f = "\<lambda>xs. xs ! q"] assms(2)
  by simp

lemma map_ok_modify_info:
  assumes "\<And>k. kernelName (f k) = kernelName k" and "map_ok s"
  shows "map_ok (modify_info p f s)"
  using assms(2) by (auto simp: map_ok_def name_modify_info [OF assms(1)])

lemma regions_ok_modify_info [simp]: "regions_ok (modify_info p f s) = regions_ok s"
  by (simp add: regions_ok_def)

lemma timer_inv_modify_info:
  "(\<And>k. kernelName (f k) = kernelName k) \<Longrightarrow> timer_inv s \<Longrightarrow> timer_inv (modify_info p f s)"
  by (simp add: timer_inv_def map_ok_modify_info)

lemma lookup_or_new_result:
  assumes inv: "timer_inv s" and look: "lookup_or_new name ty s = (p, s1)"
  shows "timer_inv s1" and "p < length (kt_infos s1)" and "kernelName (kt_infos s1 ! p) = name"
    and "kt_current_region_level s1 = kt_current_region_level s" and "kt_regions s1 = kt_regions s"
    and "kt_currentEntry s1 = kt_currentEntry s" and "kt_uniqID s1 = kt_uniqID s"
    and "map_of (kt_count_map s1) = (map_of (kt_count_map s))(name \<mapsto> p)"
proof -
  from inv have m: "map_ok s" and r: "regions_ok s" by (simp_all add: timer_inv_def)
  then have so: "om_sorted str_less (kt_count_map s)" by (simp add: map_ok_def)
  have "timer_inv s1 \<and> p < length (kt_infos s1) \<and> kernelName (kt_infos s1 ! p) = name
    \<and> map_of (kt_count_map s1) = (map_of (kt_count_map s))(name \<mapsto> p)"
  proof (cases "map_of (kt_count_map s) name")
    case None
    then have eq: "s1 = s\<lparr>kt_infos := kt_infos s @ [newKernelPerformanceInfo name ty],
        kt_count_map := om_insert str_less name (length (kt_infos s)) (kt_count_map s)\<rparr>"
      and p: "p = length (kt_infos s)"
      using look so by (auto simp: lookup_or_new_def str_order.om_find_map_of)
    have mo: "map_of (kt_count_map s1) = (map_of (kt_count_map s))(name \<mapsto> p)"
      using None so by (simp add: eq p str_order.map_of_om_insert)
    have "map_ok s1" unfolding map_ok_def mo
      using m None so by (auto simp: eq p map_ok_def nth_append less_Suc_eq split: if_splits)
    moreover have "regions_ok s1" using r by (fastforce simp: regions_ok_def eq)
    ultimately show ?thesis using inv mo by (auto simp: timer_inv_def eq p less_Suc_eq)
  next
    case (Some q)
    then have "s1 = s" "p = q"
      using look so by (auto simp: lookup_or_new_def str_order.om_find_map_of)
    with Some inv m show ?thesis by (auto simp: map_ok_def)
  qed
  then show "timer_inv s1" "p < length (kt_infos s1)" "kernelName (kt_infos s1 ! p) = name"
    "map_of (kt_count_map s1) = (map_of (kt_count_map s))(name \<mapsto> p)" by blast+
  show "kt_current_region_level s1 = kt_current_region_level s" "kt_regions s1 = kt_regions s"
    "kt_currentEntry s1 = kt_currentEntry s" "kt_uniqID s1 = kt_uniqID s"
    using look by (auto simp: lookup_or_new_def split: option.splits)
qed

lemma timer_inv_increment_counter:
  assumes "timer_inv s"
  shows "timer_inv (increment_counter now name ty s)"
proof -
  obtain p s1 where l: "lookup_or_new name ty s = (p, s1)" by force
  note r = lookup_or_new_result [OF assms l]
  have "timer_inv (s1\<lparr>kt_currentEntry := Some p\<rparr>)"
    using r(1,2) by (simp add: timer_inv_def map_ok_def regions_ok_def)
  then show ?thesis by (simp add: increment_counter_def l timer_inv_modify_info)
qed

lemma increment_counter_region_result:
  assumes "timer_inv s" and "increment_counter_region now name ty s = Inr s'"
  shows "timer_inv s'" and "kt_current_region_level s' = kt_current_region_level s + 1"
    and "\<exists>p. kt_regions s' = (kt_regions s)[nat (kt_current_region_level s) := Some p]"
    and "kt_current_region_level s < 512" and "kt_uniqID s' = kt_uniqID s"
proof -
  obtain p s1 where l: "lookup_or_new name ty s = (p, s1)" by force
  note r = lookup_or_new_result [OF assms(1) l]
  let ?l = "kt_current_region_level s"
  let ?s2 = "modify_info p (startTimer now) (s1\<lparr>kt_regions := (kt_regions s1)[nat ?l := Some p]\<rparr>)"
  from assms(2) have l0: "0 \<le> ?l" "?l < 512" and eq: "s' = ?s2\<lparr>kt_current_region_level := ?l + 1\<rparr>"
    by (auto simp: increment_counter_region_def l r(4) Let_def split: if_splits)
  have "map_ok (s1\<lparr>kt_regions := (kt_regions s1)[nat ?l := Some p]\<rparr>)"
    using r(1) by (simp add: timer_inv_def map_ok_def)
  then have "map_ok ?s2" by (simp add: map_ok_modify_info)
  then have "map_ok s'" by (simp add: eq map_ok_def)
  moreover have "regions_ok s'"
    using r(1,2,4,5) l0 by (auto simp: timer_inv_def regions_ok_def eq nth_list_update dest!: in_set_update)
  ultimately show "timer_inv s'" using r(1,2) by (auto simp: timer_inv_def eq)
  show "kt_current_region_level s' = ?l + 1" by (simp add: eq)
  show "\<exists>p. kt_regions s' = (kt_regions s)[nat ?l := Some p]" using r(5) by (auto simp: eq)
  show "kt_current_region_level s < 512" by (fact l0)
  show "kt_uniqID s' = kt_uniqID s" using r(7) by (simp add: eq)
qed

lemma timer_inv_level:
  "timer_inv s \<Longrightarrow> 0 \<le> l \<Longrightarrow> l \<le> kt_current_region_level s \<Longrightarrow>
     timer_inv (s\<lparr>kt_current_region_level := l, kt_stderr := e\<rparr>)"
  by (auto simp: timer_inv_def map_ok_def regions_ok_def)

text \<open>A pop inside a region credits the innermost one; outside it only resets the level.\<close>

lemma pop_region_cases:
  assumes "timer_inv s"
  obtains (outside) e where "kt_current_region_level s = 0"
      "kt_pop_profile_region now s = Inr (s\<lparr>kt_current_region_level := 0, kt_stderr := e\<rparr>)"
  | (inside) p l where "kt_current_region_level s = int (Suc l)" "l < 512"
      "p < length (kt_infos s)" "kt_regions s ! l = Some p"
      "kt_pop_profile_region now s =
         Inr (modify_info p (addFromTimer now) (s\<lparr>kt_current_region_level := int l\<rparr>))"
proof (cases "kt_current_region_level s = 0")
  case True
  then show ?thesis using outside by (simp add: kt_pop_profile_region_def)
next
  case False
  define l where "l = nat (kt_current_region_level s - 1)"
  have l: "kt_current_region_level s = int (Suc l)"
    using assms False by (simp add: timer_inv_def regions_ok_def l_def)
  with assms have "l < 512" and "\<exists>p < length (kt_infos s). kt_regions s ! l = Some p"
    by (auto simp: timer_inv_def regions_ok_def)
  then show ?thesis using inside [of l] l by (auto simp: kt_pop_profile_region_def Let_def)
qed

lemma pop_region_result:
  assumes "timer_inv s" and "kt_pop_profile_region now s = Inr s'"
  shows "timer_inv s'" and "kt_regions s' = kt_regions s"
    and "kt_current_region_level s' = max 0 (kt_current_region_level s - 1)"
    and "kt_uniqID s' = kt_uniqID s"
proof -
  have "timer_inv s' \<and> kt_regions s' = kt_regions s \<and>
      kt_current_region_level s' = max 0 (kt_current_region_level s - 1) \<and> kt_uniqID s' = kt_uniqID s"
  proof (cases rule: pop_region_cases [OF assms(1), where now = now, case_names outside inside])
    case (outside e)
    then show ?thesis using assms timer_inv_level [of s 0 e] by auto
  next
    case (inside p l)
    then show ?thesis using assms timer_inv_level [of s "int l" "kt_stderr s"]
        timer_inv_modify_info [of "addFromTimer now" "s\<lparr>kt_current_region_level := int l\<rparr>" p]
      by auto
  qed
  then show "timer_inv s'" "kt_regions s' = kt_regions s"
    "kt_current_region_level s' = max 0 (kt_current_region_level s - 1)"
    "kt_uniqID s' = kt_uniqID s" by blast+
qed

lemma timer_next_inv:
  assumes inv: "timer_inv s" and st: "timer_next s e = Inr s'"
  shows "timer_inv s'"
proof -
  have uid: "timer_inv (s\<lparr>kt_uniqID := i\<rparr>)" for i
    using inv by (simp add: timer_inv_def map_ok_def regions_ok_def)
  from st show ?thesis
  proof (cases e)
    case (KBegin k name now)
    with st uid show ?thesis
      by (auto simp: timer_next_def begin_parallel_def Let_def timer_inv_increment_counter
          split: option.splits if_splits)
  next
    case (KEnd k kID now)
    with st inv show ?thesis
      by (auto simp: timer_next_def kt_end_parallel_def timer_inv_modify_info split: option.splits)
  next
    case (RPush name now)
    with st inv show ?thesis
      by (auto simp: timer_next_def kt_push_profile_region_def increment_counter_region_result
          split: sum.splits)
  next
    case (RPop now)
    with st inv show ?thesis
      by (auto simp: timer_next_def pop_region_result split: sum.splits)
  qed
qed

text \<open>
  C11. Whatever callbacks arrive, in whatever order, the timer's tables stay consistent: every
  object is filed in \<open>count_map\<close> under its own name exactly once, and every pointer kept, in \<open>currentEntry\<close> and in
  any slot of \<open>regions\<close>, is null or points to an object; below the current level no slot is null.
\<close>

theorem timer_inv_preserved:
  assumes "timer_inv s" and "run_events timer_next s es = Inr s'"
  shows "timer_inv s'"
  using run_events_invariant [where I = timer_inv and step = timer_next, OF timer_next_inv assms] .

theorem timer_inv_preserved_witness:
  "\<exists>s'. run_events timer_next timer_start
     [RPush ''main'' (10, 0), KBegin ParFor (Some ''axpy'') (11, 0), KEnd ParFor 0 (12, 0),
      RPop (13, 0), RPop (14, 0)] = Inr s' \<and> timer_inv s'"
proof -
  have "returns (run_events timer_next timer_start
     [RPush ''main'' (10, 0), KBegin ParFor (Some ''axpy'') (11, 0), KEnd ParFor 0 (12, 0),
      RPop (13, 0), RPop (14, 0)])"
    by (simp add: timer_next_def timer_start_def kt_push_profile_region_def Let_def
        increment_counter_region_def lookup_or_new_def modify_info_def begin_parallel_def
        increment_counter_def kt_end_parallel_def kt_pop_profile_region_def)
  then obtain s' where "run_events timer_next timer_start
     [RPush ''main'' (10, 0), KBegin ParFor (Some ''axpy'') (11, 0), KEnd ParFor 0 (12, 0),
      RPop (13, 0), RPop (14, 0)] = Inr s'" by (auto simp: returns_iff)
  with timer_inv_preserved [OF timer_inv_start this] show ?thesis by blast
qed

section \<open>Identifiers\<close>

interpretation kt_ids: id_source timer_step kt_uniqID
proof
  fix s e s' i assume "timer_step s e = Inr (s', Some i)"
  then show "i = kt_uniqID s \<and> kt_uniqID s' = kt_uniqID s + 1"
    by (cases e) (auto simp: begin_parallel_def increment_counter_def lookup_or_new_def Let_def
        split: sum.splits option.splits prod.splits if_splits)
next
  fix s e s' assume "timer_step s e = Inr (s', None)"
  then show "kt_uniqID s' = kt_uniqID s"
    by (cases e) (auto simp: begin_parallel_def kt_end_parallel_def kt_push_profile_region_def
        increment_counter_region_def kt_pop_profile_region_def lookup_or_new_def Let_def
        split: sum.splits option.splits prod.splits if_splits)
qed

section \<open>Call counts\<close>

text \<open>
  How many calls are recorded in all, as the 64-bit counters see it; an end callback and a pop
  inside a region each complete one call.
\<close>

definition total_calls :: "timer_state \<Rightarrow> u64" where
  "total_calls s = sum_list (map callCount (kt_infos s))"

lemma sum_list_update_word:
  fixes xs :: "u64 list"
  assumes "p < length xs"
  shows "sum_list (xs[p := xs ! p + c]) = sum_list xs + c"
  using assms
proof (induction xs arbitrary: p)
  case (Cons x xs)
  then show ?case by (cases p) (simp_all add: algebra_simps)
qed simp

lemma total_calls_modify:
  assumes "p < length (kt_infos s)" and "\<And>k. callCount (f k) = callCount k + c"
  shows "total_calls (modify_info p f s) = total_calls s + c"
  using sum_list_update_word [of p "map callCount (kt_infos s)" c] assms
  by (simp add: total_calls_def modify_info_def map_update)

lemma total_calls_lookup: "lookup_or_new n ty s = (p, s1) \<Longrightarrow> total_calls s1 = total_calls s"
  by (auto simp: lookup_or_new_def total_calls_def split: option.splits)

fun completes :: "timer_state \<Rightarrow> timer_event \<Rightarrow> nat" where
  "completes s (KEnd k kID now) = 1"
| "completes s (RPop now) = (if 0 < kt_current_region_level s then 1 else 0)"
| "completes s _ = 0"

fun completed :: "timer_state \<Rightarrow> timer_event list \<Rightarrow> nat" where
  "completed s [] = 0"
| "completed s (e # es) =
     completes s e + (case timer_next s e of Inl x \<Rightarrow> 0 | Inr s' \<Rightarrow> completed s' es)"

lemma timer_next_total_calls:
  assumes "timer_inv s" and "timer_next s e = Inr s'"
  shows "total_calls s' = total_calls s + of_nat (completes s e)"
proof (cases e)
  case (KBegin k name now)
  then obtain n where n: "s' = increment_counter now n (kind_type k) (s\<lparr>kt_uniqID := kt_uniqID s + 1\<rparr>)"
    using assms(2) by (auto simp: timer_next_def begin_parallel_def Let_def split: option.splits if_splits)
  let ?s0 = "s\<lparr>kt_uniqID := kt_uniqID s + 1\<rparr>"
  obtain p s1 where l: "lookup_or_new n (kind_type k) ?s0 = (p, s1)" by force
  have "timer_inv ?s0" using assms(1) by (simp add: timer_inv_def map_ok_def regions_ok_def)
  from lookup_or_new_result(2) [OF this l] total_calls_lookup [OF l] show ?thesis
    using KBegin n l total_calls_modify [of p "s1\<lparr>kt_currentEntry := Some p\<rparr>" "startTimer now" 0]
    by (simp add: increment_counter_def total_calls_def)
next
  case (KEnd k kID now)
  with assms total_calls_modify [of _ s "addFromTimer now" 1] show ?thesis
    by (auto simp: timer_next_def kt_end_parallel_def timer_inv_def split: option.splits)
next
  case (RPush name now)
  obtain p s1 where l: "lookup_or_new name REGION s = (p, s1)" by force
  let ?s2 = "s1\<lparr>kt_regions := (kt_regions s1)[nat (kt_current_region_level s1) := Some p]\<rparr>"
  from lookup_or_new_result(2) [OF assms(1) l] total_calls_lookup [OF l] show ?thesis
    using RPush assms(2) total_calls_modify [of p ?s2 "startTimer now" 0]
    by (auto simp: timer_next_def kt_push_profile_region_def increment_counter_region_def l Let_def
        total_calls_def split: if_splits)
next
  case (RPop now)
  show ?thesis
  proof (cases rule: pop_region_cases [OF assms(1), where now = now, case_names outside inside])
    case (outside e)
    with RPop assms(2) show ?thesis by (auto simp: timer_next_def total_calls_def)
  next
    case (inside p l)
    with RPop assms(2)
      total_calls_modify [of p "s\<lparr>kt_current_region_level := int l\<rparr>" "addFromTimer now" 1]
    show ?thesis by (simp add: timer_next_def total_calls_def)
  qed
qed

text \<open>
  No call is lost and none is counted twice: after any sequence of callbacks the call counts
  of all entries together have grown by exactly the number of kernel ends and of pops inside a
  region, in the 64-bit arithmetic of the counters.
\<close>

theorem timer_total_calls:
  assumes "timer_inv s" and "run_events timer_next s es = Inr s'"
  shows "total_calls s' = total_calls s + of_nat (completed s es)"
  using assms
proof (induction es arbitrary: s)
  case (Cons e es)
  then obtain s1 where s1: "timer_next s e = Inr s1" "run_events timer_next s1 es = Inr s'"
    by (auto split: sum.splits)
  have "total_calls s' = total_calls s1 + of_nat (completed s1 es)"
    using Cons.IH timer_next_inv [OF Cons.prems(1) s1(1)] s1(2) by blast
  then show ?case using timer_next_total_calls [OF Cons.prems(1) s1(1)] s1
    by (simp add: algebra_simps)
qed simp


theorem timer_total_calls_witness:
  "\<exists>s'. run_events timer_next timer_start
     [RPush ''main'' (10, 0), KBegin ParFor (Some ''axpy'') (11, 0), KEnd ParFor 0 (12, 0),
      RPop (13, 0), RPop (14, 0)] = Inr s' \<and> total_calls s' = 2"
proof -
  let ?es = "[RPush ''main'' (10, 0), KBegin ParFor (Some ''axpy'') (11, 0), KEnd ParFor 0 (12, 0),
      RPop (13, 0), RPop (14, 0)]"
  note defs = timer_next_def timer_start_def kt_push_profile_region_def Let_def
        increment_counter_region_def lookup_or_new_def modify_info_def begin_parallel_def
        increment_counter_def kt_end_parallel_def kt_pop_profile_region_def
  have "returns (run_events timer_next timer_start ?es)" by (simp add: defs)
  then obtain s' where s': "run_events timer_next timer_start ?es = Inr s'" by (auto simp: returns_iff)
  have "completed timer_start ?es = 2" by (simp add: defs)
  moreover have "total_calls timer_start = 0" by (simp add: total_calls_def timer_start_def)
  ultimately show ?thesis using timer_total_calls [OF timer_inv_start s'] s' by simp
qed

end
