(* ===== verification/Timer_Spec.thy ===== *)
theory Timer_Spec
  imports Kernel_Timer
begin

text \<open>
  What the callbacks of the simple kernel timer promise, and that the code's state (the object
  store, \<open>count_map\<close>, \<open>currentEntry\<close>, the array of regions) refines it; then the
  consequences: balanced regions, nested kernels, the depth bound.
\<close>

section \<open>Abstract timer\<close>

text \<open>
  What the callbacks mean, without pointers and the fixed array: a table of timings by name, the
  name of the kernel started last, and the stack of open regions by name.
\<close>

record timer_spec =
  sp_entries :: "string \<Rightarrow> KernelPerformanceInfo option"
  sp_current :: "string option"
  sp_stack :: "string list"

definition start_entry ::
  "int \<times> int \<Rightarrow> string \<Rightarrow> KernelExecutionType \<Rightarrow> timer_spec \<Rightarrow> timer_spec" where
  "start_entry now n ty a = a\<lparr>sp_entries := (sp_entries a)(n \<mapsto> startTimer now
     (case sp_entries a n of None \<Rightarrow> newKernelPerformanceInfo n ty | Some k \<Rightarrow> k))\<rparr>"

definition credit :: "int \<times> int \<Rightarrow> string \<Rightarrow> timer_spec \<Rightarrow> timer_spec" where
  "credit now n a = a\<lparr>sp_entries := (sp_entries a)(n := map_option (addFromTimer now) (sp_entries a n))\<rparr>"

fun spec_next :: "timer_spec \<Rightarrow> timer_event \<Rightarrow> timer_spec outcome" where
  "spec_next a (KBegin k None now) = Inl (Exit (- 1))"
| "spec_next a (KBegin k (Some n) now) =
     (if n = [] then Inl (Exit (- 1))
      else Inr ((start_entry now n (kind_type k) a)\<lparr>sp_current := Some n\<rparr>))"
| "spec_next a (KEnd k kID now) =
     (case sp_current a of None \<Rightarrow> Inl (Undefined ''currentEntry is null'')
      | Some n \<Rightarrow> Inr (credit now n a))"
| "spec_next a (RPush n now) =
     (if length (sp_stack a) < 512
      then Inr ((start_entry now n REGION a)\<lparr>sp_stack := n # sp_stack a\<rparr>)
      else Inl (Undefined ''regions[current_region_level]''))"
| "spec_next a (RPop now) =
     (case sp_stack a of [] \<Rightarrow> Inr a | n # ns \<Rightarrow> Inr ((credit now n a)\<lparr>sp_stack := ns\<rparr>))"

definition entry :: "timer_state \<Rightarrow> string \<Rightarrow> KernelPerformanceInfo option" where
  "entry s n = map_option (\<lambda>p. kt_infos s ! p) (map_of (kt_count_map s) n)"

definition name_of :: "timer_state \<Rightarrow> nat \<Rightarrow> string" where
  "name_of s p = kernelName (kt_infos s ! p)"

definition open_regions :: "timer_state \<Rightarrow> string list" where
  "open_regions s =
     rev (map (\<lambda>r. name_of s (the r)) (take (nat (kt_current_region_level s)) (kt_regions s)))"

definition timer_abs :: "timer_state \<Rightarrow> timer_spec" where
  "timer_abs s = \<lparr>sp_entries = entry s, sp_current = map_option (name_of s) (kt_currentEntry s),
     sp_stack = open_regions s\<rparr>"

lemma entry_modify_info:
  assumes "map_ok s" and "p < length (kt_infos s)"
  shows "entry (modify_info p f s) = (entry s)(name_of s p := map_option f (entry s (name_of s p)))"
proof
  fix n
  show "entry (modify_info p f s) n = ((entry s)(name_of s p := map_option f (entry s (name_of s p)))) n"
    using assms by (cases "map_of (kt_count_map s) n")
      (auto simp: entry_def name_of_def modify_info_def map_ok_def nth_list_update)
qed

lemma name_of_modify_info [simp]:
  assumes "\<And>k. kernelName (f k) = kernelName k"
  shows "name_of (modify_info p f s) = name_of s"
proof
  fix q
  show "name_of (modify_info p f s) q = name_of s q"
    using assms by (cases "p < length (kt_infos s)"; cases "p = q") (simp_all add: name_of_def modify_info_def list_update_beyond)
qed

lemma open_regions_modify_info [simp]:
  "(\<And>k. kernelName (f k) = kernelName k) \<Longrightarrow> open_regions (modify_info p f s) = open_regions s"
  by (simp add: open_regions_def)

text \<open>Names of existing objects survive a lookup, and the table gains at most the new entry.\<close>

lemma lookup_or_new_abs:
  assumes inv: "timer_inv s" and look: "lookup_or_new name ty s = (p, s1)"
  shows "entry s1 = (entry s)(name \<mapsto> (case entry s name of None \<Rightarrow> newKernelPerformanceInfo name ty | Some k \<Rightarrow> k))"
    and "q < length (kt_infos s) \<Longrightarrow> name_of s1 q = name_of s q"
    and "name_of s1 p = name" and "open_regions s1 = open_regions s"
    and "length (kt_infos s) \<le> length (kt_infos s1)"
proof -
  note r = lookup_or_new_result [OF inv look]
  have so: "om_sorted str_less (kt_count_map s)" using inv by (simp add: timer_inv_def map_ok_def)
  have old: "\<And>n q. map_of (kt_count_map s) n = Some q \<Longrightarrow> q < length (kt_infos s)"
    using inv by (auto simp: timer_inv_def map_ok_def)
  show nm: "q < length (kt_infos s) \<Longrightarrow> name_of s1 q = name_of s q" for q
    using look by (auto simp: lookup_or_new_def name_of_def nth_append split: option.splits)
  show "name_of s1 p = name" using r(3) by (simp add: name_of_def)
  show "length (kt_infos s) \<le> length (kt_infos s1)"
    using look by (auto simp: lookup_or_new_def split: option.splits)
  let ?open = "take (nat (kt_current_region_level s)) (kt_regions s)"
  have "the r' < length (kt_infos s)" if "r' \<in> set ?open" for r'
  proof -
    from that obtain i where "i < nat (kt_current_region_level s)" "r' = kt_regions s ! i"
      by (auto simp: in_set_conv_nth)
    with inv show ?thesis by (auto simp: timer_inv_def regions_ok_def)
  qed
  then have "map (\<lambda>r. name_of s1 (the r)) ?open = map (\<lambda>r. name_of s (the r)) ?open"
    using nm by (intro map_cong) simp_all
  then show "open_regions s1 = open_regions s" by (simp only: open_regions_def r(4,5))
  have same: "kt_infos s1 ! q = kt_infos s ! q" if "q < length (kt_infos s)" for q
    using look that by (auto simp: lookup_or_new_def nth_append split: option.splits)
  have new: "kt_infos s1 ! p = (case entry s name of None \<Rightarrow> newKernelPerformanceInfo name ty | Some k \<Rightarrow> k)"
    using look so by (cases "map_of (kt_count_map s) name")
      (auto simp: entry_def lookup_or_new_def str_order.om_find_map_of)
  show "entry s1 = (entry s)(name \<mapsto>
      (case entry s name of None \<Rightarrow> newKernelPerformanceInfo name ty | Some k \<Rightarrow> k))"
    unfolding new [symmetric]
  proof
    fix n
    show "entry s1 n = ((entry s)(name \<mapsto> kt_infos s1 ! p)) n"
    proof (cases "n = name")
      case True
      then show ?thesis by (simp add: entry_def r(8))
    next
      case False
      then show ?thesis using same old by (cases "map_of (kt_count_map s) n") (simp_all add: entry_def r(8))
    qed
  qed
qed

lemma entry_update [simp]:
  "entry (s\<lparr>kt_uniqID := x_uniqID\<rparr>) = entry s"
  "entry (s\<lparr>kt_currentEntry := x_currentEntry\<rparr>) = entry s"
  "entry (s\<lparr>kt_regions := x_regions\<rparr>) = entry s"
  "entry (s\<lparr>kt_current_region_level := x_current_region_level\<rparr>) = entry s"
  "entry (s\<lparr>kt_stderr := x_stderr\<rparr>) = entry s"
  by (simp_all add: entry_def fun_eq_iff)

lemma name_of_update [simp]:
  "name_of (s\<lparr>kt_uniqID := x_uniqID\<rparr>) = name_of s"
  "name_of (s\<lparr>kt_currentEntry := x_currentEntry\<rparr>) = name_of s"
  "name_of (s\<lparr>kt_regions := x_regions\<rparr>) = name_of s"
  "name_of (s\<lparr>kt_current_region_level := x_current_region_level\<rparr>) = name_of s"
  "name_of (s\<lparr>kt_stderr := x_stderr\<rparr>) = name_of s"
  by (simp_all add: name_of_def fun_eq_iff)

lemma open_regions_update [simp]:
  "open_regions (s\<lparr>kt_uniqID := x_uniqID\<rparr>) = open_regions s"
  "open_regions (s\<lparr>kt_currentEntry := x_currentEntry\<rparr>) = open_regions s"
  "open_regions (s\<lparr>kt_stderr := x_stderr\<rparr>) = open_regions s"
  by (simp_all add: open_regions_def)

lemma abs_begin:
  assumes "timer_inv s"
  shows "timer_abs (increment_counter now n ty s)
    = (start_entry now n ty (timer_abs s))\<lparr>sp_current := Some n\<rparr>"
proof -
  obtain p s1 where l: "lookup_or_new n ty s = (p, s1)" by force
  note r = lookup_or_new_result [OF assms l] and a = lookup_or_new_abs [OF assms l]
  let ?s2 = "s1\<lparr>kt_currentEntry := Some p\<rparr>"
  have m: "map_ok ?s2" using r(1) by (simp add: timer_inv_def map_ok_def)
  have p: "p < length (kt_infos ?s2)" using r(2) by simp
  show ?thesis
    by (simp add: increment_counter_def l timer_abs_def start_entry_def entry_modify_info [OF m p] a)
qed

lemma abs_push:
  assumes inv: "timer_inv s" and st: "increment_counter_region now n ty s = Inr s'"
  shows "timer_abs s' = (start_entry now n ty (timer_abs s))\<lparr>sp_stack := n # sp_stack (timer_abs s)\<rparr>"
proof -
  obtain p s1 where l: "lookup_or_new n ty s = (p, s1)" by force
  note r = lookup_or_new_result [OF inv l] and a = lookup_or_new_abs [OF inv l]
  let ?l = "kt_current_region_level s" and ?s2 = "s1\<lparr>kt_regions := (kt_regions s)[nat (kt_current_region_level s) := Some p]\<rparr>"
  from st have l0: "0 \<le> ?l" "?l < 512"
    and eq: "s' = (modify_info p (startTimer now) ?s2)\<lparr>kt_current_region_level := ?l + 1\<rparr>"
    by (auto simp: increment_counter_region_def l r(4,5) Let_def split: if_splits)
  have m: "map_ok ?s2" using r(1) by (simp add: timer_inv_def map_ok_def)
  have p: "p < length (kt_infos ?s2)" using r(2) by simp
  have cur: "map_option (name_of s1) (kt_currentEntry s) = map_option (name_of s) (kt_currentEntry s)"
    using a(2) inv by (cases "kt_currentEntry s") (simp_all add: timer_inv_def)
  have len: "nat ?l < length (kt_regions s)" using inv l0 by (simp add: timer_inv_def regions_ok_def)
  have "take (nat (?l + 1)) ((kt_regions s)[nat ?l := Some p]) = take (nat ?l) (kt_regions s) @ [Some p]"
    using len l0 by (simp add: nat_add_distrib take_Suc_conv_app_nth)
  then have "open_regions s' = n # open_regions s1"
    by (simp add: open_regions_def eq a(3) r(4,5))
  moreover have "entry s' = entry (modify_info p (startTimer now) ?s2)" "name_of s' = name_of s1"
    by (simp_all add: eq)
  ultimately show ?thesis
    by (simp add: timer_abs_def start_entry_def entry_modify_info [OF m p] a eq r(6) cur)
qed

lemma abs_credit:
  assumes "timer_inv s" "p < length (kt_infos s)"
  shows "timer_abs (modify_info p (addFromTimer now) s) = credit now (name_of s p) (timer_abs s)"
  using assms by (simp add: timer_abs_def credit_def entry_modify_info timer_inv_def)

lemma length_open_regions: "timer_inv s \<Longrightarrow> length (open_regions s) = nat (kt_current_region_level s)"
  by (simp add: open_regions_def timer_inv_def regions_ok_def nat_le_iff min_absorb2)

lemma open_regions_outside:
  "kt_current_region_level s = 0 \<Longrightarrow> open_regions (s\<lparr>kt_current_region_level := 0\<rparr>) = open_regions s"
  by (simp add: open_regions_def)

lemma open_regions_Suc:
  assumes "timer_inv s" "kt_current_region_level s = int (Suc l)" "kt_regions s ! l = Some p"
  shows "open_regions s = name_of s p # open_regions (s\<lparr>kt_current_region_level := int l\<rparr>)"
proof -
  have "l < length (kt_regions s)" using assms by (simp add: timer_inv_def regions_ok_def)
  then show ?thesis using assms(2,3)
    by (simp add: open_regions_def take_Suc_conv_app_nth nat_add_distrib)
qed

lemma timer_next_refines:
  assumes inv: "timer_inv s"
  shows "map_sum id timer_abs (timer_next s e) = spec_next (timer_abs s) e"
proof (cases e)
  case (KBegin k name now)
  let ?s0 = "s\<lparr>kt_uniqID := kt_uniqID s + 1\<rparr>"
  have i0: "timer_inv ?s0" using inv by (simp add: timer_inv_def map_ok_def regions_ok_def)
  have "timer_abs ?s0 = timer_abs s"
    by (simp add: timer_abs_def)
  then show ?thesis using KBegin
    by (cases name) (simp_all add: timer_next_def begin_parallel_def Let_def abs_begin [OF i0])
next
  case (KEnd k kID now)
  then show ?thesis using inv abs_credit [OF inv]
    by (cases "kt_currentEntry s")
      (simp_all add: timer_next_def kt_end_parallel_def timer_abs_def [of s] timer_inv_def)
next
  case (RPush n now)
  show ?thesis
  proof (cases "kt_current_region_level s < 512")
    case True
    obtain p s1 where l: "lookup_or_new n REGION s = (p, s1)" by force
    then obtain s' where "increment_counter_region now n REGION s = Inr s'"
      using inv True lookup_or_new_result(4) [OF inv l]
      by (simp add: increment_counter_region_def Let_def timer_inv_def regions_ok_def)
    then show ?thesis using True RPush abs_push [OF inv] length_open_regions [OF inv]
      by (simp add: timer_next_def kt_push_profile_region_def timer_abs_def [of s])
  next
    case False
    obtain p s1 where l: "lookup_or_new n REGION s = (p, s1)" by force
    show ?thesis using False RPush length_open_regions [OF inv] lookup_or_new_result(4) [OF inv l]
      by (simp add: timer_next_def kt_push_profile_region_def timer_abs_def
          increment_counter_region_def l Let_def)
  qed
next
  case (RPop now)
  show ?thesis
  proof (cases rule: pop_region_cases [OF inv, where now = now, case_names outside inside])
    case (outside err)
    have "timer_abs (s\<lparr>kt_current_region_level := 0, kt_stderr := err\<rparr>) = timer_abs s"
      using open_regions_outside [OF outside(1)] by (simp add: timer_abs_def)
    moreover have "sp_stack (timer_abs s) = []"
      using outside(1) length_open_regions [OF inv] by (simp add: timer_abs_def)
    ultimately show ?thesis using RPop outside(2) by (simp add: timer_next_def)
  next
    case (inside p l)
    let ?s0 = "s\<lparr>kt_current_region_level := int l\<rparr>"
    have i0: "timer_inv ?s0" using timer_inv_level [OF inv, of "int l" "kt_stderr s"] inside(1) by simp
    have "sp_stack (timer_abs s) = name_of s p # open_regions ?s0"
      using open_regions_Suc [OF inv inside(1,4)] by (simp add: timer_abs_def)
    moreover have "timer_abs ?s0 = (timer_abs s)\<lparr>sp_stack := open_regions ?s0\<rparr>"
      by (simp add: timer_abs_def)
    ultimately show ?thesis using RPop inside(3,5) abs_credit [OF i0, of p]
      by (simp add: timer_next_def credit_def)
  qed
qed
text \<open>
  C1. The object store, the ordered map, the pointer to the kernel started last and the fixed
  array of regions implement the abstract timer: on every state that satisfies the invariant and
  every callback, running the code's step and then abstracting is the step of the specification,
  including the callbacks that do not return.
\<close>

theorem timer_refines_spec:
  assumes "timer_inv s"
  shows "map_sum id timer_abs (timer_next s e) = spec_next (timer_abs s) e"
  by (rule timer_next_refines [OF assms])

theorem timer_refines_spec_witness:
  "map_sum id timer_abs (timer_next timer_start (RPush ''main'' (1, 0)))
     = spec_next (timer_abs timer_start) (RPush ''main'' (1, 0))"
  by (rule timer_refines_spec [OF timer_inv_start])

section \<open>Balanced regions\<close>

type_synonym timer_bracket = "(string \<times> (int \<times> int), int \<times> int, timer_event) bracket"

fun region_kind :: "timer_event \<Rightarrow> timer_bracket" where
  "region_kind (RPush n now) = Open (n, now)"
| "region_kind (RPop now) = Close now"
| "region_kind e = Other e"

definition kernel_only :: "timer_state \<Rightarrow> timer_event \<Rightarrow> timer_state outcome" where
  "kernel_only s e = (case region_kind e of Other e' \<Rightarrow> timer_next s e' | _ \<Rightarrow> Inr s)"

lemma open_regions_abs: "open_regions s = sp_stack (timer_abs s)"
  by (simp add: timer_abs_def)

lemma spec_next_stack:
  "spec_next a (KBegin k n now) = Inr a' \<Longrightarrow> sp_stack a' = sp_stack a"
  "spec_next a (KEnd k i now) = Inr a' \<Longrightarrow> sp_stack a' = sp_stack a"
  "spec_next a (RPush n' now) = Inr a' \<Longrightarrow> sp_stack a' = n' # sp_stack a"
  "spec_next a (RPop now) = Inr a' \<Longrightarrow> sp_stack a' = tl (sp_stack a)"
  by (cases n) (auto simp: start_entry_def credit_def split: if_splits option.splits list.splits)

lemma timer_next_stack:
  assumes "timer_inv s" and "timer_next s e = Inr s'"
  shows "spec_next (timer_abs s) e = Inr (timer_abs s')"
  using timer_next_refines [OF assms(1), of e] assms(2) by simp

interpretation kt_stack: frame_stack "\<lambda>s (n, now). timer_next s (RPush n now)"
    "\<lambda>s now. timer_next s (RPop now)" kernel_only open_regions timer_inv
proof
  fix s a s' assume "timer_inv s" and "(case a of (n, now) \<Rightarrow> timer_next s (RPush n now)) = Inr s'"
  then show "timer_inv s' \<and> (\<exists>f. open_regions s' = f # open_regions s)"
    using timer_next_inv [of s _ s'] spec_next_stack(3) [OF timer_next_stack]
    by (auto simp: open_regions_abs split: prod.splits)
next
  fix s now s' f fs assume "timer_inv s" "timer_next s (RPop now) = Inr s'" "open_regions s = f # fs"
  then show "timer_inv s' \<and> open_regions s' = fs"
    using timer_next_inv [of s _ s'] spec_next_stack(4) [OF timer_next_stack]
    by (auto simp: open_regions_abs)
next
  fix s e s' assume "timer_inv s" "kernel_only s e = Inr s'"
  then show "timer_inv s' \<and> open_regions s' = open_regions s"
    using timer_next_inv [of s e s'] spec_next_stack(1,2) [OF timer_next_stack]
    by (cases e) (auto simp: kernel_only_def open_regions_abs)
qed

text \<open>
  Regions nest: any run of callbacks in which every push is closed by its own pop, with
  kernels anywhere in between, ends with the regions that were open when it started.
\<close>

theorem timer_regions_balanced:
  assumes "timer_inv s" and "balanced (map region_kind es)" and "run_events timer_next s es = Inr s'"
  shows "open_regions s' = open_regions s"
proof -
  have "timer_next s e = kt_stack.fs_step s (region_kind e)" for s e
    by (cases e) (simp_all add: kernel_only_def)
  from kt_stack.balanced_restores_kind [of timer_next, OF this assms(2,1,3)] show ?thesis by blast
qed

theorem timer_regions_balanced_witness:
  "\<exists>s'. run_events timer_next timer_start
     [RPush ''main'' (10, 0), KBegin ParFor (Some ''axpy'') (11, 0), KEnd ParFor 0 (12, 0),
      RPop (13, 0)] = Inr s' \<and> open_regions s' = []"
proof -
  let ?es = "[RPush ''main'' (10, 0), KBegin ParFor (Some ''axpy'') (11, 0), KEnd ParFor 0 (12, 0),
      RPop (13, 0)]"
  have "returns (run_events timer_next timer_start ?es)"
    by (simp add: timer_next_def timer_start_def kt_push_profile_region_def Let_def
        increment_counter_region_def lookup_or_new_def modify_info_def begin_parallel_def
        increment_counter_def kt_end_parallel_def kt_pop_profile_region_def)
  then obtain s' where s': "run_events timer_next timer_start ?es = Inr s'" by (auto simp: returns_iff)
  have "balanced (map region_kind ?es)"
    using balanced.frame [of "[Other (KBegin ParFor (Some ''axpy'') (11, 0)), Other (KEnd ParFor 0 (12, 0))]" "[]"]
    by (simp add: balanced.intros)
  from timer_regions_balanced [OF timer_inv_start this s'] s' show ?thesis
    by (simp add: open_regions_def timer_start_def)
qed

section \<open>The depth of regions and nested kernels\<close>

text \<open>
  The array of regions has 512 slots and nothing checks the level against it: a push returns
  as long as fewer than 512 regions are open, and the next one writes past the array.
\<close>

theorem push_region_bound:
  assumes "timer_inv s"
  shows "(returns (kt_push_profile_region now n s) \<longleftrightarrow> length (open_regions s) < 512)
    \<and> (kt_push_profile_region now n s = Inl (Undefined ''regions[current_region_level]'')
        \<longleftrightarrow> length (open_regions s) = 512)"
proof -
  have "length (open_regions s) \<le> 512"
    using length_open_regions [OF assms] assms by (simp add: timer_inv_def regions_ok_def nat_le_iff)
  moreover have "map_sum id timer_abs (kt_push_profile_region now n s) = spec_next (timer_abs s) (RPush n now)"
    using timer_next_refines [OF assms, of "RPush n now"]
    by (cases "kt_push_profile_region now n s") (simp_all add: timer_next_def)
  ultimately show ?thesis
    by (cases "kt_push_profile_region now n s") (auto simp: open_regions_abs split: if_splits)
qed

lemma timer_inv_start_regions: "timer_inv timer_start \<and> length (open_regions timer_start) = 0"
  using timer_inv_start by (simp add: open_regions_def timer_start_def)

theorem push_region_bound_witness: "returns (kt_push_profile_region (3, 4) ''solve'' timer_start)"
  using push_region_bound [of timer_start] timer_inv_start_regions by simp

text \<open>Call counts and times by name.\<close>

definition calls :: "timer_state \<Rightarrow> string \<Rightarrow> u64" where
  "calls s n = (case entry s n of None \<Rightarrow> 0 | Some k \<Rightarrow> callCount k)"

definition time_of :: "timer_state \<Rightarrow> string \<Rightarrow> double" where
  "time_of s n = (case entry s n of None \<Rightarrow> d_zero | Some k \<Rightarrow> kp_time k)"

lemma run_refines:
  assumes "timer_inv s"
  shows "map_sum id timer_abs (run_events timer_next s es) = run_events spec_next (timer_abs s) es"
  using assms
proof (induction es arbitrary: s)
  case (Cons e es)
  from timer_next_refines [OF Cons.prems, of e] show ?case
    using Cons.IH timer_next_inv [OF Cons.prems, of e] by (cases "timer_next s e") (auto split: sum.splits)
qed simp

text \<open>
  C35. \<open>currentEntry\<close> is one pointer and an end callback does not look at the kernel identifier it
  gets: when kernel \<open>b\<close> starts inside kernel \<open>a\<close>, both ends are credited to \<open>b\<close>. Its count rises
  by two, and neither the count nor the time of \<open>a\<close> changes.
\<close>

theorem nested_kernels_misattributed:
  assumes "timer_inv s" and "a \<noteq> []" and "b \<noteq> []" and "a \<noteq> b"
  shows "\<exists>s'. run_events timer_next s [KBegin k (Some a) t0, KBegin l (Some b) t1, KEnd l j t2, KEnd k i t3] = Inr s'
    \<and> calls s' b = calls s b + 2 \<and> calls s' a = calls s a \<and> time_of s' a = time_of s a"
proof -
  let ?es = "[KBegin k (Some a) t0, KBegin l (Some b) t1, KEnd l j t2, KEnd k i t3]"
  have r: "map_sum id timer_abs (run_events timer_next s ?es) = run_events spec_next (timer_abs s) ?es"
    by (rule run_refines [OF assms(1)])
  obtain x where x: "run_events spec_next (timer_abs s) ?es = Inr x"
    and eb: "sp_entries x b = Some (addFromTimer t3 (addFromTimer t2 (startTimer t1 (case entry s b of
        None \<Rightarrow> newKernelPerformanceInfo b (kind_type l) | Some k \<Rightarrow> k))))"
    and ea: "sp_entries x a = Some (startTimer t0 (case entry s a of
        None \<Rightarrow> newKernelPerformanceInfo a (kind_type k) | Some k \<Rightarrow> k))"
    using assms(2-4) by (simp add: start_entry_def credit_def timer_abs_def)
  from r x obtain s' where s': "run_events timer_next s ?es = Inr s'" and "timer_abs s' = x"
    by (cases "run_events timer_next s ?es") auto
  then have "entry s' = sp_entries x" by (auto simp: timer_abs_def)
  with eb ea have "calls s' b = calls s b + 2" "calls s' a = calls s a" "time_of s' a = time_of s a"
    by (simp_all add: calls_def time_of_def newKernelPerformanceInfo_def startTimer_def
        split: option.splits)
  with s' show ?thesis by blast
qed

theorem nested_kernels_misattributed_witness:
  "\<exists>s'. run_events timer_next timer_start [KBegin ParFor (Some ''outer'') (1, 0),
      KBegin ParReduce (Some ''inner'') (2, 0), KEnd ParReduce 1 (3, 0), KEnd ParFor 0 (9, 0)] = Inr s'
    \<and> calls s' ''inner'' = 2 \<and> calls s' ''outer'' = 0"
proof -
  have "calls timer_start n = 0" for n by (simp add: calls_def entry_def timer_start_def)
  then show ?thesis using nested_kernels_misattributed [OF timer_inv_start, of "''outer''" "''inner''"
      ParFor "(1, 0)" ParReduce "(2, 0)" 1 "(3, 0)" 0 "(9, 0)"] by force
qed

text \<open>
  Kernels that do not overlap are timed as intended: a begin followed by its end adds one call
  to the kernel's entry and the time between the two readings, and leaves every other entry alone.
\<close>

theorem kernel_timed:
  assumes "timer_inv s" and "a \<noteq> []"
  shows "\<exists>s'. run_events timer_next s [KBegin k (Some a) t0, KEnd k i t1] = Inr s'
    \<and> calls s' a = calls s a + 1
    \<and> time_of s' a = dadd (time_of s a) (dsub (seconds t1) (seconds t0))
    \<and> (\<forall>n. n \<noteq> a \<longrightarrow> entry s' n = entry s n)"
proof -
  let ?es = "[KBegin k (Some a) t0, KEnd k i t1]"
  have r: "map_sum id timer_abs (run_events timer_next s ?es) = run_events spec_next (timer_abs s) ?es"
    by (rule run_refines [OF assms(1)])
  obtain x where x: "run_events spec_next (timer_abs s) ?es = Inr x"
    and ea: "sp_entries x a = Some (addFromTimer t1 (startTimer t0 (case entry s a of
        None \<Rightarrow> newKernelPerformanceInfo a (kind_type k) | Some k \<Rightarrow> k)))"
    and eo: "\<forall>n. n \<noteq> a \<longrightarrow> sp_entries x n = entry s n"
    using assms(2) by (simp add: start_entry_def credit_def timer_abs_def)
  from r x obtain s' where s': "run_events timer_next s ?es = Inr s'" and "timer_abs s' = x"
    by (cases "run_events timer_next s ?es") auto
  then have e: "entry s' = sp_entries x" by (auto simp: timer_abs_def)
  with ea have "calls s' a = calls s a + 1"
    "time_of s' a = dadd (time_of s a) (dsub (seconds t1) (seconds t0))"
    by (simp_all add: calls_def time_of_def newKernelPerformanceInfo_def info_defs
        split: option.splits)
  with s' e eo show ?thesis by auto
qed

theorem kernel_timed_witness:
  "\<exists>s'. run_events timer_next timer_start [KBegin ParScan (Some ''scan'') (5, 0), KEnd ParScan 0 (7, 0)] = Inr s'
    \<and> calls s' ''scan'' = 1"
proof -
  have "calls timer_start n = 0" for n by (simp add: calls_def entry_def timer_start_def)
  then show ?thesis
    using kernel_timed [OF timer_inv_start, of "''scan''" ParScan "(5, 0)" 0 "(7, 0)"] by force
qed

end
