(* ===== verification/Std_Sort.thy ===== *)
theory Std_Sort
  imports Double "HOL-Library.Multiset"
begin

text \<open>
  \<open>std::sort\<close>. The standard fixes the result up to the order of equivalent elements, and only when
  the comparison is a strict weak order on them. The tools are modelled for any sorting function
  that meets this contract (\<open>std_sort\<close>); insertion sort shows that it can be met.
\<close>

definition strict_weak :: "('a \<Rightarrow> 'a \<Rightarrow> bool) \<Rightarrow> 'a set \<Rightarrow> bool" where
  "strict_weak cmp A \<longleftrightarrow> (\<forall>a \<in> A. \<not> cmp a a)
     \<and> (\<forall>a \<in> A. \<forall>b \<in> A. \<forall>c \<in> A. cmp a b \<longrightarrow> cmp b c \<longrightarrow> cmp a c)
     \<and> (\<forall>a \<in> A. \<forall>b \<in> A. \<forall>c \<in> A. \<not> cmp a b \<longrightarrow> \<not> cmp b c \<longrightarrow> \<not> cmp a c)"

lemma strict_weak_subset: "strict_weak cmp B \<Longrightarrow> A \<subseteq> B \<Longrightarrow> strict_weak cmp A"
  unfolding strict_weak_def by blast

locale std_sort =
  fixes cmp :: "'a \<Rightarrow> 'a \<Rightarrow> bool" and srt :: "'a list \<Rightarrow> 'a list"
  assumes perm: "mset (srt xs) = mset xs"
    and ordered: "strict_weak cmp (set xs) \<Longrightarrow> sorted_wrt (\<lambda>a b. \<not> cmp b a) (srt xs)"
begin

lemma set_srt [simp]: "set (srt xs) = set xs"
  using perm mset_eq_setD by blast

lemma length_srt [simp]: "length (srt xs) = length xs"
  using perm mset_eq_length by blast

lemma filter_srt: "mset (filter P (srt xs)) = mset (filter P xs)"
  by (simp add: mset_filter perm)

lemma sum_srt: "sum_list (map (f :: 'a \<Rightarrow> 'b :: comm_monoid_add) (srt xs)) = sum_list (map f xs)"
  using perm [of xs] by (metis mset_map sum_mset_sum_list)

lemma ordered_filter:
  "strict_weak cmp (set xs) \<Longrightarrow> sorted_wrt (\<lambda>a b. \<not> cmp b a) (filter P (srt xs))"
  using ordered by (simp add: sorted_wrt_filter)

end

section \<open>An implementation\<close>

fun insert_by :: "('a \<Rightarrow> 'a \<Rightarrow> bool) \<Rightarrow> 'a \<Rightarrow> 'a list \<Rightarrow> 'a list" where
  "insert_by cmp x [] = [x]"
| "insert_by cmp x (y # ys) = (if cmp y x then y # insert_by cmp x ys else x # y # ys)"

definition insertion_sort :: "('a \<Rightarrow> 'a \<Rightarrow> bool) \<Rightarrow> 'a list \<Rightarrow> 'a list" where
  "insertion_sort cmp xs = foldr (insert_by cmp) xs []"

lemma mset_insert_by [simp]: "mset (insert_by cmp x ys) = add_mset x (mset ys)"
  by (induction ys) auto

lemma set_insert_by [simp]: "set (insert_by cmp x ys) = insert x (set ys)"
  by (induction ys) auto

lemma sorted_insert_by:
  assumes "strict_weak cmp (insert x (set ys))" and "sorted_wrt (\<lambda>a b. \<not> cmp b a) ys"
  shows "sorted_wrt (\<lambda>a b. \<not> cmp b a) (insert_by cmp x ys)"
  using assms
proof (induction ys)
  case (Cons y ys)
  have sw: "strict_weak cmp (insert x (set ys))"
    using strict_weak_subset [OF Cons.prems(1)] by auto
  have asym: "cmp y x \<Longrightarrow> \<not> cmp x y"
    using Cons.prems(1) unfolding strict_weak_def by (metis insertI1 list.set_intros(1) insertI2)
  have "\<not> cmp y x \<Longrightarrow> z \<in> set ys \<Longrightarrow> \<not> cmp z x" for z
    using Cons.prems unfolding strict_weak_def sorted_wrt.simps
    by (metis insertI1 insertI2 list.set_intros)
  then show ?case using Cons.IH [OF sw] Cons.prems(2) asym by auto
qed simp

lemma set_insertion_sort: "set (insertion_sort cmp xs) = set xs"
  by (induction xs) (simp_all add: insertion_sort_def)

interpretation insertion: std_sort cmp "insertion_sort cmp" for cmp
proof
  show "mset (insertion_sort cmp xs) = mset xs" for xs :: "'a list"
    by (induction xs) (simp_all add: insertion_sort_def)
  show "strict_weak cmp (set xs) \<Longrightarrow> sorted_wrt (\<lambda>a b. \<not> cmp b a) (insertion_sort cmp xs)" for xs :: "'a list"
  proof (induction xs)
    case (Cons x xs)
    have "strict_weak cmp (set xs)" using strict_weak_subset [OF Cons.prems] by auto
    with Cons.IH Cons.prems show ?case
      using sorted_insert_by [of cmp x "insertion_sort cmp xs"]
      by (simp add: insertion_sort_def set_insertion_sort [unfolded insertion_sort_def])
  qed (simp add: insertion_sort_def)
qed

end
