(* ===== verification/Timer_Report.thy ===== *)
theory Timer_Report
  imports Timer_Spec Std_Sort
begin

text \<open>
  The reports of the simple kernel timer: \<open>print_ascii\<close> and \<open>kokkosp_finalize_library\<close> of
  \<open>kp_kernel_timer.cpp\<close> and the JSON writer of \<open>kp_shared.cpp\<close>.
\<close>

section \<open>Comparison and sections\<close>

definition compareKernelPerformanceInfo :: "KernelPerformanceInfo \<Rightarrow> KernelPerformanceInfo \<Rightarrow> bool" where
  "compareKernelPerformanceInfo left right = dlt (kp_time right) (kp_time left)"

definition is_region :: "KernelPerformanceInfo \<Rightarrow> bool" where
  "is_region kp = (kType kp = REGION)"

abbreviation is_kernel :: "KernelPerformanceInfo \<Rightarrow> bool" where
  "is_kernel kp \<equiv> \<not> is_region kp"

type_synonym info_sort = "KernelPerformanceInfo list \<Rightarrow> KernelPerformanceInfo list"

abbreviation sorts_infos :: "info_sort \<Rightarrow> bool" where
  "sorts_infos srt \<equiv> std_sort compareKernelPerformanceInfo srt"

text \<open>The totals both reports compute in a loop over the sorted entries.\<close>

definition total_kernels_time :: "KernelPerformanceInfo list \<Rightarrow> double" where
  "total_kernels_time infos =
     foldl (\<lambda>t k. if is_kernel k then dadd t (kp_time k) else t) d_zero infos"

definition total_kernels_calls :: "KernelPerformanceInfo list \<Rightarrow> u64" where
  "total_kernels_calls infos =
     foldl (\<lambda>c k. if is_kernel k then c + callCount k else c) 0 infos"

section \<open>The text report\<close>

definition hundred :: double where "hundred = d_of_nat 100"
definition tiny :: double where "tiny = d_of_rat (1 / 10 ^ 9)"

fun typeStr :: "KernelExecutionType \<Rightarrow> string" where
  "typeStr PARALLEL_FOR = '' (ParFor)  ''"
| "typeStr PARALLEL_REDUCE = '' (ParRed)  ''"
| "typeStr PARALLEL_SCAN = '' (ParScan) ''"
| "typeStr REGION = '' (Region)  ''"

definition print_row :: "char \<Rightarrow> double \<Rightarrow> double \<Rightarrow> KernelPerformanceInfo \<Rightarrow> token list" where
  "print_row delimiter totalKernelsTime totalExecuteTime info =
     (let callCountDouble = d_of_nat (unat (callCount info)) in
      [Txt (''- '' @ cstr (kernelName info) @ eol @ typeStr (kType info) @ [delimiter]),
       Num ''%f'' (kp_time info),
       Txt ([delimiter] @ dec_nat (unat (callCount info)) @ [delimiter]),
       Num ''%f'' (ddiv (kp_time info) (std_max (d_of_nat 1) callCountDouble)),
       Txt [delimiter],
       Num ''%f'' (dmul (ddiv (kp_time info) (std_max tiny totalKernelsTime)) hundred),
       Txt [delimiter],
       Num ''%f'' (dmul (ddiv (kp_time info) (std_max tiny totalExecuteTime)) hundred),
       Txt eol])"

definition rule_line :: string where
  "rule_line = replicate 73 (CHR ''-'')"

definition print_summary :: "double \<Rightarrow> double \<Rightarrow> u64 \<Rightarrow> token list" where
  "print_summary totalExecuteTime totalKernelsTime totalKernelsCalls =
     [Txt (eol @ rule_line @ eol @ ''Summary:'' @ eol @ eol),
      Txt ''Total Execution Time (incl. Kokkos + non-Kokkos):      '',
      Num ''%20.5f'' totalExecuteTime, Txt ('' seconds'' @ eol),
      Txt ''Total Time in Kokkos kernels:                          '',
      Num ''%20.5f'' totalKernelsTime, Txt ('' seconds'' @ eol),
      Txt ''   -> Time outside Kokkos kernels:                     '',
      Num ''%20.5f'' (dsub totalExecuteTime totalKernelsTime), Txt ('' seconds'' @ eol),
      Txt ''   -> Percentage in Kokkos kernels:                    '',
      Num ''%20.2f'' (dmul (ddiv totalKernelsTime (std_max tiny totalExecuteTime)) hundred),
      Txt ('' %'' @ eol),
      Txt (''Total Calls to Kokkos Kernels:                         '' @
        (let d = dec_nat (unat totalKernelsCalls) in replicate (20 - length d) (CHR '' '') @ d) @ eol),
      Txt (rule_line @ eol @ eol)]"

definition report_header :: "token list" where
  "report_header = [Txt (eol @ '' (Type)   Total Time, Call Count, Avg. Time per Call, %Total Time in '' @
     ''Kernels, %Total Program Time'' @ eol), Txt (rule_line @ eol @ eol), Txt (''Regions: '' @ eol @ eol)]"

definition report_middle :: "token list" where
  "report_middle = [Txt (eol @ rule_line @ eol), Txt (''Kernels: '' @ eol @ eol)]"

definition print_ascii :: "info_sort \<Rightarrow> string \<Rightarrow> (string \<times> KernelPerformanceInfo) list \<Rightarrow> double \<Rightarrow> token list"
where
  "print_ascii srt outputDelimiter count_map totalExecuteTime =
     (let kernelInfo = srt (map snd count_map);
          totalKernelsTime = total_kernels_time kernelInfo;
          totalKernelsCalls = total_kernels_calls kernelInfo;
          delimiter = (if outputDelimiter \<noteq> [] then hd outputDelimiter else CHR '' '');
          row = print_row delimiter totalKernelsTime totalExecuteTime
      in report_header @ concat (map row (filter is_region kernelInfo)) @ report_middle
       @ concat (map row (filter is_kernel kernelInfo))
       @ print_summary totalExecuteTime totalKernelsTime totalKernelsCalls)"

section \<open>JSON\<close>

fun to_string :: "KernelExecutionType \<Rightarrow> string" where
  "to_string PARALLEL_FOR = quot @ ''PARALLEL_FOR'' @ quot"
| "to_string PARALLEL_REDUCE = quot @ ''PARALLEL_REDUCE'' @ quot"
| "to_string PARALLEL_SCAN = quot @ ''PARALLEL_SCAN'' @ quot"
| "to_string REGION = quot @ ''REGION'' @ quot"

text \<open>A quoted key followed by a colon and a blank.\<close>

definition json_key :: "string \<Rightarrow> string" where
  "json_key k = quot @ k @ quot @ '': ''"

definition write_json :: "string \<Rightarrow> KernelPerformanceInfo \<Rightarrow> token list" where
  "write_json indent kp = (let callcount = callCount kp in
     [Txt (indent @ ''{'' @ eol),
      Txt (indent @ ''  '' @ json_key (if is_region kp then ''region-name'' else ''kernel-name'')
        @ quot @ kernelName kp @ quot @ '','' @ eol),
      Txt (indent @ ''  '' @ json_key ''call-count'' @ dec_nat (unat callcount) @ '','' @ eol),
      Txt (indent @ ''  '' @ json_key ''total-time''), Num ''<<'' (kp_time kp), Txt ('','' @ eol),
      Txt (indent @ ''  '' @ json_key ''time-per-call''),
      Num ''<<'' (ddiv (kp_time kp) (d_of_nat (unat (if 1 < callcount then callcount else 1)))),
      Txt ('','' @ eol),
      Txt (indent @ ''  '' @ json_key ''kernel-type'' @ to_string (kType kp) @ eol),
      Txt (indent @ ''}'')])"

text \<open>The entries of one array: those skipped leave no trace, the flag is \<open>add_comma\<close>.\<close>

fun json_array :: "(KernelPerformanceInfo \<Rightarrow> bool) \<Rightarrow> bool \<Rightarrow> KernelPerformanceInfo list \<Rightarrow> token list" where
  "json_array skip add_comma [] = []"
| "json_array skip add_comma (kp # kps) =
     (if skip kp then json_array skip add_comma kps
      else (if add_comma then [Txt ('','' @ eol)] else []) @ write_json ''    '' kp
        @ json_array skip True kps)"

definition json_number :: "string \<Rightarrow> double \<Rightarrow> token list" where
  "json_number k d = [Txt (''  '' @ quot @ k @ quot @ '' : ''), Num ''<<'' d, Txt ('','' @ eol)]"

definition json_header :: "double \<Rightarrow> double \<Rightarrow> nat \<Rightarrow> token list" where
  "json_header totalExecuteTime totalKernelsTime uniqueKernelsCalls =
     (let nonKernelTime = dsub totalExecuteTime totalKernelsTime;
          percentageKernels = ddiv (dmul hundred totalKernelsTime) totalExecuteTime
      in [Txt (''{'' @ eol)] @ json_number ''total-app-time'' totalExecuteTime
       @ json_number ''total-kernel-time'' totalKernelsTime
       @ json_number ''total-non-kernel-time'' nonKernelTime
       @ json_number ''percent-in-kernels'' percentageKernels
       @ [Txt (''  '' @ quot @ ''unique-kernel-calls'' @ quot @ '' : '' @ dec_nat uniqueKernelsCalls @ '','' @ eol),
          Txt (''  '' @ quot @ ''region-data'' @ quot @ '' : ['' @ eol)])"

definition json_middle :: "token list" where
  "json_middle = [Txt eol, Txt (''  ],'' @ eol), Txt (''  '' @ quot @ ''kernel-data'' @ quot @ '' : ['' @ eol)]"

definition json_footer :: "token list" where
  "json_footer = [Txt eol, Txt (''  ]'' @ eol), Txt (''}'' @ eol)]"

definition json_format_kernel_list :: "info_sort \<Rightarrow> double \<Rightarrow> KernelPerformanceInfo list \<Rightarrow> token list" where
  "json_format_kernel_list srt totalExecuteTime infos =
     (let kernelInfo = srt infos;
          totalKernelsTime = total_kernels_time kernelInfo;
          uniqueKernelsCalls = length (filter is_kernel kernelInfo)
      in json_header totalExecuteTime totalKernelsTime uniqueKernelsCalls
       @ json_array is_kernel False kernelInfo @ json_middle
       @ json_array is_region False kernelInfo @ json_footer)"

section \<open>Finalisation\<close>

text \<open>
  The process: its environment, host name, process identifier, working directory, the files it can
  create, and its sorting routine.
\<close>

record process =
  p_env :: "string \<Rightarrow> string option"
  p_hostname :: string
  p_pid :: int
  p_cwd :: string
  p_can_open :: "string \<Rightarrow> bool"
  p_sort :: info_sort

datatype written = Binary "u8 list" | Text "token list"

definition is_enabled :: "string option \<Rightarrow> bool" where
  "is_enabled env_var_raw = (case env_var_raw of None \<Rightarrow> False
     | Some v \<Rightarrow> v = ''1'' \<or> v = ''true'' \<or> v = ''True'')"

fun write_records :: "KernelPerformanceInfo list \<Rightarrow> u8 list outcome" where
  "write_records [] = Inr []"
| "write_records (k # ks) =
     (case writeToBinaryFile k of Inl x \<Rightarrow> Inl x
      | Inr bs \<Rightarrow> (case write_records ks of Inl x \<Rightarrow> Inl x | Inr cs \<Rightarrow> Inr (bs @ cs)))"

definition count_entries :: "timer_state \<Rightarrow> (string \<times> KernelPerformanceInfo) list" where
  "count_entries s = map (\<lambda>(n, p). (n, kt_infos s ! p)) (kt_count_map s)"

definition fileOutput :: "process \<Rightarrow> bool \<Rightarrow> string" where
  "fileOutput pr json = take 255 (p_hostname pr @ ''-'' @ dec_int (p_pid pr) @ ''.'' @
     (if json then ''json'' else ''dat''))"

definition kt_finalize_library ::
  "process \<Rightarrow> int \<times> int \<Rightarrow> timer_state \<Rightarrow> (timer_state \<times> (string \<times> written) option) outcome" where
  "kt_finalize_library pr now s =
     (let totalExecuteTime = dsub (seconds now) (kt_initTime s);
          json = is_enabled (p_env pr ''KOKKOS_TOOLS_TIMER_JSON'');
          binary = is_enabled (p_env pr ''KOKKOS_TOOLS_TIMER_BINARY'');
          file = fileOutput pr json;
          infos = map snd (count_entries s);
          done = s\<lparr>kt_stdout := kt_stdout s @
            [Txt (''KokkosP: Kernel timing written to '' @ p_cwd pr @ ''/'' @ file @ '' '' @ eol)]\<rparr>
      in if \<not> json \<and> \<not> binary
         then Inr (s\<lparr>kt_stdout := kt_stdout s @
           print_ascii (p_sort pr) (kt_outputDelimiter s) (count_entries s) totalExecuteTime\<rparr>, None)
         else if \<not> p_can_open pr file then Inl (Undefined ''fopen failed'')
         else if binary
         then (case write_records infos of Inl x \<Rightarrow> Inl x
           | Inr bs \<Rightarrow> Inr (done, Some (file, Binary (u64_bytes totalExecuteTime @ bs))))
         else Inr (done, Some (file, Text (json_format_kernel_list (p_sort pr) totalExecuteTime infos))))"

section \<open>What the text report shows\<close>

lemma compare_strict_weak:
  "\<forall>k \<in> A. \<not> d_nan (kp_time k) \<Longrightarrow> strict_weak compareKernelPerformanceInfo A"
  unfolding strict_weak_def compareKernelPerformanceInfo_def by (force simp: dlt_def)

definition descending :: "KernelPerformanceInfo list \<Rightarrow> bool" where
  "descending = sorted_wrt (\<lambda>a b. dle (kp_time b) (kp_time a))"

lemma descending_srt:
  assumes "sorts_infos srt" and "\<forall>k \<in> set infos. \<not> d_nan (kp_time k)"
  shows "descending (filter P (srt infos))"
proof -
  have "sorted_wrt (\<lambda>a b. \<not> compareKernelPerformanceInfo b a) (filter P (srt infos))"
    by (rule std_sort.ordered_filter [OF assms(1) compare_strict_weak [OF assms(2)]])
  then show ?thesis unfolding descending_def
    by (rule sorted_wrt_mono_rel [rotated])
      (use assms in \<open>auto simp: compareKernelPerformanceInfo_def not_dlt std_sort.set_srt\<close>)
qed

lemma total_kernels_calls_sum:
  "total_kernels_calls infos = sum_list (map callCount (filter is_kernel infos))"
proof -
  have "foldl (\<lambda>c k. if is_kernel k then c + callCount k else c) c infos
    = c + sum_list (map callCount (filter is_kernel infos))" for c
    by (induction infos arbitrary: c) (auto simp: algebra_simps)
  then show ?thesis by (simp add: total_kernels_calls_def)
qed

lemma sum_filter_srt:
  assumes "sorts_infos srt"
  shows "sum_list (map callCount (filter P (srt infos))) = sum_list (map callCount (filter P infos))"
  using std_sort.filter_srt [OF assms, of P infos] by (metis mset_map sum_mset_sum_list)

text \<open>
  C12. The report is complete and ordered: it has one row for each entry of \<open>count_map\<close> and no
  other, regions in the first section and kernels in the second, both by decreasing total time,
  and the number of calls in the summary is the sum of the kernels' call counts, whatever order
  \<open>std::sort\<close> leaves equal times in.
\<close>

theorem report_complete:
  assumes "sorts_infos srt" and "\<forall>k \<in> snd ` set cm. \<not> d_nan (kp_time k)"
  shows "\<exists>rs ks tk row.
      print_ascii srt delim cm te = report_header @ concat (map row rs) @ report_middle
        @ concat (map row ks) @ print_summary te tk (\<Sum>k \<leftarrow> filter is_kernel (map snd cm). callCount k)
    \<and> row = print_row (if delim \<noteq> [] then hd delim else CHR '' '') tk te
    \<and> mset (rs @ ks) = mset (map snd cm)
    \<and> (\<forall>k \<in> set rs. is_region k) \<and> (\<forall>k \<in> set ks. is_kernel k)
    \<and> descending rs \<and> descending ks"
proof (intro exI conjI)
  let ?infos = "srt (map snd cm)"
  let ?row = "print_row (if delim \<noteq> [] then hd delim else CHR '' '') (total_kernels_time ?infos) te"
  have nan: "\<forall>k \<in> set (map snd cm). \<not> d_nan (kp_time k)" using assms(2) by simp
  show "print_ascii srt delim cm te = report_header @ concat (map ?row (filter is_region ?infos))
      @ report_middle @ concat (map ?row (filter is_kernel ?infos))
      @ print_summary te (total_kernels_time ?infos) (\<Sum>k \<leftarrow> filter is_kernel (map snd cm). callCount k)"
    by (simp add: print_ascii_def Let_def total_kernels_calls_sum sum_filter_srt [OF assms(1)])
  show "mset (filter is_region ?infos @ filter is_kernel ?infos) = mset (map snd cm)"
    using std_sort.perm [OF assms(1)] by (metis mset_append mset_filter multiset_partition)
  show "descending (filter is_region ?infos)" "descending (filter is_kernel ?infos)"
    by (rule descending_srt [OF assms(1) nan])+
qed simp_all

theorem report_complete_witness:
  "\<exists>tk. print_ascii (insertion_sort compareKernelPerformanceInfo) '';''
      [(''axpy'', example_info)] d_zero = report_header @ report_middle
        @ print_row (CHR '';'') tk d_zero example_info @ print_summary d_zero tk 3"
proof -
  have "\<forall>k \<in> snd ` set [(''axpy'', example_info)]. \<not> d_nan (kp_time k)"
    by (simp add: example_info_def d_nan_def d_mag_def inf_mag_def)
  from report_complete [OF insertion.std_sort_axioms this, of "'';''" d_zero]
  obtain rs ks tk row where
    p: "print_ascii (insertion_sort compareKernelPerformanceInfo) '';'' [(''axpy'', example_info)] d_zero
      = report_header @ concat (map row rs) @ report_middle @ concat (map row ks) @ print_summary d_zero tk 3"
    and w: "row = print_row (CHR '';'') tk d_zero"
    and m: "mset (rs @ ks) = {#example_info#}" and r: "\<forall>k \<in> set rs. is_region k"
    by (auto simp: example_info_def is_region_def)
  have "set (rs @ ks) = {example_info}" using m by (metis set_mset_mset set_mset_single)
  then have "rs = []" using r by (cases rs) (auto simp: example_info_def is_region_def)
  moreover from this m have "ks = [example_info]" by (simp add: mset_single_iff)
  ultimately show ?thesis using p w by auto
qed

section \<open>The summary counts every kernel\<close>

text \<open>The labels a run uses for regions are \<open>N\<close>, and no kernel has one of them.\<close>

fun labels_apart :: "string set \<Rightarrow> timer_event \<Rightarrow> bool" where
  "labels_apart N (KBegin k (Some n) now) = (n \<notin> N)"
| "labels_apart N (RPush n now) = (n \<in> N)"
| "labels_apart N e = True"

definition spec_kernel_calls :: "string set \<Rightarrow> timer_spec \<Rightarrow> u64" where
  "spec_kernel_calls N a = (\<Sum>n \<in> dom (sp_entries a) - N. callCount (the (sp_entries a n)))"

definition spec_apart :: "string set \<Rightarrow> timer_spec \<Rightarrow> bool" where
  "spec_apart N a \<longleftrightarrow> finite (dom (sp_entries a))
     \<and> (\<forall>n k. sp_entries a n = Some k \<longrightarrow> (is_region k \<longleftrightarrow> n \<in> N))
     \<and> (\<forall>n. sp_current a = Some n \<longrightarrow> n \<in> dom (sp_entries a) - N)
     \<and> set (sp_stack a) \<subseteq> N"

fun is_end :: "timer_event \<Rightarrow> bool" where
  "is_end (KEnd k kID now) = True"
| "is_end e = False"

lemma is_region_ops [simp]:
  "is_region (startTimer now k) = is_region k" "is_region (addFromTimer now k) = is_region k"
  "is_region (newKernelPerformanceInfo n ty) \<longleftrightarrow> ty = REGION"
  by (simp_all add: is_region_def)

lemma kind_type_region [simp]: "kind_type k \<noteq> REGION"
  by (cases k) simp_all

lemma spec_apart_start:
  "spec_apart N a \<Longrightarrow> (ty = REGION \<longleftrightarrow> n \<in> N) \<Longrightarrow> spec_apart N (start_entry now n ty a)"
  by (auto simp: spec_apart_def start_entry_def split: option.splits)

lemma spec_kernel_calls_start:
  assumes "spec_apart N a"
  shows "spec_kernel_calls N (start_entry now n ty a) = spec_kernel_calls N a"
proof -
  let ?c = "\<lambda>a n. callCount (the (sp_entries a n))" and ?a = "start_entry now n ty a"
  have fin: "finite (dom (sp_entries a) - N)" using assms by (simp add: spec_apart_def)
  have same: "?c ?a m = ?c a m" if "m \<in> dom (sp_entries a)" for m
    using that by (auto simp: start_entry_def)
  show ?thesis
  proof (cases "n \<in> dom (sp_entries a) \<or> n \<in> N")
    case True
    then have "dom (sp_entries ?a) - N = dom (sp_entries a) - N" by (auto simp: start_entry_def)
    then show ?thesis unfolding spec_kernel_calls_def using same by (intro sum.cong) auto
  next
    case False
    then have "dom (sp_entries ?a) - N = insert n (dom (sp_entries a) - N)"
      and "n \<notin> dom (sp_entries a) - N" and "?c ?a n = 0"
      by (auto simp: start_entry_def domIff)
    then show ?thesis unfolding spec_kernel_calls_def using same fin
      by (simp add: sum.cong [of _ _ "?c ?a" "?c a"])
  qed
qed

lemma dom_credit [simp]: "dom (sp_entries (credit now n a)) = dom (sp_entries a)"
  by (auto simp: credit_def dom_def)

lemma spec_apart_credit:
  assumes "spec_apart N a"
  shows "spec_apart N (credit now n a)"
proof -
  have "sp_current (credit now n a) = sp_current a" "sp_stack (credit now n a) = sp_stack a"
    by (simp_all add: credit_def)
  then show ?thesis using assms by (simp add: spec_apart_def) (auto simp: credit_def)
qed

lemma spec_kernel_calls_credit:
  assumes "spec_apart N a"
  shows "spec_kernel_calls N (credit now n a)
    = spec_kernel_calls N a + (if n \<in> dom (sp_entries a) - N then 1 else 0)"
proof -
  let ?c = "\<lambda>a n. callCount (the (sp_entries a n))" and ?a = "credit now n a"
  let ?D = "dom (sp_entries a) - N"
  have fin: "finite ?D" using assms by (simp add: spec_apart_def)
  show ?thesis
  proof (cases "n \<in> ?D")
    case True
    have "sum (?c ?a) (?D - {n}) = sum (?c a) (?D - {n})"
      by (rule sum.cong) (auto simp: credit_def)
    moreover have "?c ?a n = ?c a n + 1" using True by (auto simp: credit_def)
    ultimately show ?thesis unfolding spec_kernel_calls_def dom_credit
      using True fin by (simp add: sum.remove [of ?D n])
  next
    case False
    then have "sum (?c ?a) ?D = sum (?c a) ?D" by (intro sum.cong) (auto simp: credit_def)
    with False show ?thesis by (simp add: spec_kernel_calls_def)
  qed
qed

lemma spec_kernel_calls_frame [simp]:
  "spec_kernel_calls N (a\<lparr>sp_current := c\<rparr>) = spec_kernel_calls N a"
  "spec_kernel_calls N (a\<lparr>sp_stack := st\<rparr>) = spec_kernel_calls N a"
  by (simp_all add: spec_kernel_calls_def)

lemma spec_next_apart:
  assumes inv: "spec_apart N a" and ok: "labels_apart N e" and st: "spec_next a e = Inr a'"
  shows "spec_apart N a' \<and> spec_kernel_calls N a' = spec_kernel_calls N a + (if is_end e then 1 else 0)"
proof (cases e)
  case (KBegin k nm now)
  then obtain n where n: "nm = Some n" "a' = (start_entry now n (kind_type k) a)\<lparr>sp_current := Some n\<rparr>"
    using st by (cases nm) (auto split: if_splits)
  with KBegin ok have "n \<notin> N" by simp
  with spec_apart_start [OF inv, of "kind_type k" n now] have "spec_apart N a'"
    by (simp add: n spec_apart_def) (simp add: start_entry_def)
  then show ?thesis using KBegin n spec_kernel_calls_start [OF inv] by simp
next
  case (KEnd k i now)
  then obtain n where n: "sp_current a = Some n" "a' = credit now n a"
    using st by (auto split: option.splits)
  with inv have "n \<in> dom (sp_entries a) - N" by (simp add: spec_apart_def)
  then show ?thesis using KEnd n inv by (simp add: spec_apart_credit spec_kernel_calls_credit)
next
  case (RPush n now)
  then have a': "a' = (start_entry now n REGION a)\<lparr>sp_stack := n # sp_stack a\<rparr>"
    using st by (auto split: if_splits)
  have "n \<in> N" using RPush ok by simp
  with spec_apart_start [OF inv, of REGION n now] have "spec_apart N a'"
    by (simp add: a' spec_apart_def) (simp add: start_entry_def)
  then show ?thesis using RPush a' spec_kernel_calls_start [OF inv] by simp
next
  case (RPop now)
  show ?thesis
  proof (cases "sp_stack a")
    case Nil
    with RPop st inv show ?thesis by simp
  next
    case (Cons n ns)
    with inv have "n \<in> N" "set ns \<subseteq> N" by (auto simp: spec_apart_def)
    moreover have a': "a' = (credit now n a)\<lparr>sp_stack := ns\<rparr>" using Cons RPop st by simp
    ultimately show ?thesis using spec_apart_credit [OF inv, of now n] RPop
      by (simp add: a' spec_kernel_calls_credit [OF inv]) (simp add: spec_apart_def)
  qed
qed

lemma spec_run_apart:
  assumes "spec_apart N a" and "\<forall>e \<in> set es. labels_apart N e" and "run_events spec_next a es = Inr a'"
  shows "spec_apart N a' \<and> spec_kernel_calls N a' = spec_kernel_calls N a + of_nat (length (filter is_end es))"
  using assms
proof (induction es arbitrary: a)
  case (Cons e es)
  from Cons.prems(3) obtain a1 where a1: "spec_next a e = Inr a1" "run_events spec_next a1 es = Inr a'"
    by (auto split: sum.splits)
  from spec_next_apart [OF Cons.prems(1) _ a1(1)] Cons.prems(2)
  have "spec_apart N a1" "spec_kernel_calls N a1 = spec_kernel_calls N a + (if is_end e then 1 else 0)"
    by simp_all
  with Cons.IH [OF _ _ a1(2)] Cons.prems(2) show ?case by (simp add: algebra_simps)
qed simp

lemma map_of_count_entries: "map_of (count_entries s) = entry s"
proof
  fix n
  have m: "map_of (map (\<lambda>(n, p). (n, f p)) m) n = map_option f (map_of m n)" for f :: "nat \<Rightarrow> KernelPerformanceInfo" and m
      and n :: string
    by (induction m) auto
  show "map_of (count_entries s) n = entry s n" by (simp add: count_entries_def entry_def m)
qed

lemma distinct_count_entries: "timer_inv s \<Longrightarrow> distinct (map fst (count_entries s))"
  using str_order.om_sorted_distinct [of "kt_count_map s"]
  by (simp add: count_entries_def timer_inv_def map_ok_def o_def case_prod_unfold)

lemma kernel_calls_entries:
  assumes "timer_inv s" and "spec_apart N (timer_abs s)"
  shows "(\<Sum>k \<leftarrow> filter is_kernel (map snd (count_entries s)). callCount k) = spec_kernel_calls N (timer_abs s)"
proof -
  let ?m = "count_entries s" and ?K = "filter (\<lambda>x. is_kernel (snd x)) (count_entries s)"
  have d: "distinct (map fst ?m)" by (rule distinct_count_entries [OF assms(1)])
  then have inj: "inj_on fst (set ?K)" and dK: "distinct ?K"
    by (auto simp: distinct_map inj_on_def)
  have e: "entry s n = Some k \<longleftrightarrow> (n, k) \<in> set ?m" for n k
    using map_of_eq_Some_iff [OF d] by (simp add: map_of_count_entries)
  have r: "entry s n = Some k \<Longrightarrow> is_region k \<longleftrightarrow> n \<in> N" for n k
    using assms(2) by (simp add: spec_apart_def timer_abs_def)
  have K: "fst ` set ?K = dom (entry s) - N"
    using e r by (force simp: image_iff dom_def)
  have "(\<Sum>k \<leftarrow> filter is_kernel (map snd ?m). callCount k) = (\<Sum>x \<leftarrow> ?K. callCount (snd x))"
    by (simp add: filter_map o_def)
  also have "\<dots> = (\<Sum>x \<in> set ?K. callCount (snd x))" using dK by (rule sum_list_distinct_conv_sum_set)
  also have "\<dots> = (\<Sum>x \<in> set ?K. callCount (the (entry s (fst x))))"
  proof (rule sum.cong)
    fix x assume "x \<in> set ?K"
    then have "entry s (fst x) = Some (snd x)" by (simp add: e)
    then show "callCount (snd x) = callCount (the (entry s (fst x)))" by simp
  qed simp
  also have "\<dots> = (\<Sum>n \<in> fst ` set ?K. callCount (the (entry s n)))"
    using sum.reindex [OF inj, of "\<lambda>n. callCount (the (entry s n))"] by (simp only: o_def)
  finally show ?thesis by (simp only: K spec_kernel_calls_def timer_abs_def timer_spec.simps)
qed

text \<open>
  C7. The summary's number of kernel calls is the number of kernels that ended: over a whole run
  in which no kernel carries the label of a region, \<open>totalKernelsCalls\<close> of the report is the number
  of end callbacks (in the 64-bit arithmetic of the counters).
\<close>

theorem report_counts_kernel_ends:
  assumes "run_events timer_next timer_start es = Inr s" and "\<forall>e \<in> set es. labels_apart N e"
    and "sorts_infos srt"
  shows "total_kernels_calls (srt (map snd (count_entries s))) = of_nat (length (filter is_end es))"
proof -
  have "map_sum id timer_abs (Inr s) = run_events spec_next (timer_abs timer_start) es"
    using run_refines [OF timer_inv_start, of es] by (simp add: assms(1))
  then have r: "run_events spec_next (timer_abs timer_start) es = Inr (timer_abs s)" by simp
  have e0: "entry timer_start = Map.empty" by (simp add: entry_def timer_start_def fun_eq_iff)
  then have "spec_apart N (timer_abs timer_start)" "spec_kernel_calls N (timer_abs timer_start) = 0"
    by (simp_all add: spec_apart_def spec_kernel_calls_def timer_abs_def)
      (simp_all add: timer_start_def open_regions_def)
  from spec_run_apart [OF this(1) assms(2) r] this(2)
  have a: "spec_apart N (timer_abs s)"
    and c: "spec_kernel_calls N (timer_abs s) = of_nat (length (filter is_end es))" by simp_all
  have inv: "timer_inv s"
    by (rule run_events_invariant [where I = timer_inv, OF _ timer_inv_start assms(1)])
      (rule timer_next_inv)
  show ?thesis
    by (simp add: total_kernels_calls_sum sum_filter_srt [OF assms(3)] kernel_calls_entries [OF inv a] c)
qed

theorem report_counts_kernel_ends_witness:
  "\<exists>s. run_events timer_next timer_start [RPush ''main'' (10, 0), KBegin ParFor (Some ''axpy'') (11, 0),
      KEnd ParFor 0 (12, 0), RPop (13, 0)] = Inr s
    \<and> total_kernels_calls (insertion_sort compareKernelPerformanceInfo (map snd (count_entries s))) = 1"
proof -
  let ?es = "[RPush ''main'' (10, 0), KBegin ParFor (Some ''axpy'') (11, 0), KEnd ParFor 0 (12, 0), RPop (13, 0)]"
  have "returns (run_events timer_next timer_start ?es)"
    by (simp add: timer_next_def timer_start_def kt_push_profile_region_def Let_def
        increment_counter_region_def lookup_or_new_def modify_info_def begin_parallel_def
        increment_counter_def kt_end_parallel_def kt_pop_profile_region_def)
  then obtain s where s: "run_events timer_next timer_start ?es = Inr s" by (auto simp: returns_iff)
  have "\<forall>e \<in> set ?es. labels_apart {''main''} e" by simp
  from report_counts_kernel_ends [OF s this insertion.std_sort_axioms] s show ?thesis by simp
qed

section \<open>One label for a region and a kernel\<close>

text \<open>
  Regions and kernels share \<open>count_map\<close> and the start time in the entry: a kernel that carries
  the label of the region it runs in is filed as a region, and its start overwrites the region's,
  so the region's time when it is popped is measured from the start of the kernel.
\<close>

theorem shared_label_overwrites_start:
  assumes "timer_inv s" and "n \<noteq> []" and "entry s n = None" and "length (open_regions s) < 512"
  shows "\<exists>s' k. run_events timer_next s [RPush n t0, KBegin ty (Some n) t1, KEnd ty i t2, RPop t3] = Inr s'
    \<and> entry s' n = Some k \<and> is_region k \<and> callCount k = 2
    \<and> kp_time k = dadd (dadd d_zero (dsub (seconds t2) (seconds t1))) (dsub (seconds t3) (seconds t1))"
proof -
  let ?es = "[RPush n t0, KBegin ty (Some n) t1, KEnd ty i t2, RPop t3]"
  have r: "map_sum id timer_abs (run_events timer_next s ?es) = run_events spec_next (timer_abs s) ?es"
    by (rule run_refines [OF assms(1)])
  obtain x where x: "run_events spec_next (timer_abs s) ?es = Inr x"
    and e: "sp_entries x n = Some (addFromTimer t3 (addFromTimer t2 (startTimer t1 (startTimer t0
      (newKernelPerformanceInfo n REGION)))))"
    using assms(2-4) by (simp add: start_entry_def credit_def timer_abs_def)
  from r x obtain s' where s': "run_events timer_next s ?es = Inr s'" and "timer_abs s' = x"
    by (cases "run_events timer_next s ?es") auto
  then have "entry s' = sp_entries x" by (auto simp: timer_abs_def)
  with e s' show ?thesis
    by (auto simp: info_defs newKernelPerformanceInfo_def is_region_def)
qed

theorem shared_label_overwrites_start_witness:
  "\<exists>s' k. run_events timer_next timer_start [RPush ''solve'' (0, 0), KBegin ParFor (Some ''solve'') (90, 0),
      KEnd ParFor 0 (91, 0), RPop (100, 0)] = Inr s' \<and> entry s' ''solve'' = Some k \<and> callCount k = 2"
proof -
  have "entry timer_start ''solve'' = None" "length (open_regions timer_start) < 512"
    by (simp_all add: entry_def timer_start_def open_regions_def)
  from shared_label_overwrites_start [OF timer_inv_start _ this, of "(0, 0)" ParFor "(90, 0)" 0 "(91, 0)" "(100, 0)"]
  show ?thesis by auto
qed

section \<open>The JSON report\<close>

text \<open>What a JSON reader makes of a string, after the opening quotation mark: its value and the
  rest of the text (RFC 8259, without the \<open>u\<close> escapes).\<close>

fun json_escape :: "char \<Rightarrow> char option" where
  "json_escape c =
     (if c = CHR 0x22 then Some (CHR 0x22) else if c = CHR 0x5C then Some (CHR 0x5C)
      else if c = CHR ''/'' then Some (CHR ''/'') else if c = CHR ''b'' then Some (CHR 0x08)
      else if c = CHR ''f'' then Some (CHR 0x0C) else if c = CHR ''n'' then Some (CHR 0x0A)
      else if c = CHR ''r'' then Some (CHR 0x0D) else if c = CHR ''t'' then Some (CHR 0x09) else None)"

definition json_plain :: "char \<Rightarrow> bool" where
  "json_plain c \<longleftrightarrow> c \<noteq> CHR 0x22 \<and> c \<noteq> CHR 0x5C \<and> 32 \<le> (of_char c :: nat)"

fun json_string :: "string \<Rightarrow> (string \<times> string) option" where
  "json_string [] = None"
| "json_string (c # cs) =
     (if c = CHR 0x22 then Some ([], cs)
      else if c = CHR 0x5C then
        (case cs of [] \<Rightarrow> None
         | d # ds \<Rightarrow> (case json_escape d of None \<Rightarrow> None
             | Some v \<Rightarrow> map_option (\<lambda>(s, r). (v # s, r)) (json_string ds)))
      else if 32 \<le> (of_char c :: nat) then map_option (\<lambda>(s, r). (c # s, r)) (json_string cs)
      else None)"

lemma json_string_plain:
  "\<forall>c \<in> set name. json_plain c \<Longrightarrow> json_string (name @ CHR 0x22 # rest) = Some (name, rest)"
  by (induction name) (auto simp: json_plain_def)

lemma json_string_consumed:
  "json_string t = Some (s, r) \<Longrightarrow> \<exists>u. t = u @ CHR 0x22 # r \<and> length s \<le> length u
     \<and> (length s = length u \<longrightarrow> (\<forall>c \<in> set u. json_plain c))"
proof (induction t arbitrary: s rule: json_string.induct)
  case (2 c cs)
  show ?case
  proof (cases "c = CHR 0x22")
    case True
    with 2 show ?thesis by auto
  next
    case nq: False
    show ?thesis
    proof (cases "c = CHR 0x5C")
      case True
      with nq 2(3) obtain d ds v s' where d: "cs = d # ds" "json_escape d = Some v"
        "json_string ds = Some (s', r)" "s = v # s'"
        by (auto split: list.splits option.splits)
      from 2(1) [OF nq True d(1,2,3)] obtain u where "ds = u @ CHR 0x22 # r" "length s' \<le> length u" by blast
      with d have "c # cs = (c # d # u) @ CHR 0x22 # r" "length s < length (c # d # u)" by simp_all
      then show ?thesis by (metis less_imp_le nat_neq_iff)
    next
      case False
      with nq 2(3) obtain s' where s': "32 \<le> (of_char c :: nat)" "json_string cs = Some (s', r)" "s = c # s'"
        by (auto split: if_splits)
      from 2(2) [OF nq False s'(1,2)] obtain u where u: "cs = u @ CHR 0x22 # r" "length s' \<le> length u"
        "length s' = length u \<longrightarrow> (\<forall>c \<in> set u. json_plain c)" by blast
      with s' nq False show ?thesis by (intro exI [of _ "c # u"]) (auto simp: json_plain_def)
    qed
  qed
qed simp

text \<open>
  The JSON report writes a label as it is: the line of an entry carries its name in a form a
  JSON reader gives back exactly when the label has no quotation mark, no backslash and no control
  character. With one of them in the label the file is not what it should be.
\<close>

theorem json_name_exact:
  "\<exists>line body. write_json indent kp ! 1 = Txt line
     \<and> line = indent @ ''  '' @ json_key (if is_region kp then ''region-name'' else ''kernel-name'') @ quot @ body
     \<and> (json_string body = Some (kernelName kp, '','' @ eol) \<longleftrightarrow> list_all json_plain (kernelName kp))"
proof (intro exI conjI)
  let ?body = "kernelName kp @ CHR 0x22 # '','' @ eol"
  let ?line = "indent @ ''  '' @ json_key (if is_region kp then ''region-name'' else ''kernel-name'') @ quot @ ?body"
  show "write_json indent kp ! 1 = Txt ?line" by (simp add: write_json_def quot_def Let_def)
  show "json_string ?body = Some (kernelName kp, '','' @ eol) \<longleftrightarrow> list_all json_plain (kernelName kp)"
  proof
    assume "json_string ?body = Some (kernelName kp, '','' @ eol)"
    from json_string_consumed [OF this] show "list_all json_plain (kernelName kp)"
      by (auto simp: list_all_iff)
  next
    assume "list_all json_plain (kernelName kp)"
    then show "json_string ?body = Some (kernelName kp, '','' @ eol)"
      by (intro json_string_plain) (simp add: list_all_iff)
  qed
qed simp

text \<open>The array elements, separated by commas.\<close>

fun join :: "'a list \<Rightarrow> 'a list list \<Rightarrow> 'a list" where
  "join sep [] = []"
| "join sep [x] = x"
| "join sep (x # y # ys) = x @ sep @ join sep (y # ys)"

lemma json_array_rest:
  "json_array skip True kps = concat (map (\<lambda>k. Txt ('','' @ eol) # write_json ''    '' k) (filter (\<lambda>k. \<not> skip k) kps))"
  by (induction skip "True" kps rule: json_array.induct) auto

lemma join_Cons: "join sep (x # xs) = x @ concat (map (\<lambda>y. sep @ y) xs)"
  by (induction xs arbitrary: x) auto

lemma json_array_join:
  "json_array skip False kps =
     join [Txt ('','' @ eol)] (map (write_json ''    '') (filter (\<lambda>k. \<not> skip k) kps))"
proof (induction kps)
  case (Cons k kps)
  then show ?case by (simp add: join_Cons json_array_rest o_def)
qed simp

text \<open>
  The JSON report is complete, ordered and correctly separated: the two arrays hold each entry
  once, regions in the first and kernels in the second, both by decreasing time, with a comma
  between neighbours and none after the last, and the count in the header is the number of kernels.
\<close>

theorem json_report_complete:
  assumes "sorts_infos srt" and "\<forall>k \<in> set infos. \<not> d_nan (kp_time k)"
  shows "\<exists>rs ks tk. json_format_kernel_list srt te infos =
        json_header te tk (length ks)
        @ join [Txt ('','' @ eol)] (map (write_json ''    '') rs) @ json_middle
        @ join [Txt ('','' @ eol)] (map (write_json ''    '') ks) @ json_footer
    \<and> mset (rs @ ks) = mset infos
    \<and> (\<forall>k \<in> set rs. is_region k) \<and> (\<forall>k \<in> set ks. is_kernel k)
    \<and> descending rs \<and> descending ks"
proof (intro exI conjI)
  let ?infos = "srt infos"
  show "json_format_kernel_list srt te infos =
        json_header te (total_kernels_time ?infos) (length (filter is_kernel ?infos))
        @ join [Txt ('','' @ eol)] (map (write_json ''    '') (filter is_region ?infos)) @ json_middle
        @ join [Txt ('','' @ eol)] (map (write_json ''    '') (filter is_kernel ?infos)) @ json_footer"
    by (simp add: json_format_kernel_list_def Let_def json_array_join)
  show "mset (filter is_region ?infos @ filter is_kernel ?infos) = mset infos"
    using std_sort.perm [OF assms(1)] by (metis mset_append mset_filter multiset_partition)
  show "descending (filter is_region ?infos)" "descending (filter is_kernel ?infos)"
    by (rule descending_srt [OF assms])+
qed simp_all

theorem json_report_complete_witness:
  "\<exists>tk. json_format_kernel_list (insertion_sort compareKernelPerformanceInfo) d_zero [example_info] =
     json_header d_zero tk 1 @ json_middle @ write_json ''    '' example_info @ json_footer"
proof -
  have "\<forall>k \<in> set [example_info]. \<not> d_nan (kp_time k)"
    by (simp add: example_info_def d_nan_def d_mag_def inf_mag_def)
  from json_report_complete [OF insertion.std_sort_axioms this, of d_zero]
  obtain rs ks tk where
    p: "json_format_kernel_list (insertion_sort compareKernelPerformanceInfo) d_zero [example_info] =
        json_header d_zero tk (length ks) @ join [Txt ('','' @ eol)] (map (write_json ''    '') rs)
        @ json_middle @ join [Txt ('','' @ eol)] (map (write_json ''    '') ks) @ json_footer"
    and m: "mset (rs @ ks) = mset [example_info]" and r: "\<forall>k \<in> set rs. is_region k"
    by blast
  have "set (rs @ ks) = {example_info}" using mset_eq_setD [OF m] by simp
  then have "rs = []" using r by (cases rs) (auto simp: example_info_def is_region_def)
  moreover from this m have "ks = [example_info]" by simp
  ultimately show ?thesis using p by auto
qed

end
