(* ===== verification/Timer_Reader.thy ===== *)
theory Timer_Reader
  imports Timer_Report
begin

text \<open>
  The programs that read the binary files of the simple kernel timer back: \<open>kp_reader.cpp\<close> and
  \<open>kp_json_writer.cpp\<close>. A file system is a function from names to contents; opening a file that is
  not there gives the null pointer the programs then use.
\<close>

section \<open>Merging records\<close>

fun find_index_from :: "nat \<Rightarrow> KernelPerformanceInfo list \<Rightarrow> string \<Rightarrow> int" where
  "find_index_from i [] name = - 1"
| "find_index_from i (k # ks) name =
     (if kernelName k = name then int i else find_index_from (Suc i) ks name)"

definition find_index :: "KernelPerformanceInfo list \<Rightarrow> string \<Rightarrow> int" where
  "find_index kernels name = find_index_from 0 kernels name"

definition merge_info :: "KernelPerformanceInfo list \<Rightarrow> KernelPerformanceInfo \<Rightarrow> KernelPerformanceInfo list" where
  "merge_info kernelInfo new_kernel =
     (if kernelName new_kernel \<noteq> [] then
        (let kernelIndex = find_index kernelInfo (kernelName new_kernel) in
         if - 1 < kernelIndex
         then kernelInfo[nat kernelIndex :=
           addCallCount (callCount new_kernel) (addTime (kp_time new_kernel) (kernelInfo ! nat kernelIndex))]
         else kernelInfo @ [new_kernel])
      else kernelInfo)"

lemma fread1_progress:
  assumes "\<not> f_eof f" and "fread1 n f = (r, f')" and "0 < n"
  shows "length (f_bytes f') + (if f_eof f' then 0 else 1) < length (f_bytes f) + 1"
    and "r \<noteq> None \<Longrightarrow> length (f_bytes f') + n = length (f_bytes f)"
  using assms by (auto simp: fread1_def split: if_splits)

lemma fread1_length: "fread1 n f = (r, f') \<Longrightarrow> length (f_bytes f') \<le> length (f_bytes f)"
  by (auto simp: fread1_def split: if_splits)

definition file_measure :: "FILE \<Rightarrow> nat" where
  "file_measure f = length (f_bytes f) + (if f_eof f then 0 else 1)"

text \<open>Every attempt to read a record takes bytes off the file or raises its end-of-file indicator.\<close>

lemma readFromFile_progress:
  assumes "\<not> f_eof f" and "readFromFile cxa f k = Inr (b, k', f')"
  shows "file_measure f' < file_measure f"
proof -
  obtain r f1 where r: "fread1 4 f = (r, f1)" by force
  show ?thesis
  proof (cases r)
    case None
    with assms r fread1_progress(1) [OF assms(1) r] show ?thesis
      by (simp add: readFromFile_def file_measure_def)
  next
    case (Some lenb)
    obtain r2 f2 where r2: "fread1 (unat (u32_of_bytes lenb)) f1 = (r2, f2)" by force
    have "f' = f2" using assms(2) r Some r2
      by (auto simp: readFromFile_def Let_def split: option.splits if_splits)
    moreover have "length (f_bytes f2) + 4 \<le> length (f_bytes f)"
      using fread1_progress(2) [OF assms(1) r] Some fread1_length [OF r2] by simp
    ultimately show ?thesis using assms(1) by (simp add: file_measure_def)
  qed
qed

text \<open>\<open>fill_info\<close>, which \<open>kp_reader\<close> has in line: read records until the end-of-file indicator is set.\<close>

function fill_info ::
  "cxa_demangle \<Rightarrow> FILE \<Rightarrow> KernelPerformanceInfo list \<Rightarrow> KernelPerformanceInfo list outcome" where
  "fill_info cxa file kernelInfo =
     (if f_eof file then Inr kernelInfo
      else (case readFromFile cxa file (newKernelPerformanceInfo [] PARALLEL_FOR) of
          Inl x \<Rightarrow> Inl x
        | Inr (ok, new_kernel, file1) \<Rightarrow>
            fill_info cxa file1 (if ok then merge_info kernelInfo new_kernel else kernelInfo)))"
  by pat_completeness auto
termination
  by (relation "measure (\<lambda>(cxa, file, infos). file_measure file)") (auto dest: readFromFile_progress)

declare fill_info.simps [simp del]

section \<open>The files of the command line\<close>

type_synonym file_system = "string \<Rightarrow> u8 list option"

text \<open>
  The execution time at the head of a file. An empty file leaves it 0; a file that ends inside it
  leaves an indeterminate value.
\<close>

fun read_files :: "cxa_demangle \<Rightarrow> file_system \<Rightarrow> string list \<Rightarrow> double \<Rightarrow> KernelPerformanceInfo list
  \<Rightarrow> (double \<times> KernelPerformanceInfo list) outcome" where
  "read_files cxa fs [] totalExecuteTime kernelInfo = Inr (totalExecuteTime, kernelInfo)"
| "read_files cxa fs (name # names) totalExecuteTime kernelInfo =
     (case fs name of
        None \<Rightarrow> Inl (Undefined ''fread of a null FILE'')
      | Some bytes \<Rightarrow>
          (case fread1 8 \<lparr>f_bytes = bytes, f_eof = False\<rparr> of (r, the_file) \<Rightarrow>
           if r = None \<and> bytes \<noteq> [] then Inl (Undefined ''indeterminate execution time'')
           else (let fileExecuteTime = (case r of None \<Rightarrow> d_zero | Some b \<Rightarrow> u64_of_bytes b) in
             (case fill_info cxa the_file kernelInfo of
                Inl x \<Rightarrow> Inl x
              | Inr infos \<Rightarrow> read_files cxa fs names (dadd totalExecuteTime fileExecuteTime) infos))))"

section \<open>kp\_reader\<close>

text \<open>
  The option loop, on the arguments after the program name. \<open>--delimiter\<close> and \<open>--fixed-width\<close>
  take the next argument without looking whether there is one, and the second test is made on the
  argument the first one has moved to.
\<close>

definition first_char :: "string \<Rightarrow> char" where
  "first_char s = (case s of [] \<Rightarrow> CHR 0x00 | c # cs \<Rightarrow> c)"

definition delimiter_arg :: "string \<Rightarrow> string list \<Rightarrow> char \<Rightarrow> (char \<times> string \<times> string list) outcome" where
  "delimiter_arg a rest delimiter =
     (if a = ''--delimiter''
      then (case rest of [] \<Rightarrow> Inl (Undefined ''argv[argc][0]'') | b # r \<Rightarrow> Inr (first_char b, b, r))
      else Inr (delimiter, a, rest))"

definition width_arg :: "string \<Rightarrow> string list \<Rightarrow> int \<Rightarrow> (int \<times> string list) outcome" where
  "width_arg a rest fixed_width =
     (if a = ''--fixed-width''
      then (case rest of [] \<Rightarrow> Inl (Undefined ''atoi(NULL)'') | b # r \<Rightarrow> Inr (atoi b, r))
      else Inr (fixed_width, rest))"

lemma delimiter_arg_length: "delimiter_arg a rest d = Inr (d', a', r) \<Longrightarrow> length r \<le> length rest"
  by (auto simp: delimiter_arg_def split: if_splits list.splits)

lemma width_arg_length: "width_arg a rest w = Inr (w', r) \<Longrightarrow> length r \<le> length rest"
  by (auto simp: width_arg_def split: if_splits list.splits)

function reader_args :: "string list \<Rightarrow> char \<Rightarrow> int \<Rightarrow> (char \<times> int \<times> string list) outcome" where
  "reader_args [] delimiter fixed_width = Inr (delimiter, fixed_width, [])"
| "reader_args (a # rest) delimiter fixed_width =
     (if first_char a = CHR ''-'' then
        (case delimiter_arg a rest delimiter of
           Inl x \<Rightarrow> Inl x
         | Inr (d, b, r) \<Rightarrow>
             (case width_arg b r fixed_width of
                Inl x \<Rightarrow> Inl x
              | Inr (w, r') \<Rightarrow> reader_args r' d w))
      else Inr (delimiter, fixed_width, a # rest))"
  by pat_completeness auto
termination
  by (relation "measure (\<lambda>(args, d, w). length args)")
    (auto dest!: delimiter_arg_length width_arg_length)

definition pad_left :: "nat \<Rightarrow> string \<Rightarrow> string" where
  "pad_left n s = replicate (n - length s) (CHR '' '') @ s"

text \<open>With a fixed width a region is labelled \<open>(Region)\<close>, otherwise \<open>(REGION)\<close>.\<close>

definition reader_type :: "bool \<Rightarrow> KernelExecutionType \<Rightarrow> string" where
  "reader_type fixed ty = (if ty = REGION \<and> \<not> fixed then '' (REGION)  '' else typeStr ty)"

definition reader_row :: "char \<Rightarrow> int \<Rightarrow> double \<Rightarrow> double \<Rightarrow> KernelPerformanceInfo \<Rightarrow> token list" where
  "reader_row delimiter fixed_width totalKernelsTime totalExecuteTime info =
     (let fixed = (fixed_width \<noteq> 0);
          callCountDouble = d_of_nat (unat (callCount info));
          name = cstr (kernelName info);
          calls = dec_nat (unat (callCount info));
          wide = (if fixed then ''%15.5f'' else ''%f'');
          narrow = (if fixed then ''%7.3f'' else ''%f'')
      in [Txt (''- '' @ (if fixed then pad_left 100 name else name) @ eol
            @ (if fixed then pad_left 11 (reader_type fixed (kType info)) else reader_type fixed (kType info))
            @ [delimiter]),
          Num wide (kp_time info),
          Txt ([delimiter] @ (if fixed then pad_left 12 calls else calls) @ [delimiter]),
          Num wide (ddiv (kp_time info) callCountDouble), Txt [delimiter],
          Num narrow (dmul (ddiv (kp_time info) totalKernelsTime) hundred), Txt [delimiter],
          Num narrow (dmul (ddiv (kp_time info) totalExecuteTime) hundred), Txt eol])"

definition reader_summary :: "double \<Rightarrow> double \<Rightarrow> u64 \<Rightarrow> token list" where
  "reader_summary totalExecuteTime totalKernelsTime totalKernelsCalls =
     [Txt eol, Txt (rule_line @ eol), Txt (''Summary:'' @ eol), Txt eol,
      Txt ''Total Execution Time (incl. Kokkos + non-Kokkos):      '',
      Num ''%20.5f'' totalExecuteTime, Txt ('' seconds'' @ eol),
      Txt ''Total Time in Kokkos kernels:                          '',
      Num ''%20.5f'' totalKernelsTime, Txt ('' seconds'' @ eol),
      Txt ''   -> Time outside Kokkos kernels:                     '',
      Num ''%20.5f'' (dsub totalExecuteTime totalKernelsTime), Txt ('' seconds'' @ eol),
      Txt ''   -> Percentage in Kokkos kernels:                    '',
      Num ''%20.2f'' (dmul (ddiv totalKernelsTime totalExecuteTime) hundred), Txt ('' %'' @ eol),
      Txt (''Total Calls to Kokkos Kernels:                         ''
        @ pad_left 20 (dec_nat (unat totalKernelsCalls)) @ eol),
      Txt eol, Txt (rule_line @ eol)]"

definition reader_report ::
  "info_sort \<Rightarrow> char \<Rightarrow> int \<Rightarrow> double \<Rightarrow> KernelPerformanceInfo list \<Rightarrow> token list" where
  "reader_report srt delimiter fixed_width totalExecuteTime infos =
     (let kernelInfo = srt infos;
          totalKernelsTime = total_kernels_time kernelInfo;
          row = reader_row delimiter fixed_width totalKernelsTime totalExecuteTime
      in [Txt ('' (Type)   Total Time, Call Count, Avg. Time per Call, %Total Time in '' @
            ''Kernels, %Total Program Time'' @ eol), Txt (rule_line @ eol @ eol),
          Txt (''Regions: '' @ eol @ eol)]
       @ concat (map row (filter is_region kernelInfo))
       @ [Txt eol, Txt (rule_line @ eol), Txt (''Kernels: '' @ eol @ eol)]
       @ concat (map row (filter is_kernel kernelInfo))
       @ reader_summary totalExecuteTime totalKernelsTime (total_kernels_calls kernelInfo))"

text \<open>\<open>main\<close> on the arguments after the program name: what is printed, or how it ends.\<close>

definition reader_main :: "cxa_demangle \<Rightarrow> info_sort \<Rightarrow> file_system \<Rightarrow> string list \<Rightarrow> token list outcome" where
  "reader_main cxa srt fs args =
     (if args = [] then Inl (Exit (- 1))
      else (case reader_args args (CHR '' '') 0 of
          Inl x \<Rightarrow> Inl x
        | Inr (delimiter, fixed_width, files) \<Rightarrow>
            (case read_files cxa fs files d_zero [] of
               Inl x \<Rightarrow> Inl x
             | Inr (totalExecuteTime, infos) \<Rightarrow>
                 Inr (reader_report srt delimiter fixed_width totalExecuteTime infos))))"

section \<open>kp\_json\_writer\<close>

definition json_writer_main :: "cxa_demangle \<Rightarrow> info_sort \<Rightarrow> file_system \<Rightarrow> string list \<Rightarrow> token list outcome" where
  "json_writer_main cxa srt fs args =
     (if args = [] then Inl (Exit (- 1))
      else (case read_files cxa fs (dropWhile (\<lambda>a. first_char a = CHR ''-'') args) d_zero [] of
          Inl x \<Rightarrow> Inl x
        | Inr (totalExecuteTime, infos) \<Rightarrow> Inr (json_format_kernel_list srt totalExecuteTime infos)))"

section \<open>What merging keeps\<close>

lemma find_index_from_cases:
  "(find_index_from i ks n = - 1 \<and> n \<notin> kernelName ` set ks)
   \<or> (\<exists>j < length ks. find_index_from i ks n = int (i + j) \<and> kernelName (ks ! j) = n)"
proof (induction ks arbitrary: i)
  case (Cons k ks)
  show ?case
  proof (cases "kernelName k = n")
    case True
    then show ?thesis by force
  next
    case False
    from Cons [of "Suc i"] show ?thesis
    proof
      assume "\<exists>j < length ks. find_index_from (Suc i) ks n = int (Suc i + j) \<and> kernelName (ks ! j) = n"
      then obtain j where "j < length ks" "find_index_from (Suc i) ks n = int (Suc i + j)" "kernelName (ks ! j) = n"
        by blast
      with False show ?thesis by (intro disjI2 exI [of _ "Suc j"]) simp
    qed (use False in auto)
  qed
qed simp

lemma find_index_cases:
  obtains (none) "find_index ks n = - 1" "n \<notin> kernelName ` set ks"
  | (found) j where "j < length ks" "find_index ks n = int j" "kernelName (ks ! j) = n" "n \<in> kernelName ` set ks"
  using find_index_from_cases [of 0 ks n] by (auto simp: find_index_def)

lemma merge_info_new: "kernelName k \<noteq> [] \<Longrightarrow> kernelName k \<notin> kernelName ` set ks \<Longrightarrow> merge_info ks k = ks @ [k]"
  by (cases rule: find_index_cases [of ks "kernelName k"]) (auto simp: merge_info_def)

lemma merge_info_names:
  "map kernelName (merge_info ks k) =
     (if kernelName k = [] \<or> kernelName k \<in> kernelName ` set ks then map kernelName ks
      else map kernelName ks @ [kernelName k])"
proof (cases rule: find_index_cases [of ks "kernelName k"])
  case (found j)
  then have "(map kernelName ks)[j := kernelName (ks ! j)] = map kernelName ks"
    by (metis list_update_id nth_map)
  with found show ?thesis by (auto simp: merge_info_def map_update)
qed (auto simp: merge_info_def)

lemma merge_info_calls:
  "(\<Sum>k \<leftarrow> merge_info ks k. callCount k) = (\<Sum>k \<leftarrow> ks. callCount k) + (if kernelName k = [] then 0 else callCount k)"
proof (cases rule: find_index_cases [of ks "kernelName k"])
  case (found j)
  then show ?thesis
    using sum_list_update_word [of j "map callCount ks" "callCount k"]
    by (simp add: merge_info_def map_update)
qed (simp add: merge_info_def)

section \<open>Reading what the timer wrote\<close>

lemma fill_info_eof: "fill_info cxa \<lparr>f_bytes = bs, f_eof = True\<rparr> infos = Inr infos"
  by (simp add: fill_info.simps)

lemma fill_info_end: "fill_info cxa \<lparr>f_bytes = [], f_eof = False\<rparr> infos = Inr infos"
  by (subst fill_info.simps) (simp add: readFromFile_def fread1_def fill_info_eof)

text \<open>A record as a reader loads it into a fresh object.\<close>

definition loaded :: "cxa_demangle \<Rightarrow> KernelPerformanceInfo \<Rightarrow> KernelPerformanceInfo" where
  "loaded cxa k = k\<lparr>kernelName := demangleNameKokkos cxa (kernelName k), kp_startTime := d_zero\<rparr>"

lemma read_record:
  assumes "fits_record k" and "writeToBinaryFile k = Inr bs"
  shows "readFromFile cxa \<lparr>f_bytes = bs @ rest, f_eof = e\<rparr> (newKernelPerformanceInfo [] PARALLEL_FOR)
    = Inr (True, loaded cxa k, \<lparr>f_bytes = rest, f_eof = e\<rparr>)"
  using record_roundtrip [OF assms(1), of cxa rest e "newKernelPerformanceInfo [] PARALLEL_FOR"] assms(2)
  by (simp add: loaded_def newKernelPerformanceInfo_def)

lemma fill_info_records:
  assumes "list_all fits_record ks" and "write_records ks = Inr bs"
  shows "fill_info cxa \<lparr>f_bytes = bs, f_eof = False\<rparr> infos = Inr (foldl merge_info infos (map (loaded cxa) ks))"
  using assms
proof (induction ks arbitrary: bs infos)
  case Nil
  then show ?case by (simp add: fill_info_end)
next
  case (Cons k ks)
  then obtain b cs where b: "writeToBinaryFile k = Inr b" "write_records ks = Inr cs" "bs = b @ cs"
    by (auto split: sum.splits)
  have "fill_info cxa \<lparr>f_bytes = b @ cs, f_eof = False\<rparr> infos
      = fill_info cxa \<lparr>f_bytes = cs, f_eof = False\<rparr> (merge_info infos (loaded cxa k))"
    using Cons.prems(1) by (subst fill_info.simps) (simp add: read_record [OF _ b(1)])
  with Cons b show ?case by simp
qed

lemma write_records_returns: "list_all fits_record ks \<Longrightarrow> \<exists>bs. write_records ks = Inr bs"
  by (induction ks) (auto simp: writeToBinaryFile_fits)

lemma foldl_merge_distinct:
  assumes "distinct (map kernelName (ks @ ls))" and "[] \<notin> kernelName ` set ls"
  shows "foldl merge_info ks ls = ks @ ls"
  using assms
proof (induction ls arbitrary: ks)
  case (Cons l ls)
  then have "merge_info ks l = ks @ [l]" by (intro merge_info_new) auto
  with Cons.IH [of "ks @ [l]"] Cons.prems show ?case by simp
qed simp

lemma loaded_sel [simp]:
  "callCount (loaded cxa k) = callCount k" "kernelName (loaded cxa k) = demangleNameKokkos cxa (kernelName k)"
  by (simp_all add: loaded_def)

text \<open>
  C4. What a run saves, the readers get back: when the timer finishes in binary mode, the file it
  writes is read by \<open>kp_reader\<close> and \<open>kp_json_writer\<close> as the execution time and exactly the entries of
  the run, in the order of \<open>count_map\<close>, with the times bit for bit and the names demangled (names
  that fit a record, are not empty, and stay distinct when demangled).
\<close>

theorem finalize_read_back:
  assumes "p_env pr ''KOKKOS_TOOLS_TIMER_BINARY'' = Some ''1''" and "p_can_open pr (fileOutput pr json)"
    and "json = is_enabled (p_env pr ''KOKKOS_TOOLS_TIMER_JSON'')"
    and "infos = map snd (count_entries s)" and "list_all fits_record infos"
    and "distinct (map (demangleNameKokkos cxa \<circ> kernelName) infos)"
    and "\<forall>k \<in> set infos. demangleNameKokkos cxa (kernelName k) \<noteq> []"
  shows "\<exists>s' name bytes. kt_finalize_library pr now s = Inr (s', Some (name, Binary bytes))
    \<and> read_files cxa [name \<mapsto> bytes] [name] d_zero [] =
        Inr (dadd d_zero (dsub (seconds now) (kt_initTime s)), map (loaded cxa) infos)"
proof -
  let ?t = "dsub (seconds now) (kt_initTime s)"
  obtain bs where bs: "write_records infos = Inr bs" using write_records_returns [OF assms(5)] by blast
  have d: "distinct (map kernelName (map (loaded cxa) infos))" and n: "[] \<notin> kernelName ` set (map (loaded cxa) infos)"
    using assms(6,7) by (auto simp: loaded_def o_def image_iff)
  have "fill_info cxa \<lparr>f_bytes = bs, f_eof = False\<rparr> [] = Inr (map (loaded cxa) infos)"
    using fill_info_records [OF assms(5) bs, of cxa "[]"] foldl_merge_distinct [of "[]", OF _ n] d by simp
  moreover have "fread1 8 \<lparr>f_bytes = u64_bytes ?t @ bs, f_eof = False\<rparr> =
      (Some (u64_bytes ?t), \<lparr>f_bytes = bs, f_eof = False\<rparr>)"
    using fread1_append [of "u64_bytes ?t" bs False] by simp
  ultimately show ?thesis using assms(1-4) bs
    by (auto simp: kt_finalize_library_def is_enabled_def Let_def)
qed

theorem finalize_read_back_witness:
  "\<exists>s' name bytes. kt_finalize_library
      \<lparr>p_env = [''KOKKOS_TOOLS_TIMER_BINARY'' \<mapsto> ''1''], p_hostname = ''node'', p_pid = 42, p_cwd = ''/tmp'',
       p_can_open = (\<lambda>n. True), p_sort = insertion_sort compareKernelPerformanceInfo\<rparr> (5, 0)
      (timer_start\<lparr>kt_infos := [example_info], kt_count_map := [(''axpy'', 0)]\<rparr>) = Inr (s', Some (name, Binary bytes))
    \<and> read_files (\<lambda>_. None) [name \<mapsto> bytes] [name] d_zero [] =
        Inr (dadd d_zero (dsub (seconds (5, 0)) d_zero), [example_info\<lparr>kp_startTime := d_zero\<rparr>])"
proof -
  let ?pr = "\<lparr>p_env = [''KOKKOS_TOOLS_TIMER_BINARY'' \<mapsto> ''1''], p_hostname = ''node'', p_pid = 42, p_cwd = ''/tmp'',
       p_can_open = (\<lambda>n. True), p_sort = insertion_sort compareKernelPerformanceInfo\<rparr>"
  let ?s = "timer_start\<lparr>kt_infos := [example_info], kt_count_map := [(''axpy'', 0)]\<rparr>"
  have i: "[example_info] = map snd (count_entries ?s)" by (simp add: count_entries_def)
  have d: "demangleNameKokkos (\<lambda>_. None) (kernelName example_info) = ''axpy''"
    by (simp add: demangleNameKokkos_identity example_info_def)
  show ?thesis
    using finalize_read_back [of ?pr False "[example_info]" ?s "\<lambda>_. None" "(5, 0)", OF _ _ _ i] d
    by (simp add: is_enabled_def loaded_def timer_start_def example_info_def)
qed

section \<open>Several files\<close>

definition calls_of :: "string \<Rightarrow> KernelPerformanceInfo list \<Rightarrow> u64" where
  "calls_of n ks = (\<Sum>k \<leftarrow> ks. if kernelName k = n then callCount k else 0)"

lemma calls_of_merge:
  assumes "n \<noteq> []"
  shows "calls_of n (merge_info ks k) = calls_of n ks + (if kernelName k = n then callCount k else 0)"
proof (cases rule: find_index_cases [of ks "kernelName k"])
  case (found j)
  let ?g = "\<lambda>k. if kernelName k = n then callCount k else 0"
  from found show ?thesis
    using sum_list_update_word [of j "map ?g ks" "if kernelName k = n then callCount k else 0"] assms
    by (cases "kernelName k = []"; cases "kernelName k = n") (simp_all add: merge_info_def map_update calls_of_def)
qed (use assms in \<open>auto simp: merge_info_def calls_of_def\<close>)

lemma calls_of_foldl:
  "n \<noteq> [] \<Longrightarrow> calls_of n (foldl merge_info ks ls) = calls_of n ks + calls_of n ls"
  by (induction ls arbitrary: ks) (simp_all add: calls_of_merge, simp_all add: calls_of_def algebra_simps)

lemma names_foldl:
  "distinct (map kernelName ks) \<Longrightarrow> distinct (map kernelName (foldl merge_info ks ls))"
  by (induction ls arbitrary: ks) (simp_all add: merge_info_names)

lemma set_names_foldl:
  "kernelName ` set (foldl merge_info ks ls) = kernelName ` set ks \<union> (kernelName ` set ls - {[]})"
proof (induction ls arbitrary: ks)
  case (Cons l ls)
  have "kernelName ` set (merge_info ks l) = kernelName ` set ks \<union> ({kernelName l} - {[]})"
    using arg_cong [OF merge_info_names [of ks l], of set] by auto
  with Cons [of "merge_info ks l"] show ?case by auto
qed simp

text \<open>In a list with distinct names the calls of a name are those of its entry.\<close>

lemma calls_of_none: "n \<notin> kernelName ` set ks \<Longrightarrow> calls_of n ks = 0"
  by (induction ks) (auto simp: calls_of_def)

lemma calls_of_entry:
  assumes "distinct (map kernelName ks)" and "k \<in> set ks"
  shows "calls_of (kernelName k) ks = callCount k"
  using assms
proof (induction ks)
  case (Cons l ks)
  show ?case
  proof (cases "k = l")
    case True
    have "calls_of (kernelName l) ks = 0" using Cons.prems(1) by (simp add: calls_of_none)
    with True show ?thesis by (simp add: calls_of_def)
  next
    case False
    with Cons show ?thesis by (force simp: calls_of_def)
  qed
qed simp

text \<open>The files of several runs: the execution time and the entries of each.\<close>

definition saved_run :: "file_system \<Rightarrow> string \<Rightarrow> double \<times> KernelPerformanceInfo list \<Rightarrow> bool" where
  "saved_run fs name run \<longleftrightarrow> list_all fits_record (snd run)
     \<and> (\<exists>bs. write_records (snd run) = Inr bs \<and> fs name = Some (u64_bytes (fst run) @ bs))"

lemma read_files_runs:
  "list_all2 (saved_run fs) names runs \<Longrightarrow>
     read_files cxa fs names t infos = Inr (foldl dadd t (map fst runs),
       foldl merge_info infos (concat (map (map (loaded cxa) \<circ> snd) runs)))"
proof (induction names runs arbitrary: t infos rule: list_all2_induct)
  case (Cons name names run runs)
  then obtain bs where bs: "list_all fits_record (snd run)" "write_records (snd run) = Inr bs"
    "fs name = Some (u64_bytes (fst run) @ bs)" by (auto simp: saved_run_def)
  have "fread1 8 \<lparr>f_bytes = u64_bytes (fst run) @ bs, f_eof = False\<rparr> =
      (Some (u64_bytes (fst run)), \<lparr>f_bytes = bs, f_eof = False\<rparr>)"
    using fread1_append [of "u64_bytes (fst run)" bs False] by simp
  with bs Cons.IH show ?case by (simp add: fill_info_records)
qed simp

text \<open>
  Files of several runs are combined by label: reading them succeeds, the execution times are
  added up, every label that is not empty has one entry, and its call count is the sum of the counts saved under it
  in all the files.
\<close>

theorem reader_combines_runs:
  assumes "list_all2 (saved_run fs) names runs"
  shows "\<exists>infos. read_files cxa fs names d_zero [] = Inr (foldl dadd d_zero (map fst runs), infos)
    \<and> distinct (map kernelName infos)
    \<and> kernelName ` set infos = (\<lambda>k. demangleNameKokkos cxa (kernelName k)) ` set (concat (map snd runs)) - {[]}
    \<and> (\<forall>n. n \<noteq> [] \<longrightarrow> calls_of n infos =
          (\<Sum>k \<leftarrow> concat (map snd runs). if demangleNameKokkos cxa (kernelName k) = n then callCount k else 0))"
proof (intro exI conjI allI impI)
  let ?ls = "concat (map (map (loaded cxa) \<circ> snd) runs)"
  show "read_files cxa fs names d_zero [] = Inr (foldl dadd d_zero (map fst runs), foldl merge_info [] ?ls)"
    by (rule read_files_runs [OF assms])
  show "distinct (map kernelName (foldl merge_info [] ?ls))" by (rule names_foldl) simp
  show "kernelName ` set (foldl merge_info [] ?ls)
      = (\<lambda>k. demangleNameKokkos cxa (kernelName k)) ` set (concat (map snd runs)) - {[]}"
    by (simp add: set_names_foldl image_UN image_image)
  fix n :: string assume "n \<noteq> []"
  have "?ls = map (loaded cxa) (concat (map snd runs))" by (simp add: map_concat o_def)
  with \<open>n \<noteq> []\<close> show "calls_of n (foldl merge_info [] ?ls) =
      (\<Sum>k \<leftarrow> concat (map snd runs). if demangleNameKokkos cxa (kernelName k) = n then callCount k else 0)"
    by (simp add: calls_of_foldl) (simp add: calls_of_def o_def cong: if_cong)
qed

lemma example_fits: "fits_record example_info"
  by (simp add: example_info_def)

theorem reader_combines_runs_witness:
  "\<exists>bs infos. write_records [example_info] = Inr bs
    \<and> read_files (\<lambda>_. None) (\<lambda>name. Some (u64_bytes d_zero @ bs)) [''a.dat'', ''b.dat''] d_zero []
        = Inr (dadd (dadd d_zero d_zero) d_zero, infos) \<and> calls_of ''axpy'' infos = 6"
proof -
  obtain bs where bs: "write_records [example_info] = Inr bs"
    using write_records_returns [of "[example_info]"] example_fits by auto
  let ?fs = "\<lambda>name. Some (u64_bytes d_zero @ bs)" and ?r = "(d_zero, [example_info])"
  have "list_all2 (saved_run ?fs) [''a.dat'', ''b.dat''] [?r, ?r]"
    using bs example_fits by (simp add: saved_run_def)
  from reader_combines_runs [OF this, of "\<lambda>_. None"] obtain infos where
    "read_files (\<lambda>_. None) ?fs [''a.dat'', ''b.dat''] d_zero [] = Inr (dadd (dadd d_zero d_zero) d_zero, infos)"
    and c: "\<forall>n. n \<noteq> [] \<longrightarrow> calls_of n infos = (\<Sum>k \<leftarrow> [example_info, example_info].
      if demangleNameKokkos (\<lambda>_. None) (kernelName k) = n then callCount k else 0)" by auto
  moreover have "calls_of ''axpy'' infos = 6"
    using c [rule_format, of "''axpy''"] by (simp add: demangleNameKokkos_identity) (simp add: example_info_def)
  ultimately show ?thesis using bs by blast
qed

lemma d_of_nat_0: "d_of_nat 0 = d_zero"
  by (simp add: d_of_nat_def of_units_def d_zero_def)

lemma zero_over_zero: "ddiv d_zero d_zero = nan"
proof -
  have "d_mag d_zero = 0" by (simp add: d_zero_def)
  then show ?thesis by (simp add: ddiv_def Let_def)
qed

lemma zero_over_one: "ddiv d_zero (std_max (d_of_nat 1) d_zero) = d_zero"
proof -
  have "std_max (d_of_nat 1) (d_of_nat 0) = d_of_nat 1" by (simp add: std_max_def dlt_d_of_nat)
  moreover have "ddiv (d_of_nat 0) (d_of_nat 1) = d_of_nat 0"
    by (subst ddiv_d_of_nat) (simp_all add: d_of_nat_def)
  ultimately show ?thesis by (simp only: d_of_nat_0)
qed

text \<open>
  An entry that was started and never completed (a region that is still open) has no calls and
  no time. The timer's own report shows 0 as its average; \<open>kp_reader\<close> divides by the count and
  shows not-a-number.
\<close>

theorem reader_average_of_no_calls:
  "print_row d tk te (startTimer now (newKernelPerformanceInfo n REGION)) ! 3 = Num ''%f'' d_zero
   \<and> reader_row d 0 tk te (startTimer now (newKernelPerformanceInfo n REGION)) ! 3 = Num ''%f'' nan"
  by (simp add: print_row_def reader_row_def Let_def startTimer_def newKernelPerformanceInfo_def
      d_of_nat_0 zero_over_zero zero_over_one [unfolded One_nat_def])

text \<open>\<open>--delimiter\<close> as the last argument reads the character before the terminating null pointer of \<open>argv\<close>.\<close>

lemma reader_delimiter_last: "reader_main cxa srt fs [''--delimiter''] = Inl (Undefined ''argv[argc][0]'')"
  by (simp add: reader_main_def delimiter_arg_def first_char_def)

end
