(* ===== verification/Timer_Campaign.thy ===== *)
theory Timer_Campaign
  imports Timer_Reader
begin

text \<open>
  The simple kernel timer from end to end: processes that each run under the timer and save a file, and
  \<open>kp_reader\<close> (or \<open>kp_json_writer\<close>) run on all the files. What the reader counts is tied to the callbacks the
  processes made, through the refinement of \<open>Timer_Spec\<close> and the file format.
\<close>

section \<open>What the callbacks credit\<close>

text \<open>
  The labels that are credited with a call, in order: an end of a kernel credits the kernel begun last, a
  pop the region opened last that is still open. \<open>cur\<close> and \<open>regions\<close> are those at the start.
\<close>

fun credited :: "string option \<Rightarrow> string list \<Rightarrow> timer_event list \<Rightarrow> string list" where
  "credited cur regions [] = []"
| "credited cur regions (KBegin k name now # es) = credited name regions es"
| "credited cur regions (KEnd k kID now # es) =
     (case cur of None \<Rightarrow> [] | Some n \<Rightarrow> [n]) @ credited cur regions es"
| "credited cur regions (RPush n now # es) = credited cur (n # regions) es"
| "credited cur [] (RPop now # es) = credited cur [] es"
| "credited cur (n # regions) (RPop now # es) = n # credited cur regions es"

fun labels :: "timer_event list \<Rightarrow> string set" where
  "labels [] = {}"
| "labels (KBegin k name now # es) = set_option name \<union> labels es"
| "labels (KEnd k kID now # es) = labels es"
| "labels (RPush n now # es) = insert n (labels es)"
| "labels (RPop now # es) = labels es"

definition spec_calls :: "timer_spec \<Rightarrow> string \<Rightarrow> u64" where
  "spec_calls a n = (case sp_entries a n of None \<Rightarrow> 0 | Some k \<Rightarrow> callCount k)"

text \<open>The current kernel and the open regions have entries.\<close>

definition spec_closed :: "timer_spec \<Rightarrow> bool" where
  "spec_closed a \<longleftrightarrow> set_option (sp_current a) \<union> set (sp_stack a) \<subseteq> dom (sp_entries a)"

lemma spec_start [simp]:
  "sp_current (start_entry now n ty a) = sp_current a" "sp_stack (start_entry now n ty a) = sp_stack a"
  "dom (sp_entries (start_entry now n ty a)) = insert n (dom (sp_entries a))"
  "spec_calls (start_entry now n ty a) = spec_calls a"
  by (auto simp: start_entry_def spec_calls_def fun_eq_iff split: option.splits)

lemma spec_credit:
  "sp_current (credit now n a) = sp_current a" "sp_stack (credit now n a) = sp_stack a"
  "n \<in> dom (sp_entries a) \<Longrightarrow> spec_calls (credit now n a) m = spec_calls a m + (if m = n then 1 else 0)"
  by (auto simp: credit_def spec_calls_def)

lemma spec_calls_frame [simp]:
  "spec_calls (a\<lparr>sp_current := c\<rparr>) = spec_calls a" "spec_calls (a\<lparr>sp_stack := st\<rparr>) = spec_calls a"
  by (simp_all add: spec_calls_def fun_eq_iff)

lemma spec_step_credits:
  assumes "spec_next a e = Inr a'" and "spec_closed a"
  shows "spec_closed a' \<and> dom (sp_entries a') = dom (sp_entries a) \<union> labels [e]
    \<and> spec_calls a' n = spec_calls a n + of_nat (count_list (credited (sp_current a) (sp_stack a) [e]) n)
    \<and> credited (sp_current a) (sp_stack a) (e # es)
      = credited (sp_current a) (sp_stack a) [e] @ credited (sp_current a') (sp_stack a') es
    \<and> set (credited (sp_current a) (sp_stack a) [e]) \<subseteq> dom (sp_entries a)"
proof (cases e)
  case (KBegin k name now)
  with assms(1) obtain m where "name = Some m" "a' = (start_entry now m (kind_type k) a)\<lparr>sp_current := Some m\<rparr>"
    by (cases name) (auto split: if_splits)
  with assms(2) KBegin show ?thesis by (simp add: spec_closed_def subset_insertI2)
next
  case (KEnd k i now)
  with assms obtain m where "sp_current a = Some m" "a' = credit now m a" "m \<in> dom (sp_entries a)"
    by (auto simp: spec_closed_def split: option.splits)
  with assms KEnd show ?thesis by (simp add: spec_credit spec_closed_def)
next
  case (RPush m now)
  with assms(1) have "a' = (start_entry now m REGION a)\<lparr>sp_stack := m # sp_stack a\<rparr>" by (simp split: if_splits)
  with assms(2) RPush show ?thesis by (simp add: spec_closed_def subset_insertI2)
next
  case (RPop now)
  show ?thesis
  proof (cases "sp_stack a")
    case Nil
    with RPop assms show ?thesis by simp
  next
    case (Cons m ms)
    with assms have "m \<in> dom (sp_entries a)" "a' = (credit now m a)\<lparr>sp_stack := ms\<rparr>"
      using RPop by (simp_all add: spec_closed_def)
    with assms(2) RPop Cons show ?thesis by (simp add: spec_credit spec_closed_def)
  qed
qed

lemma labels_Cons: "labels (e # es) = labels [e] \<union> labels es"
  by (cases e) auto

lemma spec_run_credits:
  assumes "run_events spec_next a es = Inr a'" and "spec_closed a"
  shows "dom (sp_entries a') = dom (sp_entries a) \<union> labels es
    \<and> spec_calls a' n = spec_calls a n + of_nat (count_list (credited (sp_current a) (sp_stack a) es) n)
    \<and> set (credited (sp_current a) (sp_stack a) es) \<subseteq> dom (sp_entries a')"
  using assms
proof (induction es arbitrary: a)
  case (Cons e es)
  then obtain a1 where a1: "spec_next a e = Inr a1" "run_events spec_next a1 es = Inr a'"
    by (auto split: sum.splits)
  note s = spec_step_credits [OF a1(1) Cons.prems(2), of n es]
  from Cons.IH [OF a1(2)] s show ?case
    by (auto simp: labels_Cons [of e es] add.assoc)
qed simp

section \<open>From the state to the file\<close>

lemma sum_one_hot:
  "distinct xs \<Longrightarrow> (\<Sum>l \<leftarrow> xs. if P l \<and> c = l then 1 else 0) = (if P c \<and> c \<in> set xs then 1 else (0 :: u64))"
  by (induction xs) auto

lemma sum_counts:
  assumes "distinct xs" and "set cs \<subseteq> set xs"
  shows "(\<Sum>l \<leftarrow> xs. if P l then of_nat (count_list cs l) else 0) = (of_nat (length (filter P cs)) :: u64)"
  using assms(2)
proof (induction cs)
  case (Cons c cs)
  have "(\<Sum>l \<leftarrow> xs. if P l then of_nat (count_list (c # cs) l) else 0)
      = (\<Sum>l \<leftarrow> xs. (if P l then of_nat (count_list cs l) else 0) + (if P l \<and> c = l then 1 else (0 :: u64)))"
    by (rule arg_cong [of _ _ sum_list], rule map_cong) auto
  with Cons sum_one_hot [OF assms(1), of P c] show ?case by (simp add: sum_list_addf)
qed (simp add: if_distrib sum_list_0 cong: if_cong)

text \<open>The entries of a run that starts a process: one for each label, with the calls credited to it.\<close>

lemma timer_inv_init: "timer_inv (kt_init_library q v d now timer_start)"
  by (simp add: kt_init_library_def timer_start_def timer_inv_def map_ok_def regions_ok_def)

lemma abs_init: "timer_abs (kt_init_library q v d now timer_start) = \<lparr>sp_entries = Map.empty, sp_current = None, sp_stack = []\<rparr>"
  by (simp add: timer_abs_def kt_init_library_def timer_start_def entry_def fun_eq_iff open_regions_def)

lemma run_entries:
  assumes "run_events timer_next (kt_init_library q v d now timer_start) es = Inr s"
  shows "timer_inv s \<and> dom (entry s) = labels es
    \<and> (\<forall>n. calls s n = of_nat (count_list (credited None [] es) n))
    \<and> set (credited None [] es) \<subseteq> labels es"
proof -
  let ?s0 = "kt_init_library q v d now timer_start"
  have r: "run_events spec_next (timer_abs ?s0) es = Inr (timer_abs s)"
    using run_refines [OF timer_inv_init, of q v d now es] assms by simp
  have "spec_closed (timer_abs ?s0)" by (simp add: abs_init spec_closed_def)
  note c = spec_run_credits [OF r this, unfolded abs_init, simplified]
  have "sp_entries (timer_abs s) = entry s" by (simp add: timer_abs_def)
  with c have "dom (entry s) = labels es" "set (credited None [] es) \<subseteq> labels es"
    "calls s n = of_nat (count_list (credited None [] es) n)" for n
    using c [of n] by (simp_all add: calls_def spec_calls_def)
  moreover have "timer_inv s"
    using run_events_invariant [of timer_inv timer_next ?s0 es s] timer_next_inv timer_inv_init assms by blast
  ultimately show ?thesis by blast
qed

lemma entries_counted:
  assumes "timer_inv s" and "\<forall>n. calls s n = of_nat (count_list cs n)" and "set cs \<subseteq> dom (entry s)"
  shows "(\<Sum>k \<leftarrow> map snd (count_entries s). if P (kernelName k) then callCount k else 0) = of_nat (length (filter P cs))"
proof -
  let ?m = "count_entries s"
  have d: "distinct (map fst ?m)" by (rule distinct_count_entries [OF assms(1)])
  have k: "kernelName k = n \<and> callCount k = of_nat (count_list cs n)" if "(n, k) \<in> set ?m" for n k
  proof -
    have e: "entry s n = Some k" using d that by (simp flip: map_of_count_entries)
    with assms(1) have "kernelName k = n" by (auto simp: entry_def timer_inv_def map_ok_def)
    with e assms(2) show ?thesis by (metis calls_def option.simps(5))
  qed
  have "(\<Sum>k \<leftarrow> map snd ?m. if P (kernelName k) then callCount k else 0)
      = (\<Sum>n \<leftarrow> map fst ?m. if P n then of_nat (count_list cs n) else 0)"
    unfolding map_map by (rule arg_cong [of _ _ sum_list], rule map_cong) (auto simp: k)
  moreover have "dom (entry s) = set (map fst ?m)"
    by (simp add: dom_map_of_conv_image_fst flip: map_of_count_entries)
  ultimately show ?thesis using sum_counts [OF d] assms(3) by simp
qed

lemma entry_labels:
  assumes "timer_inv s" and "k \<in> set (map snd (count_entries s))"
  shows "kernelName k \<in> dom (entry s)"
proof -
  from assms(2) obtain n where "entry s n = Some k"
    using distinct_count_entries [OF assms(1)] by (force simp flip: map_of_count_entries)
  moreover from this assms(1) have "kernelName k = n" by (auto simp: entry_def timer_inv_def map_ok_def)
  ultimately show ?thesis by blast
qed

lemma entry_names:
  assumes "timer_inv s"
  shows "kernelName ` set (map snd (count_entries s)) = dom (entry s)"
proof -
  have "n \<in> kernelName ` set (map snd (count_entries s))" if "entry s n = Some k" for n k
  proof -
    have "(n, k) \<in> set (count_entries s)"
      using that distinct_count_entries [OF assms] by (simp flip: map_of_count_entries)
    moreover have "kernelName k = n" using that assms by (auto simp: entry_def timer_inv_def map_ok_def)
    ultimately show ?thesis by force
  qed
  moreover have "kernelName ` set (map snd (count_entries s)) \<subseteq> dom (entry s)" using entry_labels [OF assms] by blast
  ultimately show ?thesis by blast
qed

lemma entries_fit:
  assumes "timer_inv s" and "\<forall>n \<in> dom (entry s). length n < 2 ^ 32 - 32"
  shows "list_all fits_record (map snd (count_entries s))"
  unfolding list_all_iff using entry_labels [OF assms(1)] assms(2) by blast

section \<open>Processes\<close>

text \<open>A process under the timer: its environment, the arguments of the initialisation, the callbacks, and the clock at both ends.\<close>

record timer_run =
  tr_process :: process
  tr_loadSeq :: int
  tr_interfaceVer :: u64
  tr_start :: "int \<times> int"
  tr_events :: "timer_event list"
  tr_finish :: "int \<times> int"

text \<open>The file it leaves, if it writes one.\<close>

definition run_process :: "timer_run \<Rightarrow> (string \<times> written) option outcome" where
  "run_process r =
     obind (run_events timer_next (kt_init_library (tr_loadSeq r) (tr_interfaceVer r)
         (p_env (tr_process r) ''KOKKOSP_OUTPUT_DELIM'') (tr_start r) timer_start) (tr_events r)) (\<lambda>s.
     obind (kt_finalize_library (tr_process r) (tr_finish r) s) (\<lambda>(s', file). Inr file))"

definition run_time :: "timer_run \<Rightarrow> double" where
  "run_time r = dsub (seconds (tr_finish r)) (seconds (tr_start r))"

lemma timer_next_initTime: "timer_next s e = Inr s' \<Longrightarrow> kt_initTime s' = kt_initTime s"
  by (cases e) (auto simp: timer_next_def begin_parallel_def increment_counter_def increment_counter_region_def
      kt_end_parallel_def kt_push_profile_region_def kt_pop_profile_region_def lookup_or_new_def modify_info_def Let_def
      split: option.splits if_splits sum.splits prod.splits)

lemma run_initTime: "run_events timer_next s es = Inr s' \<Longrightarrow> kt_initTime s' = kt_initTime s"
  using run_events_invariant [of "\<lambda>t. kt_initTime t = kt_initTime s" timer_next s es s'] timer_next_initTime by auto

text \<open>The file a process leaves holds its run.\<close>

lemma process_saves:
  assumes "run_process r = Inr (Some (name, Binary bytes))" and "\<forall>n \<in> labels (tr_events r). length n < 2 ^ 32 - 32"
    and "fs path = Some bytes"
  shows "\<exists>infos. saved_run fs path (run_time r, infos) \<and> kernelName ` set infos = labels (tr_events r)
    \<and> (\<forall>P. (\<Sum>k \<leftarrow> infos. if P (kernelName k) then callCount k else 0)
        = of_nat (length (filter P (credited None [] (tr_events r)))))"
proof -
  let ?s0 = "kt_init_library (tr_loadSeq r) (tr_interfaceVer r) (p_env (tr_process r) ''KOKKOSP_OUTPUT_DELIM'')
    (tr_start r) timer_start"
  from assms(1) obtain s s' where s: "run_events timer_next ?s0 (tr_events r) = Inr s"
    and f: "kt_finalize_library (tr_process r) (tr_finish r) s = Inr (s', Some (name, Binary bytes))"
    by (auto simp: run_process_def obind_Inr)
  note e = run_entries [OF s]
  let ?infos = "map snd (count_entries s)"
  have "kt_initTime s = seconds (tr_start r)"
    using run_initTime [OF s] by (simp add: kt_init_library_def)
  with f obtain bs where bs: "write_records ?infos = Inr bs" "bytes = u64_bytes (run_time r) @ bs"
    by (auto simp: kt_finalize_library_def run_time_def Let_def split: if_splits sum.splits)
  have "list_all fits_record ?infos" using entries_fit [of s] e assms(2) by metis
  with bs assms(3) have "saved_run fs path (run_time r, ?infos)" by (simp add: saved_run_def)
  moreover have "(\<Sum>k \<leftarrow> ?infos. if P (kernelName k) then callCount k else 0)
      = of_nat (length (filter P (credited None [] (tr_events r))))" for P
    using entries_counted [of s "credited None [] (tr_events r)" P] e by simp
  moreover have "kernelName ` set ?infos = labels (tr_events r)"
    using entry_names [of s] e by simp
  ultimately show ?thesis by blast
qed

lemma processes_save:
  assumes "list_all2 (\<lambda>r path. \<exists>name bytes. run_process r = Inr (Some (name, Binary bytes)) \<and> fs path = Some bytes) rs paths"
    and "\<forall>r \<in> set rs. \<forall>n \<in> labels (tr_events r). length n < 2 ^ 32 - 32"
  shows "\<exists>runs. list_all2 (saved_run fs) paths runs \<and> map fst runs = map run_time rs
    \<and> kernelName ` set (concat (map snd runs)) = (\<Union>r \<in> set rs. labels (tr_events r))
    \<and> (\<forall>P. (\<Sum>k \<leftarrow> concat (map snd runs). if P (kernelName k) then callCount k else 0)
        = of_nat (length (filter P (concat (map (\<lambda>r. credited None [] (tr_events r)) rs)))))"
  using assms
proof (induction rs paths rule: list_all2_induct)
  case (Cons r rs path paths)
  have "\<forall>r \<in> set rs. \<forall>n \<in> labels (tr_events r). length n < 2 ^ 32 - 32" using Cons.prems by simp
  from Cons.IH [OF this] obtain runs where runs: "list_all2 (saved_run fs) paths runs" "map fst runs = map run_time rs"
    "kernelName ` set (concat (map snd runs)) = (\<Union>r \<in> set rs. labels (tr_events r))"
    "\<forall>P. (\<Sum>k \<leftarrow> concat (map snd runs). if P (kernelName k) then callCount k else 0)
        = of_nat (length (filter P (concat (map (\<lambda>r. credited None [] (tr_events r)) rs))))" by blast
  from Cons.hyps(1) Cons.prems obtain infos where "saved_run fs path (run_time r, infos)" "kernelName ` set infos = labels (tr_events r)"
    "\<forall>P. (\<Sum>k \<leftarrow> infos. if P (kernelName k) then callCount k else 0)
        = of_nat (length (filter P (credited None [] (tr_events r))))"
    using process_saves [of r _ _ fs path] by auto
  with runs show ?case by (intro exI [of _ "(run_time r, infos) # runs"]) (simp add: image_Un)
qed simp

text \<open>
  C3. From callbacks to the combined report. When any number of processes run under the timer, each with
  any callbacks, and each leaves a binary file, reading these files succeeds, in whatever order they are given, and the
  execution times are added up. There is exactly one entry for each demangled label of a kernel or region of some process
  that is not empty, whether or not a call of it was completed, and none besides; its call count is the number of ends
  and pops that credit such a label in all the processes together.
\<close>

theorem campaign_counted:
  assumes "list_all2 (\<lambda>r path. \<exists>name bytes. run_process r = Inr (Some (name, Binary bytes)) \<and> fs path = Some bytes) rs paths"
    and "\<forall>r \<in> set rs. \<forall>n \<in> labels (tr_events r). length n < 2 ^ 32 - 32"
  shows "\<exists>infos. read_files cxa fs paths d_zero [] = Inr (foldl dadd d_zero (map run_time rs), infos)
    \<and> distinct (map kernelName infos)
    \<and> kernelName ` set infos = demangleNameKokkos cxa ` (\<Union>r \<in> set rs. labels (tr_events r)) - {[]}
    \<and> (\<forall>k \<in> set infos. callCount k = of_nat (length (filter (\<lambda>l. demangleNameKokkos cxa l = kernelName k)
        (concat (map (\<lambda>r. credited None [] (tr_events r)) rs)))))"
proof -
  from processes_save [OF assms] obtain runs where runs: "list_all2 (saved_run fs) paths runs" "map fst runs = map run_time rs"
    and names: "kernelName ` set (concat (map snd runs)) = (\<Union>r \<in> set rs. labels (tr_events r))"
    and sums: "\<And>P. (\<Sum>k \<leftarrow> concat (map snd runs). if P (kernelName k) then callCount k else 0)
        = of_nat (length (filter P (concat (map (\<lambda>r. credited None [] (tr_events r)) rs))))" by blast
  from reader_combines_runs [OF runs(1), of cxa] obtain infos where
    r: "read_files cxa fs paths d_zero [] = Inr (foldl dadd d_zero (map fst runs), infos)" "distinct (map kernelName infos)"
    "kernelName ` set infos = (\<lambda>k. demangleNameKokkos cxa (kernelName k)) ` set (concat (map snd runs)) - {[]}"
    and c: "\<forall>n. n \<noteq> [] \<longrightarrow> calls_of n infos =
      (\<Sum>k \<leftarrow> concat (map snd runs). if demangleNameKokkos cxa (kernelName k) = n then callCount k else 0)" by blast
  have "callCount k = of_nat (length (filter (\<lambda>l. demangleNameKokkos cxa l = kernelName k)
        (concat (map (\<lambda>r. credited None [] (tr_events r)) rs))))" if "k \<in> set infos" for k
  proof -
    have "kernelName k \<noteq> []" using that r(3) by (metis DiffE imageI singletonI)
    with c calls_of_entry [OF r(2) that] sums [of "\<lambda>l. demangleNameKokkos cxa l = kernelName k"] show ?thesis
      by (metis (no_types))
  qed
  with r runs(2) names show ?thesis by (intro exI [of _ infos]) (simp add: image_image flip: names)
qed

text \<open>A process in binary mode writes a file when its callbacks return.\<close>

lemma run_process_writes:
  assumes "p_env (tr_process r) ''KOKKOS_TOOLS_TIMER_BINARY'' = Some ''1''" and "\<And>f. p_can_open (tr_process r) f"
    and "returns (run_events spec_next \<lparr>sp_entries = Map.empty, sp_current = None, sp_stack = []\<rparr> (tr_events r))"
    and "\<forall>n \<in> labels (tr_events r). length n < 2 ^ 32 - 32"
  shows "\<exists>name bytes. run_process r = Inr (Some (name, Binary bytes))"
proof -
  let ?s0 = "kt_init_library (tr_loadSeq r) (tr_interfaceVer r) (p_env (tr_process r) ''KOKKOSP_OUTPUT_DELIM'')
    (tr_start r) timer_start"
  from assms(3) run_refines [OF timer_inv_init, of "tr_loadSeq r" "tr_interfaceVer r"
      "p_env (tr_process r) ''KOKKOSP_OUTPUT_DELIM''" "tr_start r" "tr_events r"]
  obtain s where s: "run_events timer_next ?s0 (tr_events r) = Inr s"
    by (cases "run_events timer_next ?s0 (tr_events r)") (auto simp: returns_iff abs_init)
  with assms(4) have "list_all fits_record (map snd (count_entries s))"
    using entries_fit [of s] run_entries [OF s] by metis
  then obtain bs where "write_records (map snd (count_entries s)) = Inr bs" using write_records_returns by blast
  with assms(1,2) s show ?thesis by (auto simp: run_process_def kt_finalize_library_def is_enabled_def Let_def)
qed

text \<open>Two processes: one runs \<open>axpy\<close> twice inside a region, the other runs it once.\<close>

definition binary_process :: "string \<Rightarrow> process" where
  "binary_process host = \<lparr>p_env = (\<lambda>v. if v = ''KOKKOS_TOOLS_TIMER_BINARY'' then Some ''1'' else None), p_hostname = host,
     p_pid = 7, p_cwd = ''/'', p_can_open = (\<lambda>f. True), p_sort = insertion_sort compareKernelPerformanceInfo\<rparr>"

definition campaign :: "timer_run list" where
  "campaign =
     [\<lparr>tr_process = binary_process ''a'', tr_loadSeq = 0, tr_interfaceVer = 20211015, tr_start = (0, 0),
       tr_events = [RPush ''main'' (1, 0), KBegin ParFor (Some ''axpy'') (2, 0), KEnd ParFor 0 (3, 0),
         KBegin ParFor (Some ''axpy'') (4, 0), KEnd ParFor 1 (5, 0), RPop (6, 0)], tr_finish = (7, 0)\<rparr>,
      \<lparr>tr_process = binary_process ''b'', tr_loadSeq = 0, tr_interfaceVer = 20211015, tr_start = (0, 0),
       tr_events = [KBegin ParReduce (Some ''axpy'') (1, 0), KEnd ParReduce 0 (2, 0)], tr_finish = (3, 0)\<rparr>]"

lemma two_entries:
  assumes "f ` S = {a, b}" and "\<And>k. k \<in> S \<Longrightarrow> f k = a \<Longrightarrow> g k = x" and "\<And>k. k \<in> S \<Longrightarrow> f k = b \<Longrightarrow> g k = y"
  shows "(\<lambda>k. (f k, g k)) ` S = {(a, x), (b, y)}"
proof (rule subset_antisym)
  show "(\<lambda>k. (f k, g k)) ` S \<subseteq> {(a, x), (b, y)}"
  proof
    fix p assume "p \<in> (\<lambda>k. (f k, g k)) ` S"
    then obtain k where k: "k \<in> S" "p = (f k, g k)" by (rule imageE)
    from imageI [OF k(1), of f] have "f k = a \<or> f k = b" by (simp add: assms(1))
    with k assms(2,3) [of k] show "p \<in> {(a, x), (b, y)}" by auto
  qed
  have "a \<in> f ` S" "b \<in> f ` S" by (simp_all add: assms(1))
  then obtain k l where kl: "k \<in> S" "f k = a" "l \<in> S" "f l = b" by (elim imageE) metis
  then have "(a, x) = (f k, g k)" "(b, y) = (f l, g l)" using assms(2) [of k] assms(3) [of l] by simp_all
  then have "(a, x) \<in> (\<lambda>k. (f k, g k)) ` S" "(b, y) \<in> (\<lambda>k. (f k, g k)) ` S"
    using imageI [OF kl(1), of "\<lambda>k. (f k, g k)"] imageI [OF kl(3), of "\<lambda>k. (f k, g k)"] by simp_all
  then show "{(a, x), (b, y)} \<subseteq> (\<lambda>k. (f k, g k)) ` S" by simp
qed

theorem campaign_counted_witness:
  "\<exists>a b infos. read_files (\<lambda>_. None) [''a-7.dat'' \<mapsto> a, ''b-7.dat'' \<mapsto> b] [''a-7.dat'', ''b-7.dat''] d_zero []
      = Inr (foldl dadd d_zero (map run_time campaign), infos)
    \<and> set (map (\<lambda>k. (kernelName k, callCount k)) infos) = {(''axpy'', 3), (''main'', 1)}"
proof -
  have short: "\<forall>r \<in> set campaign. \<forall>n \<in> labels (tr_events r). length n < 2 ^ 32 - 32" by (simp add: campaign_def)
  have w: "\<exists>name bytes. run_process r = Inr (Some (name, Binary bytes))" if "r \<in> set campaign" for r
    by (rule run_process_writes) (use that short in \<open>auto simp: campaign_def binary_process_def start_entry_def credit_def\<close>)
  have "campaign ! 0 \<in> set campaign" "campaign ! 1 \<in> set campaign" by (simp_all add: campaign_def)
  with w obtain n a m b where r: "run_process (campaign ! 0) = Inr (Some (n, Binary a))"
    "run_process (campaign ! 1) = Inr (Some (m, Binary b))" by blast
  have "list_all2 (\<lambda>r path. \<exists>name bytes. run_process r = Inr (Some (name, Binary bytes))
      \<and> [''a-7.dat'' \<mapsto> a, ''b-7.dat'' \<mapsto> b] path = Some bytes) campaign [''a-7.dat'', ''b-7.dat'']"
    using r by (simp add: campaign_def)
  from campaign_counted [OF this short, of "\<lambda>_. None"] obtain infos where
    i: "read_files (\<lambda>_. None) [''a-7.dat'' \<mapsto> a, ''b-7.dat'' \<mapsto> b] [''a-7.dat'', ''b-7.dat''] d_zero []
      = Inr (foldl dadd d_zero (map run_time campaign), infos)"
    and n: "kernelName ` set infos = demangleNameKokkos (\<lambda>_. None) ` (\<Union>r \<in> set campaign. labels (tr_events r)) - {[]}"
    and c: "\<forall>k \<in> set infos. callCount k = of_nat (length (filter (\<lambda>l. demangleNameKokkos (\<lambda>_. None) l = kernelName k)
        (concat (map (\<lambda>r. credited None [] (tr_events r)) campaign))))" by blast
  have l: "concat (map (\<lambda>r. credited None [] (tr_events r)) campaign) = [''axpy'', ''axpy'', ''main'', ''axpy'']"
    by (simp add: campaign_def)
  have d: "demangleNameKokkos (\<lambda>_. None) ''axpy'' = ''axpy''" "demangleNameKokkos (\<lambda>_. None) ''main'' = ''main''"
    by (simp_all add: demangleNameKokkos_identity)
  have s: "kernelName ` set infos = {''axpy'', ''main''}" unfolding n by (auto simp: campaign_def d)
  have axpy: "callCount k = 3" if "k \<in> set infos" "kernelName k = ''axpy''" for k
    using c [rule_format, OF that(1)] by (simp add: that(2) l d)
  have main: "callCount k = 1" if "k \<in> set infos" "kernelName k = ''main''" for k
    using c [rule_format, OF that(1)] by (simp add: that(2) l d)
  have "set (map (\<lambda>k. (kernelName k, callCount k)) infos) = {(''axpy'', 3), (''main'', 1)}"
    using two_entries [OF s axpy main] by simp
  with i show ?thesis by blast
qed

end
