(* ===== verification/Stack_Tree.thy ===== *)
theory Stack_Tree
  imports Double Ordered_Map Demangle "HOL-Library.Sublist" "HOL-Library.Multiset"
begin

text \<open>
  The call tree of \<open>profiling/space-time-stack/kp_space_time_stack.cpp\<close>: \<open>struct StackNode\<close>.

  A node keeps its children in a \<open>std::set\<close> ordered by kind and name, so the two are the key under
  which the parent holds it; the root is \<open>(STACK_REGION, "")\<close>. A pointer to a node is the path of
  keys from the root, and \<open>parent\<close> is the path without its last key. Only \<open>get_child\<close> adds nodes and
  nothing removes them, so pointers stay valid. A clock reading is a number of nanoseconds.
\<close>

section \<open>Nodes\<close>

datatype StackKind = STACK_FOR | STACK_REDUCE | STACK_SCAN | STACK_REGION | STACK_COPY

fun kind_int :: "StackKind \<Rightarrow> nat" where
  "kind_int STACK_FOR = 0" | "kind_int STACK_REDUCE = 1" | "kind_int STACK_SCAN = 2"
| "kind_int STACK_REGION = 3" | "kind_int STACK_COPY = 4"

type_synonym node_key = "StackKind \<times> string"
type_synonym path = "node_key list"

definition node_less :: "node_key \<Rightarrow> node_key \<Rightarrow> bool" where
  "node_less a b = (if fst a \<noteq> fst b then kind_int (fst a) < kind_int (fst b) else str_less (snd a) (snd b))"

lemma kind_int_inj: "kind_int a = kind_int b \<longleftrightarrow> a = b"
  by (cases a; cases b) simp_all

interpretation node_order: key_order node_less
proof
  show "\<not> node_less k k" for k by (simp add: node_less_def str_less_irrefl)
  show "node_less a b \<Longrightarrow> node_less b c \<Longrightarrow> node_less a c" for a b c
    by (auto simp: node_less_def kind_int_inj split: if_splits intro: str_less_trans)
  show "a \<noteq> b \<Longrightarrow> node_less a b \<or> node_less b a" for a b
    using str_less_total [of "snd a" "snd b"] kind_int_inj [of "fst a" "fst b"]
    by (auto simp: node_less_def prod_eq_iff)
qed

record node_info =
  total_runtime :: double
  total_kokkos_runtime :: double
  max_runtime :: double
  avg_runtime :: double
  number_of_calls :: u64
  total_number_of_kernel_calls :: u64
  start_time :: int

datatype StackNode = StackNode (node_info: node_info) (children: "(node_key \<times> StackNode) list")

text \<open>The constructor; \<open>max_runtime\<close> and \<open>avg_runtime\<close> are set by \<open>reduce_over_mpi\<close> before they are read.\<close>

definition new_info :: node_info where
  "new_info = \<lparr>total_runtime = d_zero, total_kokkos_runtime = d_zero, max_runtime = d_zero,
     avg_runtime = d_zero, number_of_calls = 0, total_number_of_kernel_calls = 0, start_time = 0\<rparr>"

definition new_node :: StackNode where
  "new_node = StackNode new_info []"

definition root_key :: node_key where
  "root_key = (STACK_REGION, [])"

definition ensure_child :: "node_key \<Rightarrow> StackNode \<Rightarrow> StackNode" where
  "ensure_child k n = StackNode (node_info n) (om_insert node_less k new_node (children n))"

definition get_child :: "node_key \<Rightarrow> StackNode \<Rightarrow> StackNode option" where
  "get_child k n = om_find node_less k (children n)"

text \<open>The node a pointer points to, and an assignment through the pointer.\<close>

fun node_at :: "path \<Rightarrow> StackNode \<Rightarrow> StackNode option" where
  "node_at [] n = Some n"
| "node_at (k # ks) n = (case get_child k n of None \<Rightarrow> None | Some c \<Rightarrow> node_at ks c)"

fun update_at :: "path \<Rightarrow> (StackNode \<Rightarrow> StackNode) \<Rightarrow> StackNode \<Rightarrow> StackNode" where
  "update_at [] f n = f n"
| "update_at (k # ks) f n = StackNode (node_info n) (om_update node_less k (update_at ks f) (children n))"

definition map_info :: "(node_info \<Rightarrow> node_info) \<Rightarrow> StackNode \<Rightarrow> StackNode" where
  "map_info f n = StackNode (f (node_info n)) (children n)"

lemma map_info_sel [simp]:
  "node_info (map_info f n) = f (node_info n)" "children (map_info f n) = children n"
  by (simp_all add: map_info_def)

text \<open>
  \<open>get_full_name\<close>: the names on the way from the root, which has none and is left out.
\<close>

fun full_name :: "path \<Rightarrow> string" where
  "full_name [] = []"
| "full_name [k] = snd k"
| "full_name (k # l # ks) = snd k @ ''/'' @ full_name (l # ks)"

definition is_kernel_kind :: "StackKind \<Rightarrow> bool" where
  "is_kernel_kind kind = (kind = STACK_FOR \<or> kind = STACK_REDUCE \<or> kind = STACK_SCAN \<or> kind = STACK_COPY)"

definition node_begin :: "StackKind \<Rightarrow> int \<Rightarrow> node_info \<Rightarrow> node_info" where
  "node_begin kind now i = i
     \<lparr>number_of_calls := number_of_calls i + 1,
      total_number_of_kernel_calls := total_number_of_kernel_calls i + (if is_kernel_kind kind then 1 else 0),
      start_time := now\<rparr>"

text \<open>\<open>operator-\<close> of two clock readings, in seconds.\<close>

definition nano :: double where "nano = d_of_rat (1 / 10 ^ 9)"

definition elapsed :: "int \<Rightarrow> int \<Rightarrow> double" where
  "elapsed b a = dmul (d_of_int (b - a)) nano"

definition node_end :: "int \<Rightarrow> node_info \<Rightarrow> node_info" where
  "node_end end_time i = i\<lparr>total_runtime := dadd (total_runtime i) (elapsed end_time (start_time i))\<rparr>"

section \<open>Totals over the tree\<close>

text \<open>
  \<open>adopt\<close>: first the node's own time, then each child in the order of the set, adopted before its
  totals are added; the last line is an assertion.
\<close>

fun adopt :: "StackKind \<Rightarrow> StackNode \<Rightarrow> StackNode outcome"
and adopt_children :: "node_info \<Rightarrow> (node_key \<times> StackNode) list \<Rightarrow> (node_info \<times> (node_key \<times> StackNode) list) outcome"
where
  "adopt kind (StackNode i cs) =
     (let i1 = (if kind \<noteq> STACK_REGION
        then i\<lparr>total_kokkos_runtime := dadd (total_kokkos_runtime i) (total_runtime i)\<rparr> else i) in
      case adopt_children i1 cs of
        Inl x \<Rightarrow> Inl x
      | Inr (i2, cs2) \<Rightarrow>
          if dle d_zero (total_kokkos_runtime i2) then Inr (StackNode i2 cs2) else Inl Abort)"
| "adopt_children i [] = Inr (i, [])"
| "adopt_children i ((k, c) # cs) =
     (case adopt (fst k) c of
        Inl x \<Rightarrow> Inl x
      | Inr c2 \<Rightarrow>
          (case adopt_children (i\<lparr>total_kokkos_runtime :=
                 dadd (total_kokkos_runtime i) (total_kokkos_runtime (node_info c2)),
               total_number_of_kernel_calls :=
                 total_number_of_kernel_calls i + total_number_of_kernel_calls (node_info c2)\<rparr>) cs of
             Inl x \<Rightarrow> Inl x
           | Inr (i2, cs2) \<Rightarrow> Inr (i2, (k, c2) # cs2)))"

text \<open>\<open>reduce_over_mpi\<close> without MPI: every node's maximum and average are its own time.\<close>

fun reduce_over_mpi :: "StackNode \<Rightarrow> StackNode"
and reduce_children :: "(node_key \<times> StackNode) list \<Rightarrow> (node_key \<times> StackNode) list" where
  "reduce_over_mpi (StackNode i cs) =
     StackNode (i\<lparr>max_runtime := total_runtime i, avg_runtime := total_runtime i\<rparr>) (reduce_children cs)"
| "reduce_children [] = []"
| "reduce_children ((k, c) # cs) = (k, reduce_over_mpi c) # reduce_children cs"

section \<open>The inverted tree\<close>

text \<open>
  \<open>invert\<close> visits the nodes breadth first. The queue holds each node with the keys on its way up to
  the root, which is what the walk over \<open>parent\<close> sees.
\<close>

definition self_times :: "StackNode \<Rightarrow> double \<times> double" where
  "self_times n =
     (let self_time = foldl (\<lambda>t (k, c). dsub t (total_runtime (node_info c))) (total_runtime (node_info n)) (children n);
          self_kokkos_time = foldl (\<lambda>t (k, c). dsub t (total_kokkos_runtime (node_info c)))
            (total_kokkos_runtime (node_info n)) (children n)
      in (std_max self_time d_zero, std_max self_kokkos_time d_zero))"

definition inv_add :: "double \<Rightarrow> double \<Rightarrow> u64 \<Rightarrow> node_info \<Rightarrow> node_info" where
  "inv_add self_time self_kokkos_time calls i = i
     \<lparr>total_runtime := dadd (total_runtime i) self_time,
      number_of_calls := number_of_calls i + calls,
      total_kokkos_runtime := dadd (total_kokkos_runtime i) self_kokkos_time\<rparr>"

definition node_contribution :: "StackNode \<Rightarrow> node_info \<Rightarrow> node_info" where
  "node_contribution n = inv_add (fst (self_times n)) (snd (self_times n)) (number_of_calls (node_info n))"

text \<open>Apply an update to a node of the inverted tree and to every node on the way to it, creating
  those that are not there.\<close>

fun add_along :: "path \<Rightarrow> (node_info \<Rightarrow> node_info) \<Rightarrow> StackNode \<Rightarrow> StackNode" where
  "add_along [] f n = StackNode (f (node_info n)) (children n)"
| "add_along (k # ks) f n = StackNode (f (node_info n))
     (om_update node_less k (add_along ks f) (om_insert node_less k new_node (children n)))"

definition queue_children :: "path \<Rightarrow> StackNode \<Rightarrow> (path \<times> StackNode) list" where
  "queue_children chain n = map (\<lambda>(k, c). (k # chain, c)) (children n)"

function invert_queue :: "(path \<times> StackNode) list \<Rightarrow> StackNode \<Rightarrow> StackNode" where
  "invert_queue [] inv_root = inv_root"
| "invert_queue ((chain, n) # q) inv_root =
     invert_queue (q @ queue_children chain n) (add_along chain (node_contribution n) inv_root)"
  by pat_completeness auto

text \<open>The queue shrinks: a node is larger than its children together.\<close>

fun node_count :: "StackNode \<Rightarrow> nat"
and children_count :: "(node_key \<times> StackNode) list \<Rightarrow> nat" where
  "node_count (StackNode i cs) = Suc (children_count cs)"
| "children_count [] = 0"
| "children_count ((k, c) # cs) = node_count c + children_count cs"

lemma children_count_sum: "children_count cs = (\<Sum>(k, c) \<leftarrow> cs. node_count c)"
  by (induction cs) auto

lemma node_count_children: "node_count n = Suc (\<Sum>(k, c) \<leftarrow> children n. node_count c)"
  by (cases n) (simp add: children_count_sum)

lemma queue_children_count: "(\<Sum>(p, m) \<leftarrow> queue_children chain n. node_count m) < node_count n"
  by (simp add: node_count_children [of n] queue_children_def o_def case_prod_unfold)

termination invert_queue
proof (relation "measure (\<lambda>(q, t). \<Sum>(p, n) \<leftarrow> q. node_count n)")
  fix chain n q inv_root
  show "((q @ queue_children chain n, add_along chain (node_contribution n) inv_root), (chain, n) # q, inv_root)
      \<in> measure (\<lambda>(q, t). \<Sum>(p, n) \<leftarrow> q. node_count n)"
    using queue_children_count [of chain n] by simp
qed simp

definition invert :: "StackNode \<Rightarrow> StackNode" where
  "invert stack_root = invert_queue [([root_key], stack_root)] new_node"

section \<open>Well-formed trees\<close>

fun tree_ok :: "StackNode \<Rightarrow> bool"
and children_ok :: "(node_key \<times> StackNode) list \<Rightarrow> bool" where
  "tree_ok (StackNode i cs) \<longleftrightarrow> om_sorted node_less cs \<and> children_ok cs"
| "children_ok [] \<longleftrightarrow> True"
| "children_ok ((k, c) # cs) \<longleftrightarrow> tree_ok c \<and> children_ok cs"

lemma children_ok_iff: "children_ok cs \<longleftrightarrow> (\<forall>c \<in> snd ` set cs. tree_ok c)"
  by (induction cs) auto

lemma tree_ok_iff: "tree_ok n \<longleftrightarrow> om_sorted node_less (children n) \<and> (\<forall>c \<in> snd ` set (children n). tree_ok c)"
  by (cases n) (simp add: children_ok_iff)

declare tree_ok.simps [simp del]

lemma tree_ok_StackNode:
  "tree_ok (StackNode i cs) \<longleftrightarrow> om_sorted node_less cs \<and> (\<forall>c \<in> snd ` set cs. tree_ok c)"
  by (simp add: tree_ok.simps children_ok_iff)

lemma tree_ok_new [simp]: "tree_ok new_node"
  by (simp add: new_node_def tree_ok_StackNode)

lemma tree_ok_map_info [simp]: "tree_ok (map_info f n) = tree_ok n"
  by (simp add: map_info_def tree_ok_StackNode tree_ok_iff [of n])

lemma om_insert_values: "snd ` set (om_insert lt k v m) \<subseteq> insert v (snd ` set m)"
  by (induction lt k v m rule: om_insert.induct) auto

lemma om_update_values:
  "(\<And>v. v \<in> snd ` set m \<Longrightarrow> P v \<and> P (f v)) \<Longrightarrow> \<forall>v \<in> snd ` set (om_update lt k f m). P v"
  by (induction lt k f m rule: om_update.induct) auto

lemma tree_ok_sorted: "tree_ok n \<Longrightarrow> om_sorted node_less (children n)"
  and tree_ok_values: "tree_ok n \<Longrightarrow> \<forall>c \<in> snd ` set (children n). tree_ok c"
  using tree_ok_iff [of n] by blast+

lemma tree_ok_ensure [simp]:
  assumes "tree_ok n"
  shows "tree_ok (ensure_child k n)"
proof -
  have "\<forall>c \<in> snd ` set (om_insert node_less k new_node (children n)). tree_ok c"
  proof
    fix c assume "c \<in> snd ` set (om_insert node_less k new_node (children n))"
    then have "c = new_node \<or> c \<in> snd ` set (children n)"
      using subsetD [OF om_insert_values] by (metis insertE)
    then show "tree_ok c" using tree_ok_values [OF assms] tree_ok_new by metis
  qed
  then show ?thesis using tree_ok_sorted [OF assms] by (simp add: ensure_child_def tree_ok_StackNode)
qed

lemma tree_ok_child:
  assumes "tree_ok n" and "get_child k n = Some c"
  shows "tree_ok c"
proof -
  have "(k, c) \<in> set (children n)"
    using node_order.om_find_in [OF tree_ok_sorted [OF assms(1)]] assms(2) by (simp add: get_child_def)
  then have "c \<in> snd ` set (children n)" by force
  with tree_ok_values [OF assms(1)] show ?thesis by blast
qed

lemma get_child_map_of: "tree_ok n \<Longrightarrow> get_child k n = map_of (children n) k"
  by (simp add: get_child_def tree_ok_sorted node_order.om_find_map_of)

lemma get_child_ensure:
  assumes "tree_ok n"
  shows "get_child k (ensure_child j n) =
     (if k = j then Some (case get_child k n of None \<Rightarrow> new_node | Some c \<Rightarrow> c) else get_child k n)"
  using tree_ok_sorted [OF assms]
  by (auto simp: get_child_def ensure_child_def node_order.om_find_map_of
      node_order.map_of_om_insert split: option.splits)

lemma tree_ok_update_at:
  assumes "\<And>c. tree_ok c \<Longrightarrow> tree_ok (f c)" and "tree_ok n"
  shows "tree_ok (update_at p f n)"
  using assms(2)
proof (induction p arbitrary: n)
  case (Cons k ks)
  have "\<forall>c \<in> snd ` set (om_update node_less k (update_at ks f) (children n)). tree_ok c"
    by (rule om_update_values) (use Cons tree_ok_iff [of n] in blast)
  with tree_ok_sorted [OF Cons.prems] show ?case by (simp add: tree_ok_StackNode)
qed (use assms(1) in simp)

lemma get_child_update:
  "tree_ok n \<Longrightarrow> get_child k (update_at (j # ks) f n) =
     (if k = j then map_option (update_at ks f) (get_child k n) else get_child k n)"
  by (simp add: get_child_def tree_ok_sorted node_order.om_find_map_of node_order.map_of_om_update)

lemma node_at_update:
  "tree_ok n \<Longrightarrow> node_at p (update_at p f n) = map_option f (node_at p n)"
proof (induction p arbitrary: n)
  case (Cons k ks)
  show ?case
  proof (cases "get_child k n")
    case None
    then show ?thesis using get_child_update [OF Cons.prems] by (simp del: update_at.simps)
  next
    case (Some c)
    then show ?thesis
      using get_child_update [OF Cons.prems] Cons.IH [OF tree_ok_child [OF Cons.prems Some]]
      by (simp del: update_at.simps)
  qed
qed simp

lemma node_at_append: "node_at (p @ q) n = (case node_at p n of None \<Rightarrow> None | Some m \<Rightarrow> node_at q m)"
  by (induction p arbitrary: n) (auto split: option.splits)

lemma node_at_ok: "tree_ok n \<Longrightarrow> node_at p n = Some m \<Longrightarrow> tree_ok m"
  by (induction p arbitrary: n) (auto split: option.splits dest: tree_ok_child)

lemma node_at_prefix: "node_at (p @ q) n \<noteq> None \<Longrightarrow> node_at p n \<noteq> None"
  by (auto simp: node_at_append split: option.splits)

text \<open>Updates elsewhere keep a node there, if the update does not remove children.\<close>

lemma node_at_update_exists:
  assumes "tree_ok n" and "node_at q n \<noteq> None"
    and "\<And>c r. tree_ok c \<Longrightarrow> node_at r c \<noteq> None \<Longrightarrow> node_at r (f c) \<noteq> None"
  shows "node_at q (update_at p f n) \<noteq> None"
  using assms(1,2)
proof (induction p arbitrary: n q)
  case (Cons k ks)
  show ?case
  proof (cases q)
    case q: (Cons j js)
    with Cons.prems(2) obtain c where c: "get_child j n = Some c" "node_at js c \<noteq> None"
      by (auto split: option.splits)
    then show ?thesis
      using get_child_update [OF Cons.prems(1), of j k ks f] Cons.IH [OF tree_ok_child [OF Cons.prems(1) c(1)] c(2)]
      by (cases "j = k") (simp_all add: q del: update_at.simps)
  qed simp
qed (use assms(3) in simp)

lemma node_at_map_info: "node_at q (map_info f n) = (case q of [] \<Rightarrow> Some (map_info f n) | k # ks \<Rightarrow> node_at q n)"
  by (cases q) (auto simp: get_child_def)

lemma node_at_ensure_exists: "tree_ok n \<Longrightarrow> node_at q n \<noteq> None \<Longrightarrow> node_at q (ensure_child k n) \<noteq> None"
  by (cases q) (auto simp: get_child_ensure split: option.splits)

section \<open>Nodes of a tree\<close>

text \<open>All nodes with the keys from the node up to the root, as the walk over \<open>parent\<close> visits them.\<close>

fun nodes :: "path \<Rightarrow> StackNode \<Rightarrow> (path \<times> StackNode) list"
and nodes_children :: "path \<Rightarrow> (node_key \<times> StackNode) list \<Rightarrow> (path \<times> StackNode) list" where
  "nodes chain (StackNode i cs) = (chain, StackNode i cs) # nodes_children chain cs"
| "nodes_children chain [] = []"
| "nodes_children chain ((k, c) # cs) = nodes (k # chain) c @ nodes_children chain cs"

lemma nodes_children_concat: "nodes_children chain cs = concat (map (\<lambda>(k, c). nodes (k # chain) c) cs)"
  by (induction cs) auto

lemma nodes_unfold: "nodes chain n = (chain, n) # concat (map (\<lambda>(k, c). nodes (k # chain) c) (children n))"
  by (cases n) (simp add: nodes_children_concat)

section \<open>The inverted tree is complete\<close>

text \<open>What a tree records at a path; nothing if the node is not there.\<close>

definition at_info :: "path \<Rightarrow> StackNode \<Rightarrow> node_info" where
  "at_info ks t = (case node_at ks t of None \<Rightarrow> new_info | Some n \<Rightarrow> node_info n)"

definition get_or_new :: "node_key \<Rightarrow> StackNode \<Rightarrow> StackNode" where
  "get_or_new k t = (case get_child k t of None \<Rightarrow> new_node | Some c \<Rightarrow> c)"

lemma get_child_new [simp]: "get_child k new_node = None"
  by (simp add: get_child_def new_node_def)

lemma at_info_Cons: "at_info (k # ks) t = at_info ks (get_or_new k t)"
  by (cases ks) (auto simp: at_info_def get_or_new_def split: option.splits, auto simp: new_node_def)

lemma tree_ok_get_or_new: "tree_ok t \<Longrightarrow> tree_ok (get_or_new k t)"
  using tree_ok_child by (auto simp: get_or_new_def split: option.splits)

lemma get_child_add_along:
  assumes "tree_ok t"
  shows "get_child j (add_along (k # ks) f t) =
    (if j = k then Some (add_along ks f (get_or_new k t)) else get_child j t)"
  using tree_ok_sorted [OF assms]
  by (auto simp: get_child_def get_or_new_def node_order.om_find_map_of node_order.map_of_om_insert
      node_order.map_of_om_update split: option.splits)

lemma tree_ok_add_along: "tree_ok t \<Longrightarrow> tree_ok (add_along ks f t)"
proof (induction ks arbitrary: t)
  case Nil
  then show ?case by (simp add: tree_ok_StackNode tree_ok_sorted tree_ok_values)
next
  case (Cons k ks)
  have "\<forall>c \<in> snd ` set (om_update node_less k (add_along ks f) (om_insert node_less k new_node (children t))). tree_ok c"
  proof (rule om_update_values)
    fix c assume "c \<in> snd ` set (om_insert node_less k new_node (children t))"
    then have "c = new_node \<or> c \<in> snd ` set (children t)"
      using subsetD [OF om_insert_values] by (metis insertE)
    then have "tree_ok c" using tree_ok_values [OF Cons.prems] tree_ok_new by metis
    then show "tree_ok c \<and> tree_ok (add_along ks f c)" using Cons.IH by blast
  qed
  with tree_ok_sorted [OF Cons.prems] show ?case by (simp add: tree_ok_StackNode)
qed

lemma at_info_add_along:
  "tree_ok t \<Longrightarrow> at_info ks (add_along chain f t) = (if prefix ks chain then f (at_info ks t) else at_info ks t)"
proof (induction chain arbitrary: ks t)
  case Nil
  show ?case by (cases ks) (simp_all add: at_info_def get_child_def)
next
  case (Cons k chain)
  show ?case
  proof (cases ks)
    case Nil
    then show ?thesis by (simp add: at_info_def)
  next
    case ks: (Cons j js)
    have "get_or_new j (add_along (k # chain) f t) =
        (if j = k then add_along chain f (get_or_new k t) else get_or_new j t)"
      by (simp add: get_or_new_def get_child_add_along [OF Cons.prems] del: add_along.simps)
    then show ?thesis using Cons.IH [OF tree_ok_get_or_new [OF Cons.prems]]
      by (simp add: ks at_info_Cons del: add_along.simps)
  qed
qed

lemma node_at_Cons_iff: "node_at (j # js) t \<noteq> None \<longleftrightarrow> (\<exists>c. get_child j t = Some c \<and> node_at js c \<noteq> None)"
  by (auto split: option.splits)

lemma node_at_new: "node_at js new_node \<noteq> None \<longleftrightarrow> js = []"
  by (cases js) simp_all

lemma node_at_add_along:
  "tree_ok t \<Longrightarrow> node_at ks (add_along chain f t) \<noteq> None \<longleftrightarrow> prefix ks chain \<or> node_at ks t \<noteq> None"
proof (induction chain arbitrary: ks t)
  case Nil
  show ?case by (cases ks) (simp_all add: get_child_def)
next
  case (Cons k chain)
  show ?case
  proof (cases ks)
    case ks: (Cons j js)
    show ?thesis
    proof (cases "j = k")
      case True
      then have "node_at ks (add_along (k # chain) f t) \<noteq> None \<longleftrightarrow>
          prefix js chain \<or> node_at js (get_or_new k t) \<noteq> None"
        using get_child_add_along [OF Cons.prems, of k k chain f] Cons.IH [OF tree_ok_get_or_new [OF Cons.prems]]
        by (simp add: ks del: add_along.simps not_None_eq)
      also have "\<dots> \<longleftrightarrow> prefix ks (k # chain) \<or> node_at ks t \<noteq> None"
        using True node_at_new [of js] by (auto simp: ks get_or_new_def split: option.splits)
      finally show ?thesis .
    next
      case False
      then show ?thesis using get_child_add_along [OF Cons.prems, of j k chain f]
        by (simp add: ks del: add_along.simps)
    qed
  qed simp
qed

text \<open>The queue visits every node once.\<close>

abbreviation add_node :: "StackNode \<Rightarrow> path \<times> StackNode \<Rightarrow> StackNode" where
  "add_node \<equiv> \<lambda>t (chain, n). add_along chain (node_contribution n) t"

definition queued :: "(path \<times> StackNode) list \<Rightarrow> (path \<times> StackNode) list" where
  "queued q = concat (map (\<lambda>(chain, n). nodes chain n) q)"

lemma invert_queue_fold: "\<exists>v. mset v = mset (queued q) \<and> invert_queue q t = foldl add_node t v"
proof (induction q t rule: invert_queue.induct)
  case (2 chain n q t)
  then obtain v where v: "mset v = mset (queued (q @ queue_children chain n))"
    "invert_queue (q @ queue_children chain n) (add_along chain (node_contribution n) t)
      = foldl add_node (add_along chain (node_contribution n) t) v" by blast
  have "queued (queue_children chain n) = concat (map (\<lambda>(k, c). nodes (k # chain) c) (children n))"
    by (simp add: queued_def queue_children_def o_def case_prod_unfold)
  then have "mset ((chain, n) # v) = mset (queued ((chain, n) # q))"
    using v(1) nodes_unfold [of chain n] by (simp add: queued_def add.commute)
  with v(2) show ?case by (intro exI [of _ "(chain, n) # v"]) simp
qed (simp add: queued_def)

lemma add_nodes_ok: "tree_ok t \<Longrightarrow> tree_ok (foldl add_node t v)"
  by (induction v arbitrary: t) (auto simp: tree_ok_add_along)

lemma calls_add_nodes:
  "tree_ok t \<Longrightarrow> number_of_calls (at_info ks (foldl add_node t v)) =
     number_of_calls (at_info ks t) + (\<Sum>(chain, n) \<leftarrow> v. if prefix ks chain then number_of_calls (node_info n) else 0)"
proof (induction v arbitrary: t)
  case (Cons x v)
  obtain chain n where x: "x = (chain, n)" by force
  show ?case
    using Cons.IH [OF tree_ok_add_along [OF Cons.prems]] at_info_add_along [OF Cons.prems]
    by (simp add: x node_contribution_def inv_add_def algebra_simps)
qed simp

lemma node_at_add_nodes:
  "tree_ok t \<Longrightarrow> node_at ks (foldl add_node t v) \<noteq> None \<longleftrightarrow> node_at ks t \<noteq> None \<or> (\<exists>(chain, n) \<in> set v. prefix ks chain)"
proof (induction v arbitrary: t)
  case (Cons x v)
  obtain chain n where x: "x = (chain, n)" by force
  show ?case
    using Cons.IH [OF tree_ok_add_along [OF Cons.prems], of chain "node_contribution n"] node_at_add_along [OF Cons.prems]
    by (auto simp: x)
qed simp

lemma at_info_new [simp]: "at_info ks new_node = new_info"
  by (cases ks) (simp_all add: at_info_def new_node_def get_child_def)

text \<open>
  C2. The bottom-up tree loses no call and invents none. Its node at a path of keys exists exactly when
  some node of the call tree has that path as the start of its way up to the root (its own key
  first), and it counts the calls of all those nodes together; in particular the first level counts
  every kernel over all the places it is called from, and the root counts all calls.
\<close>

theorem invert_counts_callers:
  "(node_at ks (invert t) \<noteq> None \<longleftrightarrow> ks = [] \<or> (\<exists>(chain, n) \<in> set (nodes [root_key] t). prefix ks chain))
   \<and> number_of_calls (at_info ks (invert t)) =
      (\<Sum>(chain, n) \<leftarrow> nodes [root_key] t. if prefix ks chain then number_of_calls (node_info n) else 0)"
proof -
  obtain v where v: "mset v = mset (nodes [root_key] t)" "invert t = foldl add_node new_node v"
    using invert_queue_fold [of "[([root_key], t)]" new_node] by (auto simp: invert_def queued_def)
  have "set v = set (nodes [root_key] t)" using v(1) mset_eq_setD by blast
  moreover have "(\<Sum>(chain, n) \<leftarrow> v. if prefix ks chain then number_of_calls (node_info n) else 0) =
      (\<Sum>(chain, n) \<leftarrow> nodes [root_key] t. if prefix ks chain then number_of_calls (node_info n) else 0)"
    using v(1) by (metis (no_types, lifting) mset_map sum_mset_sum_list)
  ultimately show ?thesis
    using node_at_add_nodes [OF tree_ok_new, of ks v] calls_add_nodes [OF tree_ok_new, of ks v] node_at_new [of ks]
    by (simp add: v(2) new_info_def)
qed

section \<open>Adopting totals\<close>

fun tree_infos :: "StackNode \<Rightarrow> node_info list"
and children_infos :: "(node_key \<times> StackNode) list \<Rightarrow> node_info list" where
  "tree_infos (StackNode i cs) = i # children_infos cs"
| "children_infos [] = []"
| "children_infos ((k, c) # cs) = tree_infos c @ children_infos cs"

abbreviation kokkos_time :: "StackNode \<Rightarrow> double" where
  "kokkos_time n \<equiv> total_kokkos_runtime (node_info n)"

text \<open>Every node's time in Kokkos covers its own time, if it is a kernel, and each child's.\<close>

fun covers :: "StackKind \<Rightarrow> StackNode \<Rightarrow> bool"
and covers_children :: "double \<Rightarrow> (node_key \<times> StackNode) list \<Rightarrow> bool" where
  "covers kind (StackNode i cs) \<longleftrightarrow> (kind \<noteq> STACK_REGION \<longrightarrow> dle (total_runtime i) (total_kokkos_runtime i))
     \<and> covers_children (total_kokkos_runtime i) cs"
| "covers_children t [] \<longleftrightarrow> True"
| "covers_children t ((k, c) # cs) \<longleftrightarrow> dle (kokkos_time c) t \<and> covers (fst k) c \<and> covers_children t cs"

lemma covers_children_mono: "dle s t \<Longrightarrow> covers_children s cs \<Longrightarrow> covers_children t cs"
  by (induction cs) (auto intro: dle_trans)

definition times_ok :: "node_info \<Rightarrow> bool" where
  "times_ok i \<longleftrightarrow> d_nonneg (total_runtime i) \<and> d_nonneg (total_kokkos_runtime i)"

definition kernel_calls :: "StackNode \<Rightarrow> u64" where
  "kernel_calls t = (\<Sum>i \<leftarrow> tree_infos t. total_number_of_kernel_calls i)"

definition adopted :: "StackKind \<Rightarrow> StackNode \<Rightarrow> StackNode \<Rightarrow> bool" where
  "adopted kind t t' \<longleftrightarrow> d_nonneg (kokkos_time t')
     \<and> total_number_of_kernel_calls (node_info t') = kernel_calls t \<and> covers kind t'"

lemma adopt_result:
  "(\<forall>i \<in> set (tree_infos t). times_ok i) \<Longrightarrow> \<exists>t'. adopt kind t = Inr t' \<and> adopted kind t t'"
  "d_nonneg (total_kokkos_runtime i) \<Longrightarrow> (\<forall>j \<in> set (children_infos cs). times_ok j) \<Longrightarrow>
     \<exists>i' cs'. adopt_children i cs = Inr (i', cs')
       \<and> total_runtime i' = total_runtime i
       \<and> dle (total_kokkos_runtime i) (total_kokkos_runtime i')
       \<and> total_number_of_kernel_calls i' = total_number_of_kernel_calls i
           + (\<Sum>j \<leftarrow> children_infos cs. total_number_of_kernel_calls j)
       \<and> covers_children (total_kokkos_runtime i') cs'"
proof (induction kind t and i cs rule: adopt_adopt_children.induct)
  case (1 kind i cs)
  define i1 where "i1 = (if kind \<noteq> STACK_REGION
      then i\<lparr>total_kokkos_runtime := dadd (total_kokkos_runtime i) (total_runtime i)\<rparr> else i)"
  have t: "times_ok i" "\<forall>j \<in> set (children_infos cs). times_ok j" using 1(2) by simp_all
  have i1: "d_nonneg (total_kokkos_runtime i1)" "total_runtime i1 = total_runtime i"
    "total_number_of_kernel_calls i1 = total_number_of_kernel_calls i"
    "kind \<noteq> STACK_REGION \<Longrightarrow> dle (total_runtime i) (total_kokkos_runtime i1)"
    using t(1) by (auto simp: i1_def times_ok_def intro: dle_dadd2)
  from 1(1) [OF i1_def i1(1) t(2)] obtain i' cs' where r: "adopt_children i1 cs = Inr (i', cs')"
    "total_runtime i' = total_runtime i1" "dle (total_kokkos_runtime i1) (total_kokkos_runtime i')"
    "total_number_of_kernel_calls i' = total_number_of_kernel_calls i1
       + (\<Sum>j \<leftarrow> children_infos cs. total_number_of_kernel_calls j)"
    "covers_children (total_kokkos_runtime i') cs'" by blast
  have n: "d_nonneg (total_kokkos_runtime i')" using i1(1) r(3) dle_trans by blast
  have "adopt kind (StackNode i cs) = Inr (StackNode i' cs')"
    using r(1) n by (simp add: i1_def Let_def)
  moreover have "adopted kind (StackNode i cs) (StackNode i' cs')"
    using n r(2,4,5) i1(2,3) dle_trans [OF i1(4) r(3)] by (simp add: adopted_def kernel_calls_def)
  ultimately show ?case by blast
next
  case (2 i)
  then show ?case by (simp add: dle_def)
next
  case (3 i k c cs)
  from 3(1) 3(4) obtain c' where c: "adopt (fst k) c = Inr c'" and a: "adopted (fst k) c c'" by auto
  let ?i1 = "i\<lparr>total_kokkos_runtime := dadd (total_kokkos_runtime i) (kokkos_time c'),
      total_number_of_kernel_calls := total_number_of_kernel_calls i + total_number_of_kernel_calls (node_info c')\<rparr>"
  have n: "d_nonneg (kokkos_time c')" using a by (simp add: adopted_def)
  then have "d_nonneg (total_kokkos_runtime ?i1)" using 3(3) by auto
  from 3(2) [OF c this] 3(4) obtain i' cs' where r: "adopt_children ?i1 cs = Inr (i', cs')"
    "total_runtime i' = total_runtime ?i1" "dle (total_kokkos_runtime ?i1) (total_kokkos_runtime i')"
    "total_number_of_kernel_calls i' = total_number_of_kernel_calls ?i1
       + (\<Sum>j \<leftarrow> children_infos cs. total_number_of_kernel_calls j)"
    "covers_children (total_kokkos_runtime i') cs'" by auto
  have "dle (total_kokkos_runtime i) (total_kokkos_runtime i')" "dle (kokkos_time c') (total_kokkos_runtime i')"
    using r(3) dle_dadd [OF 3(3) n] dle_dadd2 [OF 3(3) n] by (auto intro: dle_trans)
  with r c a show ?case by (simp add: adopted_def kernel_calls_def)
qed

text \<open>
  \<open>adopt\<close> adds up what it should: on a tree without negative times its assertion holds at every
  node, every node's time in Kokkos is at least its own time, if it is a kernel, and at least each
  child's (rounding included), and the kernel calls of the node are those of its whole subtree.
\<close>

theorem adopt_sums:
  assumes "\<forall>i \<in> set (tree_infos t). times_ok i"
  shows "\<exists>t'. adopt kind t = Inr t' \<and> d_nonneg (kokkos_time t') \<and> covers kind t'
    \<and> total_number_of_kernel_calls (node_info t') = kernel_calls t"
  using adopt_result(1) [OF assms, of kind] by (auto simp: adopted_def)

theorem adopt_sums_witness:
  "\<exists>t'. adopt STACK_REGION (StackNode new_info [((STACK_FOR, ''axpy''),
      StackNode (new_info\<lparr>total_runtime := d_of_nat 2, total_number_of_kernel_calls := 5\<rparr>) [])]) = Inr t'
    \<and> total_number_of_kernel_calls (node_info t') = 5"
proof -
  let ?t = "StackNode new_info [((STACK_FOR, ''axpy''),
      StackNode (new_info\<lparr>total_runtime := d_of_nat 2, total_number_of_kernel_calls := 5\<rparr>) [])]"
  have "\<forall>i \<in> set (tree_infos ?t). times_ok i"
    by (simp add: times_ok_def new_info_def d_nonneg_iff s_units_d_of_nat less_imp_le)
  moreover have "kernel_calls ?t = 5" by (simp add: kernel_calls_def new_info_def)
  ultimately show ?thesis using adopt_sums [of ?t STACK_REGION] by (simp del: adopt.simps) blast
qed

section \<open>Durations\<close>

lemma scale_ge: "10 ^ 9 \<le> scale"
proof -
  have "(10 :: rat) ^ 9 \<le> 2 ^ 30" by simp
  also have "\<dots> \<le> 2 ^ 1074" by (rule power_increasing) simp_all
  finally show ?thesis by (simp add: scale_def)
qed

lemma nano_pos: "d_nonneg nano" "d_mag nano \<noteq> 0" "\<not> d_sign nano"
proof -
  have "units (enc (of_nat (units 1))) = 1" by (subst enc_units) (simp_all add: inf_mag_def units_def)
  then have one: "s_units (of_units False 1) = 1" by (simp add: s_units_of_units units_def)
  have le: "1 \<le> 1 / 10 ^ 9 * scale" using scale_ge by simp
  have "1 \<le> s_units nano"
    using s_units_of_units_mono [OF le, of False False] one by (simp add: nano_def d_of_rat_def)
  moreover have nn: "\<not> d_nan nano" by (simp add: nano_def d_of_rat_def)
  ultimately show "d_nonneg nano" "d_mag nano \<noteq> 0" by (auto simp: d_nonneg_iff d_mag_eq_0_iff)
  show "\<not> d_sign nano" using \<open>1 \<le> s_units nano\<close> by (auto simp: s_units_def split: if_splits)
qed

lemma nano_finite: "\<not> d_inf nano"
proof -
  have y: "0 < 1 / 10 ^ 9 * scale" "1 / 10 ^ 9 * scale \<le> scale" using scale_pos by simp_all
  then have "d_mag nano = enc (1 / 10 ^ 9 * scale)"
    using inf_mag_bound enc_le_inf [of "1 / 10 ^ 9 * scale"] abs_of_pos [OF scale_pos]
    by (simp add: nano_def d_of_rat_def of_units_def del: enc_le_inf)
  moreover have "d_mag (d_of_nat 1) = enc scale"
    using inf_mag_bound enc_le_inf [of scale] scale_pos less_imp_le [OF scale_pos]
    by (simp add: d_of_nat_def of_units_def abs_of_pos del: enc_le_inf scale_pos)
  moreover have "enc (1 / 10 ^ 9 * scale) \<le> enc scale" by (rule enc_mono [OF less_imp_le [OF y(1)] y(2)])
  moreover have "d_mag (d_of_nat 1) \<noteq> inf_mag" "d_mag (d_of_nat 1) \<le> inf_mag"
    using d_of_nat_finite [of 1] d_of_nat_not_nan [of 1] by (simp_all add: d_inf_def d_nan_def del: d_of_nat_not_nan)
  ultimately show ?thesis using enc_le_inf [of scale] by (simp add: d_inf_def del: enc_le_inf)
qed

lemma d_of_int_nonneg: "0 \<le> i \<Longrightarrow> d_nonneg (d_of_int i)" "0 \<le> i \<Longrightarrow> \<not> d_sign (d_of_int i)"
proof -
  assume "0 \<le> i"
  then have "(0 :: rat) \<le> of_int i * scale" using scale_pos by (simp add: less_imp_le)
  then show "\<not> d_sign (d_of_int i)" "d_nonneg (d_of_int i)"
    by (auto simp: d_of_int_def of_units_def d_nonneg_iff s_units_of_units not_less)
qed

lemma d_nonneg_elapsed:
  assumes "a \<le> b"
  shows "d_nonneg (elapsed b a)"
proof -
  let ?d = "d_of_int (b - a)"
  have d: "d_nonneg ?d" "\<not> d_sign ?d" using d_of_int_nonneg [of "b - a"] assms by simp_all
  have "0 \<le> s_units ?d * s_units nano / scale"
    using d(1) nano_pos(1) scale_pos by (auto simp: d_nonneg_iff intro!: divide_nonneg_pos mult_nonneg_nonneg)
  then have "d_nonneg (of_units False (s_units ?d * s_units nano / scale))"
    by (simp add: d_nonneg_iff s_units_of_units)
  moreover have "d_nonneg (mk_double False inf_mag)"
    using inf_mag_bound by (simp add: d_nonneg_iff d_nan_def s_units_def)
  moreover have "d_inf ?d \<Longrightarrow> d_mag ?d \<noteq> 0" by (simp add: d_inf_def inf_mag_def)
  moreover have "\<not> d_nan ?d" "\<not> d_nan nano" using d(1) nano_pos(1) by (simp_all add: d_nonneg_iff)
  ultimately show ?thesis using d(2) nano_pos(2,3) nano_finite
    by (cases "d_inf ?d") (simp_all add: elapsed_def dmul_def Let_def)
qed

end
