(* ===== verification/Stack_State.thy ===== *)
theory Stack_State
  imports Stack_Tree Interface
begin

text \<open>
  The state of the space-time stack (\<open>struct Allocation\<close>, \<open>Allocations\<close>, \<open>State\<close> of
  \<open>kp_space_time_stack.cpp\<close>) and its callbacks. Assertions are modelled as compiled in: a failed
  one is \<open>Abort\<close>. A kernel identifier is the pointer the code casts to an integer.
\<close>

section \<open>Memory spaces\<close>

datatype Space = SPACE_HOST | SPACE_CUDA | SPACE_HIP | SPACE_SYCL | SPACE_OMPT

definition get_space :: "SpaceHandle \<Rightarrow> Space outcome" where
  "get_space handle =
     (if strncmp_eq (sh_name handle) ''Cuda'' 4 then Inr SPACE_CUDA
      else if strncmp_eq (sh_name handle) ''SYCL'' 4 then Inr SPACE_SYCL
      else if strncmp_eq (sh_name handle) ''OpenMPTarget'' 12 then Inr SPACE_OMPT
      else if strncmp_eq (sh_name handle) ''HIP'' 3 then Inr SPACE_HIP
      else if strcmp_eq (sh_name handle) ''Host'' then Inr SPACE_HOST
      else Inl Abort)"

fun get_space_name :: "Space \<Rightarrow> string" where
  "get_space_name SPACE_HOST = ''HOST''" | "get_space_name SPACE_CUDA = ''CUDA''"
| "get_space_name SPACE_SYCL = ''SYCL''" | "get_space_name SPACE_OMPT = ''OpenMPTarget''"
| "get_space_name SPACE_HIP = ''HIP''"

section \<open>Allocations\<close>

text \<open>An allocation is ordered by size, larger first, and address; with it go its label and the
  frame it was made in (\<open>None\<close> is the null pointer).\<close>

type_synonym alloc_key = "u64 \<times> u64"

definition alloc_less :: "alloc_key \<Rightarrow> alloc_key \<Rightarrow> bool" where
  "alloc_less a b = (if fst a \<noteq> fst b then fst b < fst a else snd a < snd b)"

interpretation alloc_order: key_order alloc_less
  by unfold_locales (auto simp: alloc_less_def prod_eq_iff split: if_splits)

record Allocations =
  total_size :: u64
  alloc_set :: "(alloc_key \<times> (string \<times> path option)) list"

definition no_allocations :: Allocations where
  "no_allocations = \<lparr>total_size = 0, alloc_set = []\<rparr>"

definition allocate :: "string \<Rightarrow> u64 \<Rightarrow> u64 \<Rightarrow> path option \<Rightarrow> Allocations \<Rightarrow> Allocations outcome" where
  "allocate name ptr sz frame a =
     (if ptr = 0 then (if sz = 0 then Inr a else Inl Abort)
      else if om_find alloc_less (sz, ptr) (alloc_set a) \<noteq> None then Inl Abort
      else Inr (a\<lparr>alloc_set := om_insert alloc_less (sz, ptr) (name, frame) (alloc_set a),
                  total_size := total_size a + sz\<rparr>))"

definition deallocate ::
  "string \<Rightarrow> u64 \<Rightarrow> u64 \<Rightarrow> path option \<Rightarrow> Allocations \<Rightarrow> (Allocations \<times> token list) outcome" where
  "deallocate name ptr sz frame a =
     (if ptr = 0 then (if sz = 0 then Inr (a, []) else Inl Abort)
      else (case om_find alloc_less (sz, ptr) (alloc_set a) of
          None \<Rightarrow>
            (case frame of
               None \<Rightarrow> Inl (Undefined ''frame is null'')
             | Some p \<Rightarrow> Inr (a,
                 [Txt (''WARNING! allocation('' @ quot @ name @ quot @ '', ''), Ptr ptr,
                  Txt ('', '' @ dec_nat (unat sz) @ ''), deallocated at '' @ quot @ full_name p @ quot @ '', ''
                    @ '' was not in the currently allocated set!'' @ eol)]))
        | Some e \<Rightarrow> Inr (a\<lparr>total_size := total_size a - sz,
             alloc_set := om_erase alloc_less (sz, ptr) (alloc_set a)\<rparr>, [])))"

section \<open>State\<close>

record State =
  stack_root :: StackNode
  stack_frame :: "path option"
  current_allocations :: "Space \<Rightarrow> Allocations"
  hwm_allocations :: "Space \<Rightarrow> Allocations"
  st_stderr :: "token list"

text \<open>The constructor begins the root frame; \<open>now\<close> is the clock reading it takes.\<close>

definition new_State :: "int \<Rightarrow> State" where
  "new_State now = \<lparr>stack_root = map_info (node_begin STACK_REGION now) new_node, stack_frame = Some [],
     current_allocations = (\<lambda>sp. no_allocations), hwm_allocations = (\<lambda>sp. no_allocations), st_stderr = []\<rparr>"

definition null_frame :: stop where
  "null_frame = Undefined ''stack_frame is null''"

definition begin_frame :: "cxa_demangle \<Rightarrow> string \<Rightarrow> StackKind \<Rightarrow> int \<Rightarrow> State \<Rightarrow> State outcome" where
  "begin_frame cxa name kind now s =
     (case stack_frame s of
        None \<Rightarrow> Inl null_frame
      | Some p \<Rightarrow>
          (let k = (kind, demangleNameKokkos cxa name);
               with_child = update_at p (ensure_child k) (stack_root s)
           in Inr (s\<lparr>stack_root := update_at (p @ [k]) (map_info (node_begin kind now)) with_child,
                    stack_frame := Some (p @ [k])\<rparr>)))"

text \<open>The parent of the root is the null pointer.\<close>

definition end_frame :: "int \<Rightarrow> State \<Rightarrow> State outcome" where
  "end_frame end_time s =
     (case stack_frame s of
        None \<Rightarrow> Inl null_frame
      | Some p \<Rightarrow> Inr (s\<lparr>stack_root := update_at p (map_info (node_end end_time)) (stack_root s),
          stack_frame := (if p = [] then None else Some (butlast p))\<rparr>))"

definition begin_kernel ::
  "cxa_demangle \<Rightarrow> string \<Rightarrow> StackKind \<Rightarrow> int \<Rightarrow> State \<Rightarrow> (State \<times> path option) outcome" where
  "begin_kernel cxa name kind now s =
     (case begin_frame cxa name kind now s of Inl x \<Rightarrow> Inl x | Inr s' \<Rightarrow> Inr (s', stack_frame s'))"

text \<open>An identifier that is not the open frame's aborts, after a message that reads the open frame.\<close>

definition end_kernel :: "path option \<Rightarrow> int \<Rightarrow> State \<Rightarrow> State outcome" where
  "end_kernel kernid end_time s =
     (if kernid \<noteq> stack_frame s
      then (if stack_frame s = None then Inl null_frame else Inl Abort)
      else end_frame end_time s)"

definition state_allocate :: "Space \<Rightarrow> string \<Rightarrow> u64 \<Rightarrow> u64 \<Rightarrow> State \<Rightarrow> State outcome" where
  "state_allocate space name ptr sz s =
     (case allocate name ptr sz (stack_frame s) (current_allocations s space) of
        Inl x \<Rightarrow> Inl x
      | Inr a \<Rightarrow> (let s1 = s\<lparr>current_allocations := (current_allocations s)(space := a)\<rparr> in
          Inr (if total_size (hwm_allocations s1 space) < total_size (current_allocations s1 space)
               then s1\<lparr>hwm_allocations := (hwm_allocations s1)(space := current_allocations s1 space)\<rparr>
               else s1)))"

definition state_deallocate :: "Space \<Rightarrow> string \<Rightarrow> u64 \<Rightarrow> u64 \<Rightarrow> State \<Rightarrow> State outcome" where
  "state_deallocate space name ptr sz s =
     (case deallocate name ptr sz (stack_frame s) (current_allocations s space) of
        Inl x \<Rightarrow> Inl x
      | Inr (a, err) \<Rightarrow> Inr (s\<lparr>current_allocations := (current_allocations s)(space := a),
          st_stderr := st_stderr s @ err\<rparr>))"

definition begin_deep_copy ::
  "cxa_demangle \<Rightarrow> Space \<Rightarrow> string \<Rightarrow> Space \<Rightarrow> string \<Rightarrow> int \<Rightarrow> State \<Rightarrow> State outcome" where
  "begin_deep_copy cxa dst_space dst_name src_space src_name now s =
     (let frame_name = quot @ dst_name @ quot @ ''='' @ quot @ src_name @ quot @ '' ('' @
            get_space_name dst_space @ ''->'' @ get_space_name src_space @ '')''
      in begin_frame cxa frame_name STACK_COPY now s)"

section \<open>Callbacks\<close>

datatype sts_event =
    BeginFor string int | BeginReduce string int | BeginScan string int
  | EndKernel "path option" int
  | PushRegion string int | PopRegion int
  | Allocate SpaceHandle string u64 u64 | Deallocate SpaceHandle string u64 u64
  | BeginCopy SpaceHandle string SpaceHandle string int | EndCopy int

definition no_id :: "State outcome \<Rightarrow> (State \<times> path option option) outcome" where
  "no_id r = (case r of Inl x \<Rightarrow> Inl x | Inr s \<Rightarrow> Inr (s, None))"

definition with_id :: "(State \<times> path option) outcome \<Rightarrow> (State \<times> path option option) outcome" where
  "with_id r = (case r of Inl x \<Rightarrow> Inl x | Inr (s, i) \<Rightarrow> Inr (s, Some i))"

text \<open>The callbacks between initialisation and finalisation, on \<open>*global_state\<close>.\<close>

fun sts_step :: "cxa_demangle \<Rightarrow> State \<Rightarrow> sts_event \<Rightarrow> (State \<times> path option option) outcome" where
  "sts_step cxa s (BeginFor name now) = with_id (begin_kernel cxa name STACK_FOR now s)"
| "sts_step cxa s (BeginReduce name now) = with_id (begin_kernel cxa name STACK_REDUCE now s)"
| "sts_step cxa s (BeginScan name now) = with_id (begin_kernel cxa name STACK_SCAN now s)"
| "sts_step cxa s (EndKernel kernid now) = no_id (end_kernel kernid now s)"
| "sts_step cxa s (PushRegion name now) = no_id (begin_frame cxa name STACK_REGION now s)"
| "sts_step cxa s (PopRegion now) = no_id (end_frame now s)"
| "sts_step cxa s (Allocate handle name ptr sz) =
     (case get_space handle of Inl x \<Rightarrow> Inl x
      | Inr space \<Rightarrow> no_id (state_allocate space name ptr sz s))"
| "sts_step cxa s (Deallocate handle name ptr sz) =
     (case get_space handle of Inl x \<Rightarrow> Inl x
      | Inr space \<Rightarrow> no_id (state_deallocate space name ptr sz s))"
| "sts_step cxa s (BeginCopy dst_handle dst_name src_handle src_name now) =
     (case get_space dst_handle of Inl x \<Rightarrow> Inl x
      | Inr dst_space \<Rightarrow> (case get_space src_handle of Inl x \<Rightarrow> Inl x
          | Inr src_space \<Rightarrow> no_id (begin_deep_copy cxa dst_space dst_name src_space src_name now s)))"
| "sts_step cxa s (EndCopy now) = no_id (end_frame now s)"

definition sts_next :: "cxa_demangle \<Rightarrow> State \<Rightarrow> sts_event \<Rightarrow> State outcome" where
  "sts_next cxa s e = (case sts_step cxa s e of Inl x \<Rightarrow> Inl x | Inr (s', i) \<Rightarrow> Inr s')"

section \<open>Invariant\<close>

definition allocated :: "Allocations \<Rightarrow> nat" where
  "allocated a = (\<Sum>(k, v) \<leftarrow> alloc_set a. unat (fst k))"

text \<open>The set is ordered without repetition, and the counter is the sum of its sizes modulo \<open>2 ^ 64\<close>.\<close>

definition allocs_ok :: "Allocations \<Rightarrow> bool" where
  "allocs_ok a \<longleftrightarrow> om_sorted alloc_less (alloc_set a) \<and> total_size a = of_nat (allocated a)"

definition frame_ok :: "State \<Rightarrow> bool" where
  "frame_ok s \<longleftrightarrow> tree_ok (stack_root s) \<and> (\<forall>p. stack_frame s = Some p \<longrightarrow> node_at p (stack_root s) \<noteq> None)"

definition sts_inv :: "State \<Rightarrow> bool" where
  "sts_inv s \<longleftrightarrow> frame_ok s \<and> (\<forall>sp. allocs_ok (current_allocations s sp) \<and> allocs_ok (hwm_allocations s sp))"

lemma sts_inv_new: "sts_inv (new_State now)"
  by (simp add: sts_inv_def frame_ok_def new_State_def allocs_ok_def allocated_def no_allocations_def)

text \<open>Sums over an ordered map.\<close>

lemma sum_om_insert:
  "om_find alloc_less k m = None \<Longrightarrow>
     (\<Sum>(k, v) \<leftarrow> om_insert alloc_less k v m. unat (fst k)) = unat (fst k) + (\<Sum>(k, v) \<leftarrow> m. unat (fst k))"
  by (induction m) (auto split: if_splits)

lemma sum_om_erase:
  assumes "om_sorted alloc_less m" and "om_find alloc_less k m = Some v"
  shows "(\<Sum>(k, v) \<leftarrow> om_erase alloc_less k m. unat (fst k)) + unat (fst k) = (\<Sum>(k, v) \<leftarrow> m. unat (fst k))"
  using assms
proof (induction m)
  case (Cons e m)
  obtain k' w where e: "e = (k', w)" by (rule prod.exhaust)
  show ?case
  proof (cases k' k rule: alloc_order.order_cases)
    case less
    with Cons e show ?thesis by auto
  next
    case equal
    with e show ?thesis by simp
  next
    case greater
    with Cons.prems e show ?thesis by simp
  qed
qed simp

lemma om_erase_insert:
  "om_find alloc_less k m = None \<Longrightarrow> om_sorted alloc_less m \<Longrightarrow> om_erase alloc_less k (om_insert alloc_less k v m) = m"
proof (induction m)
  case (Cons e m)
  obtain k' w where e: "e = (k', w)" by (rule prod.exhaust)
  show ?case
  proof (cases k' k rule: alloc_order.order_cases)
    case less
    with Cons e show ?thesis by auto
  qed (use Cons.prems e alloc_order.irrefl in auto)
qed (simp add: alloc_order.irrefl)

lemma allocs_ok_allocate:
  assumes "allocs_ok a" and "allocate name ptr sz frame a = Inr a'"
  shows "allocs_ok a'" and "allocated a' = allocated a + (if ptr = 0 then 0 else unat sz)"
proof -
  have "allocs_ok a' \<and> allocated a' = allocated a + (if ptr = 0 then 0 else unat sz)"
  proof (cases "ptr = 0")
    case True
    with assms show ?thesis by (simp add: allocate_def split: if_splits)
  next
    case False
    then have f: "om_find alloc_less (sz, ptr) (alloc_set a) = None"
      and a': "a' = a\<lparr>alloc_set := om_insert alloc_less (sz, ptr) (name, frame) (alloc_set a),
        total_size := total_size a + sz\<rparr>"
      using assms(2) by (simp_all add: allocate_def del: not_None_eq split: if_splits)
    have "allocated a' = unat sz + allocated a"
      using sum_om_insert [OF f, of "(name, frame)"] by (simp add: a' allocated_def)
    with False assms(1) show ?thesis by (simp add: a' allocs_ok_def add.commute)
  qed
  then show "allocs_ok a'" "allocated a' = allocated a + (if ptr = 0 then 0 else unat sz)" by simp_all
qed

lemma allocs_ok_deallocate:
  assumes "allocs_ok a" and "deallocate name ptr sz frame a = Inr (a', err)"
  shows "allocs_ok a'" and "allocated a' \<le> allocated a"
proof -
  have "allocs_ok a' \<and> allocated a' \<le> allocated a"
  proof (cases "ptr = 0 \<or> om_find alloc_less (sz, ptr) (alloc_set a) = None")
    case True
    with assms show ?thesis by (auto simp: deallocate_def split: if_splits option.splits)
  next
    case False
    then obtain v where v: "om_find alloc_less (sz, ptr) (alloc_set a) = Some v" "ptr \<noteq> 0" by auto
    then have a': "a' = a\<lparr>total_size := total_size a - sz, alloc_set := om_erase alloc_less (sz, ptr) (alloc_set a)\<rparr>"
      using assms(2) by (simp add: deallocate_def)
    have so: "om_sorted alloc_less (alloc_set a)" using assms(1) by (simp add: allocs_ok_def)
    have s: "allocated a' + unat sz = allocated a"
      using sum_om_erase [OF so v(1)] by (simp add: a' allocated_def)
    then have "(of_nat (allocated a') :: u64) + sz = of_nat (allocated a)"
      by (simp flip: s)
    then have "total_size a' = of_nat (allocated a')"
      using assms(1) by (simp add: a' allocs_ok_def algebra_simps)
    with s show ?thesis using alloc_order.om_sorted_erase [OF so] by (simp add: a' allocs_ok_def)
  qed
  then show "allocs_ok a'" "allocated a' \<le> allocated a" by simp_all
qed

section \<open>Frames\<close>

lemma begin_frame_result:
  assumes "frame_ok s" and "begin_frame cxa name kind now s = Inr s'"
  shows "frame_ok s'" and "\<exists>p. stack_frame s = Some p \<and> stack_frame s' = Some (p @ [(kind, demangleNameKokkos cxa name)])"
    and "current_allocations s' = current_allocations s" and "hwm_allocations s' = hwm_allocations s"
proof -
  let ?k = "(kind, demangleNameKokkos cxa name)"
  obtain p where p: "stack_frame s = Some p" using assms(2) by (auto simp: begin_frame_def split: option.splits)
  then obtain n where n: "node_at p (stack_root s) = Some n" using assms(1) by (auto simp: frame_ok_def)
  let ?t1 = "update_at p (ensure_child ?k) (stack_root s)"
  let ?t2 = "update_at (p @ [?k]) (map_info (node_begin kind now)) ?t1"
  have s': "s' = s\<lparr>stack_root := ?t2, stack_frame := Some (p @ [?k])\<rparr>"
    using assms(2) p by (simp add: begin_frame_def Let_def)
  have t: "tree_ok (stack_root s)" using assms(1) by (simp add: frame_ok_def)
  have t1: "tree_ok ?t1" by (rule tree_ok_update_at [OF _ t]) simp
  have t2: "tree_ok ?t2" by (rule tree_ok_update_at [OF _ t1]) simp
  have "node_at p ?t1 = Some (ensure_child ?k n)" by (simp add: node_at_update [OF t] n)
  then have "node_at (p @ [?k]) ?t1 \<noteq> None"
    using node_at_ok [OF t n] by (simp add: node_at_append get_child_ensure)
  then have "node_at (p @ [?k]) ?t2 \<noteq> None" by (simp add: node_at_update [OF t1])
  with t2 show "frame_ok s'" by (simp add: frame_ok_def s')
  show "\<exists>p. stack_frame s = Some p \<and> stack_frame s' = Some (p @ [?k])" by (simp add: p s')
  show "current_allocations s' = current_allocations s" "hwm_allocations s' = hwm_allocations s"
    by (simp_all add: s')
qed

lemma node_at_map_info_exists: "node_at q n \<noteq> None \<Longrightarrow> node_at q (map_info f n) \<noteq> None"
  by (cases q) (simp_all add: node_at_map_info)

lemma end_frame_result:
  assumes "frame_ok s" and "end_frame now s = Inr s'"
  shows "frame_ok s'" and "\<exists>p. stack_frame s = Some p \<and> stack_frame s' = (if p = [] then None else Some (butlast p))"
    and "current_allocations s' = current_allocations s" and "hwm_allocations s' = hwm_allocations s"
proof -
  obtain p where p: "stack_frame s = Some p" using assms(2) by (auto simp: end_frame_def split: option.splits)
  let ?t = "update_at p (map_info (node_end now)) (stack_root s)"
  have s': "s' = s\<lparr>stack_root := ?t, stack_frame := (if p = [] then None else Some (butlast p))\<rparr>"
    using assms(2) p by (simp add: end_frame_def)
  have t: "tree_ok (stack_root s)" and n: "node_at p (stack_root s) \<noteq> None"
    using assms(1) p by (auto simp: frame_ok_def)
  have "node_at (butlast p) (stack_root s) \<noteq> None"
    using n node_at_prefix [of "butlast p" "[last p]"] by (cases "p = []") simp_all
  then have "node_at (butlast p) ?t \<noteq> None"
    by (rule node_at_update_exists [OF t]) (rule node_at_map_info_exists)
  moreover have "tree_ok ?t" by (rule tree_ok_update_at [OF _ t]) simp
  ultimately show "frame_ok s'" by (simp add: frame_ok_def s')
  show "\<exists>p. stack_frame s = Some p \<and> stack_frame s' = (if p = [] then None else Some (butlast p))"
    by (simp add: p s')
  show "current_allocations s' = current_allocations s" "hwm_allocations s' = hwm_allocations s"
    by (simp_all add: s')
qed

lemma state_allocate_result:
  assumes "sts_inv s" and "state_allocate space name ptr sz s = Inr s'"
  shows "sts_inv s'" and "stack_frame s' = stack_frame s" and "stack_root s' = stack_root s"
    and "allocated (current_allocations s' space) = allocated (current_allocations s space) + (if ptr = 0 then 0 else unat sz)"
    and "\<And>sp. sp \<noteq> space \<Longrightarrow> current_allocations s' sp = current_allocations s sp \<and> hwm_allocations s' sp = hwm_allocations s sp"
    and "hwm_allocations s' space =
      (if total_size (hwm_allocations s space) < total_size (current_allocations s' space)
       then current_allocations s' space else hwm_allocations s space)"
proof -
  obtain a where a: "allocate name ptr sz (stack_frame s) (current_allocations s space) = Inr a"
    using assms(2) by (auto simp: state_allocate_def split: sum.splits)
  let ?s1 = "s\<lparr>current_allocations := (current_allocations s)(space := a)\<rparr>"
  have s': "s' = (if total_size (hwm_allocations s space) < total_size a
      then ?s1\<lparr>hwm_allocations := (hwm_allocations s)(space := a)\<rparr> else ?s1)"
    using assms(2) a by (auto simp: state_allocate_def Let_def)
  have "allocs_ok (current_allocations s space)" using assms(1) by (simp add: sts_inv_def)
  from allocs_ok_allocate [OF this a] have ok: "allocs_ok a"
    and n: "allocated a = allocated (current_allocations s space) + (if ptr = 0 then 0 else unat sz)" .
  from ok assms(1) show "sts_inv s'" by (auto simp: sts_inv_def frame_ok_def s')
  show "stack_frame s' = stack_frame s" "stack_root s' = stack_root s" by (simp_all add: s')
  show "allocated (current_allocations s' space) = allocated (current_allocations s space) + (if ptr = 0 then 0 else unat sz)"
    by (simp add: s' n)
  show "sp \<noteq> space \<Longrightarrow> current_allocations s' sp = current_allocations s sp \<and> hwm_allocations s' sp = hwm_allocations s sp" for sp
    by (simp add: s')
  show "hwm_allocations s' space =
      (if total_size (hwm_allocations s space) < total_size (current_allocations s' space)
       then current_allocations s' space else hwm_allocations s space)" by (simp add: s')
qed

lemma state_deallocate_result:
  assumes "sts_inv s" and "state_deallocate space name ptr sz s = Inr s'"
  shows "sts_inv s'" and "stack_frame s' = stack_frame s" and "stack_root s' = stack_root s"
    and "allocated (current_allocations s' space) \<le> allocated (current_allocations s space)"
    and "\<And>sp. sp \<noteq> space \<Longrightarrow> current_allocations s' sp = current_allocations s sp"
    and "hwm_allocations s' = hwm_allocations s"
proof -
  obtain a err where a: "deallocate name ptr sz (stack_frame s) (current_allocations s space) = Inr (a, err)"
    using assms(2) by (auto simp: state_deallocate_def split: sum.splits)
  have s': "s' = s\<lparr>current_allocations := (current_allocations s)(space := a), st_stderr := st_stderr s @ err\<rparr>"
    using assms(2) a by (simp add: state_deallocate_def)
  have "allocs_ok (current_allocations s space)" using assms(1) by (simp add: sts_inv_def)
  from allocs_ok_deallocate [OF this a] have ok: "allocs_ok a"
    and n: "allocated a \<le> allocated (current_allocations s space)" .
  from ok assms(1) show "sts_inv s'" by (auto simp: sts_inv_def frame_ok_def s')
  show "stack_frame s' = stack_frame s" "stack_root s' = stack_root s" by (simp_all add: s')
  show "allocated (current_allocations s' space) \<le> allocated (current_allocations s space)" using n by (simp add: s')
  show "sp \<noteq> space \<Longrightarrow> current_allocations s' sp = current_allocations s sp" for sp by (simp add: s')
  show "hwm_allocations s' = hwm_allocations s" by (simp add: s')
qed

text \<open>The three kinds of callbacks.\<close>

definition copy_name :: "Space \<Rightarrow> string \<Rightarrow> Space \<Rightarrow> string \<Rightarrow> string" where
  "copy_name dst_space dst_name src_space src_name = quot @ dst_name @ quot @ ''='' @ quot @ src_name @ quot @ '' ('' @
            get_space_name dst_space @ ''->'' @ get_space_name src_space @ '')''"

lemma sts_next_cases:
  assumes "sts_next cxa s e = Inr s'"
  obtains (opens) name kind now where "begin_frame cxa name kind now s = Inr s'"
      "\<exists>h d g n. e \<in> {BeginFor name now, BeginReduce name now, BeginScan name now, PushRegion name now, BeginCopy h d g n now}"
  | (closes) now where "end_frame now s = Inr s'" "\<exists>i. e \<in> {EndKernel i now, PopRegion now, EndCopy now}"
  | (alloc) space h name ptr sz where "e = Allocate h name ptr sz" "get_space h = Inr space"
      "state_allocate space name ptr sz s = Inr s'"
  | (dealloc) space h name ptr sz where "e = Deallocate h name ptr sz" "get_space h = Inr space"
      "state_deallocate space name ptr sz s = Inr s'"
proof (cases e)
  case (BeginFor name now)
  then show ?thesis using assms opens [of name STACK_FOR now]
    by (auto simp: sts_next_def with_id_def begin_kernel_def split: sum.splits)
next
  case (BeginReduce name now)
  then show ?thesis using assms opens [of name STACK_REDUCE now]
    by (auto simp: sts_next_def with_id_def begin_kernel_def split: sum.splits)
next
  case (BeginScan name now)
  then show ?thesis using assms opens [of name STACK_SCAN now]
    by (auto simp: sts_next_def with_id_def begin_kernel_def split: sum.splits)
next
  case (EndKernel i now)
  then show ?thesis using assms closes [of now]
    by (auto simp: sts_next_def no_id_def end_kernel_def split: sum.splits if_splits)
next
  case (PushRegion name now)
  then show ?thesis using assms opens [of name STACK_REGION now]
    by (auto simp: sts_next_def no_id_def split: sum.splits)
next
  case (PopRegion now)
  then show ?thesis using assms closes [of now] by (auto simp: sts_next_def no_id_def split: sum.splits)
next
  case (Allocate h name ptr sz)
  then show ?thesis using assms alloc [of h name ptr sz]
    by (auto simp: sts_next_def no_id_def split: sum.splits)
next
  case (Deallocate h name ptr sz)
  then show ?thesis using assms dealloc [of h name ptr sz]
    by (auto simp: sts_next_def no_id_def split: sum.splits)
next
  case (BeginCopy h d g n now)
  then obtain sp1 sp2 where "get_space h = Inr sp1" "get_space g = Inr sp2"
    "begin_frame cxa (copy_name sp1 d sp2 n) STACK_COPY now s = Inr s'"
    using assms by (auto simp: sts_next_def no_id_def begin_deep_copy_def copy_name_def split: sum.splits)
  then show ?thesis using BeginCopy opens by blast
next
  case (EndCopy now)
  then show ?thesis using assms closes [of now] by (auto simp: sts_next_def no_id_def split: sum.splits)
qed


lemma sts_next_inv:
  assumes "sts_inv s" and "sts_next cxa s e = Inr s'"
  shows "sts_inv s'"
proof (cases rule: sts_next_cases [OF assms(2), case_names opens closes alloc dealloc])
  case (opens name kind now)
  with begin_frame_result [OF _ opens(1)] assms(1) show ?thesis by (simp add: sts_inv_def)
next
  case (closes now)
  with end_frame_result [OF _ closes(1)] assms(1) show ?thesis by (simp add: sts_inv_def)
next
  case (alloc space h name ptr sz)
  from state_allocate_result(1) [OF assms(1) alloc(3)] show ?thesis .
next
  case (dealloc space h name ptr sz)
  from state_deallocate_result(1) [OF assms(1) dealloc(3)] show ?thesis .
qed

lemmas sts_run_defs = sts_next_def with_id_def no_id_def begin_kernel_def begin_frame_def end_frame_def
  end_kernel_def state_allocate_def state_deallocate_def allocate_def deallocate_def Let_def new_State_def
  no_allocations_def get_space_def strcmp_eq_def strncmp_eq_def cstr_def

section \<open>The stack of frames\<close>

definition frames :: "State \<Rightarrow> node_key list" where
  "frames s = (case stack_frame s of None \<Rightarrow> [] | Some p \<Rightarrow> rev p @ [root_key])"

lemma frames_eq_iff: "frames s = frames s' \<longleftrightarrow> stack_frame s = stack_frame s'"
  by (cases "stack_frame s"; cases "stack_frame s'") (auto simp: frames_def)

fun frame_kind :: "sts_event \<Rightarrow> (sts_event, sts_event, sts_event) bracket" where
  "frame_kind (EndKernel i now) = Close (EndKernel i now)"
| "frame_kind (PopRegion now) = Close (PopRegion now)"
| "frame_kind (EndCopy now) = Close (EndCopy now)"
| "frame_kind (Allocate h n p sz) = Other (Allocate h n p sz)"
| "frame_kind (Deallocate h n p sz) = Other (Deallocate h n p sz)"
| "frame_kind e = Open e"

text \<open>The events of one kind; on the others these functions do nothing.\<close>

definition of_kind :: "(sts_event \<Rightarrow> bool) \<Rightarrow> cxa_demangle \<Rightarrow> State \<Rightarrow> sts_event \<Rightarrow> State outcome" where
  "of_kind P cxa s e = (if P e then sts_next cxa s e else Inl (Undefined []))"

definition is_open :: "sts_event \<Rightarrow> bool" where "is_open e \<longleftrightarrow> frame_kind e = Open e"
definition is_close :: "sts_event \<Rightarrow> bool" where "is_close e \<longleftrightarrow> frame_kind e = Close e"
definition is_other :: "sts_event \<Rightarrow> bool" where "is_other e \<longleftrightarrow> frame_kind e = Other e"

lemmas is_kind_defs = is_open_def is_close_def is_other_def

lemma frames_open:
  assumes "sts_inv s" and "sts_next cxa s e = Inr s'" and "is_open e"
  shows "\<exists>f. frames s' = f # frames s"
proof (cases rule: sts_next_cases [OF assms(2), case_names opens closes alloc dealloc])
  case (opens name kind now)
  with begin_frame_result(2) [OF _ opens(1)] assms(1) show ?thesis
    by (auto simp: sts_inv_def frames_def)
qed (use assms(3) in \<open>auto simp: is_open_def\<close>)

lemma frames_close:
  assumes "sts_inv s" and "sts_next cxa s e = Inr s'" and "is_close e"
  shows "frames s = f # fs \<Longrightarrow> frames s' = fs"
proof (cases rule: sts_next_cases [OF assms(2), case_names opens closes alloc dealloc])
  case (closes now)
  assume f: "frames s = f # fs"
  from end_frame_result(2) [OF _ closes(1)] assms(1) obtain p where
    p: "stack_frame s = Some p" "stack_frame s' = (if p = [] then None else Some (butlast p))"
    by (auto simp: sts_inv_def)
  show ?thesis using f p by (cases p rule: rev_cases) (auto simp: frames_def)
qed (use assms(3) in \<open>auto simp: is_close_def\<close>)

lemma frames_other:
  assumes "sts_inv s" and "sts_next cxa s e = Inr s'" and "is_other e"
  shows "frames s' = frames s"
proof (cases rule: sts_next_cases [OF assms(2), case_names opens closes alloc dealloc])
  case (alloc space h name ptr sz)
  with state_allocate_result(2) [OF assms(1) alloc(3)] show ?thesis by (simp add: frames_def)
next
  case (dealloc space h name ptr sz)
  with state_deallocate_result(2) [OF assms(1) dealloc(3)] show ?thesis by (simp add: frames_def)
qed (use assms(3) in \<open>auto simp: is_other_def\<close>)

text \<open>Begins and ends as far as the number of open frames goes; an end needs one.\<close>

lemma frames_step_length:
  assumes "sts_inv s" and "sts_next cxa s e = Inr s'"
  shows "length (frames s') + length (filter is_close [e]) = length (frames s) + length (filter is_open [e])"
proof (cases "frame_kind e")
  case (Open a)
  then have "is_open e" "\<not> is_close e" by (cases e; simp add: is_kind_defs)+
  with frames_open [OF assms] show ?thesis by auto
next
  case (Close b)
  then have c: "is_close e" "\<not> is_open e" by (cases e; simp add: is_kind_defs)+
  have "frames s \<noteq> []"
  proof (cases rule: sts_next_cases [OF assms(2), case_names opens closes alloc dealloc])
    case (closes now)
    with end_frame_result(2) [OF _ closes(1)] assms(1) show ?thesis by (auto simp: sts_inv_def frames_def)
  qed (use c in \<open>auto simp: is_close_def\<close>)
  then obtain f fs where "frames s = f # fs" by (cases "frames s") auto
  with frames_close [OF assms c(1)] c show ?thesis by simp
next
  case (Other d)
  then have "is_other e" "\<not> is_close e" "\<not> is_open e" by (cases e; simp add: is_kind_defs)+
  with frames_other [OF assms] show ?thesis by simp
qed

lemma frames_run_length:
  "sts_inv s \<Longrightarrow> run_events (sts_next cxa) s es = Inr s' \<Longrightarrow>
    length (frames s') + length (filter is_close es) = length (frames s) + length (filter is_open es)"
proof (induction es arbitrary: s)
  case (Cons e es)
  then obtain s1 where s1: "sts_next cxa s e = Inr s1" "run_events (sts_next cxa) s1 es = Inr s'"
    by (auto split: sum.splits)
  from Cons.IH [OF sts_next_inv [OF Cons.prems(1) s1(1)] s1(2)] frames_step_length [OF Cons.prems(1) s1(1)]
  show ?case by (simp split: if_splits)
qed simp

text \<open>
  C8. Whatever callbacks arrive, the space-time stack stays well formed: in every node the children
  are ordered by kind and name without repetition, the open frame is a node of the tree or the null
  pointer, every allocation set is ordered without repetition, and its byte counter is the sum of its
  sizes modulo \<open>2 ^ 64\<close>. The frames open are those at the start plus one for each begin less one for each end; the
  open frame is the null pointer exactly when there were enough ends to close them all, the root included.
\<close>

theorem sts_inv_preserved:
  assumes "sts_inv s" and "run_events (sts_next cxa) s es = Inr s'"
  shows "sts_inv s'
    \<and> length (frames s') + length (filter is_close es) = length (frames s) + length (filter is_open es)
    \<and> (stack_frame s' = None \<longleftrightarrow> length (filter is_close es) = length (frames s) + length (filter is_open es))"
proof (intro conjI)
  show "sts_inv s'"
    by (rule run_events_invariant [where I = sts_inv and step = "sts_next cxa", OF sts_next_inv assms])
  show l: "length (frames s') + length (filter is_close es) = length (frames s) + length (filter is_open es)"
    by (rule frames_run_length [OF assms])
  have "stack_frame s' = None \<longleftrightarrow> length (frames s') = 0" by (auto simp: frames_def split: option.splits)
  with l show "stack_frame s' = None \<longleftrightarrow> length (filter is_close es) = length (frames s) + length (filter is_open es)"
    by linarith
qed

theorem sts_inv_preserved_witness:
  "\<exists>s'. run_events (sts_next (\<lambda>_. None)) (new_State 0) [PushRegion ''main'' 5,
      Allocate \<lparr>sh_name = ''Host''\<rparr> ''x'' 64 800, BeginFor ''axpy'' 6,
      EndKernel (Some [(STACK_REGION, ''main''), (STACK_FOR, ''axpy'')]) 9, PopRegion 10] = Inr s' \<and> sts_inv s'"
proof -
  have "returns (run_events (sts_next (\<lambda>_. None)) (new_State 0) [PushRegion ''main'' 5,
      Allocate \<lparr>sh_name = ''Host''\<rparr> ''x'' 64 800, BeginFor ''axpy'' 6,
      EndKernel (Some [(STACK_REGION, ''main''), (STACK_FOR, ''axpy'')]) 9, PopRegion 10])"
    by (simp add: sts_run_defs demangleNameKokkos_identity)
  then obtain s' where s': "run_events (sts_next (\<lambda>_. None)) (new_State 0) [PushRegion ''main'' 5,
      Allocate \<lparr>sh_name = ''Host''\<rparr> ''x'' 64 800, BeginFor ''axpy'' 6,
      EndKernel (Some [(STACK_REGION, ''main''), (STACK_FOR, ''axpy'')]) 9, PopRegion 10] = Inr s'"
    by (auto simp: returns_iff)
  from sts_inv_preserved [OF sts_inv_new s'] s' show ?thesis by blast
qed

interpretation sts_stack: frame_stack "of_kind is_open cxa" "of_kind is_close cxa" "of_kind is_other cxa" frames sts_inv
  for cxa
  by unfold_locales (auto simp: of_kind_def split: if_splits dest: sts_next_inv frames_open frames_other frames_close)

lemma sts_next_kind: "sts_next cxa s e = sts_stack.fs_step cxa s (frame_kind e)"
  by (cases e) (simp_all add: of_kind_def is_kind_defs)

text \<open>
  C10. Frames nest: any run of callbacks in which every begin of a kernel, region or deep copy is
  matched by its own end, with allocations anywhere in between, leaves the open frame where it was,
  the null pointer after too many pops included.
\<close>

theorem sts_frames_balanced:
  assumes "sts_inv s" and "balanced (map frame_kind es)" and "run_events (sts_next cxa) s es = Inr s'"
  shows "stack_frame s' = stack_frame s"
  using sts_stack.balanced_restores_kind [of "sts_next cxa" cxa, OF sts_next_kind assms(2,1,3)]
  by (simp add: frames_eq_iff)

theorem sts_frames_balanced_witness:
  "\<exists>s'. run_events (sts_next (\<lambda>_. None)) (new_State 0) [PushRegion ''main'' 5,
      Allocate \<lparr>sh_name = ''Host''\<rparr> ''x'' 64 800, PopRegion 10] = Inr s' \<and> stack_frame s' = Some []"
proof -
  let ?es = "[PushRegion ''main'' 5, Allocate \<lparr>sh_name = ''Host''\<rparr> ''x'' 64 800, PopRegion 10]"
  have "returns (run_events (sts_next (\<lambda>_. None)) (new_State 0) ?es)"
    by (simp add: sts_run_defs demangleNameKokkos_identity)
  then obtain s' where s': "run_events (sts_next (\<lambda>_. None)) (new_State 0) ?es = Inr s'"
    by (auto simp: returns_iff)
  have "balanced (map frame_kind ?es)"
    using balanced.frame [OF balanced.other [OF balanced.nil] balanced.nil] by simp
  from sts_frames_balanced [OF sts_inv_new this s'] s' show ?thesis by (simp add: new_State_def)
qed

section \<open>Kernel identifiers\<close>

text \<open>
  Kernels end in the reverse of the order they began in. With two kernels begun one inside the
  other, ending the outer one first aborts; ending the inner and then the outer one, each with the
  identifier its begin returned, succeeds and reopens the frame that was open before.
\<close>

theorem kernels_end_in_reverse:
  assumes "sts_inv s" and "stack_frame s = Some p"
  shows "\<exists>s1 s2 ida idb. begin_kernel cxa a k t1 s = Inr (s1, ida) \<and> begin_kernel cxa b l t2 s1 = Inr (s2, idb)
    \<and> end_kernel ida t3 s2 = Inl Abort
    \<and> (\<exists>s3 s4. end_kernel idb t3 s2 = Inr s3 \<and> end_kernel ida t4 s3 = Inr s4 \<and> stack_frame s4 = Some p)"
proof -
  let ?ka = "(k, demangleNameKokkos cxa a)" and ?kb = "(l, demangleNameKokkos cxa b)"
  obtain s1 where s1: "begin_frame cxa a k t1 s = Inr s1" and f1: "stack_frame s1 = Some (p @ [?ka])"
    using assms(2) by (simp add: begin_frame_def Let_def)
  obtain s2 where s2: "begin_frame cxa b l t2 s1 = Inr s2" and f2: "stack_frame s2 = Some (p @ [?ka, ?kb])"
    using f1 by (simp add: begin_frame_def Let_def)
  obtain s3 where s3: "end_frame t3 s2 = Inr s3" and f3: "stack_frame s3 = Some (p @ [?ka])"
    using f2 by (simp add: end_frame_def butlast_append)
  obtain s4 where s4: "end_frame t4 s3 = Inr s4" and f4: "stack_frame s4 = Some p"
    using f3 by (simp add: end_frame_def butlast_append)
  show ?thesis using s1 s2 s3 s4 f1 f2 f3 f4 by (simp add: begin_kernel_def end_kernel_def)
qed

theorem kernels_end_in_reverse_witness:
  "\<exists>s1 ida s2 idb. begin_kernel (\<lambda>_. None) ''a'' STACK_FOR 1 (new_State 0) = Inr (s1, ida)
    \<and> begin_kernel (\<lambda>_. None) ''b'' STACK_SCAN 2 s1 = Inr (s2, idb) \<and> end_kernel ida 3 s2 = Inl Abort"
  using kernels_end_in_reverse [OF sts_inv_new, of 0 "[]" "\<lambda>_. None" "''a''" STACK_FOR 1 "''b''" STACK_SCAN 2 3 4]
  by (auto simp: new_State_def)

text \<open>
  One pop too many is not noticed when it happens: popping with only the root open succeeds and
  leaves the null pointer as the open frame, and from then on every callback that begins or ends a
  kernel or region goes through it.
\<close>

theorem pop_past_root:
  assumes "stack_frame s = Some []"
  shows "\<exists>s'. sts_next cxa s (PopRegion t) = Inr s' \<and> stack_frame s' = None
    \<and> (\<forall>n u. sts_next cxa s' (PushRegion n u) = Inl null_frame
      \<and> sts_next cxa s' (BeginFor n u) = Inl null_frame
      \<and> sts_next cxa s' (PopRegion u) = Inl null_frame
      \<and> (\<forall>i. sts_next cxa s' (EndKernel i u) = Inl null_frame))"
  using assms by (auto simp: sts_next_def no_id_def with_id_def begin_kernel_def begin_frame_def end_frame_def
      end_kernel_def)

theorem pop_past_root_witness:
  "\<exists>s'. sts_next (\<lambda>_. None) (new_State 0) (PopRegion 7) = Inr s'
    \<and> sts_next (\<lambda>_. None) s' (BeginFor ''axpy'' 8) = Inl null_frame"
  using pop_past_root [of "new_State 0" "\<lambda>_. None" 7] by (auto simp: new_State_def)

section \<open>Memory\<close>

text \<open>
  Freeing what was allocated undoes it: allocating a block that is not in the set and then
  deallocating it, under whatever label, restores the set and the byte counter exactly and prints no
  warning.
\<close>

theorem deallocate_undoes_allocate:
  assumes "allocs_ok a" and "ptr \<noteq> 0" and "om_find alloc_less (sz, ptr) (alloc_set a) = None"
  shows "\<exists>a1. allocate name ptr sz frame a = Inr a1 \<and> deallocate name' ptr sz frame' a1 = Inr (a, [])"
proof -
  have so: "om_sorted alloc_less (alloc_set a)" using assms(1) by (simp add: allocs_ok_def)
  let ?m = "om_insert alloc_less (sz, ptr) (name, frame) (alloc_set a)"
  have "om_find alloc_less (sz, ptr) ?m = Some (name, frame)"
    using assms(3) so by (simp add: alloc_order.om_simps)
  with assms show ?thesis by (simp add: allocate_def deallocate_def om_erase_insert so)
qed

theorem deallocate_undoes_allocate_witness:
  "\<exists>a1. allocate ''x'' 64 800 (Some []) no_allocations = Inr a1
    \<and> deallocate ''x'' 64 800 None a1 = Inr (no_allocations, [])"
  by (rule deallocate_undoes_allocate) (simp_all add: allocs_ok_def no_allocations_def allocated_def)

text \<open>How much a run allocates in all in a space.\<close>

fun requested :: "Space \<Rightarrow> sts_event \<Rightarrow> nat" where
  "requested sp (Allocate h name ptr sz) = (if get_space h = Inr sp then unat sz else 0)"
| "requested sp e = 0"

abbreviation current_bytes :: "State \<Rightarrow> Space \<Rightarrow> nat" where
  "current_bytes s sp \<equiv> allocated (current_allocations s sp)"

lemma sts_next_bytes:
  assumes "sts_inv s" and "sts_next cxa s e = Inr s'"
  shows "current_bytes s' sp \<le> current_bytes s sp + requested sp e"
proof (cases rule: sts_next_cases [OF assms(2), case_names opens closes alloc dealloc])
  case (opens name kind now)
  with begin_frame_result(3) [OF _ opens(1)] assms(1) show ?thesis by (simp add: sts_inv_def)
next
  case (closes now)
  with end_frame_result(3) [OF _ closes(1)] assms(1) show ?thesis by (simp add: sts_inv_def)
next
  case (alloc space h name ptr sz)
  note r = state_allocate_result(4,5) [OF assms(1) alloc(3)]
  show ?thesis using r alloc(1,2) by (cases "sp = space") auto
next
  case (dealloc space h name ptr sz)
  note r = state_deallocate_result(4,5) [OF assms(1) dealloc(3)]
  show ?thesis using r dealloc(1) by (cases "sp = space") auto
qed

text \<open>While the bytes fit 64 bits, the mark covers the current allocations.\<close>

definition hwm_ok :: "Space \<Rightarrow> State \<Rightarrow> bool" where
  "hwm_ok sp s \<longleftrightarrow> total_size (current_allocations s sp) \<le> total_size (hwm_allocations s sp)"

lemma total_size_mono:
  "allocs_ok a \<Longrightarrow> allocs_ok b \<Longrightarrow> allocated b < 2 ^ 64 \<Longrightarrow> allocated a \<le> allocated b \<Longrightarrow> total_size a \<le> total_size b"
  by (simp add: allocs_ok_def word_le_nat_alt unat_of_nat take_bit_nat_eq_self)

lemma sts_next_hwm:
  assumes inv: "sts_inv s" and st: "sts_next cxa s e = Inr s'" and h: "hwm_ok sp s"
    and fits: "current_bytes s sp + requested sp e < 2 ^ 64"
  shows "hwm_ok sp s'" and "total_size (hwm_allocations s sp) \<le> total_size (hwm_allocations s' sp)"
    and "hwm_allocations s' sp = hwm_allocations s sp \<or> hwm_allocations s' sp = current_allocations s' sp"
proof -
  have "hwm_ok sp s' \<and> total_size (hwm_allocations s sp) \<le> total_size (hwm_allocations s' sp)
    \<and> (hwm_allocations s' sp = hwm_allocations s sp \<or> hwm_allocations s' sp = current_allocations s' sp)"
  proof (cases rule: sts_next_cases [OF st, case_names opens closes alloc dealloc])
    case (opens name kind now)
    with begin_frame_result(3,4) [OF _ opens(1)] inv h show ?thesis by (simp add: sts_inv_def hwm_ok_def)
  next
    case (closes now)
    with end_frame_result(3,4) [OF _ closes(1)] inv h show ?thesis by (simp add: sts_inv_def hwm_ok_def)
  next
    case (alloc space h' name ptr sz)
    note r = state_allocate_result(5,6) [OF inv alloc(3)]
    show ?thesis using r h by (cases "sp = space") (auto simp: hwm_ok_def not_less)
  next
    case (dealloc space h' name ptr sz)
    note r = state_deallocate_result(1,4,5,6) [OF inv dealloc(3)]
    have "total_size (current_allocations s' sp) \<le> total_size (current_allocations s sp)"
    proof (cases "sp = space")
      case True
      with r(1,2) inv fits show ?thesis by (intro total_size_mono) (auto simp: sts_inv_def)
    qed (simp add: r(3))
    with h show ?thesis by (simp add: r(4) hwm_ok_def)
  qed
  then show "hwm_ok sp s'" "total_size (hwm_allocations s sp) \<le> total_size (hwm_allocations s' sp)"
    "hwm_allocations s' sp = hwm_allocations s sp \<or> hwm_allocations s' sp = current_allocations s' sp" by blast+
qed

text \<open>The states of a run, the one it starts from included.\<close>

fun run_states :: "cxa_demangle \<Rightarrow> State \<Rightarrow> sts_event list \<Rightarrow> State list" where
  "run_states cxa s [] = [s]"
| "run_states cxa s (e # es) = s # (case sts_next cxa s e of Inl x \<Rightarrow> [] | Inr s' \<Rightarrow> run_states cxa s' es)"

lemma hwm_run:
  assumes "sts_inv s" and "hwm_ok sp s" and "run_events (sts_next cxa) s es = Inr s'"
    and "current_bytes s sp + (\<Sum>e \<leftarrow> es. requested sp e) < 2 ^ 64"
  shows "(\<forall>r \<in> set (run_states cxa s es). total_size (current_allocations r sp) \<le> total_size (hwm_allocations s' sp))
    \<and> total_size (hwm_allocations s sp) \<le> total_size (hwm_allocations s' sp)
    \<and> (hwm_allocations s' sp = hwm_allocations s sp
       \<or> (\<exists>r \<in> set (run_states cxa s es). hwm_allocations s' sp = current_allocations r sp))"
  using assms
proof (induction es arbitrary: s)
  case Nil
  then show ?case by (simp add: hwm_ok_def)
next
  case (Cons e es)
  from Cons.prems(3) obtain s1 where s1: "sts_next cxa s e = Inr s1" "run_events (sts_next cxa) s1 es = Inr s'"
    by (auto split: sum.splits)
  have fits: "current_bytes s sp + requested sp e < 2 ^ 64" using Cons.prems(4) by simp
  note h = sts_next_hwm [OF Cons.prems(1) s1(1) Cons.prems(2) fits]
  have "current_bytes s1 sp + (\<Sum>e \<leftarrow> es. requested sp e) < 2 ^ 64"
    using sts_next_bytes [OF Cons.prems(1) s1(1), of sp] Cons.prems(4) by simp
  note ih = Cons.IH [OF sts_next_inv [OF Cons.prems(1) s1(1)] h(1) s1(2) this]
  have "s1 \<in> set (run_states cxa s1 es)" by (cases es) simp_all
  moreover have "total_size (current_allocations s sp) \<le> total_size (hwm_allocations s' sp)"
    using Cons.prems(2) h(2) ih order_trans unfolding hwm_ok_def by metis
  ultimately show ?case using ih h(2,3) s1(1) order_trans by (auto; metis)
qed

text \<open>
  C9. The high-water mark is the peak. As long as a run requests less than \<open>2 ^ 64\<close> bytes in a space,
  what \<open>hwm_allocations\<close> holds at the end is the set of allocations the space had at some moment of
  the run, and at no moment had the space more bytes.
\<close>

theorem hwm_is_peak:
  assumes "run_events (sts_next cxa) (new_State t) es = Inr s'"
    and "(\<Sum>e \<leftarrow> es. requested sp e) < 2 ^ 64"
  shows "(\<exists>r \<in> set (run_states cxa (new_State t) es). hwm_allocations s' sp = current_allocations r sp)
    \<and> list_all (\<lambda>r. total_size (current_allocations r sp) \<le> total_size (hwm_allocations s' sp))
        (run_states cxa (new_State t) es)"
proof -
  have h: "hwm_ok sp (new_State t)" "current_bytes (new_State t) sp = 0"
    "hwm_allocations (new_State t) sp = current_allocations (new_State t) sp"
    by (simp_all add: hwm_ok_def new_State_def no_allocations_def allocated_def)
  have "new_State t \<in> set (run_states cxa (new_State t) es)" by (cases es) simp_all
  with hwm_run [OF sts_inv_new h(1) assms(1)] assms(2) h(2,3) show ?thesis
    by (auto simp: list_all_iff)
qed

theorem hwm_is_peak_witness:
  "\<exists>s'. run_events (sts_next (\<lambda>_. None)) (new_State 0) [Allocate \<lparr>sh_name = ''Host''\<rparr> ''x'' 64 800,
      Deallocate \<lparr>sh_name = ''Host''\<rparr> ''x'' 64 800] = Inr s'
    \<and> (\<exists>r \<in> set (run_states (\<lambda>_. None) (new_State 0) [Allocate \<lparr>sh_name = ''Host''\<rparr> ''x'' 64 800,
      Deallocate \<lparr>sh_name = ''Host''\<rparr> ''x'' 64 800]). hwm_allocations s' SPACE_HOST = current_allocations r SPACE_HOST)"
proof -
  let ?es = "[Allocate \<lparr>sh_name = ''Host''\<rparr> ''x'' 64 800, Deallocate \<lparr>sh_name = ''Host''\<rparr> ''x'' 64 800]"
  have "returns (run_events (sts_next (\<lambda>_. None)) (new_State 0) ?es)" by (simp add: sts_run_defs alloc_less_def)
  then obtain s' where s': "run_events (sts_next (\<lambda>_. None)) (new_State 0) ?es = Inr s'"
    by (auto simp: returns_iff)
  have "(\<Sum>e \<leftarrow> ?es. requested SPACE_HOST e) < 2 ^ 64"
    by (simp add: get_space_def strcmp_eq_def strncmp_eq_def cstr_def)
  from hwm_is_peak [OF s' this] s' show ?thesis by blast
qed

end
