(* ===== verification/Stack_Totals.thy ===== *)
theory Stack_Totals
  imports Stack_State
begin

text \<open>
  What the nodes of the space-time stack's tree record over a run: all kernel calls are counted, and
  under a clock that does not go back no time is negative, so that the totals can be taken.
\<close>

section \<open>Counting kernels\<close>

lemma children_infos_concat: "children_infos cs = concat (map (\<lambda>(k, c). tree_infos c) cs)"
  by (induction cs) auto

lemma tree_infos_unfold: "tree_infos n = node_info n # concat (map (\<lambda>(k, c). tree_infos c) (children n))"
  by (cases n) (simp add: children_infos_concat)

lemma kernel_calls_unfold:
  "kernel_calls n = total_number_of_kernel_calls (node_info n) + (\<Sum>(k, c) \<leftarrow> children n. kernel_calls c)"
proof -
  have "(\<Sum>i \<leftarrow> concat (map (\<lambda>(k, c). tree_infos c) cs). total_number_of_kernel_calls i)
    = (\<Sum>(k, c) \<leftarrow> cs. kernel_calls c)" for cs :: "(node_key \<times> StackNode) list"
    by (induction cs) (auto simp: kernel_calls_def)
  then show ?thesis by (simp add: kernel_calls_def [of n] tree_infos_unfold [of n])
qed

lemma kernel_calls_StackNode:
  "kernel_calls (StackNode i cs) = total_number_of_kernel_calls i + (\<Sum>(k, c) \<leftarrow> cs. kernel_calls c)"
  by (simp add: kernel_calls_unfold [of "StackNode i cs"])

lemma kernel_calls_new [simp]: "kernel_calls new_node = 0"
  by (simp add: new_node_def kernel_calls_StackNode new_info_def)

lemma sum_insert_new: "(\<Sum>(k, c) \<leftarrow> om_insert node_less k new_node cs. kernel_calls c) = (\<Sum>(k, c) \<leftarrow> cs. kernel_calls c)"
  by (induction cs) auto

lemma kernel_calls_ensure [simp]: "kernel_calls (ensure_child k n) = kernel_calls n"
  by (simp add: ensure_child_def kernel_calls_StackNode sum_insert_new kernel_calls_unfold [of n])

lemma sum_om_update:
  fixes h :: "StackNode \<Rightarrow> u64"
  assumes "om_find node_less k cs = Some c" and "h (f c) = h c + d"
  shows "(\<Sum>(k, c) \<leftarrow> om_update node_less k f cs. h c) = (\<Sum>(k, c) \<leftarrow> cs. h c) + d"
  using assms by (induction cs) (auto split: if_splits simp: algebra_simps)

lemma kernel_calls_update:
  assumes "node_at p n = Some m" and "kernel_calls (f m) = kernel_calls m + d"
  shows "kernel_calls (update_at p f n) = kernel_calls n + d"
  using assms(1)
proof (induction p arbitrary: n)
  case (Cons k ks)
  then obtain c where c: "get_child k n = Some c" "node_at ks c = Some m" by (auto split: option.splits)
  have "(\<Sum>(k, c) \<leftarrow> om_update node_less k (update_at ks f) (children n). kernel_calls c)
      = (\<Sum>(k, c) \<leftarrow> children n. kernel_calls c) + d"
    using c(1) Cons.IH [OF c(2)] by (intro sum_om_update) (simp_all add: get_child_def)
  then show ?case by (simp add: kernel_calls_StackNode kernel_calls_unfold [of n])
qed (use assms(2) in simp)

lemma kernel_calls_map_info:
  "total_number_of_kernel_calls (f (node_info n)) = total_number_of_kernel_calls (node_info n) + d \<Longrightarrow>
     kernel_calls (map_info f n) = kernel_calls n + d"
  by (simp add: map_info_def kernel_calls_StackNode kernel_calls_unfold [of n])

lemma begin_frame_calls:
  assumes "frame_ok s" and "begin_frame cxa name kind now s = Inr s'"
  shows "kernel_calls (stack_root s') = kernel_calls (stack_root s) + (if is_kernel_kind kind then 1 else 0)"
proof -
  let ?k = "(kind, demangleNameKokkos cxa name)"
  obtain p where p: "stack_frame s = Some p" using assms(2) by (auto simp: begin_frame_def split: option.splits)
  then obtain n where n: "node_at p (stack_root s) = Some n" using assms(1) by (auto simp: frame_ok_def)
  let ?t1 = "update_at p (ensure_child ?k) (stack_root s)"
  have s': "stack_root s' = update_at (p @ [?k]) (map_info (node_begin kind now)) ?t1"
    using assms(2) p by (auto simp: begin_frame_def Let_def)
  have t: "tree_ok (stack_root s)" using assms(1) by (simp add: frame_ok_def)
  have t1: "tree_ok ?t1" by (rule tree_ok_update_at [OF _ t]) simp
  have "node_at p ?t1 = Some (ensure_child ?k n)" by (simp add: node_at_update [OF t] n)
  then obtain m where m: "node_at (p @ [?k]) ?t1 = Some m"
    using node_at_ok [OF t n] by (simp add: node_at_append get_child_ensure)
  have "kernel_calls ?t1 = kernel_calls (stack_root s)"
    using kernel_calls_update [OF n, of "ensure_child ?k" 0] by simp
  moreover have "kernel_calls (map_info (node_begin kind now) m) = kernel_calls m + (if is_kernel_kind kind then 1 else 0)"
    by (rule kernel_calls_map_info) (simp add: node_begin_def)
  ultimately show ?thesis using kernel_calls_update [OF m, of "map_info (node_begin kind now)"] by (simp add: s')
qed

lemma end_frame_calls:
  assumes "frame_ok s" and "end_frame now s = Inr s'"
  shows "kernel_calls (stack_root s') = kernel_calls (stack_root s)"
proof -
  obtain p where p: "stack_frame s = Some p" using assms(2) by (auto simp: end_frame_def split: option.splits)
  then obtain n where n: "node_at p (stack_root s) = Some n" using assms(1) by (auto simp: frame_ok_def)
  have "stack_root s' = update_at p (map_info (node_end now)) (stack_root s)"
    using assms(2) p by (auto simp: end_frame_def)
  moreover have "kernel_calls (map_info (node_end now) n) = kernel_calls n + 0"
    by (rule kernel_calls_map_info) (simp add: node_end_def)
  ultimately show ?thesis using kernel_calls_update [OF n, of "map_info (node_end now)" 0] by simp
qed

text \<open>Kernels and deep copies count, regions do not.\<close>

fun begins_kernel :: "sts_event \<Rightarrow> bool" where
  "begins_kernel (BeginFor n t) = True" | "begins_kernel (BeginReduce n t) = True"
| "begins_kernel (BeginScan n t) = True" | "begins_kernel (BeginCopy h d g n t) = True"
| "begins_kernel e = False"

lemma sts_next_kernel_calls:
  assumes "sts_inv s" and "sts_next cxa s e = Inr s'"
  shows "kernel_calls (stack_root s') = kernel_calls (stack_root s) + (if begins_kernel e then 1 else 0)"
proof -
  have fo: "frame_ok s" using assms(1) by (simp add: sts_inv_def)
  note b = begin_frame_calls [OF fo]
  show ?thesis
  proof (cases e)
    case (Allocate h n p sz)
    with assms(2) show ?thesis
      by (auto simp: sts_next_def no_id_def dest!: state_allocate_result(3) [OF assms(1)] split: sum.splits)
  next
    case (Deallocate h n p sz)
    with assms(2) show ?thesis
      by (auto simp: sts_next_def no_id_def dest!: state_deallocate_result(3) [OF assms(1)] split: sum.splits)
  qed (use assms(2) in \<open>auto simp: sts_next_def no_id_def with_id_def begin_kernel_def begin_deep_copy_def
      is_kernel_kind_def end_kernel_def dest!: b end_frame_calls [OF fo] split: sum.splits if_splits\<close>)
qed

lemma run_kernel_calls:
  "sts_inv s \<Longrightarrow> run_events (sts_next cxa) s es = Inr s' \<Longrightarrow>
     kernel_calls (stack_root s') = kernel_calls (stack_root s) + of_nat (length (filter begins_kernel es))"
proof (induction es arbitrary: s)
  case (Cons e es)
  from Cons.prems(2) obtain s1 where s1: "sts_next cxa s e = Inr s1" "run_events (sts_next cxa) s1 es = Inr s'"
    by (auto split: sum.splits)
  from Cons.IH [OF sts_next_inv [OF Cons.prems(1) s1(1)] s1(2)] sts_next_kernel_calls [OF Cons.prems(1) s1(1)]
  show ?case by (simp add: algebra_simps)
qed simp

section \<open>Times\<close>

definition infos_ok :: "(node_info \<Rightarrow> bool) \<Rightarrow> StackNode \<Rightarrow> bool" where
  "infos_ok P n \<longleftrightarrow> (\<forall>i \<in> set (tree_infos n). P i)"

lemma infos_ok_iff: "infos_ok P n \<longleftrightarrow> P (node_info n) \<and> (\<forall>c \<in> snd ` set (children n). infos_ok P c)"
  by (auto simp: infos_ok_def tree_infos_unfold [of n])

lemma infos_ok_StackNode: "infos_ok P (StackNode i cs) \<longleftrightarrow> P i \<and> (\<forall>c \<in> snd ` set cs. infos_ok P c)"
  by (simp add: infos_ok_iff [of P "StackNode i cs"])

lemma infos_ok_ensure:
  assumes "P new_info" and "infos_ok P n"
  shows "infos_ok P (ensure_child k n)"
proof -
  have "infos_ok P c" if c: "c \<in> snd ` set (om_insert node_less k new_node (children n))" for c
  proof -
    have "c = new_node \<or> c \<in> snd ` set (children n)" using subsetD [OF om_insert_values c] by (metis insertE)
    then show ?thesis
    proof
      assume "c = new_node"
      then show ?thesis using assms(1) by (simp add: new_node_def infos_ok_StackNode)
    next
      assume "c \<in> snd ` set (children n)"
      then show ?thesis using assms(2) infos_ok_iff [of P n] by blast
    qed
  qed
  moreover have "P (node_info n)" using assms(2) infos_ok_iff [of P n] by blast
  ultimately show ?thesis by (simp add: ensure_child_def infos_ok_StackNode)
qed

lemma infos_ok_map_info:
  assumes "infos_ok P n" and "P (f (node_info n))"
  shows "infos_ok P (map_info f n)"
  using assms infos_ok_iff [of P n] by (simp add: map_info_def infos_ok_StackNode)

lemma infos_ok_update:
  assumes "\<And>c. infos_ok P c \<Longrightarrow> infos_ok P (f c)" and "infos_ok P n"
  shows "infos_ok P (update_at p f n)"
  using assms(2)
proof (induction p arbitrary: n)
  case (Cons k ks)
  have v: "P (node_info n)" "\<forall>c \<in> snd ` set (children n). infos_ok P c"
    using Cons.prems infos_ok_iff [of P n] by blast+
  have "\<forall>c \<in> snd ` set (om_update node_less k (update_at ks f) (children n)). infos_ok P c"
    by (rule om_update_values) (use v(2) Cons.IH in blast)
  with v(1) show ?case by (simp add: infos_ok_StackNode)
qed (use assms(1) in simp)

lemma infos_ok_mono: "infos_ok P n \<Longrightarrow> (\<And>i. P i \<Longrightarrow> Q i) \<Longrightarrow> infos_ok Q n"
  by (auto simp: infos_ok_def)

text \<open>No time is negative and no frame started after \<open>t\<close>.\<close>

definition timed :: "int \<Rightarrow> node_info \<Rightarrow> bool" where
  "timed t i \<longleftrightarrow> times_ok i \<and> start_time i \<le> t"

fun reading :: "int \<Rightarrow> sts_event \<Rightarrow> int" where
  "reading t (BeginFor n u) = u" | "reading t (BeginReduce n u) = u" | "reading t (BeginScan n u) = u"
| "reading t (EndKernel i u) = u" | "reading t (PushRegion n u) = u" | "reading t (PopRegion u) = u"
| "reading t (BeginCopy h d g n u) = u" | "reading t (EndCopy u) = u"
| "reading t e = t"

fun clock_runs :: "int \<Rightarrow> sts_event list \<Rightarrow> bool" where
  "clock_runs t [] = True"
| "clock_runs t (e # es) = (t \<le> reading t e \<and> clock_runs (reading t e) es)"

definition last_reading :: "int \<Rightarrow> sts_event list \<Rightarrow> int" where
  "last_reading t es = foldl reading t es"

lemma timed_begin: "timed t i \<Longrightarrow> timed u (node_begin kind u i)"
  by (simp add: timed_def times_ok_def node_begin_def)

lemma timed_end: "timed t i \<Longrightarrow> t \<le> u \<Longrightarrow> timed u (node_end u i)"
  by (auto simp: timed_def times_ok_def node_end_def intro!: d_nonneg_elapsed)

lemma timed_mono: "timed t i \<Longrightarrow> t \<le> u \<Longrightarrow> timed u i"
  by (simp add: timed_def)

lemma timed_new: "0 \<le> t \<Longrightarrow> timed t new_info"
  by (simp add: timed_def times_ok_def new_info_def)

lemma begin_frame_timed:
  assumes "infos_ok (timed t) (stack_root s)" and "0 \<le> t" and "t \<le> u" and "begin_frame cxa name kind u s = Inr s'"
  shows "infos_ok (timed u) (stack_root s')"
proof -
  let ?k = "(kind, demangleNameKokkos cxa name)"
  obtain p where s': "stack_root s' = update_at (p @ [?k]) (map_info (node_begin kind u))
      (update_at p (ensure_child ?k) (stack_root s))"
    using assms(4) by (auto simp: begin_frame_def Let_def split: option.splits)
  have u: "infos_ok (timed u) (stack_root s)"
    using infos_ok_mono [OF assms(1), of "timed u"] assms(3) by (simp add: timed_mono)
  have "infos_ok (timed u) (update_at p (ensure_child ?k) (stack_root s))"
    by (rule infos_ok_update [OF _ u]) (use assms(2,3) in \<open>simp add: infos_ok_ensure timed_new\<close>)
  then show ?thesis unfolding s'
  proof (rule infos_ok_update [rotated])
    fix c assume c: "infos_ok (timed u) c"
    then have "timed u (node_info c)" using infos_ok_iff [of "timed u" c] by blast
    with c show "infos_ok (timed u) (map_info (node_begin kind u) c)"
      by (intro infos_ok_map_info timed_begin)
  qed
qed

lemma end_frame_timed:
  assumes "infos_ok (timed t) (stack_root s)" and "t \<le> u" and "end_frame u s = Inr s'"
  shows "infos_ok (timed u) (stack_root s')"
proof -
  obtain p where s': "stack_root s' = update_at p (map_info (node_end u)) (stack_root s)"
    using assms(3) by (auto simp: end_frame_def split: option.splits)
  have u: "infos_ok (timed u) (stack_root s)"
    using infos_ok_mono [OF assms(1), of "timed u"] assms(2) by (simp add: timed_mono)
  then show ?thesis unfolding s'
  proof (rule infos_ok_update [rotated])
    fix c assume c: "infos_ok (timed u) c"
    then have "timed u (node_info c)" using infos_ok_iff [of "timed u" c] by blast
    with c show "infos_ok (timed u) (map_info (node_end u) c)"
      using timed_end [of u "node_info c" u] by (intro infos_ok_map_info) simp_all
  qed
qed

lemma sts_next_timed:
  assumes "sts_inv s" and "infos_ok (timed t) (stack_root s)" and "0 \<le> t" and "t \<le> reading t e"
    and "sts_next cxa s e = Inr s'"
  shows "infos_ok (timed (reading t e)) (stack_root s')"
proof (cases rule: sts_next_cases [OF assms(5), case_names opens closes alloc dealloc])
  case (opens name kind now)
  then have "reading t e = now" by auto
  with begin_frame_timed [OF assms(2,3) _ opens(1)] assms(4) show ?thesis by simp
next
  case (closes now)
  then have "reading t e = now" by auto
  with end_frame_timed [OF assms(2) _ closes(1)] assms(4) show ?thesis by simp
next
  case (alloc space h name ptr sz)
  with state_allocate_result(3) [OF assms(1) alloc(3)] assms(2) show ?thesis by simp
next
  case (dealloc space h name ptr sz)
  with state_deallocate_result(3) [OF assms(1) dealloc(3)] assms(2) show ?thesis by simp
qed

lemma run_timed:
  "sts_inv s \<Longrightarrow> infos_ok (timed t) (stack_root s) \<Longrightarrow> 0 \<le> t \<Longrightarrow> clock_runs t es \<Longrightarrow>
     run_events (sts_next cxa) s es = Inr s' \<Longrightarrow> infos_ok (timed (last_reading t es)) (stack_root s')"
proof (induction es arbitrary: s t)
  case (Cons e es)
  from Cons.prems(5) obtain s1 where s1: "sts_next cxa s e = Inr s1" "run_events (sts_next cxa) s1 es = Inr s'"
    by (auto split: sum.splits)
  from Cons.prems(4) have le: "t \<le> reading t e" and cr: "clock_runs (reading t e) es" by simp_all
  have "infos_ok (timed (last_reading (reading t e) es)) (stack_root s')"
    using Cons.IH [OF sts_next_inv [OF Cons.prems(1) s1(1)] sts_next_timed [OF Cons.prems(1-3) le s1(1)] _ cr s1(2)]
      Cons.prems(3) le by linarith
  then show ?case by (simp add: last_reading_def)
qed (simp add: last_reading_def)

lemma new_State_timed: "0 \<le> t \<Longrightarrow> infos_ok (timed t) (stack_root (new_State t))"
  by (simp add: new_State_def new_node_def map_info_def infos_ok_StackNode timed_begin [OF timed_new])
end
