(* ===== verification/Stack_Report.thy ===== *)
theory Stack_Report
  imports Stack_Totals
begin

text \<open>
  The report of the space-time stack: \<open>print_recursive\<close>, \<open>print_recursive_json\<close>, the lists of
  allocations, the destructor of \<open>State\<close> and the command line of \<open>kp_space_time_stack.cpp\<close>. The
  printing functions take \<open>comm_size\<close>, the number of ranks; the destructor is the one built without MPI,
  where it is 1.
\<close>

section \<open>Children by time\<close>

text \<open>The order \<open>by_time\<close> of a \<open>std::set\<close> of pointers to children: longer first, then by name.\<close>

definition by_time :: "double \<times> string \<Rightarrow> double \<times> string \<Rightarrow> bool" where
  "by_time a b = (if \<not> deq (fst a) (fst b) then dlt (fst b) (fst a) else str_less (snd a) (snd b))"

definition insert_by_time :: "((double \<times> string) \<times> node_key \<times> StackNode) list \<Rightarrow> node_key \<times> StackNode
  \<Rightarrow> ((double \<times> string) \<times> node_key \<times> StackNode) list" where
  "insert_by_time m kc = om_insert by_time (total_runtime (node_info (snd kc)), snd (fst kc)) kc m"

definition children_by_time :: "StackNode \<Rightarrow> (node_key \<times> StackNode) list" where
  "children_by_time n = map snd (foldl insert_by_time [] (children n))"

lemma children_by_time_subset: "set (children_by_time n) \<subseteq> set (children n)"
proof -
  have "snd ` set (foldl insert_by_time m cs) \<subseteq> snd ` set m \<union> set cs" for m cs
  proof (induction cs arbitrary: m)
    case (Cons kc cs)
    have "snd ` set (insert_by_time m kc) \<subseteq> insert kc (snd ` set m)"
      unfolding insert_by_time_def by (rule om_insert_values)
    with Cons [of "insert_by_time m kc"] show ?case by auto
  qed simp
  from this [of "[]" "children n"] show ?thesis by (simp add: children_by_time_def)
qed

lemma node_count_child:
  assumes "(k, c) \<in> set (children n)"
  shows "node_count c < node_count n"
proof -
  have "node_count c \<le> (\<Sum>(k, c) \<leftarrow> children n. node_count c)"
    using assms by (intro member_le_sum_list) (force, simp)
  then show ?thesis by (simp add: node_count_children [of n])
qed

lemma node_count_by_time: "(k, c) \<in> set (children_by_time n) \<Longrightarrow> node_count c < node_count n"
  using children_by_time_subset node_count_child by blast

lemma in_enumerate: "(j, x) \<in> set (enumerate m xs) \<Longrightarrow> x \<in> set xs"
  by (auto simp: in_set_enumerate_eq)

section \<open>The text report\<close>

definition default_threshold :: double where "default_threshold = d_of_rat (1 / 10)"
definition percent_of :: "double \<Rightarrow> double \<Rightarrow> double" where
  "percent_of a b = dmul (ddiv a b) (d_of_nat 100)"

definition below_threshold :: "nat \<Rightarrow> double \<Rightarrow> double \<Rightarrow> node_info \<Rightarrow> bool" where
  "below_threshold comm_size output_threshold tree_time i =
     dlt (percent_of (dmul (max_runtime i) (d_of_nat comm_size)) tree_time) output_threshold"

definition imbalance :: "node_info \<Rightarrow> double" where
  "imbalance i = dmul (dsub (ddiv (max_runtime i) (avg_runtime i)) (d_of_nat 1)) (d_of_nat 100)"

text \<open>What a region's children leave of its time, and kernels per second.\<close>

definition remainder :: "StackNode \<Rightarrow> double" where
  "remainder n = (let child_runtime = foldl (\<lambda>t (k, c). dadd t (total_runtime (node_info c))) d_zero (children n)
     in dmul (dsub (d_of_nat 1) (ddiv child_runtime (total_runtime (node_info n)))) (d_of_nat 100))"

definition kernels_per_second :: "node_info \<Rightarrow> double" where
  "kernels_per_second i = ddiv (d_of_int (sint (total_number_of_kernel_calls i))) (avg_runtime i)"

fun kind_label :: "StackKind \<Rightarrow> string" where
  "kind_label STACK_FOR = '' [for]''" | "kind_label STACK_REDUCE = '' [reduce]''"
| "kind_label STACK_SCAN = '' [scan]''" | "kind_label STACK_REGION = '' [region]''"
| "kind_label STACK_COPY = '' [copy]''"

definition node_line :: "node_key \<Rightarrow> string \<Rightarrow> double \<Rightarrow> StackNode \<Rightarrow> token list" where
  "node_line key my_indent tree_time n = (let i = node_info n in
     [Txt my_indent, Num ''%.2e'' (avg_runtime i), Txt '' sec '',
      Num ''%.1f'' (percent_of (total_runtime i) tree_time), Txt ''% '',
      Num ''%.1f'' (percent_of (total_kokkos_runtime i) (total_runtime i)), Txt ''% '',
      Num ''%.1f'' (imbalance i), Txt ''% '']
     @ (if fst key = STACK_REGION
        then [Num ''%.1f'' (remainder n), Txt ''% '', Num ''%.2e'' (kernels_per_second i), Txt '' '']
        else [Txt ''------ ''])
     @ [Txt (dec_int (sint (number_of_calls i)) @ '' '' @ snd key @ kind_label (fst key) @ eol)])"

text \<open>A node below the threshold is left out with everything under it; a node without a name (the
  root) has no line of its own.\<close>

function print_recursive :: "nat \<Rightarrow> double \<Rightarrow> node_key \<Rightarrow> string \<Rightarrow> string \<Rightarrow> double \<Rightarrow> StackNode \<Rightarrow> token list" where
  "print_recursive comm_size output_threshold key my_indent child_indent tree_time n =
     (if below_threshold comm_size output_threshold tree_time (node_info n) then []
      else (if snd key \<noteq> [] then node_line key my_indent tree_time n else [])
        @ (let sorted_children = children_by_time n in
           concat (map (\<lambda>(j, (k, c)).
             print_recursive comm_size output_threshold k (child_indent @ ''|-> '')
               (child_indent @ (if Suc j = length sorted_children then ''    '' else ''|   '')) tree_time c)
             (enumerate 0 sorted_children))))"
  by pat_completeness auto
termination
  by (relation "measure (\<lambda>(m, th, key, i, ci, t, n). node_count n)")
    (auto dest!: in_enumerate intro: node_count_by_time)

declare print_recursive.simps [simp del]

definition print_tree :: "nat \<Rightarrow> double \<Rightarrow> StackNode \<Rightarrow> token list" where
  "print_tree comm_size output_threshold n =
     print_recursive comm_size output_threshold root_key [] [] (total_runtime (node_info n)) n @ [Txt eol]"

section \<open>The JSON report\<close>

text \<open>\<open>regex_replace\<close> of quotation marks; a backslash stays as it is.\<close>

definition escape_quotes :: "string \<Rightarrow> string" where
  "escape_quotes s = concat (map (\<lambda>c. if c = CHR 0x22 then [CHR 0x5C, CHR 0x22] else [c]) s)"

definition json_field :: "string \<Rightarrow> string" where
  "json_field k = quot @ k @ quot @ '' : ''"

fun kind_json :: "StackKind \<Rightarrow> string" where
  "kind_json STACK_FOR = quot @ ''for'' @ quot" | "kind_json STACK_REDUCE = quot @ ''reduce'' @ quot"
| "kind_json STACK_SCAN = quot @ ''scan'' @ quot" | "kind_json STACK_REGION = quot @ ''region'' @ quot"
| "kind_json STACK_COPY = quot @ ''copy'' @ quot"

text \<open>The object of one node; nodes are identified by their addresses.\<close>

definition node_object :: "u64 \<Rightarrow> u64 \<Rightarrow> node_key \<Rightarrow> double \<Rightarrow> StackNode \<Rightarrow> token list" where
  "node_object parent this key tree_time n = (let i = node_info n in
     [Txt (''{'' @ eol @ json_field ''average-time''), Num ''%.2e'' (avg_runtime i), Txt ('','' @ eol),
      Txt (json_field ''percent''), Num ''%.1f'' (percent_of (total_runtime i) tree_time), Txt ('','' @ eol),
      Txt (json_field ''percent-kokkos''),
      Num ''%.1f'' (percent_of (total_kokkos_runtime i) (total_runtime i)), Txt ('','' @ eol),
      Txt (json_field ''imbalance''), Num ''%.1f'' (imbalance i), Txt ('','' @ eol)]
     @ (if fst key = STACK_REGION
        then [Txt (json_field ''remainder''), Num ''%.1f'' (remainder n), Txt ('','' @ eol),
              Txt (json_field ''kernels-per-second''), Num ''%.2e'' (kernels_per_second i), Txt ('','' @ eol)]
        else [Txt (json_field ''remainder'' @ quot @ ''N/A'' @ quot @ '','' @ eol),
              Txt (json_field ''kernels-per-second'' @ quot @ ''N/A'' @ quot @ '','' @ eol)])
     @ [Txt (json_field ''number-of-calls'' @ dec_int (sint (number_of_calls i)) @ '','' @ eol),
        Txt (json_field ''name'' @ quot @ escape_quotes (snd key) @ quot @ '','' @ eol),
        Txt (json_field ''parent-id'' @ quot), Ptr parent, Txt (quot @ '','' @ eol),
        Txt (json_field ''id'' @ quot), Ptr this, Txt (quot @ '','' @ eol),
        Txt (json_field ''kernel-type'' @ kind_json (fst key)), Txt (eol @ ''}'')])"

text \<open>The objects in the order they are written; the separators depend on the static \<open>add_comma\<close>.\<close>

function json_objects ::
  "nat \<Rightarrow> double \<Rightarrow> (path \<Rightarrow> u64) \<Rightarrow> u64 \<Rightarrow> path \<Rightarrow> node_key \<Rightarrow> double \<Rightarrow> StackNode \<Rightarrow> token list list" where
  "json_objects comm_size output_threshold addr parent p key tree_time n =
     (if below_threshold comm_size output_threshold tree_time (node_info n) then []
      else (if snd key \<noteq> [] then [node_object parent (addr p) key tree_time n] else [])
        @ concat (map (\<lambda>(k, c). json_objects comm_size output_threshold addr (addr p) (p @ [k]) k tree_time c)
            (children_by_time n)))"
  by pat_completeness auto
termination
  by (relation "measure (\<lambda>(m, th, addr, q, p, key, t, n). node_count n)") (auto intro: node_count_by_time)

declare json_objects.simps [simp del]

fun comma_separated :: "bool \<Rightarrow> token list list \<Rightarrow> token list" where
  "comma_separated add_comma [] = []"
| "comma_separated add_comma (x # xs) =
     (if add_comma then [Txt ('','' @ eol)] else []) @ x @ comma_separated True xs"

definition print_json :: "nat \<Rightarrow> double \<Rightarrow> (path \<Rightarrow> u64) \<Rightarrow> bool \<Rightarrow> StackNode \<Rightarrow> token list" where
  "print_json comm_size output_threshold addr add_comma n =
     [Txt (''{'' @ eol), Txt (quot @ ''space-time-stack-data'' @ quot @ '' : ['' @ eol)]
     @ comma_separated add_comma
         (json_objects comm_size output_threshold addr 0 [] root_key (total_runtime (node_info n)) n)
     @ [Txt eol, Txt ('']'' @ eol @ ''}'' @ eol)]"

section \<open>Allocations at the high-water mark\<close>

definition alloc_percent :: "u64 \<Rightarrow> u64 \<Rightarrow> double" where
  "alloc_percent sz all_bytes = percent_of (d_of_nat (unat sz)) (d_of_nat (unat all_bytes))"

fun alloc_lines :: "u64 \<Rightarrow> (alloc_key \<times> (string \<times> path option)) list \<Rightarrow> token list outcome" where
  "alloc_lines all_bytes [] = Inr []"
| "alloc_lines all_bytes (((sz, ptr), (name, frame)) # as) =
     (if dlt (alloc_percent sz all_bytes) default_threshold then alloc_lines all_bytes as
      else (case frame of None \<Rightarrow> Inl null_frame
        | Some p \<Rightarrow>
            (case alloc_lines all_bytes as of Inl x \<Rightarrow> Inl x
             | Inr ls \<Rightarrow> Inr ([Txt ''  '', Num ''%.1f'' (alloc_percent sz all_bytes),
                 Txt (''% '' @ (if full_name p = [] then name else full_name p @ ''/'' @ name) @ eol)] @ ls))))"

definition print_allocations :: "Allocations \<Rightarrow> token list outcome" where
  "print_allocations a =
     (case alloc_lines (total_size a) (alloc_set a) of Inl x \<Rightarrow> Inl x
      | Inr ls \<Rightarrow> Inr ([Txt ''MAX MEMORY ALLOCATED: '',
          Num ''%.1f'' (ddiv (d_of_nat (unat (total_size a))) (d_of_nat 1024)), Txt ('' kB'' @ eol),
          Txt (''ALLOCATIONS AT TIME OF HIGH WATER MARK:'' @ eol)] @ ls @ [Txt eol]))"

definition print_process_hwm :: "int \<Rightarrow> token list" where
  "print_process_hwm maxrss = [Txt (''Host process high water mark memory consumption: '' @ dec_int maxrss
     @ '' kB'' @ eol), Txt eol]"

section \<open>Finalisation\<close>

text \<open>The spaces in the order of the enumeration.\<close>

definition all_spaces :: "Space list" where
  "all_spaces = [SPACE_HOST, SPACE_CUDA, SPACE_HIP, SPACE_SYCL, SPACE_OMPT]"

fun print_spaces :: "(Space \<Rightarrow> Allocations) \<Rightarrow> Space list \<Rightarrow> token list outcome" where
  "print_spaces hwm [] = Inr []"
| "print_spaces hwm (sp # sps) =
     (case print_allocations (hwm sp) of Inl x \<Rightarrow> Inl x
      | Inr ts \<Rightarrow> (case print_spaces hwm sps of Inl x \<Rightarrow> Inl x
          | Inr us \<Rightarrow> Inr ([Txt (''KOKKOS '' @ get_space_name sp @ '' SPACE:'' @ eol),
              Txt (''==================='' @ eol)] @ ts @ us)))"

record report_options =
  ro_threshold :: double
  ro_json :: bool
  ro_add_comma :: bool
  ro_addr :: "path \<Rightarrow> u64"
  ro_maxrss :: int

datatype report = Stdout "token list" | Noname_json "token list"

definition tree_header :: string where
  "tree_header = ''<average time> <percent of total time> <percent time in ''"

text \<open>\<open>~State\<close>.\<close>

definition delete_State :: "report_options \<Rightarrow> int \<Rightarrow> State \<Rightarrow> report outcome" where
  "delete_State opt end_time s =
     (case stack_frame s of
        None \<Rightarrow> Inl null_frame
      | Some p \<Rightarrow>
          if p \<noteq> [] then Inl Abort
          else (case adopt STACK_REGION (map_info (node_end end_time) (stack_root s)) of
              Inl x \<Rightarrow> Inl x
            | Inr adopted_root \<Rightarrow>
                (let top_down = reduce_over_mpi adopted_root in
                 if ro_json opt
                 then Inr (Noname_json (print_json 1 (ro_threshold opt) (ro_addr opt) (ro_add_comma opt) top_down))
                 else (let inv_stack_root = reduce_over_mpi (invert top_down) in
                   case print_spaces (hwm_allocations s) all_spaces of
                     Inl x \<Rightarrow> Inl x
                   | Inr spaces \<Rightarrow> Inr (Stdout (
                       [Txt (eol @ ''BEGIN KOKKOS PROFILING REPORT:'' @ eol), Txt ''TOTAL TIME: '',
                        Num ''<<'' (max_runtime (node_info top_down)), Txt ('' seconds'' @ eol),
                        Txt (''TOP-DOWN TIME TREE:'' @ eol),
                        Txt (tree_header @ ''Kokkos> <percent MPI imbalance> <remainder> <kernels per ''
                          @ ''second> <number of calls> <name> [type]'' @ eol),
                        Txt (''==================='' @ eol)]
                       @ print_tree 1 (ro_threshold opt) top_down
                       @ [Txt (''BOTTOM-UP TIME TREE:'' @ eol),
                          Txt (tree_header @ ''Kokkos> <percent MPI imbalance> <number of calls> <name> [type]'' @ eol),
                          Txt (''==================='' @ eol)]
                       @ print_tree 1 (ro_threshold opt) inv_stack_root
                       @ spaces @ print_process_hwm (ro_maxrss opt)
                       @ [Txt (''END KOKKOS PROFILING REPORT.'' @ eol)]))))))"

section \<open>Command line\<close>

text \<open>The help text, and the arguments: \<open>strtod\<close> is the parameter.\<close>

definition print_help :: "string \<Rightarrow> token list" where
  "print_help exe = [Txt (''usage: '' @ exe @ ''[--kokkos-tools-args=<threshold>]'' @ eol @ eol
     @ ''Default value: 0.1'' @ eol @ eol @ ''Description:'' @ eol
     @ ''  Provide a decimal threshold value of percent of parent time for output.'' @ eol
     @ ''  Timers below this threshold will not be output.  Set to 0 to get unfiltered'' @ eol
     @ ''  reports.'' @ eol @ eol @ ''Example:'' @ eol
     @ ''  The following example would set the threshold to 10%'' @ eol
     @ ''    <exe> [--kokkos-tools-args=10 ]'' @ eol)]"

definition parse_args :: "(string \<Rightarrow> double) \<Rightarrow> string list \<Rightarrow> double \<Rightarrow> double outcome" where
  "parse_args strtod argv output_threshold =
     (if length argv = 1 then Inr output_threshold
      else if length argv = 2 then Inr (strtod (argv ! 1))
      else Inl (Exit 1))"

section \<open>Finalisation succeeds\<close>

lemma kernel_calls_end_root:
  "kernel_calls (map_info (node_end t) n) = kernel_calls n"
  using kernel_calls_map_info [of "node_end t" n 0] by (simp add: node_end_def)

lemma adopt_ended_root:
  assumes "infos_ok (timed end_time) t"
  shows "\<exists>r. adopt STACK_REGION (map_info (node_end end_time) t) = Inr r
    \<and> adopted STACK_REGION (map_info (node_end end_time) t) r"
proof -
  have "infos_ok (timed end_time) (map_info (node_end end_time) t)"
    using infos_ok_iff [of "timed end_time" t] timed_end [of end_time] assms
    by (intro infos_ok_map_info) auto
  then have "\<forall>i \<in> set (tree_infos (map_info (node_end end_time) t)). times_ok i"
    by (auto simp: infos_ok_def timed_def)
  from adopt_result(1) [OF this, of STACK_REGION] show ?thesis .
qed

text \<open>
  C5. The tree is ready to be reported after every complete run: when the clock does not go back and
  all frames are closed, ending the root and adopting the totals passes every assertion, the root's
  kernel count is the number of kernels and deep copies that began, and every node's time in Kokkos
  covers its own, if it is a kernel, and each child's.
\<close>

theorem complete_run_adopts:
  assumes "run_events (sts_next cxa) (new_State t0) es = Inr s" and "0 \<le> t0" and "clock_runs t0 es"
    and "last_reading t0 es \<le> end_time"
  shows "\<exists>r. adopt STACK_REGION (map_info (node_end end_time) (stack_root s)) = Inr r
    \<and> total_number_of_kernel_calls (node_info r) = of_nat (length (filter begins_kernel es))
    \<and> covers STACK_REGION r"
proof -
  have "infos_ok (timed (last_reading t0 es)) (stack_root s)"
    by (rule run_timed [OF sts_inv_new new_State_timed [OF assms(2)] assms(2,3,1)])
  then have "infos_ok (timed end_time) (stack_root s)"
    using infos_ok_mono [of _ _ "timed end_time"] timed_mono assms(4) by blast
  from adopt_ended_root [OF this] obtain r where
    "adopt STACK_REGION (map_info (node_end end_time) (stack_root s)) = Inr r"
    "adopted STACK_REGION (map_info (node_end end_time) (stack_root s)) r" by blast
  moreover have "kernel_calls (stack_root (new_State t0)) = 0"
    using kernel_calls_map_info [of "node_begin STACK_REGION t0" new_node 0]
    by (simp add: new_State_def node_begin_def is_kernel_kind_def)
  ultimately show ?thesis
    using run_kernel_calls [OF sts_inv_new assms(1)] by (simp add: adopted_def kernel_calls_end_root)
qed

theorem complete_run_adopts_witness:
  "\<exists>s r. run_events (sts_next (\<lambda>_. None)) (new_State 1) [PushRegion ''main'' 5, BeginFor ''axpy'' 6,
      EndKernel (Some [(STACK_REGION, ''main''), (STACK_FOR, ''axpy'')]) 9, PopRegion 10] = Inr s
    \<and> adopt STACK_REGION (map_info (node_end 12) (stack_root s)) = Inr r
    \<and> total_number_of_kernel_calls (node_info r) = 1"
proof -
  let ?es = "[PushRegion ''main'' 5, BeginFor ''axpy'' 6,
      EndKernel (Some [(STACK_REGION, ''main''), (STACK_FOR, ''axpy'')]) 9, PopRegion 10]"
  have "returns (run_events (sts_next (\<lambda>_. None)) (new_State 1) ?es)"
    by (simp add: sts_run_defs demangleNameKokkos_identity)
  then obtain s where s: "run_events (sts_next (\<lambda>_. None)) (new_State 1) ?es = Inr s" by (auto simp: returns_iff)
  from complete_run_adopts [OF s, of 12] s show ?thesis by (simp add: last_reading_def) blast
qed

section \<open>What the report leaves out\<close>

lemma deq_iff: "\<not> d_nan a \<Longrightarrow> \<not> d_nan b \<Longrightarrow> deq a b \<longleftrightarrow> s_units a = s_units b"
  by (simp add: deq_def)

lemma by_time_iff:
  "\<not> d_nan (fst a) \<Longrightarrow> \<not> d_nan (fst b) \<Longrightarrow> by_time a b \<longleftrightarrow>
     s_units (fst b) < s_units (fst a) \<or> s_units (fst a) = s_units (fst b) \<and> str_less (snd a) (snd b)"
  by (auto simp: by_time_def deq_def dlt_def)

definition time_key :: "node_key \<times> StackNode \<Rightarrow> double \<times> string" where
  "time_key kc = (total_runtime (node_info (snd kc)), snd (fst kc))"

definition by_time_inv :: "((double \<times> string) \<times> node_key \<times> StackNode) list \<Rightarrow> bool" where
  "by_time_inv m \<longleftrightarrow> sorted_wrt by_time (map fst m) \<and> (\<forall>(t, kc) \<in> set m. t = time_key kc \<and> \<not> d_nan (fst t))"

lemma om_insert_separate:
  assumes "\<forall>k' \<in> fst ` set m. by_time k' k \<or> by_time k k'"
  shows "mset (om_insert by_time k v m) = add_mset (k, v) (mset m)"
  using assms by (induction m) auto

lemma om_insert_keys: "fst ` set (om_insert lt k v m) \<subseteq> insert k (fst ` set m)"
  by (induction lt k v m rule: om_insert.induct) auto

lemma om_insert_sorted:
  assumes "sorted_wrt by_time (map fst m)" and "\<forall>k' \<in> insert k (fst ` set m). \<not> d_nan (fst k')"
  shows "sorted_wrt by_time (map fst (om_insert by_time k v m))"
  using assms
proof (induction m)
  case (Cons e m)
  obtain k' w where e: "e = (k', w)" by (rule prod.exhaust)
  have sub: "fst ` set (om_insert by_time k v m) \<subseteq> insert k (fst ` set m)"
    by (rule om_insert_keys)
  have "\<not> d_nan (fst k)" "\<not> d_nan (fst k')" "\<forall>j \<in> fst ` set m. \<not> d_nan (fst j)" using Cons.prems(2) e by auto
  note nan = this
  have tr: "by_time k j" if "by_time k k'" "j \<in> fst ` set m" "by_time k' j" for j
  proof -
    have "\<not> d_nan (fst j)" using nan(3) that(2) by blast
    with nan(1,2) that(1,3) show ?thesis by (auto simp: by_time_iff intro: str_less_trans)
  qed
  show ?case
  proof (cases "by_time k' k")
    case True
    have "sorted_wrt by_time (map fst (om_insert by_time k v m))" using Cons e by auto
    moreover have "\<forall>j \<in> fst ` set (om_insert by_time k v m). by_time k' j"
    proof
      fix j assume "j \<in> fst ` set (om_insert by_time k v m)"
      then have "j = k \<or> j \<in> fst ` set m" using subsetD [OF sub] by (metis insertE)
      then show "by_time k' j" using True Cons.prems(1) e by auto
    qed
    ultimately show ?thesis using True e by auto
  next
    case False
    then show ?thesis using Cons.prems(1) e tr by auto
  qed
qed simp

lemma insert_by_time_separate:
  assumes "by_time_inv m" and "\<not> d_nan (fst (time_key kc))"
    and "\<forall>kd \<in> snd ` set m. \<not> (deq (fst (time_key kc)) (fst (time_key kd)) \<and> snd (time_key kc) = snd (time_key kd))"
  shows "by_time_inv (insert_by_time m kc)" and "mset (map snd (insert_by_time m kc)) = add_mset kc (mset (map snd m))"
proof -
  have m: "(t, kd) \<in> set m \<Longrightarrow> t = time_key kd \<and> \<not> d_nan (fst t)" for t kd
    using assms(1) by (auto simp: by_time_inv_def)
  have k: "insert_by_time m kc = om_insert by_time (time_key kc) kc m"
    by (simp add: insert_by_time_def time_key_def)
  have "by_time k' (time_key kc) \<or> by_time (time_key kc) k'" if "k' \<in> fst ` set m" for k'
  proof -
    from that obtain kd where kd: "(k', kd) \<in> set m" by auto
    with m [OF kd] assms(3) have "\<not> (deq (fst (time_key kc)) (fst k') \<and> snd (time_key kc) = snd k')" by force
    then show ?thesis using m [OF kd] assms(2) str_less_total [of "snd k'" "snd (time_key kc)"]
      by (auto simp: by_time_iff deq_iff)
  qed
  then have ms: "mset (om_insert by_time (time_key kc) kc m) = add_mset (time_key kc, kc) (mset m)"
    by (intro om_insert_separate) blast
  then show "mset (map snd (insert_by_time m kc)) = add_mset kc (mset (map snd m))" by (simp add: k)
  have "set (om_insert by_time (time_key kc) kc m) = insert (time_key kc, kc) (set m)"
    using ms by (metis set_mset_add_mset_insert set_mset_mset)
  moreover have "sorted_wrt by_time (map fst (om_insert by_time (time_key kc) kc m))"
    using assms(1,2) m by (intro om_insert_sorted) (auto simp: by_time_inv_def)
  ultimately show "by_time_inv (insert_by_time m kc)"
    using m assms(2) by (auto simp: by_time_inv_def k)
qed

text \<open>No time is NaN, and no two children have the same time and the same name.\<close>

definition separable :: "(node_key \<times> StackNode) list \<Rightarrow> bool" where
  "separable cs \<longleftrightarrow> (\<forall>kc \<in> set cs. \<not> d_nan (fst (time_key kc)))
     \<and> sorted_wrt (\<lambda>kc kd. \<not> (deq (fst (time_key kd)) (fst (time_key kc)) \<and> snd (time_key kd) = snd (time_key kc))) cs"

lemma fold_by_time:
  assumes "by_time_inv m" and "separable cs"
    and "\<forall>kc \<in> set cs. \<forall>kd \<in> snd ` set m.
      \<not> (deq (fst (time_key kc)) (fst (time_key kd)) \<and> snd (time_key kc) = snd (time_key kd))"
  shows "by_time_inv (foldl insert_by_time m cs) \<and> mset (map snd (foldl insert_by_time m cs)) = mset (map snd m @ cs)"
  using assms
proof (induction cs arbitrary: m)
  case (Cons kc cs)
  have "\<not> d_nan (fst (time_key kc))" using Cons.prems(2) by (simp add: separable_def)
  note ins = insert_by_time_separate [OF Cons.prems(1) this]
  have i: "by_time_inv (insert_by_time m kc)"
    and ms: "mset (map snd (insert_by_time m kc)) = add_mset kc (mset (map snd m))"
    using ins Cons.prems(3) by simp_all
  have "set (map snd (insert_by_time m kc)) = insert kc (set (map snd m))"
    using ms by (metis set_mset_add_mset_insert set_mset_mset)
  then have "\<forall>kd \<in> set cs. \<forall>ke \<in> snd ` set (insert_by_time m kc).
      \<not> (deq (fst (time_key kd)) (fst (time_key ke)) \<and> snd (time_key kd) = snd (time_key ke))"
    using Cons.prems(2,3) by (auto simp: separable_def)
  moreover have "separable cs" using Cons.prems(2) by (simp add: separable_def)
  ultimately show ?case using Cons.IH [OF i] ms by simp
qed simp

lemma by_time_inv_descending:
  assumes "by_time_inv m"
  shows "sorted_wrt (\<lambda>kc kd. dle (fst (time_key kd)) (fst (time_key kc))) (map snd m)"
proof -
  have m: "(t, kc) \<in> set m \<Longrightarrow> t = time_key kc \<and> \<not> d_nan (fst t)" for t kc
    using assms by (auto simp: by_time_inv_def)
  have "sorted_wrt (\<lambda>x y. by_time (fst x) (fst y)) m"
    using assms by (simp add: by_time_inv_def sorted_wrt_map)
  then have "sorted_wrt (\<lambda>x y. dle (fst (time_key (snd y))) (fst (time_key (snd x)))) m"
  proof (rule sorted_wrt_mono_rel [rotated])
    fix x y assume "x \<in> set m" "y \<in> set m" "by_time (fst x) (fst y)"
    with m [of "fst x" "snd x"] m [of "fst y" "snd y"]
    show "dle (fst (time_key (snd y))) (fst (time_key (snd x)))"
      by (auto simp: by_time_iff dle_def)
  qed
  then show ?thesis by (simp add: sorted_wrt_map)
qed

text \<open>
  Both reports visit each child of a node exactly once, longest first, when no two of them
  have the same time and the same name.
\<close>

theorem children_by_time_complete:
  assumes "separable (children n)"
  shows "mset (children_by_time n) = mset (children n)
    \<and> sorted_wrt (\<lambda>kc kd. dle (fst (time_key kd)) (fst (time_key kc))) (children_by_time n)"
proof -
  have "by_time_inv []" by (simp add: by_time_inv_def)
  from fold_by_time [OF this assms] have "by_time_inv (foldl insert_by_time [] (children n))"
    "mset (map snd (foldl insert_by_time [] (children n))) = mset (children n)" by simp_all
  with by_time_inv_descending show ?thesis by (simp add: children_by_time_def)
qed

definition example_children :: "(node_key \<times> StackNode) list" where
  "example_children = [((STACK_FOR, ''axpy''), StackNode (new_info\<lparr>total_runtime := d_of_nat 2\<rparr>) []),
     ((STACK_SCAN, ''axpy''), StackNode (new_info\<lparr>total_runtime := d_of_nat 3\<rparr>) [])]"

theorem children_by_time_complete_witness:
  "mset (children_by_time (StackNode new_info example_children)) = mset example_children"
proof -
  have "\<not> deq (d_of_nat 3) (d_of_nat 2)" by (simp add: deq_iff s_units_d_of_nat scale_def)
  then have "separable (children (StackNode new_info example_children))"
    by (simp add: example_children_def separable_def time_key_def)
  from children_by_time_complete [OF this] show ?thesis by simp
qed

text \<open>
  Otherwise children are lost: \<open>by_time\<close> compares time and name and not the kind, so of two
  children with equal times and names (a kernel and a region of one label, with equal times, or any two
  with no time of their own) the set keeps one, and the other does not appear in the report, whatever
  the threshold, with all that is below it.
\<close>

theorem equal_time_child_dropped:
  assumes "children n = [((k, name), c), ((l, name), d)]"
    and "deq (total_runtime (node_info d)) (total_runtime (node_info c))"
  shows "children_by_time n = [((k, name), c)]"
proof -
  have "deq (total_runtime (node_info c)) (total_runtime (node_info d))"
    using assms(2) by (simp add: deq_def)
  then show ?thesis using assms
    by (simp add: children_by_time_def insert_by_time_def by_time_def str_less_irrefl)
qed

theorem equal_time_child_dropped_witness:
  "children_by_time (StackNode new_info [((STACK_FOR, ''axpy''), new_node), ((STACK_REGION, ''axpy''), new_node)])
     = [((STACK_FOR, ''axpy''), new_node)]"
proof -
  have "deq (total_runtime (node_info new_node)) (total_runtime (node_info new_node))"
    by (simp add: new_node_def new_info_def deq_def)
  from equal_time_child_dropped [OF _ this, of "StackNode new_info [((STACK_FOR, ''axpy''), new_node), ((STACK_REGION, ''axpy''), new_node)]"]
  show ?thesis by simp
qed

end
