(* ===== verification/Stack_Seconds.thy ===== *)
theory Stack_Seconds
  imports Stack_Report
begin

text \<open>
  The times in the inverted tree (\<open>StackNode::invert\<close> in
  \<open>profiling/space-time-stack/kp_space_time_stack.cpp\<close>) for a call tree whose times are whole numbers
  of seconds, on which additions and subtractions of \<open>double\<close>s below \<open>2 ^ 53\<close> are exact: a node of the
  inverted tree has the sum of the nodes' own times, their times less those of their children, over all
  nodes whose way up to the root starts with its path.
\<close>

section \<open>Whole numbers\<close>

lemma dadd_d_of_nat:
  assumes "m < 2 ^ 53" and "n < 2 ^ 53"
  shows "dadd (d_of_nat m) (d_of_nat n) = d_of_nat (m + n)"
proof -
  have "dadd (d_of_nat m) (d_of_nat n) = of_units False (s_units (d_of_nat m) + s_units (d_of_nat n))"
    using assms by (simp add: dadd_def d_of_nat_finite)
  also have "\<dots> = d_of_nat (m + n)"
    unfolding s_units_d_of_nat [OF assms(1)] s_units_d_of_nat [OF assms(2)]
    by (simp add: d_of_nat_def distrib_right)
  finally show ?thesis .
qed

lemma dsub_d_of_nat:
  assumes "m < 2 ^ 53" and "n \<le> m"
  shows "dsub (d_of_nat m) (d_of_nat n) = d_of_nat (m - n)"
proof -
  have n: "n < 2 ^ 53" using assms by simp
  have "dsub (d_of_nat m) (d_of_nat n) = of_units False (s_units (d_of_nat m) - s_units (d_of_nat n))"
    using assms n by (simp add: dsub_def dadd_def d_of_nat_finite)
  also have "\<dots> = d_of_nat (m - n)"
    unfolding s_units_d_of_nat [OF assms(1)] s_units_d_of_nat [OF n]
    using assms(2) by (simp add: d_of_nat_def left_diff_distrib of_nat_diff)
  finally show ?thesis .
qed

lemma d_zero_d_of_nat: "d_zero = d_of_nat 0"
  by (simp add: d_zero_def d_of_nat_def of_units_def)

lemma std_max_d_of_nat: "n < 2 ^ 53 \<Longrightarrow> std_max (d_of_nat n) d_zero = d_of_nat n"
  by (simp add: std_max_def dlt_d_of_nat d_zero_d_of_nat)

lemma d_of_nat_inject:
  assumes "m < 2 ^ 53" and "n < 2 ^ 53" and "d_of_nat m = d_of_nat n"
  shows "m = n"
proof -
  have "of_nat m * scale = of_nat n * scale"
    using s_units_d_of_nat [OF assms(1)] s_units_d_of_nat [OF assms(2)] assms(3) by metis
  moreover have "scale \<noteq> 0" by (simp add: scale_def)
  ultimately show ?thesis by (simp only: mult_cancel_right of_nat_eq_iff) simp
qed

lemma foldl_dsub_d_of_nat:
  assumes "n < 2 ^ 53" and "(\<Sum>x \<leftarrow> xs. g x) \<le> n"
  shows "foldl (\<lambda>t x. dsub t (d_of_nat (g x))) (d_of_nat n) xs = d_of_nat (n - (\<Sum>x \<leftarrow> xs. g x))"
  using assms
proof (induction xs arbitrary: n)
  case (Cons x xs)
  then have "dsub (d_of_nat n) (d_of_nat (g x)) = d_of_nat (n - g x)" by (intro dsub_d_of_nat) simp_all
  moreover have "n - g x < 2 ^ 53" and "(\<Sum>x \<leftarrow> xs. g x) \<le> n - g x" using Cons.prems by simp_all
  ultimately show ?case using Cons.IH by simp
qed simp

lemma sum_list_map_concat:
  fixes g :: "'a \<Rightarrow> nat"
  shows "sum_list (map g (concat (map h xs))) = (\<Sum>x \<leftarrow> xs. sum_list (map g (h x)))"
  by (induction xs) simp_all

section \<open>The paths of a tree\<close>

definition tree_paths :: "StackNode \<Rightarrow> path set" where
  "tree_paths t = {p. node_at p t \<noteq> None}"

lemma Nil_tree_paths [simp]: "[] \<in> tree_paths t"
  by (simp add: tree_paths_def)

lemma get_child_children: "tree_ok t \<Longrightarrow> get_child k t = Some c \<longleftrightarrow> (k, c) \<in> set (children t)"
  by (simp add: get_child_map_of map_of_eq_Some_iff [OF node_order.om_sorted_distinct [OF tree_ok_sorted]])

lemma tree_paths_unfold:
  assumes "tree_ok t"
  shows "tree_paths t = insert [] (\<Union>(k, c) \<in> set (children t). (#) k ` tree_paths c)"
proof (intro equalityI subsetI)
  fix p assume "p \<in> tree_paths t"
  then show "p \<in> insert [] (\<Union>(k, c) \<in> set (children t). (#) k ` tree_paths c)"
    using get_child_children [OF assms]
    by (cases p) (fastforce simp: tree_paths_def split: option.splits)+
next
  fix p assume "p \<in> insert [] (\<Union>(k, c) \<in> set (children t). (#) k ` tree_paths c)"
  then show "p \<in> tree_paths t"
    by (auto simp: tree_paths_def dest!: iffD2 [OF get_child_children [OF assms]])
qed

lemma finite_tree_paths: "tree_ok t \<Longrightarrow> finite (tree_paths t)"
proof (induction "node_count t" arbitrary: t rule: less_induct)
  case less
  have "finite ((#) k ` tree_paths c)" if "(k, c) \<in> set (children t)" for k c
    using less(1) [OF node_count_child [OF that]] tree_ok_child [OF less(2)] get_child_children [OF less(2)] that by blast
  then show ?case unfolding tree_paths_unfold [OF less(2)] by auto
qed

lemma tree_paths_prefix: "p @ q \<in> tree_paths t \<Longrightarrow> p \<in> tree_paths t"
  unfolding tree_paths_def using node_at_prefix by blast

text \<open>The list of nodes has one entry for each path, with the keys of the path reversed.\<close>

lemma set_nodes:
  "tree_ok t \<Longrightarrow> (chain, m) \<in> set (nodes ch t) \<Longrightarrow> \<exists>p. node_at p t = Some m \<and> chain = rev p @ ch"
proof (induction "node_count t" arbitrary: t ch rule: less_induct)
  case less
  from less(3) consider "chain = ch" "m = t" | k c where "(k, c) \<in> set (children t)" "(chain, m) \<in> set (nodes (k # ch) c)"
    by (auto simp: nodes_unfold [of ch t])
  then show ?case
  proof cases
    case 1
    then show ?thesis by (intro exI [of _ "[]"]) simp
  next
    case 2
    then have c: "get_child k t = Some c" using get_child_children [OF less(2)] by simp
    from less(1) [OF node_count_child [OF 2(1)] tree_ok_child [OF less(2) c] 2(2)]
    obtain p where "node_at p c = Some m" "chain = rev p @ k # ch" by blast
    with c show ?thesis by (intro exI [of _ "k # p"]) simp
  qed
qed

lemma nodes_set: "tree_ok t \<Longrightarrow> node_at p t = Some m \<Longrightarrow> (rev p @ ch, m) \<in> set (nodes ch t)"
proof (induction p arbitrary: t ch)
  case Nil
  then show ?case by (simp add: nodes_unfold [of ch m])
next
  case (Cons k p)
  then obtain c where c: "get_child k t = Some c" "node_at p c = Some m" by (auto split: option.splits)
  from Cons.IH [OF tree_ok_child [OF Cons.prems(1) c(1)] c(2), of "k # ch"]
  have "(rev (k # p) @ ch, m) \<in> set (nodes (k # ch) c)" by simp
  moreover have "(k, c) \<in> set (children t)" using get_child_children [OF Cons.prems(1)] c(1) by blast
  ultimately show ?case unfolding nodes_unfold [of ch t] by (simp only: set_simps set_concat set_map) blast
qed

lemma sum_nodes:
  fixes g :: "path \<Rightarrow> nat"
  shows "tree_ok t \<Longrightarrow> (\<Sum>(chain, m) \<leftarrow> nodes ch t. g chain) = (\<Sum>p \<in> tree_paths t. g (rev p @ ch))"
proof (induction "node_count t" arbitrary: t ch rule: less_induct)
  case less
  note ok = less(2)
  have dist: "distinct (map fst (children t))" using node_order.om_sorted_distinct [OF tree_ok_sorted [OF ok]] .
  have "(\<Sum>(chain, m) \<leftarrow> nodes ch t. g chain) =
      g ch + (\<Sum>(k, c) \<leftarrow> children t. \<Sum>(chain, m) \<leftarrow> nodes (k # ch) c. g chain)"
    unfolding nodes_unfold [of ch t] by (simp add: sum_list_map_concat case_prod_unfold)
  also have "\<dots> = g ch + (\<Sum>(k, c) \<in> set (children t). \<Sum>(chain, m) \<leftarrow> nodes (k # ch) c. g chain)"
    using distinct_map [THEN iffD1, OF dist] by (simp add: sum_list_distinct_conv_sum_set)
  also have "(\<Sum>(k, c) \<in> set (children t). \<Sum>(chain, m) \<leftarrow> nodes (k # ch) c. g chain) =
      (\<Sum>(k, c) \<in> set (children t). \<Sum>p \<in> (#) k ` tree_paths c. g (rev p @ ch))"
  proof (rule sum.cong [OF refl], clarify)
    fix k c assume c: "(k, c) \<in> set (children t)"
    have "tree_ok c" using tree_ok_child [OF ok] get_child_children [OF ok] c by blast
    from less(1) [OF node_count_child [OF c] this, of "k # ch"]
    show "(\<Sum>(chain, m) \<leftarrow> nodes (k # ch) c. g chain) = (\<Sum>p \<in> (#) k ` tree_paths c. g (rev p @ ch))"
      by (simp add: sum.reindex)
  qed
  also have "\<dots> = (\<Sum>p \<in> (\<Union>(k, c) \<in> set (children t). (#) k ` tree_paths c). g (rev p @ ch))"
  proof -
    have "finite ((#) (fst e) ` tree_paths (snd e))" if "e \<in> set (children t)" for e
      using finite_tree_paths tree_ok_values [OF ok] that by auto
    moreover have "(#) (fst a) ` tree_paths (snd a) \<inter> (#) (fst b) ` tree_paths (snd b) = {}"
      if "a \<in> set (children t)" "b \<in> set (children t)" "a \<noteq> b" for a b
      using that inj_onD [OF conjunct2 [OF dist [unfolded distinct_map]], of a b] by auto
    ultimately show ?thesis
      by (subst sum.UNION_disjoint) (auto simp: case_prod_unfold)
  qed
  also have "g ch + \<dots> = (\<Sum>p \<in> tree_paths t. g (rev p @ ch))"
    using finite_tree_paths [OF ok] unfolding tree_paths_unfold [OF ok] by (subst sum.insert) auto
  finally show ?case .
qed

lemma sum_children:
  fixes f :: "path \<Rightarrow> nat"
  assumes "tree_ok t" and "node_at p t = Some m"
  shows "(\<Sum>(k, c) \<leftarrow> children m. f (p @ [k])) = (\<Sum>k | p @ [k] \<in> tree_paths t. f (p @ [k]))"
proof -
  have ok: "tree_ok m" using node_at_ok [OF assms] .
  have "{k. p @ [k] \<in> tree_paths t} = set (map fst (children m))"
    using get_child_children [OF ok] by (force simp: tree_paths_def node_at_append assms(2) split: option.splits)
  then have "(\<Sum>k | p @ [k] \<in> tree_paths t. f (p @ [k])) = (\<Sum>k \<leftarrow> map fst (children m). f (p @ [k]))"
    using sum.distinct_set_conv_list [OF node_order.om_sorted_distinct [OF tree_ok_sorted [OF ok]]] by metis
  then show ?thesis by (simp add: o_def case_prod_unfold)
qed

section \<open>Trees timed in whole seconds\<close>

text \<open>
  Every node of the tree has the number of seconds \<open>f\<close> gives for its path, and its children together
  have no more than it has.
\<close>

definition in_seconds :: "(path \<Rightarrow> nat) \<Rightarrow> StackNode \<Rightarrow> bool" where
  "in_seconds f t \<longleftrightarrow> (\<forall>p \<in> tree_paths t. total_runtime (at_info p t) = d_of_nat (f p) \<and>
     (\<Sum>k | p @ [k] \<in> tree_paths t. f (p @ [k])) \<le> f p)"

definition own :: "(path \<Rightarrow> nat) \<Rightarrow> path set \<Rightarrow> path \<Rightarrow> nat" where
  "own f P p = f p - (\<Sum>k | p @ [k] \<in> P. f (p @ [k]))"

definition called_from :: "(path \<Rightarrow> nat) \<Rightarrow> path set \<Rightarrow> path \<Rightarrow> nat" where
  "called_from f P ks = (\<Sum>p \<in> P. if prefix ks (rev p @ [root_key]) then own f P p else 0)"

lemma finite_steps: "finite P \<Longrightarrow> finite {k. p @ [k] \<in> P}"
  by (rule finite_subset [of _ "last ` P"]) (auto intro: rev_image_eqI)

text \<open>The own times of all nodes add up to the time of the root.\<close>

lemma sum_own:
  fixes f :: "path \<Rightarrow> nat"
  assumes fin: "finite P" and root: "[] \<in> P" and closed: "\<And>p k. p @ [k] \<in> P \<Longrightarrow> p \<in> P"
    and le: "\<And>p. p \<in> P \<Longrightarrow> (\<Sum>k | p @ [k] \<in> P. f (p @ [k])) \<le> f p"
  shows "(\<Sum>p \<in> P. own f P p) = f []"
proof -
  let ?E = "SIGMA p : P. {k. p @ [k] \<in> P}"
  have E: "P - {[]} = (\<lambda>(p, k). p @ [k]) ` ?E"
  proof (intro equalityI subsetI)
    fix p assume "p \<in> P - {[]}"
    then show "p \<in> (\<lambda>(p, k). p @ [k]) ` ?E"
      using closed by (cases p rule: rev_cases) (auto intro!: rev_image_eqI)
  qed auto
  have "(\<Sum>p \<in> P. \<Sum>k | p @ [k] \<in> P. f (p @ [k])) = (\<Sum>(p, k) \<in> ?E. f (p @ [k]))"
    using fin finite_steps [OF fin] by (intro sum.Sigma) auto
  also have "\<dots> = (\<Sum>p \<in> P - {[]}. f p)"
    unfolding E by (subst sum.reindex) (auto simp: inj_on_def case_prod_unfold)
  finally have kids: "(\<Sum>p \<in> P. \<Sum>k | p @ [k] \<in> P. f (p @ [k])) = (\<Sum>p \<in> P - {[]}. f p)" .
  have "(\<Sum>p \<in> P. own f P p) + (\<Sum>p \<in> P. \<Sum>k | p @ [k] \<in> P. f (p @ [k])) = (\<Sum>p \<in> P. f p)"
    unfolding sum.distrib [symmetric] by (rule sum.cong [OF refl]) (simp add: own_def le)
  also have "\<dots> = f [] + (\<Sum>p \<in> P - {[]}. f p)" using fin root by (rule sum.remove)
  finally show ?thesis unfolding kids by simp
qed

lemma in_seconds_le_root:
  assumes "tree_ok t" and "in_seconds f t" and "p \<in> tree_paths t"
  shows "f p \<le> f []"
  using assms(3)
proof (induction p rule: rev_induct)
  case (snoc k p)
  from tree_paths_prefix [OF snoc.prems] have p: "p \<in> tree_paths t" .
  have "f (p @ [k]) \<le> (\<Sum>k | p @ [k] \<in> tree_paths t. f (p @ [k]))"
    using snoc.prems finite_steps [OF finite_tree_paths [OF assms(1)]]
    by (intro member_le_sum [of k _ "\<lambda>k. f (p @ [k])"]) auto
  also have "\<dots> \<le> f p" using assms(2) p by (simp add: in_seconds_def)
  also have "\<dots> \<le> f []" using snoc.IH p .
  finally show ?case .
qed simp

lemma sum_own_tree:
  assumes "tree_ok t" and "in_seconds f t"
  shows "(\<Sum>p \<in> tree_paths t. own f (tree_paths t) p) = f []"
  using finite_tree_paths [OF assms(1)] Nil_tree_paths tree_paths_prefix assms(2)
  by (intro sum_own) (auto simp: in_seconds_def)

lemma called_from_le:
  assumes "tree_ok t" and "in_seconds f t"
  shows "called_from f (tree_paths t) ks \<le> f []"
  unfolding called_from_def sum_own_tree [OF assms, symmetric] by (intro sum_mono) simp

text \<open>A node's own time, as \<open>invert\<close> computes it.\<close>

lemma self_time_own:
  assumes ok: "tree_ok t" and f: "in_seconds f t" and root: "f [] < 2 ^ 53" and m: "node_at p t = Some m"
  shows "fst (self_times m) = d_of_nat (own f (tree_paths t) p)"
proof -
  have p: "p \<in> tree_paths t" using m by (simp add: tree_paths_def)
  have okm: "tree_ok m" using node_at_ok [OF ok m] .
  have lt: "f p < 2 ^ 53" using in_seconds_le_root [OF ok f p] root by simp
  have node: "total_runtime (node_info m) = d_of_nat (f p)"
    using f p m by (auto simp: in_seconds_def at_info_def)
  have child: "total_runtime (node_info c) = d_of_nat (f (p @ [k]))" if "(k, c) \<in> set (children m)" for k c
  proof -
    have "node_at (p @ [k]) t = Some c"
      using iffD2 [OF get_child_children [OF okm] that] by (simp add: node_at_append m)
    moreover from this have "p @ [k] \<in> tree_paths t" by (simp add: tree_paths_def)
    ultimately show ?thesis using f by (auto simp: in_seconds_def at_info_def)
  qed
  have "foldl (\<lambda>t (k, c). dsub t (total_runtime (node_info c))) (d_of_nat (f p)) (children m) =
      foldl (\<lambda>t e. dsub t (d_of_nat (f (p @ [fst e])))) (d_of_nat (f p)) (children m)"
    by (rule foldl_cong) (auto simp: child)
  also have "\<dots> = d_of_nat (f p - (\<Sum>e \<leftarrow> children m. f (p @ [fst e])))"
    using sum_children [OF ok m, of f] f p lt by (intro foldl_dsub_d_of_nat) (auto simp: in_seconds_def case_prod_unfold)
  also have "(\<Sum>e \<leftarrow> children m. f (p @ [fst e])) = (\<Sum>k | p @ [k] \<in> tree_paths t. f (p @ [k]))"
    using sum_children [OF ok m, of f] by (simp add: case_prod_unfold)
  finally show ?thesis
    using lt by (simp add: self_times_def Let_def node own_def std_max_d_of_nat)
qed

lemma total_add_nodes:
  assumes "tree_ok t" and "total_runtime (at_info ks t) = d_of_nat a"
    and "a + (\<Sum>(chain, m) \<leftarrow> v. if prefix ks chain then s chain else 0) < 2 ^ 53"
    and "\<And>chain m. (chain, m) \<in> set v \<Longrightarrow> fst (self_times m) = d_of_nat (s chain)"
  shows "total_runtime (at_info ks (foldl add_node t v)) =
    d_of_nat (a + (\<Sum>(chain, m) \<leftarrow> v. if prefix ks chain then s chain else 0))"
  using assms
proof (induction v arbitrary: t a)
  case (Cons x v)
  obtain chain m where x: "x = (chain, m)" by force
  let ?t = "add_along chain (node_contribution m) t" and ?a = "a + (if prefix ks chain then s chain else 0)"
  have "fst (self_times m) = d_of_nat (s chain)" using Cons.prems(4) by (simp add: x)
  then have a: "total_runtime (at_info ks ?t) = d_of_nat ?a"
    using Cons.prems(2,3) by (auto simp: at_info_add_along [OF Cons.prems(1)] x node_contribution_def inv_add_def intro!: dadd_d_of_nat)
  from Cons.IH [OF tree_ok_add_along [OF Cons.prems(1)] a] Cons.prems(3,4)
  show ?case by (simp add: x add.assoc)
qed simp

text \<open>The times of the inverted tree.\<close>

lemma invert_seconds:
  assumes ok: "tree_ok t" and f: "in_seconds f t" and root: "f [] < 2 ^ 53"
  shows "total_runtime (at_info ks (invert t)) = d_of_nat (called_from f (tree_paths t) ks)"
proof -
  let ?s = "\<lambda>chain. own f (tree_paths t) (rev (butlast chain))"
  obtain v where v: "mset v = mset (nodes [root_key] t)" "invert t = foldl add_node new_node v"
    using invert_queue_fold [of "[([root_key], t)]" new_node] by (auto simp: invert_def queued_def)
  have "(\<Sum>(chain, m) \<leftarrow> v. if prefix ks chain then ?s chain else 0) =
      (\<Sum>(chain, m) \<leftarrow> nodes [root_key] t. if prefix ks chain then ?s chain else 0)"
    using v(1) by (metis (no_types, lifting) mset_map sum_mset_sum_list)
  also have "\<dots> = called_from f (tree_paths t) ks"
    using sum_nodes [OF ok, of "\<lambda>chain. if prefix ks chain then ?s chain else 0" "[root_key]"]
    by (simp add: called_from_def cong: if_cong)
  finally have sum: "(\<Sum>(chain, m) \<leftarrow> v. if prefix ks chain then ?s chain else 0) = called_from f (tree_paths t) ks" .
  have "set v = set (nodes [root_key] t)" using v(1) mset_eq_setD by blast
  then have self: "fst (self_times m) = d_of_nat (?s chain)" if "(chain, m) \<in> set v" for chain m
    using set_nodes [OF ok, of chain m "[root_key]"] self_time_own [OF ok f root] that by auto
  have "total_runtime (at_info ks new_node) = d_of_nat 0" by (simp add: new_info_def d_zero_d_of_nat)
  from total_add_nodes [where v = v and s = ?s, OF tree_ok_new this _ self] show ?thesis
    using called_from_le [OF ok f, of ks] root by (simp add: v(2) sum)
qed

text \<open>With all times multiplied by the same number, so are those of the inverted tree.\<close>

lemma called_from_scaled: "called_from (\<lambda>p. n * f p) P ks = n * called_from f P ks"
  by (simp add: called_from_def own_def sum_distrib_left diff_mult_distrib2 if_distrib cong: if_cong)

text \<open>The paths of the inverted tree are given by those of the tree.\<close>

lemma tree_paths_invert:
  assumes "tree_ok t"
  shows "ks \<in> tree_paths (invert t) \<longleftrightarrow> ks = [] \<or> (\<exists>p \<in> tree_paths t. prefix ks (rev p @ [root_key]))"
proof -
  obtain v where v: "mset v = mset (nodes [root_key] t)" "invert t = foldl add_node new_node v"
    using invert_queue_fold [of "[([root_key], t)]" new_node] by (auto simp: invert_def queued_def)
  have "set v = set (nodes [root_key] t)" using v(1) mset_eq_setD by blast
  moreover have "(\<exists>(chain, m) \<in> set (nodes [root_key] t). prefix ks chain) \<longleftrightarrow>
      (\<exists>p \<in> tree_paths t. prefix ks (rev p @ [root_key]))"
    using set_nodes [OF assms] nodes_set [OF assms] by (fastforce simp: tree_paths_def simp del: prefix_snoc)
  ultimately show ?thesis
    using node_at_add_nodes [OF tree_ok_new, of ks v] node_at_new [of ks] by (simp add: v(2) tree_paths_def del: not_None_eq)
qed

end
