(* ===== verification/High_Water.thy ===== *)
theory High_Water
  imports Interface
begin

text \<open>
  The memory high-water mark tools, \<open>profiling/memory-hwm/kp_hwm.cpp\<close> and
  \<open>profiling/memory-hwm-mpi/kp_hwm_mpi.cpp\<close>, on a system that reports \<open>ru_maxrss\<close> in kilobytes.
  \<open>ru_maxrss\<close> is an argument of the finalisation; MPI is a parameter. The sum over the processes is
  taken to fit a \<open>long\<close>.
\<close>

section \<open>One process\<close>

type_synonym hwm_out = "token list"

definition RU_MAXRSS_UNITS :: int where
  "RU_MAXRSS_UNITS = 1"

definition hwm_init_library :: "int \<Rightarrow> u64 \<Rightarrow> hwm_out \<Rightarrow> hwm_out" where
  "hwm_init_library loadSeq interfaceVer out = out @
     [Txt (''KokkosP: High Water Mark Library Initialized (sequence is '' @ dec_int loadSeq
        @ '', version: '' @ dec_nat (unat interfaceVer) @ '')'' @ eol)]"

definition hwm_finalize_library :: "int \<Rightarrow> hwm_out \<Rightarrow> hwm_out" where
  "hwm_finalize_library ru_maxrss out = out @
     [Txt eol, Txt (''KokkosP: Finalization of profiling library.'' @ eol),
      Txt (''KokkosP: High water mark memory consumption: '' @ dec_int (ru_maxrss * RU_MAXRSS_UNITS) @ '' kB'' @ eol),
      Txt eol]"

section \<open>MPI processes\<close>

record hwm_mpi =
  hm_world_rank :: int
  hm_world_size :: int
  hm_stdout :: hwm_out

definition hwm_mpi_start :: hwm_mpi where
  "hwm_mpi_start = \<lparr>hm_world_rank = 0, hm_world_size = 1, hm_stdout = []\<rparr>"

text \<open>What \<open>MPI_Initialized\<close>, \<open>MPI_Comm_rank\<close> and \<open>MPI_Comm_size\<close> report are arguments.\<close>

definition hm_init_library :: "bool \<Rightarrow> int \<Rightarrow> int \<Rightarrow> int \<Rightarrow> u64 \<Rightarrow> hwm_mpi \<Rightarrow> hwm_mpi outcome" where
  "hm_init_library mpi_is_initialized rank nranks loadSeq interfaceVer s =
     (if \<not> mpi_is_initialized then Inl (Exit (- 1))
      else Inr (s\<lparr>hm_world_rank := rank, hm_world_size := nranks,
        hm_stdout := hm_stdout s @ (if rank = 0 then
          [Txt (''KokkosP: High Water Mark Library Initialized (sequence is '' @ dec_int loadSeq
             @ '', version: '' @ dec_nat (unat interfaceVer) @ '')'' @ eol)] else [])\<rparr>))"

datatype mpi_op = MPI_MAX | MPI_MIN | MPI_SUM

text \<open>Division of signed integers truncates towards zero.\<close>

definition tdiv :: "int \<Rightarrow> int \<Rightarrow> int" where
  "tdiv a b = (if (a < 0) = (b < 0) then \<bar>a\<bar> div \<bar>b\<bar> else - (\<bar>a\<bar> div \<bar>b\<bar>))"

text \<open>
  \<open>reduce\<close> is \<open>MPI_Reduce\<close> over \<open>MPI_COMM_WORLD\<close>: given the operation and this process's value, what the
  receive buffer holds on this process afterwards. Only the root's buffer is written, so elsewhere it is
  \<open>None\<close>, the indeterminate value of the local variable; dividing it is undefined.
\<close>

definition hm_finalize_library :: "(mpi_op \<Rightarrow> int \<Rightarrow> int option) \<Rightarrow> int \<Rightarrow> hwm_mpi \<Rightarrow> hwm_mpi outcome" where
  "hm_finalize_library reduce ru_maxrss s =
     (let s1 = (if hm_world_rank s = 0
            then s\<lparr>hm_stdout := hm_stdout s @ [Txt eol, Txt (''KokkosP: Finalization of profiling library.'' @ eol)]\<rparr>
            else s);
          hwm = ru_maxrss * RU_MAXRSS_UNITS;
          hwm_max = reduce MPI_MAX hwm;
          hwm_min = reduce MPI_MIN hwm
      in case reduce MPI_SUM hwm of
           None \<Rightarrow> Inl (Undefined ''hwm_ave is indeterminate'')
         | Some hwm_sum \<Rightarrow> (let hwm_ave = tdiv hwm_sum (hm_world_size s) in
             if hm_world_rank s = 0
             then Inr (s1\<lparr>hm_stdout := hm_stdout s1 @
               [Txt (''KokkosP: High water mark memory consumption: '' @ dec_int (the hwm_max) @ '' kB'' @ eol),
                Txt (''  Max: '' @ dec_int (the hwm_max) @ '', Min: '' @ dec_int (the hwm_min)
                  @ '', Ave: '' @ dec_int hwm_ave @ '' kB'' @ eol), Txt eol]\<rparr>)
             else Inr s1))"

section \<open>What the root reports\<close>

text \<open>The documented behaviour of the reductions, for the values \<open>xs\<close> of the processes in rank order.\<close>

definition mpi_reduces :: "int list \<Rightarrow> int \<Rightarrow> (mpi_op \<Rightarrow> int \<Rightarrow> int option) \<Rightarrow> bool" where
  "mpi_reduces xs rank reduce = (0 \<le> rank \<and> rank < int (length xs) \<and>
     (\<forall>op. reduce op (xs ! nat rank) = (if rank = 0 then Some (case op of
        MPI_MAX \<Rightarrow> Max (set xs) | MPI_MIN \<Rightarrow> Min (set xs) | MPI_SUM \<Rightarrow> sum_list xs) else None)))"

lemma sum_list_bounds:
  "xs \<noteq> [] \<Longrightarrow> (\<And>x. x \<in> set xs \<Longrightarrow> a \<le> x \<and> x \<le> b) \<Longrightarrow>
     a * int (length xs) \<le> sum_list xs \<and> sum_list xs \<le> b * int (length xs)"
proof (induction xs)
  case (Cons x xs)
  then show ?case by (cases "xs = []") (auto simp: algebra_simps intro: add_mono)
qed simp

lemma tdiv_average:
  assumes "xs \<noteq> []" and "\<And>x. x \<in> set xs \<Longrightarrow> 0 \<le> x"
  shows "Min (set xs) \<le> tdiv (sum_list xs) (int (length xs)) \<and> tdiv (sum_list xs) (int (length xs)) \<le> Max (set xs)"
proof -
  let ?n = "int (length xs)"
  have n: "0 < ?n" using assms(1) by simp
  have b: "Min (set xs) * ?n \<le> sum_list xs \<and> sum_list xs \<le> Max (set xs) * ?n"
    using sum_list_bounds [OF assms(1), of "Min (set xs)" "Max (set xs)"] by simp
  have "0 \<le> Min (set xs)" using assms by simp
  with n have "0 \<le> Min (set xs) * ?n" by simp
  with b n have "tdiv (sum_list xs) ?n = sum_list xs div ?n" by (auto simp: tdiv_def)
  moreover have "Min (set xs) \<le> sum_list xs div ?n"
    using b n zdiv_mono1 [of "Min (set xs) * ?n" "sum_list xs" ?n] by simp
  moreover have "sum_list xs div ?n \<le> Max (set xs)"
    using b n zdiv_mono1 [of "sum_list xs" "Max (set xs) * ?n" ?n] by simp
  ultimately show ?thesis by simp
qed

text \<open>
  C40. What the processes of a run report at the end: the root prints the largest and the least of
  their high-water marks, and an average that lies between the two; on every other process the code
  divides a variable that the reduction has not written.
\<close>

theorem hwm_mpi_reports:
  assumes "hm_init_library True rank (int (length xs)) loadSeq interfaceVer hwm_mpi_start = Inr s"
    and "mpi_reduces xs rank reduce" and "\<And>x. x \<in> set xs \<Longrightarrow> 0 \<le> x"
  shows "(rank = 0 \<longrightarrow> (\<exists>out ave. hm_finalize_library reduce (xs ! 0) s = Inr (s\<lparr>hm_stdout := out\<rparr>)
      \<and> Min (set xs) \<le> ave \<and> ave \<le> Max (set xs)
      \<and> out = hm_stdout s @ [Txt eol, Txt (''KokkosP: Finalization of profiling library.'' @ eol),
          Txt (''KokkosP: High water mark memory consumption: '' @ dec_int (Max (set xs)) @ '' kB'' @ eol),
          Txt (''  Max: '' @ dec_int (Max (set xs)) @ '', Min: '' @ dec_int (Min (set xs))
            @ '', Ave: '' @ dec_int ave @ '' kB'' @ eol), Txt eol]))
    \<and> (rank \<noteq> 0 \<longrightarrow> hm_finalize_library reduce (xs ! nat rank) s = Inl (Undefined ''hwm_ave is indeterminate''))"
proof -
  have s: "hm_world_rank s = rank" "hm_world_size s = int (length xs)"
    using assms(1) by (auto simp: hm_init_library_def)
  have r: "reduce op (xs ! nat rank) = (if rank = 0 then Some (case op of
      MPI_MAX \<Rightarrow> Max (set xs) | MPI_MIN \<Rightarrow> Min (set xs) | MPI_SUM \<Rightarrow> sum_list xs) else None)" for op
    using assms(2) by (simp add: mpi_reduces_def)
  have "xs \<noteq> []" using assms(2) by (auto simp: mpi_reduces_def)
  note a = tdiv_average [OF this assms(3)]
  show ?thesis
  proof (cases "rank = 0")
    case True
    with s r a show ?thesis
      by (auto simp: hm_finalize_library_def Let_def RU_MAXRSS_UNITS_def intro!: exI [of _ "tdiv (sum_list xs) (int (length xs))"])
  next
    case False
    with s r show ?thesis by (simp add: hm_finalize_library_def Let_def RU_MAXRSS_UNITS_def)
  qed
qed

theorem hwm_mpi_reports_witness:
  "\<exists>s out ave. hm_init_library True 0 3 0 20211015 hwm_mpi_start = Inr s
    \<and> hm_finalize_library (\<lambda>op x. Some (case op of MPI_MAX \<Rightarrow> 9 | MPI_MIN \<Rightarrow> 4 | MPI_SUM \<Rightarrow> 18)) 4 s = Inr (s\<lparr>hm_stdout := out\<rparr>)
    \<and> 4 \<le> ave \<and> ave \<le> (9 :: int)"
proof -
  obtain s where s: "hm_init_library True 0 (int (length [4, 9, 5 :: int])) 0 20211015 hwm_mpi_start = Inr s"
    by (simp add: hm_init_library_def)
  let ?r = "\<lambda>op (x :: int). Some (case op of MPI_MAX \<Rightarrow> 9 | MPI_MIN \<Rightarrow> 4 | MPI_SUM \<Rightarrow> 18)"
  have "mpi_reduces [4, 9, 5] 0 ?r" by (auto simp: mpi_reduces_def split: mpi_op.split)
  moreover have "\<And>x. x \<in> set [4, 9, 5 :: int] \<Longrightarrow> 0 \<le> x" by auto
  ultimately have "\<exists>out ave. hm_finalize_library ?r ([4, 9, 5] ! 0) s = Inr (s\<lparr>hm_stdout := out\<rparr>)
      \<and> Min (set [4, 9, 5]) \<le> ave \<and> ave \<le> Max (set [4, 9, 5 :: int])"
    using hwm_mpi_reports [OF s, of ?r] by blast
  with s show ?thesis by simp
qed

end
