(* ===== verification/Stack_Mpi.thy ===== *)
theory Stack_Mpi
  imports Stack_Seconds High_Water
begin

text \<open>
  The space-time stack built with MPI: \<open>StackNode::reduce_over_mpi\<close> and the choice of the process
  that prints in \<open>Allocations::print\<close>. All processes run the same code and meet in the collective
  operations, so the model runs them together: it has one tree per rank, and the queue, which
  holds pointers to corresponding nodes on all ranks, once, as paths. A collective operation is a function of what
  the ranks contribute, in rank order, with the same result on every rank; the sum and the maximum of
  \<open>double\<close>s are parameters, as their order of evaluation is the library's.
\<close>

section \<open>The values of a node\<close>

definition reduce_values ::
  "(double list \<Rightarrow> double) \<Rightarrow> (double list \<Rightarrow> double) \<Rightarrow> node_info list \<Rightarrow> node_info \<Rightarrow> node_info" where
  "reduce_values mpi_sum mpi_max is i = i
     \<lparr>total_runtime := mpi_sum (map total_runtime is),
      max_runtime := mpi_max (map total_runtime is),
      avg_runtime := ddiv (mpi_sum (map total_runtime is)) (d_of_nat (length is)),
      total_kokkos_runtime := mpi_sum (map total_kokkos_runtime is)\<rparr>"

section \<open>The exchange of the children's names\<close>

text \<open>The order of \<open>std::set<std::pair<std::string, StackKind>>\<close>.\<close>

definition name_kind_less :: "node_key \<Rightarrow> node_key \<Rightarrow> bool" where
  "name_kind_less a b = (str_less (snd a) (snd b) \<or> snd a = snd b \<and> kind_int (fst a) < kind_int (fst b))"

interpretation pair_order: key_order name_kind_less
proof
  show "\<not> name_kind_less k k" for k by (simp add: name_kind_less_def str_less_irrefl)
  show "name_kind_less a b \<Longrightarrow> name_kind_less b c \<Longrightarrow> name_kind_less a c" for a b c
    using str_less_trans by (auto simp: name_kind_less_def)
  show "a \<noteq> b \<Longrightarrow> name_kind_less a b \<or> name_kind_less b a" for a b
    using str_less_total [of "snd a" "snd b"] kind_int_inj [of "fst a" "fst b"]
    by (cases "snd a = snd b") (auto simp: name_kind_less_def prod_eq_iff)
qed

definition child_names :: "path \<Rightarrow> StackNode \<Rightarrow> node_key list" where
  "child_names p t = (case node_at p t of None \<Rightarrow> []
     | Some n \<Rightarrow> map fst (foldl (\<lambda>m (k, c). om_insert name_kind_less k () m) [] (children n)))"

text \<open>The smallest rank that has names left, or the number of ranks: the minimum over all ranks.\<close>

definition next_bcast_rank :: "node_key list list \<Rightarrow> nat" where
  "next_bcast_rank sets = fold min (map (\<lambda>r. if sets ! r = [] then length sets else r) [0..<length sets]) (length sets)"

text \<open>
  The loop of broadcasts, from \<open>bcast_rank\<close>: the names that rank has left are broadcast in order, and
  every rank takes them off its own set. The result is the order in which all ranks queue the children.
\<close>

lemma fold_min: "fold min (xs :: nat list) a = Min (insert a (set xs))"
  using Min.set_eq_fold [of a xs] by simp

lemma next_bcast_rank_less:
  assumes "next_bcast_rank sets < length sets"
  shows "sets ! next_bcast_rank sets \<noteq> []"
proof -
  let ?f = "\<lambda>r. if sets ! r = [] then length sets else r"
  have "next_bcast_rank sets \<in> insert (length sets) (set (map ?f [0..<length sets]))"
    unfolding next_bcast_rank_def fold_min by (rule Min_in) simp_all
  with assms show ?thesis by (auto split: if_splits)
qed

lemma next_bcast_rank_end:
  assumes "\<not> next_bcast_rank sets < length sets"
  shows "\<forall>ks \<in> set sets. ks = []"
proof -
  let ?f = "\<lambda>r. if sets ! r = [] then length sets else r"
  have "next_bcast_rank sets \<le> ?f r" if "r < length sets" for r
    unfolding next_bcast_rank_def fold_min by (rule Min_le) (use that in auto)
  with assms show ?thesis by (fastforce simp: in_set_conv_nth split: if_splits)
qed

function exchange :: "nat \<Rightarrow> node_key list list \<Rightarrow> node_key list" where
  "exchange bcast_rank sets =
     (if bcast_rank < length sets then
        (let ks = sets ! bcast_rank;
             sets' = map (filter (\<lambda>k. k \<notin> set ks)) sets;
             b = next_bcast_rank sets'
         in ks @ (if b < length sets then exchange b sets' else []))
      else [])"
  by pat_completeness auto
termination
proof (relation "measures [\<lambda>(b, sets). sum_list (map length sets),
    \<lambda>(b, sets). if b < length sets \<and> sets ! b \<noteq> [] then 0 else 1]")
  fix b :: nat and sets ks sets' x
  assume b: "b < length sets" and ks: "ks = sets ! b" and s: "sets' = map (filter (\<lambda>k. k \<notin> set ks)) sets"
    and x: "x = next_bcast_rank sets'" and lt: "x < length sets"
  have le: "sum_list (map (length \<circ> filter (\<lambda>k. k \<notin> set ks)) l) \<le> sum_list (map length l)" for l
    by (intro sum_list_mono) simp
  show "((x, sets'), b, sets) \<in> measures [\<lambda>(b, sets). sum_list (map length sets),
    \<lambda>(b, sets). if b < length sets \<and> sets ! b \<noteq> [] then 0 else 1]"
  proof (cases "ks = []")
    case True
    then have "sets' = sets" using s by (auto intro!: map_idI)
    with lt x ks True b next_bcast_rank_less [of sets'] show ?thesis by simp
  next
    case False
    have f: "filter (\<lambda>k. k \<notin> set ks) ks = []" by (simp add: filter_empty_conv)
    have sets: "sets = take b sets @ ks # drop (Suc b) sets" unfolding ks by (rule id_take_nth_drop [OF b])
    have "sum_list (map length sets') = sum_list (map (length \<circ> filter (\<lambda>k. k \<notin> set ks)) (take b sets))
        + sum_list (map (length \<circ> filter (\<lambda>k. k \<notin> set ks)) (drop (Suc b) sets))"
      unfolding s map_map by (subst sets) (simp add: f)
    moreover have "sum_list (map length sets) = sum_list (map length (take b sets)) + (length ks
        + sum_list (map length (drop (Suc b) sets)))" by (subst sets) simp
    moreover have "0 < length ks" using False by simp
    ultimately have "sum_list (map length sets') < sum_list (map length sets)"
      using le [of "take b sets"] le [of "drop (Suc b) sets"] by linarith
    then show ?thesis by simp
  qed
qed simp

declare exchange.simps [simp del]

lemma exchange_set:
  "b < length sets \<Longrightarrow> set (exchange b sets) = (\<Union>ks \<in> set sets. set ks)"
proof (induction b sets rule: exchange.induct)
  case (1 b sets)
  let ?ks = "sets ! b"
  let ?sets' = "map (filter (\<lambda>k. k \<notin> set ?ks)) sets"
  have ks: "?ks \<in> set sets" using "1.prems" by simp
  have union: "(\<Union>ks \<in> set sets. set ks) = set ?ks \<union> (\<Union>ks \<in> set ?sets'. set ks)" using ks by auto
  show ?case
  proof (cases "next_bcast_rank ?sets' < length sets")
    case True
    with "1.IH" [OF "1.prems" refl refl refl True] "1.prems" union show ?thesis
      by (subst exchange.simps) (simp add: Let_def)
  next
    case False
    then have "\<forall>ks \<in> set ?sets'. ks = []" using next_bcast_rank_end [of ?sets'] by simp
    then have "(\<Union>ks \<in> set ?sets'. set ks) = {}" by auto
    then have "(\<Union>ks \<in> set sets. set ks) = set ?ks" unfolding union by (simp only: Un_empty_right)
    with False "1.prems" show ?thesis by (subst exchange.simps) (simp add: Let_def)
  qed
qed

lemma exchange_distinct:
  "\<forall>ks \<in> set sets. distinct ks \<Longrightarrow> distinct (exchange b sets)"
proof (induction b sets rule: exchange.induct)
  case (1 b sets)
  show ?case
  proof (cases "b < length sets")
    case b: True
    let ?ks = "sets ! b"
    let ?sets' = "map (filter (\<lambda>k. k \<notin> set ?ks)) sets"
    have d: "\<forall>ks \<in> set ?sets'. distinct ks" using "1.prems" by auto
    have ks: "distinct ?ks" using "1.prems" b by simp
    show ?thesis
    proof (cases "next_bcast_rank ?sets' < length sets")
      case True
      have "set (exchange (next_bcast_rank ?sets') ?sets') \<inter> set ?ks = {}"
        using exchange_set [of "next_bcast_rank ?sets'" ?sets'] True by auto
      with "1.IH" [OF b refl refl refl True d] True b ks show ?thesis
        by (subst exchange.simps) (auto simp: Let_def)
    next
      case False
      with b ks show ?thesis by (subst exchange.simps) (simp add: Let_def)
    qed
  qed (simp add: exchange.simps)
qed

section \<open>The reduction\<close>

definition add_children :: "node_key list \<Rightarrow> StackNode \<Rightarrow> StackNode" where
  "add_children ks n = foldl (\<lambda>n k. ensure_child k n) n ks"

text \<open>
  One turn of the loop over the queue, on all ranks: the values of the node are reduced, the names of
  its children exchanged, and every child is fetched, or created, and queued.
\<close>

definition reduce_step ::
  "(double list \<Rightarrow> double) \<Rightarrow> (double list \<Rightarrow> double) \<Rightarrow> path \<Rightarrow> StackNode list \<Rightarrow> node_key list \<times> StackNode list" where
  "reduce_step mpi_sum mpi_max p ts =
     (let ts = map (update_at p (map_info (reduce_values mpi_sum mpi_max (map (at_info p) ts)))) ts;
          ks = exchange 0 (map (child_names p) ts)
      in (ks, map (update_at p (add_children ks)) ts))"

text \<open>The loop. That it ends is proved below.\<close>

partial_function (option) reduce_queue ::
  "(double list \<Rightarrow> double) \<Rightarrow> (double list \<Rightarrow> double) \<Rightarrow> path list \<Rightarrow> StackNode list \<Rightarrow> StackNode list option" where
  "reduce_queue mpi_sum mpi_max q ts = (case q of [] \<Rightarrow> Some ts
     | p # q \<Rightarrow> (case reduce_step mpi_sum mpi_max p ts of (ks, ts) \<Rightarrow>
         reduce_queue mpi_sum mpi_max (q @ map (\<lambda>k. p @ [k]) ks) ts))"

definition reduce_over_mpi_ranks ::
  "(double list \<Rightarrow> double) \<Rightarrow> (double list \<Rightarrow> double) \<Rightarrow> StackNode list \<Rightarrow> StackNode list option" where
  "reduce_over_mpi_ranks mpi_sum mpi_max ts = reduce_queue mpi_sum mpi_max [[]] ts"

section \<open>What a tree has at a path\<close>

lemma get_child_member: "get_child k t = Some c \<Longrightarrow> (k, c) \<in> set (children t)"
proof -
  have "om_find node_less k m = Some c \<Longrightarrow> (k, c) \<in> set m" for m :: "(node_key \<times> StackNode) list"
  proof (induction m)
    case (Cons e m)
    then show ?case using node_order.total [of k "fst e"] by (cases e) (auto split: if_splits)
  qed simp
  then show "get_child k t = Some c \<Longrightarrow> (k, c) \<in> set (children t)" by (simp add: get_child_def)
qed

definition info_at :: "path \<Rightarrow> StackNode \<Rightarrow> node_info option" where
  "info_at p t = map_option node_info (node_at p t)"

lemma info_at_None: "info_at p t = None \<longleftrightarrow> node_at p t = None"
  by (simp add: info_at_def)

lemma at_info_info_at: "at_info p t = (case info_at p t of None \<Rightarrow> new_info | Some i \<Rightarrow> i)"
  by (simp add: at_info_def info_at_def split: option.splits)

lemma info_at_Nil [simp]: "info_at [] t = Some (node_info t)"
  by (simp add: info_at_def)

lemma info_at_Cons: "info_at (k # ks) t = (case get_child k t of None \<Rightarrow> None | Some c \<Rightarrow> info_at ks c)"
  by (simp add: info_at_def split: option.splits)

lemma node_info_new [simp]: "node_info new_node = new_info"
  by (simp add: new_node_def)

lemma info_at_update_Cons:
  assumes "tree_ok t"
  shows "info_at (j # js) (update_at (k # ks) f t) =
    (if j = k then (case get_child k t of None \<Rightarrow> None | Some c \<Rightarrow> info_at js (update_at ks f c))
     else info_at (j # js) t)"
  by (auto simp: info_at_Cons get_child_update [OF assms] simp del: update_at.simps split: option.splits)

lemma info_at_map_info:
  "tree_ok t \<Longrightarrow> info_at q (update_at p (map_info f) t) = (if q = p then map_option f (info_at q t) else info_at q t)"
proof (induction p arbitrary: q t)
  case Nil
  show ?case by (cases q) (auto simp: info_at_Cons get_child_def)
next
  case (Cons k ks)
  show ?case
  proof (cases q)
    case Nil
    then show ?thesis by simp
  next
    case (Cons j js)
    show ?thesis
      unfolding Cons info_at_update_Cons [OF Cons.prems]
      using Cons.IH [OF tree_ok_child [OF Cons.prems]]
      by (auto simp: info_at_Cons split: option.splits)
  qed
qed

lemma info_at_ensure:
  "tree_ok t \<Longrightarrow> info_at q (update_at p (ensure_child k) t) =
    (if q = p @ [k] \<and> info_at p t \<noteq> None \<and> info_at q t = None then Some new_info else info_at q t)"
proof (induction p arbitrary: q t)
  case Nil
  show ?case
  proof (cases q)
    case (Cons j js)
    with Nil show ?thesis
      by (cases js) (auto simp: info_at_Cons get_child_ensure split: option.splits)
  qed (simp add: ensure_child_def)
next
  case (Cons l ls)
  show ?case
  proof (cases q)
    case Nil
    then show ?thesis by simp
  next
    case q: (Cons j js)
    show ?thesis
      unfolding q info_at_update_Cons [OF Cons.prems]
      using Cons.IH [OF tree_ok_child [OF Cons.prems]]
      by (auto simp: info_at_Cons split: option.splits)
  qed
qed

lemma om_update_om_update: "om_update lt k g (om_update lt k f m) = om_update lt k (\<lambda>v. g (f v)) m"
  by (induction lt k f m rule: om_update.induct) auto

lemma update_at_update_at: "update_at p g (update_at p f t) = update_at p (\<lambda>n. g (f n)) t"
proof (induction p arbitrary: t)
  case (Cons k ks)
  then show ?case by (simp add: om_update_om_update)
qed simp

lemma tree_ok_add_children: "tree_ok t \<Longrightarrow> tree_ok (add_children ks t)"
  unfolding add_children_def by (induction ks arbitrary: t) simp_all

lemma info_at_add_children:
  "tree_ok t \<Longrightarrow> info_at p t \<noteq> None \<Longrightarrow> info_at q (update_at p (add_children ks) t) =
    (if q \<in> (\<lambda>k. p @ [k]) ` set ks \<and> info_at q t = None then Some new_info else info_at q t)"
proof (induction ks arbitrary: t)
  case Nil
  have "update_at p (add_children []) t = update_at p (map_info (\<lambda>i. i)) t"
    by (rule arg_cong [of _ _ "\<lambda>f. update_at p f t"]) (simp add: add_children_def map_info_def fun_eq_iff)
  with Nil show ?case by (simp add: info_at_map_info option.map_ident)
next
  case (Cons k ks)
  let ?t = "update_at p (ensure_child k) t"
  have ok: "tree_ok ?t" by (rule tree_ok_update_at) (simp_all add: Cons.prems)
  have p: "info_at p ?t \<noteq> None" using Cons.prems by (simp add: info_at_ensure)
  have "update_at p (add_children (k # ks)) t = update_at p (add_children ks) ?t"
    by (simp add: update_at_update_at add_children_def [abs_def])
  with Cons.IH [OF ok p] Cons.prems show ?case
    by (auto simp: info_at_ensure)
qed

lemma child_names_set:
  assumes "tree_ok t"
  shows "set (child_names p t) = {k. info_at (p @ [k]) t \<noteq> None}" and "distinct (child_names p t)"
proof -
  have set: "fst ` set (foldl (\<lambda>m (k, c). om_insert name_kind_less k () m) m cs) = fst ` set m \<union> fst ` set cs"
    for m :: "(node_key \<times> unit) list" and cs :: "(node_key \<times> StackNode) list"
  proof (induction cs arbitrary: m)
    case (Cons e cs)
    then show ?case by (cases e) (simp add: pair_order.keys_om_insert)
  qed simp
  have sorted: "om_sorted name_kind_less m \<Longrightarrow> om_sorted name_kind_less (foldl (\<lambda>m (k, c). om_insert name_kind_less k () m) m cs)"
    for m :: "(node_key \<times> unit) list" and cs :: "(node_key \<times> StackNode) list"
    by (induction cs arbitrary: m) auto
  show "set (child_names p t) = {k. info_at (p @ [k]) t \<noteq> None}"
  proof (cases "node_at p t")
    case None
    then show ?thesis by (simp add: child_names_def info_at_def node_at_append)
  next
    case (Some n)
    then have ok: "tree_ok n" using node_at_ok [OF assms] by blast
    have c: "fst ` set (children n) = {k. get_child k n \<noteq> None}"
      unfolding dom_map_of_conv_image_fst [symmetric] dom_def using get_child_map_of [OF ok] by simp
    have "(info_at (p @ [k]) t \<noteq> None) = (get_child k n \<noteq> None)" for k
      using Some by (simp add: info_at_def node_at_append split: option.splits)
    then show ?thesis using Some set [of "[]" "children n"] c by (simp add: child_names_def)
  qed
  show "distinct (child_names p t)"
    using pair_order.om_sorted_distinct [OF sorted] by (auto simp: child_names_def split: option.splits)
qed

section \<open>All ranks agree\<close>

text \<open>The paths some rank has a node at.\<close>

definition all_paths :: "StackNode list \<Rightarrow> path set" where
  "all_paths ts = {p. \<exists>t \<in> set ts. info_at p t \<noteq> None}"

lemma finite_paths: "finite {p. info_at p t \<noteq> None}"
proof (induction "node_count t" arbitrary: t rule: less_induct)
  case less
  have A: "{p. info_at p t \<noteq> None} \<subseteq> insert [] (\<Union>k \<in> fst ` set (children t).
      (case get_child k t of None \<Rightarrow> {} | Some c \<Rightarrow> (#) k ` {p. info_at p c \<noteq> None}))"
  proof
    fix p assume p: "p \<in> {p. info_at p t \<noteq> None}"
    show "p \<in> insert [] (\<Union>k \<in> fst ` set (children t).
        (case get_child k t of None \<Rightarrow> {} | Some c \<Rightarrow> (#) k ` {p. info_at p c \<noteq> None}))"
    proof (cases p)
      case (Cons k ks)
      with p obtain c where c: "get_child k t = Some c" "info_at ks c \<noteq> None"
        by (auto simp: info_at_Cons split: option.splits)
      have "k \<in> fst ` set (children t)" using get_child_member [OF c(1)] by force
      with c Cons show ?thesis by force
    qed simp
  qed
  have B: "finite (case get_child k t of None \<Rightarrow> {} | Some c \<Rightarrow> (#) k ` {p. info_at p c \<noteq> None})" for k
  proof (cases "get_child k t")
    case (Some c)
    have "node_count c < node_count t"
      using get_child_member [OF Some] by (rule node_count_child)
    from less [OF this] Some show ?thesis by simp
  qed simp
  show ?case by (rule finite_subset [OF A]) (use B in simp)
qed

lemma finite_all_paths: "finite (all_paths ts)"
proof -
  have "all_paths ts = (\<Union>t \<in> set ts. {p. info_at p t \<noteq> None})" by (auto simp: all_paths_def)
  then show ?thesis using finite_paths by simp
qed

lemma all_paths_prefix: "p @ q \<in> all_paths ts \<Longrightarrow> p \<in> all_paths ts"
  using node_at_prefix by (fastforce simp: all_paths_def info_at_None)

text \<open>
  The state of the loop: the paths in \<open>D\<close> are reduced, those in the queue exist on every rank with the
  values the rank had, the others are as they were; a path is reached after its parent.
\<close>

definition reduced :: "(double list \<Rightarrow> double) \<Rightarrow> (double list \<Rightarrow> double) \<Rightarrow> StackNode list \<Rightarrow> nat \<Rightarrow> path \<Rightarrow> node_info" where
  "reduced mpi_sum mpi_max ts r p = reduce_values mpi_sum mpi_max (map (at_info p) ts) (at_info p (ts ! r))"

definition rank_ok :: "(double list \<Rightarrow> double) \<Rightarrow> (double list \<Rightarrow> double) \<Rightarrow> StackNode list \<Rightarrow> path set \<Rightarrow> path set \<Rightarrow> nat \<Rightarrow> StackNode \<Rightarrow> bool" where
  "rank_ok mpi_sum mpi_max ts0 D Q r t \<longleftrightarrow> tree_ok t \<and> (\<forall>p. info_at p t =
     (if p \<in> D then Some (reduced mpi_sum mpi_max ts0 r p)
      else if p \<in> Q then Some (at_info p (ts0 ! r)) else info_at p (ts0 ! r)))"

definition queue_ok :: "StackNode list \<Rightarrow> path set \<Rightarrow> path list \<Rightarrow> bool" where
  "queue_ok ts0 D q \<longleftrightarrow> distinct q \<and> D \<inter> set q = {} \<and> D \<union> set q \<subseteq> all_paths ts0 \<and> [] \<in> D \<union> set q \<and>
     (\<forall>p k. p \<in> D \<longrightarrow> p @ [k] \<in> all_paths ts0 \<longrightarrow> p @ [k] \<in> D \<union> set q) \<and>
     (\<forall>p k. p @ [k] \<in> D \<union> set q \<longrightarrow> p \<in> D)"

lemma queue_okD:
  assumes "queue_ok ts0 D q"
  shows "distinct q" and "D \<inter> set q = {}" and "D \<union> set q \<subseteq> all_paths ts0" and "[] \<in> D \<union> set q"
    and "p \<in> D \<Longrightarrow> p @ [k] \<in> all_paths ts0 \<Longrightarrow> p @ [k] \<in> D \<union> set q"
    and "p @ [k] \<in> D \<union> set q \<Longrightarrow> p \<in> D"
  using assms unfolding queue_ok_def by blast+

lemma queue_ok_end:
  assumes "queue_ok ts0 D []"
  shows "D = all_paths ts0"
proof -
  note q = queue_okD [OF assms]
  have "p \<in> all_paths ts0 \<Longrightarrow> p \<in> D" for p
  proof (induction p rule: rev_induct)
    case (snoc k p)
    with all_paths_prefix [of p "[k]" ts0] have "p \<in> D" by blast
    from q(5) [OF this snoc.prems] show ?case by (simp only: list.set Un_empty_right)
  qed (use q(4) in simp)
  with q(3) show ?thesis by auto
qed

lemma queue_ok_head:
  assumes "queue_ok ts0 D (p # q)"
  shows "p \<notin> D" and "p \<in> all_paths ts0" and "p \<notin> set q" and "p @ [k] \<notin> D" and "p @ [k] \<notin> set q"
proof -
  note o = queue_okD [OF assms]
  show p: "p \<notin> D" and "p \<in> all_paths ts0" and "p \<notin> set q" using o(1-3) by auto
  then show "p @ [k] \<notin> D" and "p @ [k] \<notin> set q" using o(6) [of p k] by auto
qed

lemma queue_ok_step:
  assumes "queue_ok ts0 D (p # q)" and ks: "set ks = {k. p @ [k] \<in> all_paths ts0}" and "distinct ks"
  shows "queue_ok ts0 (insert p D) (q @ map (\<lambda>k. p @ [k]) ks)"
proof -
  note o = queue_okD [OF assms(1)] and h = queue_ok_head [OF assms(1)]
  have s: "set (q @ map (\<lambda>k. p @ [k]) ks) = set q \<union> {p @ [k] |k. p @ [k] \<in> all_paths ts0}"
    using ks by auto
  have "distinct (map (\<lambda>k. p @ [k]) ks)" using assms(3) by (simp add: distinct_map inj_on_def)
  then have 1: "distinct (q @ map (\<lambda>k. p @ [k]) ks)" using o(1) h(5) by auto
  have 2: "insert p D \<inter> (set q \<union> {p @ [k] |k. p @ [k] \<in> all_paths ts0}) = {}"
    using o(2) h(3,4) by auto
  have 3: "insert p D \<union> (set q \<union> {p @ [k] |k. p @ [k] \<in> all_paths ts0}) \<subseteq> all_paths ts0"
    using o(3) by auto
  have 4: "[] \<in> insert p D \<union> (set q \<union> {p @ [k] |k. p @ [k] \<in> all_paths ts0})"
    using o(4) by auto
  have 5: "s @ [k] \<in> insert p D \<union> (set q \<union> {p @ [k] |k. p @ [k] \<in> all_paths ts0})"
    if "s \<in> insert p D" "s @ [k] \<in> all_paths ts0" for s k
    using that o(5) [of s k] by (cases "s = p") (blast, simp only: insert_iff list.set, blast)
  have 6: "s \<in> insert p D"
    if "s @ [k] \<in> insert p D \<union> (set q \<union> {p @ [k] |k. p @ [k] \<in> all_paths ts0})" for s k
    using that o(6) [of s k] by auto
  show ?thesis unfolding queue_ok_def s
    using 1 2 3 4 5 6 by (intro conjI allI impI)
qed

lemma rank_ok_step:
  assumes ok: "rank_ok mpi_sum mpi_max ts0 D (set (p # q)) r t" and q: "queue_ok ts0 D (p # q)"
    and infos: "is = map (at_info p) ts0"
    and u: "u = update_at p (map_info (reduce_values mpi_sum mpi_max is)) t"
  shows "tree_ok u" and "set (child_names p u) = {k. info_at (p @ [k]) (ts0 ! r) \<noteq> None}" and "distinct (child_names p u)"
    and "set ks \<subseteq> {k. p @ [k] \<in> all_paths ts0} \<Longrightarrow> {k. info_at (p @ [k]) (ts0 ! r) \<noteq> None} \<subseteq> set ks \<Longrightarrow>
      rank_ok mpi_sum mpi_max ts0 (insert p D) (set q \<union> (\<lambda>k. p @ [k]) ` set ks) r (update_at p (add_children ks) u)"
proof -
  have t: "tree_ok t" using ok by (simp add: rank_ok_def)
  show okU: "tree_ok u" unfolding u by (rule tree_ok_update_at) (simp_all add: t)
  note p = queue_ok_head(1,3) [OF q] and new = queue_ok_head(4,5) [OF q]
  have at: "info_at p t = Some (at_info p (ts0 ! r))" using ok p by (simp add: rank_ok_def)
  have U: "info_at s u = (if s \<in> insert p D then Some (reduced mpi_sum mpi_max ts0 r s)
      else if s \<in> set q then Some (at_info s (ts0 ! r)) else info_at s (ts0 ! r))" for s
    using ok p at unfolding u info_at_map_info [OF t] by (auto simp: rank_ok_def reduced_def infos)
  show "set (child_names p u) = {k. info_at (p @ [k]) (ts0 ! r) \<noteq> None}"
    using child_names_set(1) [OF okU] new by (simp add: U)
  show "distinct (child_names p u)" by (rule child_names_set(2) [OF okU])
  assume "set ks \<subseteq> {k. p @ [k] \<in> all_paths ts0}" and sub: "{k. info_at (p @ [k]) (ts0 ! r) \<noteq> None} \<subseteq> set ks"
  have "info_at p u \<noteq> None" by (simp add: U)
  note A = info_at_add_children [OF okU this, of _ ks]
  have "info_at s (update_at p (add_children ks) u) = (if s \<in> insert p D then Some (reduced mpi_sum mpi_max ts0 r s)
      else if s \<in> set q \<union> (\<lambda>k. p @ [k]) ` set ks then Some (at_info s (ts0 ! r)) else info_at s (ts0 ! r))" for s
    unfolding A by (auto simp: U new at_info_info_at split: option.splits)
  moreover have "tree_ok (update_at p (add_children ks) u)"
    by (rule tree_ok_update_at [OF tree_ok_add_children okU])
  ultimately show "rank_ok mpi_sum mpi_max ts0 (insert p D) (set q \<union> (\<lambda>k. p @ [k]) ` set ks) r (update_at p (add_children ks) u)"
    by (simp add: rank_ok_def)
qed

lemma reduce_queue_result:
  assumes "queue_ok ts0 D q" and "length ts = length ts0" and "ts0 \<noteq> []"
    and "\<forall>r < length ts0. rank_ok mpi_sum mpi_max ts0 D (set q) r (ts ! r)"
  shows "\<exists>ts'. reduce_queue mpi_sum mpi_max q ts = Some ts' \<and> length ts' = length ts0 \<and>
    (\<forall>r < length ts0. rank_ok mpi_sum mpi_max ts0 (all_paths ts0) {} r (ts' ! r))"
  using assms(1,2,4)
proof (induction "card (all_paths ts0 - D)" arbitrary: D q ts rule: less_induct)
  case less
  show ?case
  proof (cases q)
    case Nil
    with less.prems queue_ok_end [of ts0 D] show ?thesis by (simp add: reduce_queue.simps)
  next
    case (Cons p q')
    note h = queue_ok_head [OF less.prems(1) [unfolded Cons]]
    let ?R = "\<lambda>D Q r t. rank_ok mpi_sum mpi_max ts0 D Q r t"
    have R: "?R D (set (p # q')) r (ts ! r)" if "r < length ts0" for r
      using less.prems(3) that Cons by blast
    have infos: "map (at_info p) ts = map (at_info p) ts0"
    proof (rule nth_equalityI)
      fix r assume "r < length (map (at_info p) ts)"
      with R [of r] h(1) less.prems(2) show "map (at_info p) ts ! r = map (at_info p) ts0 ! r"
        by (simp add: rank_ok_def at_info_info_at [of p "ts ! r"])
    qed (simp add: less.prems(2))
    define us where "us = map (update_at p (map_info (reduce_values mpi_sum mpi_max (map (at_info p) ts)))) ts"
    define ks where "ks = exchange 0 (map (child_names p) us)"
    have len: "length us = length ts0" by (simp add: us_def less.prems(2))
    have u: "us ! r = update_at p (map_info (reduce_values mpi_sum mpi_max (map (at_info p) ts))) (ts ! r)"
      if "r < length ts0" for r using that less.prems(2) by (simp add: us_def)
    note S = rank_ok_step [OF R less.prems(1) [unfolded Cons] infos u]
    have us: "set us = (!) us ` {..<length ts0}" using len by (auto simp: set_conv_nth)
    have "0 < length (map (child_names p) us)" using assms(3) len by simp
    from exchange_set [OF this] have "set ks = (\<Union>r < length ts0. set (child_names p (us ! r)))"
      unfolding ks_def by (simp add: us image_image)
    also have "\<dots> = (\<Union>r < length ts0. {k. info_at (p @ [k]) (ts0 ! r) \<noteq> None})"
      using S(2) by simp
    also have "\<dots> = {k. p @ [k] \<in> all_paths ts0}"
    proof -
      have "set ts0 = (!) ts0 ` {..<length ts0}" by (auto simp: set_conv_nth)
      then show ?thesis unfolding all_paths_def by auto
    qed
    finally have ks: "set ks = {k. p @ [k] \<in> all_paths ts0}" .
    have "distinct ks" unfolding ks_def
      by (rule exchange_distinct) (use S(3) len in \<open>auto simp: in_set_conv_nth\<close>)
    note q2 = queue_ok_step [OF less.prems(1) [unfolded Cons] ks this]
    let ?ts2 = "map (update_at p (add_children ks)) us"
    have R2: "\<forall>r < length ts0. ?R (insert p D) (set (q' @ map (\<lambda>k. p @ [k]) ks)) r (?ts2 ! r)"
    proof (intro allI impI)
      fix r assume r: "r < length ts0"
      have "{k. info_at (p @ [k]) (ts0 ! r) \<noteq> None} \<subseteq> set ks"
        unfolding ks all_paths_def using r nth_mem by blast
      from S(4) [OF r r equalityD1 [OF ks] this] len r
      show "?R (insert p D) (set (q' @ map (\<lambda>k. p @ [k]) ks)) r (?ts2 ! r)" by simp
    qed
    have "card (all_paths ts0 - insert p D) < card (all_paths ts0 - D)"
      by (rule psubset_card_mono) (use finite_all_paths h(1,2) in auto)
    from less.hyps [OF this q2 _ R2] len obtain ts' where
      "reduce_queue mpi_sum mpi_max (q' @ map (\<lambda>k. p @ [k]) ks) ?ts2 = Some ts'" "length ts' = length ts0"
      "\<forall>r < length ts0. ?R (all_paths ts0) {} r (ts' ! r)" by auto
    moreover have "reduce_step mpi_sum mpi_max p ts = (ks, ?ts2)"
      by (simp add: reduce_step_def Let_def us_def ks_def)
    ultimately show ?thesis
      unfolding Cons by (subst reduce_queue.simps) simp
  qed
qed

lemma reduce_over_mpi_ranks_result:
  assumes "ts \<noteq> []" and "\<forall>t \<in> set ts. tree_ok t"
  shows "\<exists>ts'. reduce_over_mpi_ranks mpi_sum mpi_max ts = Some ts' \<and> length ts' = length ts \<and>
    (\<forall>r < length ts. rank_ok mpi_sum mpi_max ts (all_paths ts) {} r (ts' ! r))"
proof -
  have q: "queue_ok ts {} [[]]" using hd_in_set [OF assms(1)] by (auto simp: queue_ok_def all_paths_def info_at_None)
  have R: "\<forall>r < length ts. rank_ok mpi_sum mpi_max ts {} (set [[]]) r (ts ! r)"
    using assms(2) by (auto simp: rank_ok_def at_info_def)
  from reduce_queue_result [OF q refl assms(1) R] show ?thesis unfolding reduce_over_mpi_ranks_def .
qed

lemma reduce_over_mpi_ranks_values:
  assumes "rank_ok mpi_sum mpi_max ts (all_paths ts) {} r t'" and "r < length ts"
  shows "tree_ok t'" and "node_at p t' \<noteq> None \<longleftrightarrow> (\<exists>t \<in> set ts. node_at p t \<noteq> None)"
    and "node_at p t' \<noteq> None \<Longrightarrow> at_info p t' =
      reduce_values mpi_sum mpi_max (map (at_info p) ts) (at_info p (ts ! r))"
  using assms by (auto simp: rank_ok_def all_paths_def info_at_None [symmetric] at_info_info_at [of p t'] reduced_def)

text \<open>
  C6. The reduction over MPI returns on all ranks, whatever trees they have, and leaves them with trees of
  the same shape: a node at every path that some rank has one at. Every node has, on every rank, the
  sum over all ranks of its time and of its time in Kokkos (a rank that did not have it counts as zero), the largest
  time and the average; the number of calls and of kernel calls stays the rank's own.
\<close>

theorem mpi_reduction_agrees:
  assumes "ts \<noteq> []" and "\<forall>t \<in> set ts. tree_ok t"
  shows "\<exists>ts'. reduce_over_mpi_ranks mpi_sum mpi_max ts = Some ts' \<and> length ts' = length ts \<and>
    (\<forall>r < length ts. tree_ok (ts' ! r) \<and> (\<forall>p.
       (node_at p (ts' ! r) \<noteq> None \<longleftrightarrow> (\<exists>t \<in> set ts. node_at p t \<noteq> None)) \<and>
       (node_at p (ts' ! r) \<noteq> None \<longrightarrow> at_info p (ts' ! r) = (at_info p (ts ! r))
          \<lparr>total_runtime := mpi_sum (map (\<lambda>t. total_runtime (at_info p t)) ts),
           total_kokkos_runtime := mpi_sum (map (\<lambda>t. total_kokkos_runtime (at_info p t)) ts),
           max_runtime := mpi_max (map (\<lambda>t. total_runtime (at_info p t)) ts),
           avg_runtime := ddiv (mpi_sum (map (\<lambda>t. total_runtime (at_info p t)) ts)) (d_of_nat (length ts))\<rparr>)))"
proof -
  from reduce_over_mpi_ranks_result [OF assms] obtain ts' where
    ts': "reduce_over_mpi_ranks mpi_sum mpi_max ts = Some ts'" "length ts' = length ts"
    and R: "\<And>r. r < length ts \<Longrightarrow> rank_ok mpi_sum mpi_max ts (all_paths ts) {} r (ts' ! r)" by blast
  let ?v = "\<lambda>p. reduce_values mpi_sum mpi_max (map (at_info p) ts)"
  have "tree_ok (ts' ! r) \<and> (\<forall>p. (node_at p (ts' ! r) \<noteq> None \<longleftrightarrow> (\<exists>t \<in> set ts. node_at p t \<noteq> None)) \<and>
      (node_at p (ts' ! r) \<noteq> None \<longrightarrow> at_info p (ts' ! r) = ?v p (at_info p (ts ! r))))" if "r < length ts" for r
    using reduce_over_mpi_ranks_values [OF R [OF that] that] by blast
  with ts' have "\<exists>ts'. reduce_over_mpi_ranks mpi_sum mpi_max ts = Some ts' \<and> length ts' = length ts \<and>
    (\<forall>r < length ts. tree_ok (ts' ! r) \<and> (\<forall>p. (node_at p (ts' ! r) \<noteq> None \<longleftrightarrow> (\<exists>t \<in> set ts. node_at p t \<noteq> None)) \<and>
      (node_at p (ts' ! r) \<noteq> None \<longrightarrow> at_info p (ts' ! r) = ?v p (at_info p (ts ! r)))))" by blast
  moreover have "?v p i = i\<lparr>total_runtime := mpi_sum (map (\<lambda>t. total_runtime (at_info p t)) ts),
      total_kokkos_runtime := mpi_sum (map (\<lambda>t. total_kokkos_runtime (at_info p t)) ts),
      max_runtime := mpi_max (map (\<lambda>t. total_runtime (at_info p t)) ts),
      avg_runtime := ddiv (mpi_sum (map (\<lambda>t. total_runtime (at_info p t)) ts)) (d_of_nat (length ts))\<rparr>" for p i
    by (simp add: reduce_values_def o_def)
  ultimately show ?thesis by (simp only:)
qed

theorem mpi_reduction_agrees_witness:
  "\<exists>ts'. reduce_over_mpi_ranks (\<lambda>ds. foldl dadd d_zero ds) hd [ensure_child (STACK_FOR, ''k'') new_node, new_node] = Some ts'
    \<and> node_at [(STACK_FOR, ''k'')] (ts' ! 1) \<noteq> None"
proof -
  let ?ts = "[ensure_child (STACK_FOR, ''k'') new_node, new_node]"
  have ok: "\<forall>t \<in> set ?ts. tree_ok t" by simp
  have "node_at [(STACK_FOR, ''k'')] (?ts ! 0) \<noteq> None" by (simp add: get_child_ensure)
  then have "\<exists>t \<in> set ?ts. node_at [(STACK_FOR, ''k'')] t \<noteq> None" by simp
  moreover have "?ts \<noteq> []" and "1 < length ?ts" by simp_all
  ultimately show ?thesis
    using mpi_reduction_agrees [OF \<open>?ts \<noteq> []\<close> ok, of "\<lambda>ds. foldl dadd d_zero ds" hd] by blast
qed

section \<open>The two reports\<close>

text \<open>Ranks that have the same tree have the same tree after the reduction.\<close>

lemma reduce_queue_replicate:
  assumes "reduce_queue mpi_sum mpi_max q (replicate n t) = Some y"
  shows "\<exists>u. y = replicate n u"
proof -
  have "\<forall>t. replicate n t' = replicate n t \<longrightarrow> (\<exists>u. y = replicate n u)" if "t' = t" for t'
  proof (rule reduce_queue.raw_induct [where P = "\<lambda>mpi_sum mpi_max q ts y. \<forall>t. ts = replicate n t \<longrightarrow> (\<exists>u. y = replicate n u)"])
    fix rq mpi_sum mpi_max q ts y
    assume IH: "\<And>mpi_sum mpi_max q ts y. rq mpi_sum mpi_max q ts = Some y \<Longrightarrow>
        \<forall>t. ts = replicate n t \<longrightarrow> (\<exists>u. y = replicate n u)"
      and y: "(case q of [] \<Rightarrow> Some ts
        | p # q \<Rightarrow> (case reduce_step mpi_sum mpi_max p ts of (ks, ts) \<Rightarrow>
            rq mpi_sum mpi_max (q @ map (\<lambda>k. p @ [k]) ks) ts)) = Some y"
    show "\<forall>t. ts = replicate n t \<longrightarrow> (\<exists>u. y = replicate n u)"
    proof (intro allI impI)
      fix t assume ts: "ts = replicate n t"
      show "\<exists>u. y = replicate n u"
      proof (cases q)
        case Nil
        with y ts show ?thesis by auto
      next
        case (Cons p q')
        have "\<exists>u. snd (reduce_step mpi_sum mpi_max p ts) = replicate n u"
          unfolding ts by (auto simp: reduce_step_def Let_def)
        then obtain ks u where "reduce_step mpi_sum mpi_max p ts = (ks, replicate n u)"
          by (metis prod.collapse)
        with y Cons IH show ?thesis by simp
      qed
    qed
  qed (use assms that in simp)
  then show ?thesis by blast
qed

lemma tree_ok_invert: "tree_ok (invert t)"
  unfolding invert_def using invert_queue_fold [of "[([root_key], t)]" new_node] add_nodes_ok [OF tree_ok_new]
  by metis

lemma reduce_same_trees:
  assumes "0 < n" and "tree_ok t"
  shows "\<exists>u. reduce_over_mpi_ranks mpi_sum mpi_max (replicate n t) = Some (replicate n u) \<and>
    tree_ok u \<and> tree_paths u = tree_paths t \<and>
    (\<forall>p \<in> tree_paths t.
      total_runtime (at_info p u) = mpi_sum (replicate n (total_runtime (at_info p t))) \<and>
      avg_runtime (at_info p u) = ddiv (mpi_sum (replicate n (total_runtime (at_info p t)))) (d_of_nat n))"
proof -
  have "replicate n t \<noteq> []" and "\<forall>t' \<in> set (replicate n t). tree_ok t'" using assms by simp_all
  from reduce_over_mpi_ranks_result [OF this, of mpi_sum mpi_max] obtain ts' where
    ts': "reduce_over_mpi_ranks mpi_sum mpi_max (replicate n t) = Some ts'" and len: "length ts' = n"
    and R: "rank_ok mpi_sum mpi_max (replicate n t) (all_paths (replicate n t)) {} 0 (ts' ! 0)"
    using assms(1) by auto
  have "0 < length (replicate n t)" using assms(1) by simp
  note vals = reduce_over_mpi_ranks_values [OF R this]
  have all: "total_runtime (at_info p (ts' ! 0)) = mpi_sum (replicate n (total_runtime (at_info p t))) \<and>
      avg_runtime (at_info p (ts' ! 0)) = ddiv (mpi_sum (replicate n (total_runtime (at_info p t)))) (d_of_nat n)"
    if "p \<in> tree_paths t" for p
    using vals(2,3) [of p] that assms(1) by (auto simp: reduce_values_def map_replicate tree_paths_def)
  have paths: "tree_paths (ts' ! 0) = tree_paths t"
    using vals(2) assms(1) by (simp add: tree_paths_def del: not_None_eq)
  from reduce_queue_replicate [OF ts' [unfolded reduce_over_mpi_ranks_def]] len obtain u where
    "ts' = replicate n u" by auto
  with ts' all paths vals(1) assms(1) show ?thesis by auto
qed

lemma d_of_nat_mult_div:
  assumes "n * k < 2 ^ 53" and "n < 2 ^ 53" and "0 < n"
  shows "ddiv (d_of_nat (n * k)) (d_of_nat n) = d_of_nat k"
  using ddiv_d_of_nat [OF assms(1,2)] assms(3) by (simp add: d_of_nat_def)

text \<open>
  On equal trees with times in whole seconds, the reduction multiplies every time and averages back.
\<close>

lemma reduce_whole_seconds:
  assumes "0 < n" and "n < 2 ^ 53" and "tree_ok t"
    and sec: "\<And>p. p \<in> tree_paths t \<Longrightarrow> total_runtime (at_info p t) = d_of_nat (g p) \<and> n * g p < 2 ^ 53"
    and sum: "\<And>k. n * k < 2 ^ 53 \<Longrightarrow> mpi_sum (replicate n (d_of_nat k)) = d_of_nat (n * k)"
  shows "\<exists>u. reduce_over_mpi_ranks mpi_sum mpi_max (replicate n t) = Some (replicate n u) \<and>
    tree_ok u \<and> tree_paths u = tree_paths t \<and>
    (\<forall>p \<in> tree_paths t. total_runtime (at_info p u) = d_of_nat (n * g p) \<and> avg_runtime (at_info p u) = d_of_nat (g p))"
proof -
  from reduce_same_trees [OF assms(1,3), of mpi_sum mpi_max] obtain u where
    u: "reduce_over_mpi_ranks mpi_sum mpi_max (replicate n t) = Some (replicate n u)" "tree_ok u"
      "tree_paths u = tree_paths t"
    and vals: "\<And>p. p \<in> tree_paths t \<Longrightarrow> total_runtime (at_info p u) = mpi_sum (replicate n (total_runtime (at_info p t))) \<and>
      avg_runtime (at_info p u) = ddiv (mpi_sum (replicate n (total_runtime (at_info p t)))) (d_of_nat n)" by blast
  have "total_runtime (at_info p u) = d_of_nat (n * g p) \<and> avg_runtime (at_info p u) = d_of_nat (g p)"
    if "p \<in> tree_paths t" for p
    using vals [OF that] sec [OF that] sum [of "g p"] d_of_nat_mult_div [OF _ assms(2,1), of "g p"] by simp
  with u show ?thesis by blast
qed

lemma in_seconds_scaled:
  assumes "in_seconds f t" and "tree_paths u = tree_paths t"
    and "\<And>p. p \<in> tree_paths t \<Longrightarrow> total_runtime (at_info p u) = d_of_nat (n * f p)"
  shows "in_seconds (\<lambda>p. n * f p) u"
  using assms by (simp add: in_seconds_def sum_distrib_left [symmetric])

text \<open>
  C34. The bottom-up report sums over the ranks twice. Take \<open>n\<close> ranks with the same tree, whose times are
  whole numbers of seconds (a node's children together have no more than the node, and the root's
  time, multiplied by \<open>n\<close> twice, is below \<open>2 ^ 53\<close>), and a summation that is exact on whole numbers. The
  top-down report shows at every node, as the average, the time one rank spent there. The bottom-up
  tree is built on every rank from the totals of all ranks and then reduced in the same way: it has
  the nodes of the bottom-up tree of one rank alone, and what it shows as the average at each of them
  is \<open>n\<close> times what that rank spent there.
\<close>

theorem bottom_up_sums_twice:
  assumes "0 < n" and "n < 2 ^ 53" and "tree_ok t" and "in_seconds f t" and "n * (n * f []) < 2 ^ 53"
    and sum: "\<And>k. n * k < 2 ^ 53 \<Longrightarrow> mpi_sum (replicate n (d_of_nat k)) = d_of_nat (n * k)"
  shows "\<exists>u v. reduce_over_mpi_ranks mpi_sum mpi_max (replicate n t) = Some (replicate n u)
    \<and> reduce_over_mpi_ranks mpi_sum mpi_max (replicate n (invert u)) = Some (replicate n v)
    \<and> (\<forall>p. node_at p t \<noteq> None \<longrightarrow> avg_runtime (at_info p u) = total_runtime (at_info p t))
    \<and> (\<forall>p. node_at p v \<noteq> None \<longleftrightarrow> node_at p (invert t) \<noteq> None)
    \<and> (\<forall>p. node_at p (invert t) \<noteq> None \<longrightarrow> (\<exists>m. n * m < 2 ^ 53
        \<and> total_runtime (at_info p (invert t)) = d_of_nat m \<and> avg_runtime (at_info p v) = d_of_nat (n * m)))"
proof -
  let ?P = "tree_paths t"
  have root: "f [] < 2 ^ 53" "n * f [] < 2 ^ 53"
    using assms(1,5) le_less_trans [of "n * f []" "n * (n * f [])"] le_less_trans [of "f []" "n * (n * f [])"] by simp_all
  have f: "total_runtime (at_info p t) = d_of_nat (f p) \<and> n * f p < 2 ^ 53" if "p \<in> ?P" for p
    using le_less_trans [OF mult_le_mono2 [OF in_seconds_le_root [OF assms(3,4) that]] root(2)] assms(4) that
    by (simp add: in_seconds_def)
  from reduce_whole_seconds [where mpi_max = mpi_max, OF assms(1-3) f sum] obtain u where
    u: "reduce_over_mpi_ranks mpi_sum mpi_max (replicate n t) = Some (replicate n u)"
      "tree_ok u" "tree_paths u = ?P"
      "\<And>p. p \<in> ?P \<Longrightarrow> total_runtime (at_info p u) = d_of_nat (n * f p) \<and> avg_runtime (at_info p u) = d_of_nat (f p)"
    by blast
  have uf: "in_seconds (\<lambda>p. n * f p) u" using in_seconds_scaled [OF assms(4) u(3)] u(4) by blast
  let ?m = "called_from f ?P"
  have inv: "total_runtime (at_info p (invert t)) = d_of_nat (?m p)" for p
    using invert_seconds [OF assms(3,4) root(1)] .
  have inv_u: "total_runtime (at_info p (invert u)) = d_of_nat (n * ?m p)" for p
    using invert_seconds [OF u(2) uf root(2), of p] unfolding u(3) called_from_scaled .
  have lt: "n * (n * ?m p) < 2 ^ 53" for p
    using mult_le_mono2 [OF mult_le_mono2 [OF called_from_le [OF assms(3,4)]]] assms(5) by (rule le_less_trans)
  have paths: "tree_paths (invert u) = tree_paths (invert t)"
    by (rule set_eqI) (simp only: tree_paths_invert [OF assms(3)] tree_paths_invert [OF u(2)] u(3))
  have iu: "total_runtime (at_info p (invert u)) = d_of_nat (n * ?m p) \<and> n * (n * ?m p) < 2 ^ 53"
    if "p \<in> tree_paths (invert u)" for p using inv_u lt by blast
  from reduce_whole_seconds [where mpi_max = mpi_max, OF assms(1,2) tree_ok_invert iu sum, unfolded paths] obtain v where
    v: "reduce_over_mpi_ranks mpi_sum mpi_max (replicate n (invert u)) = Some (replicate n v)"
      "tree_paths v = tree_paths (invert t)"
      "\<And>p. p \<in> tree_paths (invert t) \<Longrightarrow> avg_runtime (at_info p v) = d_of_nat (n * ?m p)"
    by blast
  have "n * ?m p < 2 ^ 53" for p
    using lt [of p] assms(1) le_less_trans [of "n * ?m p" "n * (n * ?m p)"] by simp
  then have "\<exists>m. n * m < 2 ^ 53 \<and> total_runtime (at_info p (invert t)) = d_of_nat m \<and> avg_runtime (at_info p v) = d_of_nat (n * m)"
    if "p \<in> tree_paths (invert t)" for p using inv v(3) [OF that] by blast
  moreover have "avg_runtime (at_info p u) = total_runtime (at_info p t)" if "p \<in> ?P" for p
    using u(4) [OF that] f [OF that] by simp
  moreover have "node_at p v \<noteq> None \<longleftrightarrow> node_at p (invert t) \<noteq> None" for p
    using v(2) by (auto simp: tree_paths_def)
  ultimately show ?thesis using u(1) v(1) unfolding tree_paths_def by blast
qed

text \<open>Two ranks that both spent five seconds, three of them in a kernel.\<close>

definition two_nodes :: StackNode where
  "two_nodes = StackNode (new_info\<lparr>total_runtime := d_of_nat 5\<rparr>)
     [((STACK_FOR, ''k''), StackNode (new_info\<lparr>total_runtime := d_of_nat 3\<rparr>) [])]"

lemma two_nodes_ok: "tree_ok two_nodes"
  by (simp add: two_nodes_def tree_ok_StackNode)

lemma two_nodes_child: "get_child k two_nodes =
    (if k = (STACK_FOR, ''k'') then Some (StackNode (new_info\<lparr>total_runtime := d_of_nat 3\<rparr>) []) else None)"
  using get_child_map_of [OF two_nodes_ok, of k] by (simp add: two_nodes_def)

lemma get_child_none: "get_child k (StackNode i []) = None"
  by (simp add: get_child_def)

lemma two_nodes_paths: "tree_paths two_nodes = {[], [(STACK_FOR, ''k'')]}"
proof (rule set_eqI)
  show "p \<in> tree_paths two_nodes \<longleftrightarrow> p \<in> {[], [(STACK_FOR, ''k'')]}" for p
    by (cases p; cases "tl p") (auto simp: tree_paths_def two_nodes_child get_child_none)
qed

lemma two_nodes_seconds: "in_seconds (\<lambda>p. if p = [] then 5 else 3) two_nodes"
  by (simp add: in_seconds_def two_nodes_paths at_info_def two_nodes_child) (simp add: two_nodes_def)

lemma two_nodes_invert:
  "[(STACK_FOR, ''k'')] \<in> tree_paths (invert two_nodes)"
  "total_runtime (at_info [(STACK_FOR, ''k'')] (invert two_nodes)) = d_of_nat 3"
proof -
  show "[(STACK_FOR, ''k'')] \<in> tree_paths (invert two_nodes)"
    by (simp add: tree_paths_invert [OF two_nodes_ok] two_nodes_paths)
  have "called_from (\<lambda>p. if p = [] then 5 else 3) (tree_paths two_nodes) [(STACK_FOR, ''k'')] = 3"
    by (simp add: called_from_def own_def two_nodes_paths root_key_def)
  then show "total_runtime (at_info [(STACK_FOR, ''k'')] (invert two_nodes)) = d_of_nat 3"
    using invert_seconds [OF two_nodes_ok two_nodes_seconds] by simp
qed

theorem bottom_up_sums_twice_witness:
  "\<exists>u v. reduce_over_mpi_ranks (\<lambda>ds. foldl dadd (d_of_nat 0) ds) hd (replicate 2 two_nodes) = Some (replicate 2 u)
    \<and> reduce_over_mpi_ranks (\<lambda>ds. foldl dadd (d_of_nat 0) ds) hd (replicate 2 (invert u)) = Some (replicate 2 v)
    \<and> avg_runtime (at_info [(STACK_FOR, ''k'')] u) = d_of_nat 3
    \<and> avg_runtime (at_info [(STACK_FOR, ''k'')] v) = d_of_nat 6"
proof -
  let ?k = "[(STACK_FOR, ''k'')]"
  have sum: "foldl dadd (d_of_nat 0) (replicate 2 (d_of_nat k)) = d_of_nat (2 * k)" if "2 * k < 2 ^ 53" for k
    using that by (simp add: numeral_2_eq_2 dadd_d_of_nat)
  have k: "node_at ?k two_nodes \<noteq> None" "total_runtime (at_info ?k two_nodes) = d_of_nat 3"
    by (simp_all add: two_nodes_child at_info_def)
  from bottom_up_sums_twice [where mpi_max = hd, OF _ _ two_nodes_ok two_nodes_seconds _ sum]
  obtain u v where
    uv: "reduce_over_mpi_ranks (\<lambda>ds. foldl dadd (d_of_nat 0) ds) hd (replicate 2 two_nodes) = Some (replicate 2 u)"
      "reduce_over_mpi_ranks (\<lambda>ds. foldl dadd (d_of_nat 0) ds) hd (replicate 2 (invert u)) = Some (replicate 2 v)"
    and u: "avg_runtime (at_info ?k u) = total_runtime (at_info ?k two_nodes)"
    and v: "\<exists>m. 2 * m < 2 ^ 53 \<and> total_runtime (at_info ?k (invert two_nodes)) = d_of_nat m
      \<and> avg_runtime (at_info ?k v) = d_of_nat (2 * m)"
    using k(1) two_nodes_invert(1) by (auto simp: tree_paths_def)
  from v two_nodes_invert(2) obtain m where m: "2 * m < 2 ^ 53" "d_of_nat m = d_of_nat 3"
    "avg_runtime (at_info ?k v) = d_of_nat (2 * m)" by auto
  have "m = 3" using m(1) by (intro d_of_nat_inject [OF _ _ m(2)]) simp_all
  with uv u k(2) m(3) show ?thesis by (intro exI [of _ u] exI [of _ v]) simp
qed

section \<open>Which rank's allocations are printed\<close>

text \<open>
  The largest total over the ranks, and the smallest rank that has it; a rank that does not have it
  contributes the number of ranks.
\<close>

definition max_total_size :: "u64 list \<Rightarrow> u64" where
  "max_total_size sizes = fold max sizes 0"

definition min_max_rank :: "u64 list \<Rightarrow> nat" where
  "min_max_rank sizes = fold min (map (\<lambda>r. if max_total_size sizes = sizes ! r then r else length sizes)
     [0..<length sizes]) (length sizes)"

text \<open>What rank 0 prints: the text of that rank, sent to it.\<close>

definition print_allocations_mpi :: "Allocations list \<Rightarrow> token list outcome" where
  "print_allocations_mpi as =
     (let r = min_max_rank (map total_size as) in
      if r < length as then
        (case alloc_lines (total_size (as ! r)) (alloc_set (as ! r)) of Inl x \<Rightarrow> Inl x
         | Inr ls \<Rightarrow> Inr ([Txt ''MAX MEMORY ALLOCATED: '',
             Num ''%.1f'' (ddiv (d_of_nat (unat (total_size (as ! r)))) (d_of_nat 1024)), Txt ('' kB'' @ eol),
             Txt (''MPI RANK WITH MAX MEMORY: '' @ dec_nat r @ eol),
             Txt (''ALLOCATIONS AT TIME OF HIGH WATER MARK:'' @ eol)] @ ls @ [Txt eol]))
      else Inl Abort)"

lemma max_total_size_member:
  assumes "sizes \<noteq> []"
  shows "max_total_size sizes \<in> set sizes" and "\<forall>x \<in> set sizes. x \<le> max_total_size sizes"
proof -
  have m: "max_total_size sizes = Max (insert 0 (set sizes))"
    unfolding max_total_size_def using Max.set_eq_fold [of 0 sizes] by simp
  then show "\<forall>x \<in> set sizes. x \<le> max_total_size sizes" by simp
  have "Max (insert 0 (set sizes)) \<in> insert 0 (set sizes)" by (rule Max_in) simp_all
  moreover obtain x where "x \<in> set sizes" using assms by (meson hd_in_set)
  moreover have "x \<le> Max (insert 0 (set sizes))" if "x \<in> set sizes" for x using that by simp
  ultimately show "max_total_size sizes \<in> set sizes" using m by (metis insertE word_le_0_iff)
qed

text \<open>
  The assertion holds with any number of ranks: the rank chosen exists, no rank has more bytes than it,
  and no smaller rank has as many.
\<close>

lemma min_max_rank_prints:
  assumes "as \<noteq> []"
  shows "min_max_rank (map total_size as) < length as
    \<and> (\<forall>a \<in> set as. total_size a \<le> total_size (as ! min_max_rank (map total_size as)))
    \<and> (\<forall>r < min_max_rank (map total_size as). total_size (as ! r) < total_size (as ! min_max_rank (map total_size as)))"
proof -
  let ?sizes = "map total_size as"
  let ?m = "max_total_size ?sizes"
  let ?f = "\<lambda>r. if ?m = ?sizes ! r then r else length ?sizes"
  let ?r = "min_max_rank ?sizes"
  have r: "?r = Min (insert (length ?sizes) (set (map ?f [0..<length ?sizes])))"
    unfolding min_max_rank_def by (rule fold_min)
  have le: "?r \<le> ?f i" if "i < length as" for i unfolding r by (rule Min_le) (use that in auto)
  obtain i where i: "i < length as" "?sizes ! i = ?m"
    using max_total_size_member(1) [of ?sizes] assms by (metis in_set_conv_nth length_map list.map_disc_iff)
  with le [of i] have lt: "?r < length as" by simp
  have "?r \<in> insert (length ?sizes) (set (map ?f [0..<length ?sizes]))" unfolding r by (rule Min_in) simp_all
  then obtain j where "j < length as" "?r = ?f j" using lt by (auto split: if_splits)
  then have top: "total_size (as ! ?r) = ?m" using lt by (auto split: if_splits)
  have max: "\<forall>a \<in> set as. total_size a \<le> ?m" using max_total_size_member(2) [of ?sizes] assms by simp
  have "total_size (as ! k) < ?m" if "k < ?r" for k
  proof -
    have "total_size (as ! k) \<noteq> ?m" using le [of k] that lt by auto
    moreover have "total_size (as ! k) \<le> ?m" using max that lt by (simp add: nth_mem)
    ultimately show ?thesis by (rule order.not_eq_order_implies_strict)
  qed
  with lt top max show ?thesis by simp
qed

section \<open>The process high-water mark\<close>

text \<open>
  \<open>print_process_hwm\<close> on one rank; \<open>reduce\<close> is \<open>MPI_Reduce\<close> to rank 0, which leaves the variables of the other
  ranks as they are: the average has no value there and is divided all the same.
\<close>

definition print_process_hwm_mpi :: "(mpi_op \<Rightarrow> int \<Rightarrow> int option) \<Rightarrow> int \<Rightarrow> int \<Rightarrow> int \<Rightarrow> token list outcome" where
  "print_process_hwm_mpi reduce rank world_size hwm =
     (case reduce MPI_SUM hwm of
        None \<Rightarrow> Inl (Undefined ''hwm_ave is indeterminate'')
      | Some hwm_sum \<Rightarrow> (let hwm_ave = tdiv hwm_sum world_size in
          Inr (if rank = 0 then
            [Txt (''Host process high water mark memory consumption: '' @ dec_int (the (reduce MPI_MAX hwm)) @ '' kB'' @ eol),
             Txt (''  Max: '' @ dec_int (the (reduce MPI_MAX hwm)) @ '', Min: '' @ dec_int (the (reduce MPI_MIN hwm))
               @ '', Ave: '' @ dec_int hwm_ave @ '' kB'' @ eol), Txt eol]
            else [])))"

section \<open>The report of all ranks\<close>

text \<open>Each rank ends its root and adopts the totals before the ranks meet; \<open>abort()\<close> on one ends the job.\<close>

fun adopt_ranks :: "(int \<times> State) list \<Rightarrow> StackNode list outcome" where
  "adopt_ranks [] = Inr []"
| "adopt_ranks ((end_time, s) # ss) =
     (case stack_frame s of
        None \<Rightarrow> Inl null_frame
      | Some p \<Rightarrow>
          if p \<noteq> [] then Inl Abort
          else obind (adopt STACK_REGION (map_info (node_end end_time) (stack_root s))) (\<lambda>t.
            obind (adopt_ranks ss) (\<lambda>ts. Inr (t # ts))))"

fun print_spaces_mpi :: "(Space \<Rightarrow> Allocations) list \<Rightarrow> Space list \<Rightarrow> token list outcome" where
  "print_spaces_mpi hwms [] = Inr []"
| "print_spaces_mpi hwms (sp # sps) =
     obind (print_allocations_mpi (map (\<lambda>hwm. hwm sp) hwms)) (\<lambda>ts.
     obind (print_spaces_mpi hwms sps) (\<lambda>us.
       Inr ([Txt (''KOKKOS '' @ get_space_name sp @ '' SPACE:'' @ eol),
         Txt (''=================== '' @ eol)] @ ts @ us)))"

text \<open>
  \<open>~State\<close> with MPI: what rank 0 writes; \<open>None\<close> would be a reduction that does not end. \<open>reduce\<close> and \<open>hwm\<close>
  are those of rank 0.
\<close>

definition delete_State_mpi ::
  "(double list \<Rightarrow> double) \<Rightarrow> (double list \<Rightarrow> double) \<Rightarrow> (mpi_op \<Rightarrow> int \<Rightarrow> int option) \<Rightarrow> report_options \<Rightarrow>
    (int \<times> State) list \<Rightarrow> report outcome option" where
  "delete_State_mpi mpi_sum mpi_max reduce opt ranks =
     (let comm_size = length ranks in
      case adopt_ranks ranks of
        Inl x \<Rightarrow> Some (Inl x)
      | Inr roots \<Rightarrow>
          (case reduce_over_mpi_ranks mpi_sum mpi_max roots of
             None \<Rightarrow> None
           | Some top_down \<Rightarrow>
               if ro_json opt
               then Some (Inr (Noname_json
                 (print_json comm_size (ro_threshold opt) (ro_addr opt) (ro_add_comma opt) (top_down ! 0))))
               else
                 (case reduce_over_mpi_ranks mpi_sum mpi_max (map invert top_down) of
                    None \<Rightarrow> None
                  | Some bottom_up \<Rightarrow> Some (
                      obind (print_spaces_mpi (map (\<lambda>(e, s). hwm_allocations s) ranks) all_spaces) (\<lambda>spaces.
                      obind (print_process_hwm_mpi reduce 0 (int comm_size) (ro_maxrss opt)) (\<lambda>hwm.
                      Inr (Stdout (
                        [Txt (eol @ ''BEGIN KOKKOS PROFILING REPORT:'' @ eol), Txt ''TOTAL TIME: '',
                         Num ''<<'' (max_runtime (node_info (top_down ! 0))), Txt ('' seconds'' @ eol),
                         Txt (''TOP-DOWN TIME TREE:'' @ eol),
                         Txt (tree_header @ ''Kokkos> <percent MPI imbalance> <remainder> <kernels per ''
                           @ ''second> <number of calls> <name> [type]'' @ eol),
                         Txt (''=================== '' @ eol)]
                        @ print_tree comm_size (ro_threshold opt) (top_down ! 0)
                        @ [Txt (''BOTTOM-UP TIME TREE:'' @ eol),
                           Txt (tree_header @ ''Kokkos> <percent MPI imbalance> <number of calls> <name> [type]'' @ eol),
                           Txt (''=================== '' @ eol)]
                        @ print_tree comm_size (ro_threshold opt) (bottom_up ! 0)
                        @ spaces @ hwm
                        @ [Txt (''END KOKKOS PROFILING REPORT.'' @ eol)]))))))))"

lemma adopt_ok:
  "adopt kind t = Inr t' \<Longrightarrow> tree_ok t \<Longrightarrow> tree_ok t'"
  "adopt_children i cs = Inr (i', cs') \<Longrightarrow> \<forall>c \<in> snd ` set cs. tree_ok c \<Longrightarrow>
    map fst cs' = map fst cs \<and> (\<forall>c \<in> snd ` set cs'. tree_ok c)"
proof (induction kind t and i cs arbitrary: t' and i' cs' rule: adopt_adopt_children.induct)
  case (1 kind i cs)
  from "1.prems"(1) obtain i2 cs2 where
    a: "adopt_children (if kind \<noteq> STACK_REGION then i\<lparr>total_kokkos_runtime := dadd (total_kokkos_runtime i) (total_runtime i)\<rparr> else i) cs = Inr (i2, cs2)"
    and t': "t' = StackNode i2 cs2" by (auto simp: Let_def split: sum.splits if_splits)
  have "\<forall>c \<in> snd ` set cs. tree_ok c" using "1.prems"(2) unfolding tree_ok_StackNode by (rule conjunct2)
  from "1.IH" [OF refl a this] "1.prems"(2) t' show ?case by (simp add: tree_ok_StackNode om_sorted_def)
next
  case (3 i k c cs)
  from "3.prems"(1) obtain c2 i2 cs2 where c2: "adopt (fst k) c = Inr c2"
    and a: "adopt_children (i\<lparr>total_kokkos_runtime := dadd (total_kokkos_runtime i) (total_kokkos_runtime (node_info c2)),
        total_number_of_kernel_calls := total_number_of_kernel_calls i + total_number_of_kernel_calls (node_info c2)\<rparr>) cs = Inr (i2, cs2)"
    and r: "i' = i2" "cs' = (k, c2) # cs2" by (auto split: sum.splits)
  have "tree_ok c" "\<forall>c \<in> snd ` set cs. tree_ok c" using "3.prems"(2) by simp_all
  with "3.IH"(1) [OF c2] "3.IH"(2) [OF c2 a] r show ?case by simp
qed simp

lemma adopt_ranks_complete:
  assumes "\<forall>(e, s) \<in> set ranks. stack_frame s = Some [] \<and> tree_ok (stack_root s) \<and> infos_ok (timed e) (stack_root s)"
  shows "\<exists>roots. adopt_ranks ranks = Inr roots \<and> length roots = length ranks \<and> (\<forall>t \<in> set roots. tree_ok t)"
  using assms
proof (induction ranks rule: adopt_ranks.induct)
  case (2 e s ss)
  from "2.prems" have s: "stack_frame s = Some []" "tree_ok (stack_root s)" "infos_ok (timed e) (stack_root s)" by auto
  from adopt_ended_root [OF s(3)] obtain t where
    t: "adopt STACK_REGION (map_info (node_end e) (stack_root s)) = Inr t" by blast
  have "tree_ok t" by (rule adopt_ok(1) [OF t]) (simp add: s)
  with 2 s t show ?case by auto
qed simp

text \<open>
  When every rank's run was complete, the reductions return and nothing aborts before the allocations are
  printed: the job writes its JSON file, or comes to print the high-water marks of rank 0.
\<close>

lemma delete_State_mpi_returns:
  assumes "ranks \<noteq> []"
    and "\<forall>(e, s) \<in> set ranks. stack_frame s = Some [] \<and> tree_ok (stack_root s) \<and> infos_ok (timed e) (stack_root s)"
  shows "\<exists>rep. delete_State_mpi mpi_sum mpi_max reduce opt ranks = Some rep \<and>
    (ro_json opt \<longrightarrow> (\<exists>ts. rep = Inr (Noname_json ts)))"
proof -
  from adopt_ranks_complete [OF assms(2)] obtain roots where
    r: "adopt_ranks ranks = Inr roots" "length roots = length ranks" "\<forall>t \<in> set roots. tree_ok t" by blast
  then have "roots \<noteq> []" using assms(1) by auto
  from reduce_over_mpi_ranks_result [OF this r(3)] obtain ts where
    ts: "reduce_over_mpi_ranks mpi_sum mpi_max roots = Some ts" "length ts = length roots" by blast
  then have "map invert ts \<noteq> []" using \<open>roots \<noteq> []\<close> by auto
  from reduce_over_mpi_ranks_result [OF this, of mpi_sum mpi_max] obtain bs where
    "reduce_over_mpi_ranks mpi_sum mpi_max (map invert ts) = Some bs" by (auto simp: tree_ok_invert)
  with r(1) ts(1) show ?thesis
    by (cases "ro_json opt") (simp_all add: delete_State_mpi_def Let_def)
qed

end
