(* ===== verification/Child_Library.thy ===== *)
theory Child_Library
  imports Interface
begin

text \<open>
  The library a tool loads behind itself (\<open>kp_sampler_skip.cpp\<close> and \<open>kp_kernel_filter.cpp\<close>): the
  next name in \<open>KOKKOS_TOOLS_LIBS\<close>, opened with \<open>dlopen\<close>, and the function pointers \<open>dlsym\<close>
  finds in it. The child's code is a parameter. Its functions act on a world of type \<open>'w\<close>, which
  holds everything outside the loading tool: the child's own state and the Kokkos runtime.
\<close>

text \<open>
  The function pointers, \<open>None\<close> for \<open>NULL\<close>. A begin function is given the name (\<open>None\<close> for a null
  pointer), the device and the value \<open>*kID\<close> has before the call, and gives the value after it.
\<close>

record 'w child =
  ch_begin :: "pkind \<Rightarrow> (string option \<Rightarrow> u32 \<Rightarrow> u64 \<Rightarrow> 'w \<Rightarrow> (u64 \<times> 'w) outcome) option"
  ch_end :: "pkind \<Rightarrow> (u64 \<Rightarrow> 'w \<Rightarrow> 'w outcome) option"
  ch_init :: "(int \<Rightarrow> u64 \<Rightarrow> u32 \<Rightarrow> u64 \<Rightarrow> 'w \<Rightarrow> 'w outcome) option"
  ch_finalize :: "('w \<Rightarrow> 'w outcome) option"

definition no_child :: "'w child" where
  "no_child = \<lparr>ch_begin = (\<lambda>k. None), ch_end = (\<lambda>k. None), ch_init = None, ch_finalize = None\<rparr>"

text \<open>
  The tool loaded as number \<open>loadSeq\<close> takes the name after its own: \<open>strtok\<close> is called once with
  the list, once for each turn of the loop and once more.
\<close>

definition next_library :: "int \<Rightarrow> string \<Rightarrow> string option" where
  "next_library loadSeq libs = strtok_nth (CHR '';'') libs (nat loadSeq + 1)"

definition call_child_init :: "'w child \<Rightarrow> int \<Rightarrow> u64 \<Rightarrow> u32 \<Rightarrow> u64 \<Rightarrow> 'w \<Rightarrow> 'w outcome" where
  "call_child_init c loadSeq interfaceVer devInfoCount deviceInfo w =
     (case ch_init c of None \<Rightarrow> Inr w
      | Some f \<Rightarrow> f (loadSeq + 1) interfaceVer devInfoCount deviceInfo w)"

definition call_child_finalize :: "'w child \<Rightarrow> 'w \<Rightarrow> 'w outcome" where
  "call_child_finalize c w = (case ch_finalize c of None \<Rightarrow> Inr w | Some f \<Rightarrow> f w)"

section \<open>A child that is watched\<close>

text \<open>
  Any child library (and any fence function) with a record of the calls made to it. Properties of
  what a tool delivers are stated of the watched child; its functions behave as the child's own.
\<close>

datatype child_call =
    CBegin pkind "string option" u32 u64 | CEnd pkind u64 | CFence u32

definition logged_begin ::
  "pkind \<Rightarrow> (string option \<Rightarrow> u32 \<Rightarrow> u64 \<Rightarrow> 'w \<Rightarrow> (u64 \<times> 'w) outcome) \<Rightarrow>
    string option \<Rightarrow> u32 \<Rightarrow> u64 \<Rightarrow> 'w \<times> child_call list \<Rightarrow> (u64 \<times> ('w \<times> child_call list)) outcome" where
  "logged_begin k f name dev i wl = (case wl of (w, l) \<Rightarrow>
     obind (f name dev i w) (\<lambda>(j, w'). Inr (j, (w', l @ [CBegin k name dev j]))))"

definition logged_end ::
  "pkind \<Rightarrow> (u64 \<Rightarrow> 'w \<Rightarrow> 'w outcome) \<Rightarrow> u64 \<Rightarrow> 'w \<times> child_call list \<Rightarrow> ('w \<times> child_call list) outcome" where
  "logged_end k f i wl = (case wl of (w, l) \<Rightarrow> obind (f i w) (\<lambda>w'. Inr (w', l @ [CEnd k i])))"

definition unlogged :: "('w \<Rightarrow> 'w outcome) \<Rightarrow> 'w \<times> child_call list \<Rightarrow> ('w \<times> child_call list) outcome" where
  "unlogged f wl = (case wl of (w, l) \<Rightarrow> obind (f w) (\<lambda>w'. Inr (w', l)))"

definition logged :: "'w child \<Rightarrow> ('w \<times> child_call list) child" where
  "logged c = \<lparr>ch_begin = (\<lambda>k. map_option (logged_begin k) (ch_begin c k)),
     ch_end = (\<lambda>k. map_option (logged_end k) (ch_end c k)),
     ch_init = map_option (\<lambda>f a b d e. unlogged (f a b d e)) (ch_init c),
     ch_finalize = map_option unlogged (ch_finalize c)\<rparr>"

definition logged_fence ::
  "(u32 \<Rightarrow> 'w \<Rightarrow> 'w outcome) option \<Rightarrow> (u32 \<Rightarrow> 'w \<times> child_call list \<Rightarrow> ('w \<times> child_call list) outcome) option" where
  "logged_fence f = map_option (\<lambda>g d wl. case wl of (w, l) \<Rightarrow>
     obind (g d w) (\<lambda>w'. Inr (w', l @ [CFence d]))) f"

lemma logged_sel [simp]:
  "ch_begin (logged c) k = map_option (logged_begin k) (ch_begin c k)"
  "ch_end (logged c) k = map_option (logged_end k) (ch_end c k)"
  "ch_init (logged c) = map_option (\<lambda>f a b d e. unlogged (f a b d e)) (ch_init c)"
  "ch_finalize (logged c) = map_option unlogged (ch_finalize c)"
  by (simp_all add: logged_def)

lemma logged_begin_Inr:
  "logged_begin k f name dev i wl = Inr r \<longleftrightarrow>
     (\<exists>j w'. f name dev i (fst wl) = Inr (j, w') \<and> r = (j, (w', snd wl @ [CBegin k name dev j])))"
  by (cases wl) (auto simp: logged_begin_def obind_Inr)

lemma logged_end_Inr:
  "logged_end k f i wl = Inr r \<longleftrightarrow> (\<exists>w'. f i (fst wl) = Inr w' \<and> r = (w', snd wl @ [CEnd k i]))"
  by (cases wl) (auto simp: logged_end_def obind_Inr)

lemma unlogged_Inr: "unlogged f wl = Inr r \<longleftrightarrow> (\<exists>w'. f (fst wl) = Inr w' \<and> r = (w', snd wl))"
  by (cases wl) (auto simp: unlogged_def obind_Inr)

lemma call_child_init_logged:
  "call_child_init (logged c) q v n p wl = Inr wl' \<Longrightarrow> snd wl' = snd wl"
  by (cases "ch_init c") (auto simp: call_child_init_def unlogged_Inr)

text \<open>The identifiers the child gave out and the ones it was told to end, in order.\<close>

fun begun :: "child_call list \<Rightarrow> u64 list" where
  "begun [] = []"
| "begun (CBegin k n d j # cs) = j # begun cs"
| "begun (CEnd k j # cs) = begun cs"
| "begun (CFence d # cs) = begun cs"

fun ended :: "child_call list \<Rightarrow> u64 list" where
  "ended [] = []"
| "ended (CBegin k n d j # cs) = ended cs"
| "ended (CEnd k j # cs) = j # ended cs"
| "ended (CFence d # cs) = ended cs"

text \<open>The names of the kernels of one kind that reached the child.\<close>

fun begun_names :: "pkind \<Rightarrow> child_call list \<Rightarrow> string option list" where
  "begun_names k [] = []"
| "begun_names k (CBegin k' n d j # cs) = (if k' = k then n # begun_names k cs else begun_names k cs)"
| "begun_names k (CEnd k' j # cs) = begun_names k cs"
| "begun_names k (CFence d # cs) = begun_names k cs"

lemma begun_append [simp]: "begun (xs @ ys) = begun xs @ begun ys"
  by (induction xs rule: begun.induct) simp_all

lemma ended_append [simp]: "ended (xs @ ys) = ended xs @ ended ys"
  by (induction xs rule: ended.induct) simp_all

lemma begun_names_append [simp]: "begun_names k (xs @ ys) = begun_names k xs @ begun_names k ys"
  by (induction xs rule: begun_names.induct) simp_all

end
