(* ===== verification/Sampler.thy ===== *)
theory Sampler
  imports Child_Library Double Contracts "HOL-Library.Multiset"
begin

text \<open>
  The kernel sampler, \<open>common/kokkos-sampler/kp_sampler_skip.cpp\<close>: a tool between Kokkos and a
  child library that passes on one kernel in so many, or each with some probability. The state
  gathers the file's static variables and, as \<open>sp_world\<close>, what the functions of the child and the
  fence act on. What \<open>rand()\<close> returns is an argument of the begin callbacks, the environment and
  the clock are arguments of the initialisation, \<open>dlopen\<close> and \<open>atof\<close> are parameters.
\<close>

section \<open>State\<close>

record 'w sampler =
  sp_uniqID :: u64
  sp_kernelSampleSkip :: u64
  sp_tool_prob_num :: double
  sp_tool_verbosity :: int
  sp_tool_globFence :: int
  sp_tool_seed :: int
  sp_infokIDSample :: "(u64 \<times> u64) list"
  sp_invocationNum :: "pkind \<Rightarrow> u64"
  sp_callees :: "'w child"
  sp_fence :: "(u32 \<Rightarrow> 'w \<Rightarrow> 'w outcome) option"
  sp_srand :: "u32 option"
  sp_stdout :: "token list"
  sp_stderr :: "token list"
  sp_world :: 'w

text \<open>The value \<open>-1.0\<close> of \<open>tool_prob_num\<close>, which stands for no probability.\<close>

definition no_probability :: double where
  "no_probability = dneg (d_of_nat 1)"

text \<open>
  Static initialisation. The hash table is a list of pairs with distinct keys; \<open>sp_srand\<close> is what
  \<open>srand\<close> was last called with.
\<close>

definition sampler_start :: "'w \<Rightarrow> 'w sampler" where
  "sampler_start w = \<lparr>sp_uniqID = 0, sp_kernelSampleSkip = - 1, sp_tool_prob_num = no_probability,
     sp_tool_verbosity = 0, sp_tool_globFence = 0, sp_tool_seed = - 1, sp_infokIDSample = [],
     sp_invocationNum = (\<lambda>k. 0), sp_callees = no_child, sp_fence = None, sp_srand = None,
     sp_stdout = [], sp_stderr = [], sp_world = w\<rparr>"

definition say :: "string \<Rightarrow> 'w sampler \<Rightarrow> 'w sampler" where
  "say m s = s\<lparr>sp_stdout := sp_stdout s @ [Txt m]\<rparr>"

text \<open>Text printed when the verbosity is above a level.\<close>

definition say_above :: "int \<Rightarrow> string \<Rightarrow> 'w sampler \<Rightarrow> 'w sampler" where
  "say_above v m s = (if sp_tool_verbosity s > v then say m s else s)"

section \<open>Settings and fences\<close>

definition sp_request_tool_settings :: "ToolSettings \<Rightarrow> ToolSettings" where
  "sp_request_tool_settings settings = settings\<lparr>requires_global_fencing := False\<rparr>"

definition getDeviceID :: "u32 \<Rightarrow> u32" where
  "getDeviceID devid_in = NOT (push_bit 7 (- 1)) AND drop_bit 17 devid_in"

definition invoke_ktools_fence :: "u32 \<Rightarrow> 'w sampler \<Rightarrow> 'w sampler outcome" where
  "invoke_ktools_fence devID s =
     (case sp_fence s of
        Some f \<Rightarrow> obind (f devID (sp_world s)) (\<lambda>w.
          Inr (say_above 1 (''KokkosP: Sampler utility sucessfully invoked tool-induced ''
             @ ''fence on device '' @ dec_nat (unat (getDeviceID devID)) @ ''.'' @ eol)
             (s\<lparr>sp_world := w\<rparr>)))
      | None \<Rightarrow> Inl Abort)"

definition sp_provide_tool_programming_interface ::
  "u32 \<Rightarrow> (u32 \<Rightarrow> 'w \<Rightarrow> 'w outcome) option \<Rightarrow> 'w sampler \<Rightarrow> 'w sampler" where
  "sp_provide_tool_programming_interface num_funcs funcsFromTPI s =
     (if num_funcs = 0
      then say_above 0 (''KokkosP: Note: Number of functions in Tools Programming ''
        @ ''Interface is 0!'' @ eol) s
      else s)\<lparr>sp_fence := funcsFromTPI\<rparr>"

section \<open>Initialisation\<close>

text \<open>\<open>atoi\<close> of a number that does not fit an \<open>int\<close> is undefined.\<close>

definition fits_int :: "int \<Rightarrow> bool" where
  "fits_int i = (- (2 ^ 31) \<le> i \<and> i < 2 ^ 31)"

definition c_atoi :: "string \<Rightarrow> int outcome" where
  "c_atoi t = (if fits_int (atoi t) then Inr (atoi t) else Inl (Undefined ''atoi''))"

definition env_int :: "string option \<Rightarrow> int \<Rightarrow> int outcome" where
  "env_int v d = (case v of None \<Rightarrow> Inr d | Some t \<Rightarrow> c_atoi t)"

type_synonym env = "string \<Rightarrow> string option"

definition read_settings :: "env \<Rightarrow> 'w sampler \<Rightarrow> 'w sampler outcome" where
  "read_settings getenv s =
     obind (env_int (getenv ''KOKKOS_TOOLS_SAMPLER_VERBOSE'') 0) (\<lambda>verbosity.
     obind (env_int (getenv ''KOKKOS_TOOLS_GLOBALFENCES'') 0) (\<lambda>globFence.
     obind (env_int (getenv ''KOKKOS_TOOLS_RANDOM_SEED'') (sp_tool_seed s)) (\<lambda>seed.
     Inr (s\<lparr>sp_tool_verbosity := verbosity, sp_tool_globFence := globFence, sp_tool_seed := seed\<rparr>))))"

text \<open>With neither variable set the message inserts the null pointer into the stream.\<close>

definition profile_library :: "env \<Rightarrow> 'w sampler \<Rightarrow> (string \<times> 'w sampler) outcome" where
  "profile_library getenv s =
     (case getenv ''KOKKOS_TOOLS_LIBS'' of
        Some l \<Rightarrow> Inr (l, s)
      | None \<Rightarrow> (case getenv ''KOKKOS_PROFILE_LIBRARY'' of
          Some l \<Rightarrow> Inr (l, say (''Checking KOKKOS_PROFILE_LIBRARY. WARNING: This is a ''
            @ ''deprecated variable. Please use KOKKOS_TOOLS_LIBS'' @ eol) s)
        | None \<Rightarrow> Inl (Undefined ''std::cout << null char pointer'')))"

definition function_status :: "'w child \<Rightarrow> string" where
  "function_status c = (let yn = (\<lambda>n. if n then ''no'' @ eol else ''yes'' @ eol) in
     ''KokkosP: Function Status:'' @ eol
     @ ''KokkosP: begin-parallel-for:      '' @ yn (Option.is_none (ch_begin c ParFor))
     @ ''KokkosP: begin-parallel-scan:     '' @ yn (Option.is_none (ch_begin c ParScan))
     @ ''KokkosP: begin-parallel-reduce:   '' @ yn (Option.is_none (ch_begin c ParReduce))
     @ ''KokkosP: end-parallel-for:        '' @ yn (Option.is_none (ch_end c ParFor))
     @ ''KokkosP: end-parallel-scan:       '' @ yn (Option.is_none (ch_end c ParScan))
     @ ''KokkosP: end-parallel-reduce:     '' @ yn (Option.is_none (ch_end c ParReduce)))"

definition sp_load_child ::
  "(string \<Rightarrow> 'w child option) \<Rightarrow> int \<Rightarrow> u64 \<Rightarrow> u32 \<Rightarrow> u64 \<Rightarrow> string \<Rightarrow> 'w sampler \<Rightarrow> 'w sampler outcome" where
  "sp_load_child dlopen loadSeq interfaceVer devInfoCount deviceInfo profileLibrary s =
     (case next_library loadSeq profileLibrary of
        None \<Rightarrow> Inl (Exit (- 1))
      | Some nextLibrary \<Rightarrow>
          (let s1 = say_above 0 (''KokkosP: Next library to call: '' @ nextLibrary @ eol
              @ ''KokkosP: Loading child library of sampler..'' @ eol) s
           in case dlopen nextLibrary of
                None \<Rightarrow> Inl (Exit (- 1))
              | Some c \<Rightarrow>
                  obind (call_child_init c loadSeq interfaceVer devInfoCount deviceInfo (sp_world s1)) (\<lambda>w.
                  Inr (say_above 0 (function_status c) (s1\<lparr>sp_callees := c, sp_world := w\<rparr>)))))"

definition seed_rand :: "int \<Rightarrow> 'w sampler \<Rightarrow> 'w sampler" where
  "seed_rand now s =
     (if 0 > sp_tool_seed s
      then say_above 0 (''KokkosP: Seeding random number generator using clock for ''
        @ ''random sampling.'' @ eol) (s\<lparr>sp_srand := Some (word_of_int now)\<rparr>)
      else say_above 0 (''KokkosP: Seeding random number generator using seed ''
        @ dec_int (sp_tool_seed s) @ '' for random sampling.'' @ eol)
        (s\<lparr>sp_srand := Some (word_of_int (sp_tool_seed s))\<rparr>))"

definition print_probability :: "string \<Rightarrow> string \<Rightarrow> 'w sampler \<Rightarrow> 'w sampler" where
  "print_probability m m' s = (if sp_tool_verbosity s > 0
     then s\<lparr>sp_stdout := sp_stdout s @ [Txt m, Num ''%g'' (sp_tool_prob_num s), Txt m']\<rparr> else s)"

definition set_probability :: "(string \<Rightarrow> double) \<Rightarrow> string option \<Rightarrow> 'w sampler \<Rightarrow> 'w sampler" where
  "set_probability atof tool_probability s =
     (case tool_probability of
        None \<Rightarrow> s
      | Some t \<Rightarrow>
          (let p = atof t;
               s1 = (if dlt (d_of_nat 100) p
                  then say (''KokkosP: The sampling probability value is set to be ''
                    @ ''greater than 100.0. The probability for the sampler will ''
                    @ ''be set to 100 percent; all of the invocations of a Kokkos ''
                    @ ''kernel will be profiled.'' @ eol) (s\<lparr>sp_tool_prob_num := d_of_nat 100\<rparr>)
                  else if dlt p (d_of_nat 0)
                  then say (''KokkosP: The sampling probability value is set to be a negative ''
                    @ ''number. The sampler's probability will be set to 0 percent; none ''
                    @ ''of the invocations of a Kokkos kernel will be profiled.'' @ eol)
                    (s\<lparr>sp_tool_prob_num := d_of_nat 0\<rparr>)
                  else s\<lparr>sp_tool_prob_num := p\<rparr>)
           in (print_probability ''KokkosP: Probability for the sampler set to: '' eol s1)
              \<lparr>sp_kernelSampleSkip := 1\<rparr>))"

text \<open>\<open>atoi(tool_sample) + 1\<close> is computed as an \<open>int\<close> and then converted to \<open>uint64_t\<close>.\<close>

definition set_skip :: "string option \<Rightarrow> 'w sampler \<Rightarrow> 'w sampler outcome" where
  "set_skip tool_sample s =
     (case tool_sample of
        None \<Rightarrow> Inr s
      | Some t \<Rightarrow>
          if deq (sp_tool_prob_num s) no_probability
          then obind (c_atoi t) (\<lambda>n.
            if fits_int (n + 1)
            then Inr (say_above 0 (''KokkosP: Sampling rate set to: '' @ t @ eol)
              (s\<lparr>sp_tool_prob_num := d_of_nat 100, sp_kernelSampleSkip := word_of_int (n + 1)\<rparr>))
            else Inl (Undefined ''atoi(tool_sample) + 1''))
          else Inr s)"

definition set_default :: "'w sampler \<Rightarrow> 'w sampler" where
  "set_default s =
     (if deq (sp_tool_prob_num s) no_probability
      then print_probability (''KokkosP: The probability for the sampler is set to the ''
          @ ''default of '') ('' percent. The skip rate for sampler will not be used.'' @ eol)
        ((say_above 0 (''KokkosP: Neither the probability nor the skip rate for ''
          @ ''sampling were set...'' @ eol) s)
          \<lparr>sp_tool_prob_num := d_of_nat 10, sp_kernelSampleSkip := 1\<rparr>)
      else s)"

definition sp_init_library ::
  "env \<Rightarrow> (string \<Rightarrow> 'w child option) \<Rightarrow> (string \<Rightarrow> double) \<Rightarrow> int \<Rightarrow>
    int \<Rightarrow> u64 \<Rightarrow> u32 \<Rightarrow> u64 \<Rightarrow> 'w sampler \<Rightarrow> 'w sampler outcome" where
  "sp_init_library getenv dlopen atof now loadSeq interfaceVer devInfoCount deviceInfo s =
     obind (read_settings getenv s) (\<lambda>s1.
     obind (profile_library getenv s1) (\<lambda>(profileLibrary, s2).
     obind (sp_load_child dlopen loadSeq interfaceVer devInfoCount deviceInfo profileLibrary s2) (\<lambda>s3.
     obind (set_skip (getenv ''KOKKOS_TOOLS_SAMPLER_SKIP'')
        (set_probability atof (getenv ''KOKKOS_TOOLS_SAMPLER_PROB'')
          (seed_rand now (s3\<lparr>sp_uniqID := 1\<rparr>)))) (\<lambda>s4.
     Inr (set_default s4)))))"

definition sp_finalize_library :: "'w sampler \<Rightarrow> 'w sampler outcome" where
  "sp_finalize_library s =
     obind (call_child_finalize (sp_callees s) (sp_world s)) (\<lambda>w. Inr (s\<lparr>sp_world := w\<rparr>))"

section \<open>Kernels\<close>

definition RAND_MAX :: nat where
  "RAND_MAX = 2147483647"

definition sp_draw :: "nat \<Rightarrow> double" where
  "sp_draw r = ddiv (d_of_nat r) (dmul (d_of_nat 1) (d_of_nat RAND_MAX))"

text \<open>The sampling decision for an invocation number: what \<open>rand()\<close> returns is asked for only when the number is due.\<close>

definition sp_due :: "u64 \<Rightarrow> nat \<Rightarrow> 'w sampler \<Rightarrow> bool" where
  "sp_due n r s = (n mod sp_kernelSampleSkip s = 0
     \<and> dlt (sp_draw r) (ddiv (sp_tool_prob_num s) (d_of_nat 100)))"

definition fence_if_asked :: "'w sampler \<Rightarrow> 'w sampler outcome" where
  "fence_if_asked s = (if sp_tool_globFence s \<noteq> 0 then invoke_ktools_fence 0 s else Inr s)"

text \<open>\<open>infokIDSample.insert({kID, nestedkID})\<close> leaves an entry that is there as it is.\<close>

definition sp_insert :: "u64 \<Rightarrow> u64 \<Rightarrow> (u64 \<times> u64) list \<Rightarrow> (u64 \<times> u64) list" where
  "sp_insert k v m = (if map_of m k = None then (k, v) # m else m)"

definition sp_erase :: "u64 \<Rightarrow> (u64 \<times> u64) list \<Rightarrow> (u64 \<times> u64) list" where
  "sp_erase k m = filter (\<lambda>e. fst e \<noteq> k) m"

definition sample_message :: "u64 \<Rightarrow> string \<Rightarrow> string" where
  "sample_message kID m = ''KokkosP: sample '' @ dec_nat (unat kID) @ m @ eol"

text \<open>
  The begin and end functions of the three kinds are three copies of one body; each kind has its own
  static \<open>invocationNum\<close> and its own callee, and all share \<open>uniqID\<close> and \<open>infokIDSample\<close>.
\<close>

definition sampler_begin ::
  "pkind \<Rightarrow> nat \<Rightarrow> string option \<Rightarrow> u32 \<Rightarrow> 'w sampler \<Rightarrow> (u64 \<times> 'w sampler) outcome" where
  "sampler_begin k r name devID s0 =
     (let kID = sp_uniqID s0;
          n = sp_invocationNum s0 k + 1;
          s = s0\<lparr>sp_uniqID := sp_uniqID s0 + 1,
                 sp_invocationNum := (sp_invocationNum s0)(k := n)\<rparr>
      in if sp_kernelSampleSkip s = 0 then Inl (Undefined ''invocationNum % 0'')
         else if \<not> sp_due n r s then Inr (kID, s)
         else case ch_begin (sp_callees s) k of
             None \<Rightarrow> Inr (kID, s)
           | Some callee \<Rightarrow>
               obind (fence_if_asked (say_above 0 (sample_message kID '' calling child-begin function...'') s)) (\<lambda>s1.
               obind (callee name devID 0 (sp_world s1)) (\<lambda>(nestedkID, w).
               (let s2 = say_above 0 (sample_message kID '' finished with child-begin function.'')
                     (s1\<lparr>sp_world := w\<rparr>)
                in Inr (kID, s2\<lparr>sp_infokIDSample := sp_insert kID nestedkID (sp_infokIDSample s2)\<rparr>)))))"

definition sampler_end :: "pkind \<Rightarrow> u64 \<Rightarrow> 'w sampler \<Rightarrow> 'w sampler outcome" where
  "sampler_end k kID s =
     (case ch_end (sp_callees s) k of
        None \<Rightarrow> Inr s
      | Some callee \<Rightarrow>
          (case map_of (sp_infokIDSample s) kID of
             None \<Rightarrow> Inr s
           | Some retrievedNestedkID \<Rightarrow>
               obind (fence_if_asked (say_above 0 (sample_message kID '' calling child-end function...'') s)) (\<lambda>s1.
               obind (callee retrievedNestedkID (sp_world s1)) (\<lambda>w.
               (let s2 = say_above 0 (sample_message kID '' finished with child-end function.'')
                     (s1\<lparr>sp_world := w\<rparr>)
                in Inr (s2\<lparr>sp_infokIDSample := sp_erase kID (sp_infokIDSample s2)\<rparr>))))))"

definition sp_begin_parallel_for :: "nat \<Rightarrow> string option \<Rightarrow> u32 \<Rightarrow> 'w sampler \<Rightarrow> (u64 \<times> 'w sampler) outcome" where
  "sp_begin_parallel_for = sampler_begin ParFor"

definition sp_end_parallel_for :: "u64 \<Rightarrow> 'w sampler \<Rightarrow> 'w sampler outcome" where
  "sp_end_parallel_for = sampler_end ParFor"

definition sp_begin_parallel_scan :: "nat \<Rightarrow> string option \<Rightarrow> u32 \<Rightarrow> 'w sampler \<Rightarrow> (u64 \<times> 'w sampler) outcome" where
  "sp_begin_parallel_scan = sampler_begin ParScan"

definition sp_end_parallel_scan :: "u64 \<Rightarrow> 'w sampler \<Rightarrow> 'w sampler outcome" where
  "sp_end_parallel_scan = sampler_end ParScan"

definition sp_begin_parallel_reduce :: "nat \<Rightarrow> string option \<Rightarrow> u32 \<Rightarrow> 'w sampler \<Rightarrow> (u64 \<times> 'w sampler) outcome" where
  "sp_begin_parallel_reduce = sampler_begin ParReduce"

definition sp_end_parallel_reduce :: "u64 \<Rightarrow> 'w sampler \<Rightarrow> 'w sampler outcome" where
  "sp_end_parallel_reduce = sampler_end ParReduce"

section \<open>Events\<close>

text \<open>A begin event carries what \<open>rand()\<close> would return during the call.\<close>

datatype sampler_event = SBegin pkind nat "string option" u32 | SEnd pkind u64

fun sampler_step :: "'w sampler \<Rightarrow> sampler_event \<Rightarrow> ('w sampler \<times> u64 option) outcome" where
  "sampler_step s (SBegin k r name devID) =
     obind ((case k of ParFor \<Rightarrow> sp_begin_parallel_for | ParReduce \<Rightarrow> sp_begin_parallel_reduce
        | ParScan \<Rightarrow> sp_begin_parallel_scan) r name devID s) (\<lambda>(i, s'). Inr (s', Some i))"
| "sampler_step s (SEnd k kID) =
     obind ((case k of ParFor \<Rightarrow> sp_end_parallel_for | ParReduce \<Rightarrow> sp_end_parallel_reduce
        | ParScan \<Rightarrow> sp_end_parallel_scan) kID s) (\<lambda>s'. Inr (s', None))"

definition sampler_next :: "'w sampler \<Rightarrow> sampler_event \<Rightarrow> 'w sampler outcome" where
  "sampler_next s e = obind (sampler_step s e) (\<lambda>(s', i). Inr s')"

lemma sampler_next_simps [simp]:
  "sampler_next s (SBegin k r name devID) = obind (sampler_begin k r name devID s) (\<lambda>(i, s'). Inr s')"
  "sampler_next s (SEnd k kID) = sampler_end k kID s"
  by (cases k; simp add: sampler_next_def sp_begin_parallel_for_def sp_begin_parallel_reduce_def
      sp_begin_parallel_scan_def sp_end_parallel_for_def sp_end_parallel_reduce_def
      sp_end_parallel_scan_def obind_def split: sum.splits)+

text \<open>How many kernels begin in a sequence of events.\<close>

fun begins :: "sampler_event list \<Rightarrow> nat" where
  "begins [] = 0"
| "begins (SBegin k r n d # es) = Suc (begins es)"
| "begins (SEnd k i # es) = begins es"

section \<open>What a watched child sees\<close>

lemma say_above_sel [simp]:
  "sp_uniqID (say_above v m s) = sp_uniqID s" "sp_infokIDSample (say_above v m s) = sp_infokIDSample s"
  "sp_invocationNum (say_above v m s) = sp_invocationNum s" "sp_callees (say_above v m s) = sp_callees s"
  "sp_fence (say_above v m s) = sp_fence s" "sp_world (say_above v m s) = sp_world s"
  "sp_tool_globFence (say_above v m s) = sp_tool_globFence s"
  "sp_kernelSampleSkip (say_above v m s) = sp_kernelSampleSkip s"
  "sp_tool_prob_num (say_above v m s) = sp_tool_prob_num s"
  by (simp_all add: say_above_def say_def)

abbreviation sp_log :: "('w \<times> child_call list) sampler \<Rightarrow> child_call list" where
  "sp_log s \<equiv> snd (sp_world s)"

text \<open>The state calls a watched child and a watched fence; what no callback changes.\<close>

definition watched :: "('w \<times> child_call list) sampler \<Rightarrow> bool" where
  "watched s = ((\<exists>c. sp_callees s = logged c) \<and> (\<exists>f. sp_fence s = logged_fence f))"

definition same_set_up :: "'w sampler \<Rightarrow> 'w sampler \<Rightarrow> bool" where
  "same_set_up s s' = (sp_callees s' = sp_callees s \<and> sp_fence s' = sp_fence s
     \<and> sp_kernelSampleSkip s' = sp_kernelSampleSkip s \<and> sp_tool_prob_num s' = sp_tool_prob_num s
     \<and> sp_tool_globFence s' = sp_tool_globFence s)"

lemma same_set_up_refl [simp]: "same_set_up s s"
  by (simp add: same_set_up_def)

lemma same_set_up_trans: "same_set_up a b \<Longrightarrow> same_set_up b c \<Longrightarrow> same_set_up a c"
  by (simp add: same_set_up_def)

lemma watched_same: "same_set_up s s' \<Longrightarrow> watched s \<Longrightarrow> watched s'"
  by (simp add: same_set_up_def watched_def)

definition fences :: "'w sampler \<Rightarrow> child_call list" where
  "fences s = (if sp_tool_globFence s \<noteq> 0 then [CFence 0] else [])"

lemma fences_simps [simp]: "begun (fences s) = []" "ended (fences s) = []" "begun_names k (fences s) = []"
  by (simp_all add: fences_def)

lemma fence_if_asked_cases:
  assumes "watched s" and "fence_if_asked s = Inr s'"
  shows "same_set_up s s' \<and> sp_log s' = sp_log s @ fences s \<and> sp_uniqID s' = sp_uniqID s
    \<and> sp_infokIDSample s' = sp_infokIDSample s \<and> sp_invocationNum s' = sp_invocationNum s"
proof (cases "sp_tool_globFence s = 0")
  case True
  with assms show ?thesis by (auto simp: fence_if_asked_def fences_def)
next
  case False
  from assms(1) obtain g where g: "sp_fence s = logged_fence g" by (auto simp: watched_def)
  show ?thesis
  proof (cases g)
    case None
    with assms(2) False g show ?thesis
      by (simp add: fence_if_asked_def invoke_ktools_fence_def logged_fence_def)
  next
    case (Some f)
    obtain w l where wl: "sp_world s = (w, l)" by (cases "sp_world s")
    with assms(2) False g Some obtain w' where
      "s' = say_above 1 (''KokkosP: Sampler utility sucessfully invoked tool-induced ''
         @ ''fence on device '' @ dec_nat (unat (getDeviceID 0)) @ ''.'' @ eol)
         (s\<lparr>sp_world := (w', l @ [CFence 0])\<rparr>)"
      by (auto simp: fence_if_asked_def invoke_ktools_fence_def logged_fence_def obind_Inr)
    with False wl show ?thesis by (simp add: same_set_up_def fences_def)
  qed
qed

lemma watched_sel [simp]:
  "watched (say_above v m s) = watched s"
  "watched (s\<lparr>sp_uniqID := i, sp_invocationNum := n\<rparr>) = watched s"
  by (simp_all add: watched_def)

lemma same_set_up_sel [simp]:
  "same_set_up (say_above v m s) t = same_set_up s t"
  "same_set_up (s\<lparr>sp_uniqID := i, sp_invocationNum := n\<rparr>) t = same_set_up s t"
  "same_set_up s (say_above v m t) = same_set_up s t"
  "same_set_up s (t\<lparr>sp_world := w\<rparr>) = same_set_up s t"
  "same_set_up s (t\<lparr>sp_infokIDSample := e\<rparr>) = same_set_up s t"
  "same_set_up s (t\<lparr>sp_uniqID := i, sp_invocationNum := n\<rparr>) = same_set_up s t"
  by (simp_all add: same_set_up_def)

lemma fences_sel [simp]:
  "fences (say_above v m s) = fences s" "fences (s\<lparr>sp_uniqID := i, sp_invocationNum := n\<rparr>) = fences s"
  by (simp_all add: fences_def)

definition passes_on :: "pkind \<Rightarrow> nat \<Rightarrow> 'w sampler \<Rightarrow> bool" where
  "passes_on k r s = (sp_due (sp_invocationNum s k + 1) r s \<and> ch_begin (sp_callees s) k \<noteq> None)"

lemma sampler_begin_cases:
  assumes "watched s" and "sampler_begin k r name d s = Inr (i, s')"
  shows "same_set_up s s' \<and> i = sp_uniqID s \<and> sp_uniqID s' = sp_uniqID s + 1
    \<and> sp_invocationNum s' = (sp_invocationNum s)(k := sp_invocationNum s k + 1)
    \<and> sp_kernelSampleSkip s \<noteq> 0
    \<and> (if passes_on k r s
       then \<exists>j. sp_log s' = sp_log s @ fences s @ [CBegin k name d j]
          \<and> sp_infokIDSample s' = sp_insert (sp_uniqID s) j (sp_infokIDSample s)
       else sp_log s' = sp_log s \<and> sp_infokIDSample s' = sp_infokIDSample s)"
proof -
  define s1 where "s1 = s\<lparr>sp_uniqID := sp_uniqID s + 1,
    sp_invocationNum := (sp_invocationNum s)(k := sp_invocationNum s k + 1)\<rparr>"
  have skip: "sp_kernelSampleSkip s \<noteq> 0"
    using assms(2) by (auto simp: sampler_begin_def Let_def)
  have due: "sp_due n r s1 = sp_due n r s" for n by (simp add: sp_due_def s1_def)
  note b = assms(2)[unfolded sampler_begin_def Let_def, folded s1_def]
  show ?thesis
  proof (cases "passes_on k r s")
    case False
    then have "i = sp_uniqID s \<and> s' = s1"
      using b skip due by (auto simp: passes_on_def s1_def split: if_splits option.splits)
    with False skip show ?thesis by (simp add: s1_def)
  next
    case True
    from assms(1) obtain c where c: "sp_callees s = logged c" by (auto simp: watched_def)
    with True obtain f where f: "ch_begin c k = Some f" by (auto simp: passes_on_def)
    have due1: "sp_due (sp_invocationNum s k + 1) r s1" using True due by (simp add: passes_on_def)
    have sk1: "sp_kernelSampleSkip s1 \<noteq> 0" using skip by (simp add: s1_def)
    have ch1: "ch_begin (sp_callees s1) k = Some (logged_begin k f)" using c f by (simp add: s1_def)
    from b due1 sk1 ch1 obtain s2 j w where
        s2: "fence_if_asked (say_above 0 (sample_message (sp_uniqID s) '' calling child-begin function...'') s1) = Inr s2"
      and j: "logged_begin k f name d 0 (sp_world s2) = Inr (j, w)" and "i = sp_uniqID s"
      and s': "s' = (say_above 0 (sample_message (sp_uniqID s) '' finished with child-begin function.'')
         (s2\<lparr>sp_world := w\<rparr>))\<lparr>sp_infokIDSample := sp_insert (sp_uniqID s) j (sp_infokIDSample s2)\<rparr>"
      by (auto simp: obind_Inr)
    have w1: "watched (say_above 0 m s1)" for m using assms(1) by (simp add: s1_def)
    from fence_if_asked_cases [OF w1 s2] j s' \<open>i = sp_uniqID s\<close> True skip
    show ?thesis by (auto simp: s1_def logged_begin_Inr)
  qed
qed

lemma sampler_end_cases:
  assumes "watched s" and "sampler_end k i s = Inr s'"
  shows "same_set_up s s' \<and> sp_uniqID s' = sp_uniqID s \<and> sp_invocationNum s' = sp_invocationNum s
    \<and> (case map_of (sp_infokIDSample s) i of
         Some j \<Rightarrow> if ch_end (sp_callees s) k \<noteq> None
           then sp_log s' = sp_log s @ fences s @ [CEnd k j]
             \<and> sp_infokIDSample s' = sp_erase i (sp_infokIDSample s)
           else s' = s
       | None \<Rightarrow> s' = s)"
proof (cases "ch_end (sp_callees s) k = None \<or> map_of (sp_infokIDSample s) i = None")
  case True
  then have "s' = s" using assms(2) by (auto simp: sampler_end_def split: option.splits)
  then show ?thesis using True by (auto split: option.splits)
next
  case False
  from assms(1) obtain c where c: "sp_callees s = logged c" by (auto simp: watched_def)
  with False obtain f j where f: "ch_end c k = Some f" and j: "map_of (sp_infokIDSample s) i = Some j"
    by auto
  have ch: "ch_end (sp_callees s) k = Some (logged_end k f)" using c f by simp
  from assms(2) ch j obtain s2 w where
      s2: "fence_if_asked (say_above 0 (sample_message i '' calling child-end function...'') s) = Inr s2"
    and w: "logged_end k f j (sp_world s2) = Inr w"
    and s': "s' = (say_above 0 (sample_message i '' finished with child-end function.'')
       (s2\<lparr>sp_world := w\<rparr>))\<lparr>sp_infokIDSample := sp_erase i (sp_infokIDSample s2)\<rparr>"
    by (auto simp: sampler_end_def obind_Inr Let_def)
  have "watched (say_above 0 m s)" for m using assms(1) by simp
  from fence_if_asked_cases [OF this s2] w s' ch j show ?thesis by (auto simp: logged_end_Inr)
qed

section \<open>The table of passed-on kernels\<close>

lemma map_of_sp_insert:
  "map_of (sp_insert k v m) i = (if i = k \<and> map_of m k = None then Some v else map_of m i)"
  by (simp add: sp_insert_def)

lemma map_of_sp_erase: "map_of (sp_erase k m) i = (if i = k then None else map_of m i)"
  by (induction m) (auto simp: sp_erase_def)

lemma keys_sp_erase: "fst ` set (sp_erase k m) = fst ` set m - {k}"
  by (auto simp: sp_erase_def)

lemma distinct_sp_erase: "distinct (map fst m) \<Longrightarrow> distinct (map fst (sp_erase k m))"
  by (induction m) (auto simp: sp_erase_def)

lemma mset_sp_erase:
  assumes "distinct (map fst m)" and "map_of m i = Some j"
  shows "mset (map snd m) = {#j#} + mset (map snd (sp_erase i m))"
  using assms
proof (induction m)
  case (Cons e m)
  show ?case
  proof (cases "fst e = i")
    case True
    with Cons.prems(1) have "\<forall>x \<in> set m. fst x \<noteq> i" by (force simp: image_iff)
    then have "sp_erase i m = m" by (simp add: sp_erase_def filter_id_conv)
    with True Cons.prems show ?thesis by (simp add: sp_erase_def)
  next
    case False
    with Cons show ?thesis by (simp add: sp_erase_def)
  qed
qed simp

text \<open>Keys are distinct and were issued; the values are what the child has begun and not ended.\<close>

definition table_ok :: "'w sampler \<Rightarrow> bool" where
  "table_ok s = (distinct (map fst (sp_infokIDSample s))
     \<and> (\<forall>k \<in> fst ` set (sp_infokIDSample s). unat k < unat (sp_uniqID s)))"

definition accounted :: "('w \<times> child_call list) sampler \<Rightarrow> bool" where
  "accounted s = (mset (begun (sp_log s)) = mset (ended (sp_log s)) + mset (map snd (sp_infokIDSample s)))"

lemma table_ok_fresh: "table_ok s \<Longrightarrow> map_of (sp_infokIDSample s) (sp_uniqID s) = None"
  by (force simp: table_ok_def map_of_eq_None_iff)

lemma unat_next: "unat (w :: u64) + 1 < 2 ^ 64 \<Longrightarrow> unat (w + 1) = unat w + 1"
  by (simp add: unat_u64_add)

lemma sampler_begin_table:
  assumes "watched s" and "table_ok s" and "sampler_begin k r name d s = Inr (i, s')"
    and "unat (sp_uniqID s) + 1 < 2 ^ 64"
  shows "table_ok s' \<and> unat (sp_uniqID s') = unat (sp_uniqID s) + 1 \<and> (accounted s \<longrightarrow> accounted s')"
proof -
  note c = sampler_begin_cases [OF assms(1,3)]
  have u: "unat (sp_uniqID s') = unat (sp_uniqID s) + 1" using c unat_next assms(4) by metis
  have f: "map_of (sp_infokIDSample s) (sp_uniqID s) = None" using assms(2) by (rule table_ok_fresh)
  have t: "\<forall>k \<in> fst ` set (sp_infokIDSample s). unat k < unat (sp_uniqID s)"
    and d: "distinct (map fst (sp_infokIDSample s))"
    using assms(2) by (simp_all add: table_ok_def)
  show ?thesis
  proof (cases "passes_on k r s")
    case True
    with c f obtain j where j: "sp_log s' = sp_log s @ fences s @ [CBegin k name d j]"
      "sp_infokIDSample s' = (sp_uniqID s, j) # sp_infokIDSample s" by (auto simp: sp_insert_def)
    have "sp_uniqID s \<notin> fst ` set (sp_infokIDSample s)" using t by blast
    with j u t d show ?thesis by (auto simp: table_ok_def accounted_def less_Suc_eq)
  next
    case False
    with c u t d show ?thesis by (auto simp: table_ok_def accounted_def less_Suc_eq)
  qed
qed

lemma sampler_end_table:
  assumes "watched s" and "table_ok s" and "sampler_end k i s = Inr s'"
  shows "table_ok s' \<and> sp_uniqID s' = sp_uniqID s \<and> (accounted s \<longrightarrow> accounted s')"
proof -
  note c = sampler_end_cases [OF assms(1,3)]
  show ?thesis
  proof (cases "\<exists>j. map_of (sp_infokIDSample s) i = Some j \<and> ch_end (sp_callees s) k \<noteq> None")
    case True
    then obtain j where j: "map_of (sp_infokIDSample s) i = Some j" by blast
    with c True have t: "sp_log s' = sp_log s @ fences s @ [CEnd k j]" "sp_uniqID s' = sp_uniqID s"
      "sp_infokIDSample s' = sp_erase i (sp_infokIDSample s)" by auto
    have "distinct (map fst (sp_infokIDSample s))" using assms(2) by (simp add: table_ok_def)
    from mset_sp_erase [OF this j] t assms(2) show ?thesis
      by (auto simp: table_ok_def accounted_def keys_sp_erase distinct_sp_erase)
  next
    case False
    with c have "s' = s" by (auto split: option.splits if_splits)
    with assms(2) show ?thesis by simp
  qed
qed

definition sampler_inv :: "('w \<times> child_call list) sampler \<Rightarrow> bool" where
  "sampler_inv s = (watched s \<and> table_ok s \<and> accounted s)"

lemma sampler_next_cases:
  assumes "sampler_inv s" and "sampler_next s e = Inr s'"
    and "unat (sp_uniqID s) + begins [e] < 2 ^ 64"
  shows "sampler_inv s' \<and> same_set_up s s' \<and> unat (sp_uniqID s') = unat (sp_uniqID s) + begins [e]"
proof (cases e)
  case (SBegin k r name d)
  with assms(2) obtain i where b: "sampler_begin k r name d s = Inr (i, s')" by (auto simp: obind_Inr)
  from SBegin assms sampler_begin_table [OF _ _ b] sampler_begin_cases [OF _ b] watched_same
  show ?thesis by (auto simp: sampler_inv_def)
next
  case (SEnd k i)
  with assms(2) have b: "sampler_end k i s = Inr s'" by simp
  from SEnd assms sampler_end_table [OF _ _ b] sampler_end_cases [OF _ b] watched_same
  show ?thesis by (auto simp: sampler_inv_def)
qed

lemma begins_Cons: "begins (e # es) = begins [e] + begins es"
  by (cases e) simp_all

lemma sampler_run_inv:
  assumes "sampler_inv s" and "run_events sampler_next s es = Inr s'"
    and "unat (sp_uniqID s) + begins es < 2 ^ 64"
  shows "sampler_inv s' \<and> same_set_up s s' \<and> unat (sp_uniqID s') = unat (sp_uniqID s) + begins es"
  using assms
proof (induction es arbitrary: s)
  case (Cons e es)
  then obtain s1 where s1: "sampler_next s e = Inr s1" "run_events sampler_next s1 es = Inr s'"
    by (auto split: sum.splits)
  have "unat (sp_uniqID s) + begins [e] < 2 ^ 64" using Cons.prems(3) begins_Cons [of e es] by linarith
  from sampler_next_cases [OF Cons.prems(1) s1(1) this] Cons.IH [OF _ s1(2)] Cons.prems(3) begins_Cons [of e es]
    same_set_up_trans show ?case by (metis add.assoc)
qed simp

text \<open>An entry stays until its own kernel ends.\<close>

lemma sampler_next_keeps:
  assumes "watched s" and "sampler_next s e = Inr s'" and "\<And>k. e \<noteq> SEnd k i" and "i \<noteq> sp_uniqID s"
  shows "map_of (sp_infokIDSample s') i = map_of (sp_infokIDSample s) i"
proof (cases e)
  case (SBegin k r name d)
  with assms(2) obtain j where b: "sampler_begin k r name d s = Inr (j, s')" by (auto simp: obind_Inr)
  from sampler_begin_cases [OF assms(1) b] assms(4) show ?thesis
    by (auto simp: map_of_sp_insert split: if_splits)
next
  case (SEnd k j)
  with assms(2) have b: "sampler_end k j s = Inr s'" by simp
  from sampler_end_cases [OF assms(1) b] assms(3) SEnd show ?thesis
    by (auto simp: map_of_sp_erase split: option.splits if_splits)
qed

lemma sampler_run_keeps:
  assumes "sampler_inv s" and "run_events sampler_next s es = Inr s'" and "\<And>k. SEnd k i \<notin> set es"
    and "unat i < unat (sp_uniqID s)" and "unat (sp_uniqID s) + begins es < 2 ^ 64"
  shows "map_of (sp_infokIDSample s') i = map_of (sp_infokIDSample s) i"
  using assms
proof (induction es arbitrary: s)
  case (Cons e es)
  then obtain s1 where s1: "sampler_next s e = Inr s1" "run_events sampler_next s1 es = Inr s'"
    by (auto split: sum.splits)
  have b: "unat (sp_uniqID s) + begins [e] < 2 ^ 64" using Cons.prems(5) begins_Cons [of e es] by linarith
  note n = sampler_next_cases [OF Cons.prems(1) s1(1) b]
  have "map_of (sp_infokIDSample s') i = map_of (sp_infokIDSample s1) i"
  proof (rule Cons.IH [OF _ s1(2)])
    show "unat i < unat (sp_uniqID s1)" using n Cons.prems(4) by simp
    show "unat (sp_uniqID s1) + begins es < 2 ^ 64" using n Cons.prems(5) begins_Cons [of e es] by simp
  qed (use n Cons.prems(3) in auto)
  moreover have "map_of (sp_infokIDSample s1) i = map_of (sp_infokIDSample s) i"
  proof (rule sampler_next_keeps [OF _ s1(1)])
    show "e \<noteq> SEnd k i" for k using Cons.prems(3) by (metis list.set_intros(1))
  qed (use Cons.prems(1,4) in \<open>auto simp: sampler_inv_def\<close>)
  ultimately show ?case by simp
qed simp

section \<open>Start-up\<close>

text \<open>
  What Kokkos does with a tool before the first kernel: the initialisation, then the programming
  interface is handed over. The child is watched from its own initialisation on.
\<close>

definition sampler_start_up ::
  "env \<Rightarrow> (string \<Rightarrow> 'w child option) \<Rightarrow> (string \<Rightarrow> double) \<Rightarrow> int \<Rightarrow> int \<Rightarrow> u64 \<Rightarrow>
    (u32 \<Rightarrow> 'w \<Rightarrow> 'w outcome) option \<Rightarrow> 'w \<Rightarrow> ('w \<times> child_call list) sampler outcome" where
  "sampler_start_up getenv dlopen atof now loadSeq interfaceVer fence w =
     obind (sp_init_library getenv (\<lambda>l. map_option logged (dlopen l)) atof now loadSeq interfaceVer
        0 0 (sampler_start (w, []))) (\<lambda>s.
     Inr (sp_provide_tool_programming_interface 2 (logged_fence fence) s))"

lemma say_sel [simp]:
  "sp_uniqID (say m s) = sp_uniqID s" "sp_infokIDSample (say m s) = sp_infokIDSample s"
  "sp_invocationNum (say m s) = sp_invocationNum s" "sp_callees (say m s) = sp_callees s"
  "sp_world (say m s) = sp_world s" "sp_kernelSampleSkip (say m s) = sp_kernelSampleSkip s"
  "sp_tool_prob_num (say m s) = sp_tool_prob_num s"
  by (simp_all add: say_def)

lemma print_probability_sel [simp]:
  "sp_uniqID (print_probability m m' s) = sp_uniqID s"
  "sp_infokIDSample (print_probability m m' s) = sp_infokIDSample s"
  "sp_invocationNum (print_probability m m' s) = sp_invocationNum s"
  "sp_callees (print_probability m m' s) = sp_callees s"
  "sp_world (print_probability m m' s) = sp_world s"
  "sp_kernelSampleSkip (print_probability m m' s) = sp_kernelSampleSkip s"
  "sp_tool_prob_num (print_probability m m' s) = sp_tool_prob_num s"
  by (simp_all add: print_probability_def)

lemma seed_rand_sel [simp]:
  "sp_uniqID (seed_rand now s) = sp_uniqID s" "sp_infokIDSample (seed_rand now s) = sp_infokIDSample s"
  "sp_invocationNum (seed_rand now s) = sp_invocationNum s" "sp_callees (seed_rand now s) = sp_callees s"
  "sp_world (seed_rand now s) = sp_world s" "sp_tool_prob_num (seed_rand now s) = sp_tool_prob_num s"
  by (simp_all add: seed_rand_def)

text \<open>What is left alone by the choice of the sampling mode.\<close>

definition same_tables :: "'w sampler \<Rightarrow> 'w sampler \<Rightarrow> bool" where
  "same_tables s s' = (sp_uniqID s' = sp_uniqID s \<and> sp_infokIDSample s' = sp_infokIDSample s
     \<and> sp_invocationNum s' = sp_invocationNum s \<and> sp_callees s' = sp_callees s \<and> sp_world s' = sp_world s)"

lemma set_probability_tables: "same_tables s (set_probability atof p s)"
  by (auto simp: same_tables_def set_probability_def Let_def split: option.split)

lemma set_skip_tables: "set_skip t s = Inr s' \<Longrightarrow> same_tables s s'"
  by (auto simp: same_tables_def set_skip_def obind_Inr split: option.splits if_splits)

lemma set_default_tables: "same_tables s (set_default s)"
  by (simp add: same_tables_def set_default_def)

lemma load_child_state:
  assumes "sp_load_child (\<lambda>l. map_option logged (dlopen l)) q v n p lib s = Inr s'"
  shows "(\<exists>c. sp_callees s' = logged c) \<and> sp_uniqID s' = sp_uniqID s
    \<and> sp_infokIDSample s' = sp_infokIDSample s \<and> sp_invocationNum s' = sp_invocationNum s
    \<and> snd (sp_world s') = snd (sp_world s) \<and> sp_tool_prob_num s' = sp_tool_prob_num s"
  using assms
  by (auto simp: sp_load_child_def Let_def obind_Inr dest: call_child_init_logged split: option.splits)

text \<open>The three steps of the initialisation a start-up succeeds with.\<close>

lemma start_up_steps:
  assumes "sampler_start_up getenv dlopen atof now loadSeq interfaceVer fence w = Inr s"
  obtains s3 s4 where "sampler_inv (set_default s4\<lparr>sp_fence := logged_fence fence\<rparr>)"
    and "sp_uniqID s3 = 1" and "sp_tool_prob_num s3 = no_probability"
    and "set_skip (getenv ''KOKKOS_TOOLS_SAMPLER_SKIP'')
      (set_probability atof (getenv ''KOKKOS_TOOLS_SAMPLER_PROB'') s3) = Inr s4"
    and "s = set_default s4\<lparr>sp_fence := logged_fence fence\<rparr>"
    and "sp_log s = []" and "sp_infokIDSample s = []" and "sp_uniqID s = 1" and "sp_invocationNum s = (\<lambda>k. 0)"
proof -
  from assms obtain s1 lib s2 sl s4 where
      s1: "read_settings getenv (sampler_start (w, [])) = Inr s1"
    and s2: "profile_library getenv s1 = Inr (lib, s2)"
    and sl: "sp_load_child (\<lambda>l. map_option logged (dlopen l)) loadSeq interfaceVer 0 0 lib s2 = Inr sl"
    and s4: "set_skip (getenv ''KOKKOS_TOOLS_SAMPLER_SKIP'')
      (set_probability atof (getenv ''KOKKOS_TOOLS_SAMPLER_PROB'') (seed_rand now (sl\<lparr>sp_uniqID := 1\<rparr>))) = Inr s4"
    and s: "s = set_default s4\<lparr>sp_fence := logged_fence fence\<rparr>"
    by (auto simp: sampler_start_up_def sp_init_library_def obind_Inr
        sp_provide_tool_programming_interface_def)
  have e1: "sp_infokIDSample s1 = []" "sp_invocationNum s1 = (\<lambda>k. 0)" "snd (sp_world s1) = []"
    "sp_tool_prob_num s1 = no_probability"
    using s1 by (auto simp: read_settings_def obind_Inr sampler_start_def)
  have "sp_infokIDSample s2 = sp_infokIDSample s1" "sp_invocationNum s2 = sp_invocationNum s1"
    "sp_world s2 = sp_world s1" "sp_tool_prob_num s2 = sp_tool_prob_num s1"
    using s2 by (auto simp: profile_library_def split: option.splits)
  with e1 load_child_state [OF sl] obtain c where
    el: "sp_infokIDSample sl = []" "sp_invocationNum sl = (\<lambda>k. 0)" "snd (sp_world sl) = []"
    "sp_tool_prob_num sl = no_probability" "sp_callees sl = logged c" by auto
  let ?s3 = "seed_rand now (sl\<lparr>sp_uniqID := 1\<rparr>)"
  have e3: "sp_uniqID ?s3 = 1" "sp_tool_prob_num ?s3 = no_probability" using el by simp_all
  have es: "sp_log s = []" "sp_infokIDSample s = []" "sp_uniqID s = 1" "sp_invocationNum s = (\<lambda>k. 0)"
    "sp_callees s = logged c" "sp_fence s = logged_fence fence"
    using el set_probability_tables [of ?s3 atof "getenv ''KOKKOS_TOOLS_SAMPLER_PROB''"]
      set_skip_tables [OF s4] set_default_tables [of s4] s by (simp_all add: same_tables_def)
  then have "sampler_inv s" by (auto simp: sampler_inv_def watched_def table_ok_def accounted_def)
  with that [OF _ e3 s4 s] es s show thesis by simp
qed

section \<open>Settings\<close>

lemma s_units_no_probability: "s_units no_probability = - scale"
  by (simp add: no_probability_def s_units_d_of_nat)

lemma no_probability_not_nan [simp]: "\<not> d_nan no_probability"
  by (simp add: no_probability_def)

lemma negative_probability: "deq p no_probability \<Longrightarrow> dlt p (d_of_nat 0)"
  using scale_pos by (auto simp: deq_def dlt_def s_units_no_probability s_units_d_of_nat)

definition clamp_probability :: "double \<Rightarrow> double" where
  "clamp_probability p = (if dlt (d_of_nat 100) p then d_of_nat 100
     else if dlt p (d_of_nat 0) then d_of_nat 0 else p)"

lemma not_no_probability [simp]: "n < 2 ^ 53 \<Longrightarrow> \<not> deq (d_of_nat n) no_probability"
  using negative_probability [of "d_of_nat n"] dlt_d_of_nat [of n 0] by auto

lemma clamp_not_no_probability: "\<not> deq (clamp_probability p) no_probability"
  using negative_probability [of p] by (auto simp: clamp_probability_def)

lemma set_probability_settings:
  "sp_tool_prob_num (set_probability atof (Some t) s) = clamp_probability (atof t)"
  "sp_kernelSampleSkip (set_probability atof (Some t) s) = 1"
  by (simp_all add: set_probability_def clamp_probability_def Let_def)

lemma deq_refl_no_probability [simp]: "deq no_probability no_probability"
  by (simp add: deq_def)

lemma fits_int_word:
  assumes "fits_int i" and "0 \<le> i"
  shows "unat (word_of_int i :: u64) = nat i"
proof -
  have "word_of_int i = (of_nat (nat i) :: u64)" using assms(2) by simp
  moreover have "nat i < 2 ^ 64" using assms by (simp add: fits_int_def)
  ultimately show ?thesis by (simp add: unat_of_nat take_bit_eq_mod)
qed

lemma start_up_settings:
  assumes "sampler_start_up getenv dlopen atof now loadSeq interfaceVer fence w = Inr s"
  shows "(case getenv ''KOKKOS_TOOLS_SAMPLER_PROB'' of
      Some p \<Rightarrow> sp_tool_prob_num s = clamp_probability (atof p) \<and> sp_kernelSampleSkip s = 1
    | None \<Rightarrow> (case getenv ''KOKKOS_TOOLS_SAMPLER_SKIP'' of
        Some t \<Rightarrow> sp_tool_prob_num s = d_of_nat 100 \<and> fits_int (atoi t + 1)
          \<and> sp_kernelSampleSkip s = word_of_int (atoi t + 1)
      | None \<Rightarrow> sp_tool_prob_num s = d_of_nat 10 \<and> sp_kernelSampleSkip s = 1))"
proof -
  let ?sk = "getenv ''KOKKOS_TOOLS_SAMPLER_SKIP''" and ?pr = "getenv ''KOKKOS_TOOLS_SAMPLER_PROB''"
  from start_up_steps [OF assms] obtain s3 s4 where "sp_tool_prob_num s3 = no_probability"
    and s4: "set_skip ?sk (set_probability atof ?pr s3) = Inr s4"
    and "s = set_default s4\<lparr>sp_fence := logged_fence fence\<rparr>" by metis
  then show ?thesis
  proof (cases ?pr)
    case (Some p)
    let ?s = "set_probability atof (Some p) s3"
    have "s4 = ?s" using s4 Some
      by (auto simp: set_skip_def set_probability_settings clamp_not_no_probability split: option.splits)
    then have "set_default s4 = ?s"
      by (simp add: set_default_def set_probability_settings clamp_not_no_probability)
    with \<open>s = _\<close> Some show ?thesis by (simp add: set_probability_settings)
  next
    case None
    then have s4': "set_skip ?sk s3 = Inr s4" using s4 by (simp add: set_probability_def)
    show ?thesis
    proof (cases ?sk)
      case (Some t)
      with s4' \<open>sp_tool_prob_num s3 = _\<close> have "sp_tool_prob_num s4 = d_of_nat 100" "fits_int (atoi t + 1)"
        "sp_kernelSampleSkip s4 = word_of_int (atoi t + 1)"
        by (auto simp: set_skip_def c_atoi_def obind_Inr split: if_splits)
      with \<open>s = _\<close> None Some show ?thesis by (simp add: set_default_def)
    next
      case None
      with s4' have "s4 = s3" by (simp add: set_skip_def)
      with \<open>s = _\<close> \<open>?pr = None\<close> None \<open>sp_tool_prob_num s3 = _\<close> show ?thesis by (simp add: set_default_def)
    qed
  qed
qed

section \<open>Which kernels are passed on\<close>

text \<open>
  The specification of a sampling rule \<open>P\<close>, given the number of the invocation among its kind and
  the random draw: the names picked, in order.
\<close>

fun picked :: "pkind \<Rightarrow> (nat \<Rightarrow> nat \<Rightarrow> bool) \<Rightarrow> nat \<Rightarrow> sampler_event list \<Rightarrow> string option list" where
  "picked k P n [] = []"
| "picked k P n (SBegin k' r name d # es) =
     (if k' = k then (if P (Suc n) r then name # picked k P (Suc n) es else picked k P (Suc n) es)
      else picked k P n es)"
| "picked k P n (SEnd k' i # es) = picked k P n es"

fun draws :: "sampler_event list \<Rightarrow> nat set" where
  "draws [] = {}"
| "draws (SBegin k r name d # es) = insert r (draws es)"
| "draws (SEnd k i # es) = draws es"

lemma begun_names_fences [simp]: "begun_names k (fences s @ [CEnd k' j]) = []"
  by simp

lemma sampler_next_names:
  assumes "watched s" and "sampler_next s e = Inr s'"
  shows "same_set_up s s' \<and> (case e of
      SBegin k' r name d \<Rightarrow> sp_invocationNum s' = (sp_invocationNum s)(k' := sp_invocationNum s k' + 1)
        \<and> begun_names k (sp_log s') = begun_names k (sp_log s) @ (if k' = k \<and> passes_on k r s then [name] else [])
    | SEnd k' i \<Rightarrow> sp_invocationNum s' = sp_invocationNum s
        \<and> begun_names k (sp_log s') = begun_names k (sp_log s))"
proof (cases e)
  case (SBegin k' r name d)
  with assms(2) obtain i where b: "sampler_begin k' r name d s = Inr (i, s')" by (auto simp: obind_Inr)
  from sampler_begin_cases [OF assms(1) b] SBegin show ?thesis by (auto split: if_splits)
next
  case (SEnd k' i)
  with assms(2) have "sampler_end k' i s = Inr s'" by simp
  from sampler_end_cases [OF assms(1) this] SEnd show ?thesis by (auto split: option.splits if_splits)
qed

lemma sampler_run_picks:
  assumes "run_events sampler_next s es = Inr s'" and "watched s"
    and "sp_invocationNum s k = of_nat n" and "n + begins es < 2 ^ 64"
    and "\<And>m r. m < 2 ^ 64 \<Longrightarrow> r \<in> draws es \<Longrightarrow> sp_due (of_nat m) r s = P m r"
    and "ch_begin (sp_callees s) k \<noteq> None"
  shows "begun_names k (sp_log s') = begun_names k (sp_log s) @ picked k P n es"
  using assms
proof (induction es arbitrary: s n)
  case (Cons e es)
  then obtain s1 where s1: "sampler_next s e = Inr s1" "run_events sampler_next s1 es = Inr s'"
    by (auto split: sum.splits)
  note c = sampler_next_names [OF Cons.prems(2) s1(1), of k]
  then have set_up: "watched s1" "ch_begin (sp_callees s1) k \<noteq> None"
    "sp_due m r s1 = sp_due m r s" for m r
    using Cons.prems(2,6) watched_same by (auto simp: same_set_up_def sp_due_def)
  have P1: "sp_due (of_nat m) r s1 = P m r" if "m < 2 ^ 64" "r \<in> draws es" for m r
    using that set_up(3) Cons.prems(5) by (cases e) auto
  show ?case
  proof (cases e)
    case (SBegin k' r name d)
    show ?thesis
    proof (cases "k' = k")
      case True
      have n: "Suc n + begins es < 2 ^ 64" using Cons.prems(4) SBegin by simp
      have inv: "sp_invocationNum s1 k = of_nat (Suc n)" using c SBegin True Cons.prems(3) by simp
      have "sp_invocationNum s k + 1 = of_nat (Suc n)" using Cons.prems(3) by simp
      moreover have "sp_due (of_nat (Suc n)) r s = P (Suc n) r"
        using Cons.prems(5) [of "Suc n" r] n SBegin by simp
      ultimately have "passes_on k r s = P (Suc n) r"
        using Cons.prems(6) by (simp add: passes_on_def add.commute)
      with Cons.IH [OF s1(2) set_up(1) inv n P1 set_up(2)] c SBegin True show ?thesis by simp
    next
      case False
      have n: "n + begins es < 2 ^ 64" using Cons.prems(4) SBegin by simp
      have inv: "sp_invocationNum s1 k = of_nat n" using c SBegin False Cons.prems(3) by simp
      from Cons.IH [OF s1(2) set_up(1) inv n P1 set_up(2)] c SBegin False show ?thesis by simp
    qed
  next
    case (SEnd k' i)
    have n: "n + begins es < 2 ^ 64" using Cons.prems(4) SEnd by simp
    have inv: "sp_invocationNum s1 k = of_nat n" using c SEnd Cons.prems(3) by simp
    from Cons.IH [OF s1(2) set_up(1) inv n P1 set_up(2)] c SEnd show ?thesis by simp
  qed
qed simp

text \<open>The draw in floating point: below one unless \<open>rand()\<close> returns \<open>RAND_MAX\<close>, and never negative.\<close>

lemma sp_draw_eq: "sp_draw r = ddiv (d_of_nat r) (d_of_nat RAND_MAX)"
  unfolding sp_draw_def by (subst dmul_one) (simp_all add: RAND_MAX_def)

lemma sp_draw_not_negative: "r \<le> RAND_MAX \<Longrightarrow> \<not> dlt (sp_draw r) (d_of_nat 0)"
proof -
  assume "r \<le> RAND_MAX"
  then have "sp_draw r = of_units False (of_nat r / of_nat RAND_MAX * scale)"
    by (simp add: sp_draw_eq ddiv_d_of_nat RAND_MAX_def)
  moreover have "\<not> (of_nat r / of_nat RAND_MAX * scale :: rat) < 0" using scale_pos by (simp add: not_less del: scale_pos)
  ultimately show ?thesis by (simp add: dlt_def s_units_of_units s_units_d_of_nat)
qed

lemma full_probability: "ddiv (d_of_nat 100) (d_of_nat 100) = d_of_nat 1"
  by (rule ddiv_self) simp_all

lemma zero_probability: "ddiv (d_of_nat 0) (d_of_nat 100) = d_of_nat 0"
  by (subst ddiv_d_of_nat) (simp_all add: d_of_nat_def)

lemma sp_draw_below_one: "r \<le> RAND_MAX \<Longrightarrow> dlt (sp_draw r) (d_of_nat 1) \<longleftrightarrow> r < RAND_MAX"
proof (cases "r < RAND_MAX")
  case True
  have "RAND_MAX < 2 ^ 53" by (simp add: RAND_MAX_def)
  from ddiv_lt_one [OF True this] True show ?thesis by (simp add: sp_draw_eq)
next
  case False
  assume "r \<le> RAND_MAX"
  with False have "sp_draw r = d_of_nat 1" by (simp add: sp_draw_eq ddiv_self RAND_MAX_def)
  with False show ?thesis by simp
qed

lemma word_mod_eq_0: "(a :: u64) mod b = 0 \<longleftrightarrow> unat a mod unat b = 0"
  by (metis unat_eq_zero unat_mod_distrib)


section \<open>Properties\<close>

lemma sampler_begin_id:
  "sampler_begin k r name d s = Inr (i, s') \<Longrightarrow> i = sp_uniqID s \<and> sp_uniqID s' = sp_uniqID s + 1"
  by (auto simp: sampler_begin_def Let_def obind_Inr fence_if_asked_def invoke_ktools_fence_def
      split: if_splits option.splits)

lemma sampler_end_id: "sampler_end k i s = Inr s' \<Longrightarrow> sp_uniqID s' = sp_uniqID s"
  by (auto simp: sampler_end_def Let_def obind_Inr fence_if_asked_def invoke_ktools_fence_def
      split: if_splits option.splits)

interpretation sampler: id_source sampler_step sp_uniqID
proof
  show "i = sp_uniqID s \<and> sp_uniqID s' = sp_uniqID s + 1" if "sampler_step s e = Inr (s', Some i)"
    for s s' :: "'w sampler" and e i
    using that by (cases e rule: sampler_event.exhaust)
      (auto simp: obind_Inr sp_begin_parallel_for_def sp_begin_parallel_reduce_def
        sp_begin_parallel_scan_def dest: sampler_begin_id split: pkind.splits)
  show "sp_uniqID s' = sp_uniqID s" if "sampler_step s e = Inr (s', None)"
    for s s' :: "'w sampler" and e
    using that by (cases e rule: sampler_event.exhaust)
      (auto simp: obind_Inr sp_end_parallel_for_def sp_end_parallel_reduce_def
        sp_end_parallel_scan_def dest: sampler_end_id split: pkind.splits)
qed

text \<open>
  A child to run the tool with: it numbers the kernels it is given from 100, and the environment
  that loads it.
\<close>

definition demo_child :: "nat child" where
  "demo_child = \<lparr>ch_begin = (\<lambda>k. Some (\<lambda>name d i w. Inr (of_nat w, Suc w))),
     ch_end = (\<lambda>k. Some (\<lambda>i w. Inr w)), ch_init = Some (\<lambda>q v n p w. Inr 100), ch_finalize = None\<rparr>"

definition demo_env :: "(string \<times> string) list \<Rightarrow> env" where
  "demo_env vs = map_of ((''KOKKOS_TOOLS_LIBS'', ''sampler;child'') # vs)"

definition demo_start :: "(string \<times> string) list \<Rightarrow> (nat \<times> child_call list) sampler outcome" where
  "demo_start vs = sampler_start_up (demo_env vs) (\<lambda>l. if l = ''child'' then Some demo_child else None)
     (\<lambda>t. d_of_nat (nat (atoi t))) 0 0 20211015 None 0"

definition demo_events :: "sampler_event list" where
  "demo_events = [SBegin ParFor 7 (Some ''a'') 0, SBegin ParFor 8 (Some ''b'') 0, SEnd ParFor 2, SEnd ParFor 1]"


lemma demo_library: "next_library 0 ''sampler;child'' = Some ''child''"
  by code_simp

lemma demo_atoi: "atoi ''0'' = 0" "atoi ''1'' = 1" "atoi ''100'' = 100"
  by code_simp+

text \<open>The state the tool starts its kernels in, for a skip rate of one and a fence that always succeeds.\<close>

lemmas start_up_defs = demo_start_def sampler_start_up_def sp_init_library_def read_settings_def
  demo_env_def env_int_def profile_library_def sp_load_child_def demo_library demo_child_def logged_def
  call_child_init_def unlogged_def demo_atoi sampler_start_def say_above_def seed_rand_def
  set_probability_def set_skip_def set_default_def c_atoi_def fits_int_def Let_def
  sp_provide_tool_programming_interface_def logged_fence_def

lemma demo_start_skip:
  "demo_start [(''KOKKOS_TOOLS_SAMPLER_SKIP'', ''1'')] = Inr \<lparr>sp_uniqID = 1, sp_kernelSampleSkip = 2,
     sp_tool_prob_num = d_of_nat 100, sp_tool_verbosity = 0, sp_tool_globFence = 0, sp_tool_seed = - 1,
     sp_infokIDSample = [], sp_invocationNum = (\<lambda>k. 0), sp_callees = logged demo_child, sp_fence = None,
     sp_srand = Some 0, sp_stdout = [], sp_stderr = [], sp_world = (100, [])\<rparr>"
  by (simp add: start_up_defs)

lemma sp_due_full:
  "sp_tool_prob_num s = d_of_nat 100 \<Longrightarrow> r \<le> RAND_MAX \<Longrightarrow>
     sp_due n r s \<longleftrightarrow> n mod sp_kernelSampleSkip s = 0 \<and> r < RAND_MAX"
  by (simp only: sp_due_def full_probability sp_draw_below_one)

lemma demo_run:
  "run_events sampler_next (projr (demo_start [(''KOKKOS_TOOLS_SAMPLER_SKIP'', ''1'')])) demo_events =
   Inr \<lparr>sp_uniqID = 3, sp_kernelSampleSkip = 2,
     sp_tool_prob_num = d_of_nat 100, sp_tool_verbosity = 0, sp_tool_globFence = 0, sp_tool_seed = - 1,
     sp_infokIDSample = [], sp_invocationNum = (\<lambda>k. if k = ParFor then 2 else 0), sp_callees = logged demo_child, sp_fence = None,
     sp_srand = Some 0, sp_stdout = [], sp_stderr = [], sp_world = (101, [CBegin ParFor (Some ''b'') 0 100, CEnd ParFor 100])\<rparr>"
  by (simp add: demo_start_skip demo_events_def sampler_begin_def sampler_end_def sp_due_full RAND_MAX_def Let_def
     say_above_def fence_if_asked_def logged_begin_def logged_end_def demo_child_def sp_insert_def sp_erase_def fun_eq_iff)

lemma start_up_inv:
  assumes "sampler_start_up getenv dlopen atof now loadSeq interfaceVer fence w = Inr s"
  shows "sampler_inv s \<and> sp_uniqID s = 1 \<and> sp_log s = [] \<and> sp_invocationNum s = (\<lambda>k. 0)"
  using start_up_steps [OF assms] by metis

lemma run_ids_next:
  "run_ids sampler_step s es = Inr (is, s') \<Longrightarrow> run_events sampler_next s es = Inr s'"
  by (induction es arbitrary: s "is") (auto simp: sampler_next_def obind_def split: sum.splits)

lemma demo_ids:
  "\<exists>s0 is s. demo_start [(''KOKKOS_TOOLS_SAMPLER_SKIP'', ''1'')] = Inr s0
    \<and> run_ids sampler_step s0 demo_events = Inr (is, s) \<and> begun (sp_log s) = [100]"
  by (simp add: demo_start_skip demo_events_def sampler_begin_def sampler_end_def sp_due_full RAND_MAX_def
      Let_def say_above_def fence_if_asked_def logged_begin_def logged_end_def demo_child_def
      sp_insert_def sp_erase_def sp_begin_parallel_for_def sp_end_parallel_for_def)

lemma demo_scan:
  "\<exists>s0 s1 s3. demo_start [(''KOKKOS_TOOLS_SAMPLER_SKIP'', ''0'')] = Inr s0
    \<and> sampler_begin ParScan 5 None 0 s0 = Inr (1, s1) \<and> sampler_end ParScan 1 s1 = Inr s3
    \<and> passes_on ParScan 5 s0 \<and> fences s0 = [] \<and> sp_log s0 = []
    \<and> sp_log s1 = [CBegin ParScan None 0 100] \<and> ch_end (sp_callees s0) ParScan \<noteq> None"
  by (simp add: start_up_defs sampler_begin_def sampler_end_def sp_due_full RAND_MAX_def passes_on_def
      fences_def fence_if_asked_def logged_begin_def logged_end_def sp_insert_def sp_erase_def)

lemma demo_probability:
  "\<exists>s0 s. demo_start [(''KOKKOS_TOOLS_SAMPLER_PROB'', ''100'')] = Inr s0
    \<and> run_events sampler_next s0 [SBegin ParFor RAND_MAX (Some ''a'') 0, SBegin ParFor 3 (Some ''b'') 0] = Inr s
    \<and> ch_begin (sp_callees s0) ParFor \<noteq> None"
  by (simp add: start_up_defs print_probability_def say_def dlt_d_of_nat sampler_begin_def sp_due_full
      RAND_MAX_def fence_if_asked_def logged_begin_def sp_insert_def)

lemma not_100_below_0: "dlt p (d_of_nat 0) \<Longrightarrow> \<not> dlt (d_of_nat 100) p" "\<not> dlt (d_of_nat 100) (d_of_nat 0)"
proof -
  have "dlt (d_of_nat 100) (d_of_nat 0)" if "dlt (d_of_nat 100) p" "dlt p (d_of_nat 0)"
    using that by (simp add: dlt_def)
  then show "dlt p (d_of_nat 0) \<Longrightarrow> \<not> dlt (d_of_nat 100) p" "\<not> dlt (d_of_nat 100) (d_of_nat 0)"
    using dlt_d_of_nat [of 100 0] by auto
qed

lemma picked_none [simp]: "picked k (\<lambda>m r. False) n es = []"
  by (induction es arbitrary: n rule: begins.induct) simp_all

text \<open>
  C14. Nothing is lost between the sampler and its child. After any sequence of callbacks from
  start-up, in any order and with any identifiers, the identifiers the child has given out are those
  it has been told to end together with those in the table, each as often: no kernel is ended
  twice, ended without having begun, or forgotten; the identifiers handed to Kokkos are distinct.
\<close>

theorem sampler_accounts_for_kernels:
  assumes "sampler_start_up getenv dlopen atof now loadSeq interfaceVer fence w = Inr s0"
    and "run_ids sampler_step s0 es = Inr (is, s)" and "begins es < 2 ^ 64 - 1"
  shows "mset (begun (sp_log s)) = mset (ended (sp_log s)) + mset (map snd (sp_infokIDSample s))
    \<and> distinct (map fst (sp_infokIDSample s)) \<and> is = counting 1 (length is)"
proof -
  note s0 = start_up_inv [OF assms(1)]
  have "run_events sampler_next s0 es = Inr s"
    using assms(2) by (rule run_ids_next)
  with sampler_run_inv [OF conjunct1 [OF s0] this] s0 assms(3) have "sampler_inv s" by simp
  with sampler.run_ids_counting [OF assms(2)] s0 show ?thesis
    by (simp add: sampler_inv_def accounted_def table_ok_def)
qed

theorem sampler_accounts_for_kernels_witness:
  "\<exists>s0 is s. demo_start [(''KOKKOS_TOOLS_SAMPLER_SKIP'', ''1'')] = Inr s0
    \<and> run_ids sampler_step s0 demo_events = Inr (is, s) \<and> begun (sp_log s) = [100]
    \<and> mset (begun (sp_log s)) = mset (ended (sp_log s)) + mset (map snd (sp_infokIDSample s))"
proof -
  obtain s0 "is" s where s: "demo_start [(''KOKKOS_TOOLS_SAMPLER_SKIP'', ''1'')] = Inr s0"
    "run_ids sampler_step s0 demo_events = Inr (is, s)" "begun (sp_log s) = [100]"
    using demo_ids by blast
  with sampler_accounts_for_kernels [OF s(1)[unfolded demo_start_def] s(2)] show ?thesis
    by (auto simp: demo_events_def)
qed

text \<open>
  C13. A kernel that is passed on is ended in the child exactly once, whatever happens in between:
  the begin callback calls the child's begin function (after a fence, if fences are asked for), the
  end callback with the same identifier passes on the very identifier the child gave out, and a
  second end of it does nothing. A kernel that is not passed on is not ended in the child either.
\<close>

theorem sampled_kernel_ends_once:
  assumes "sampler_start_up getenv dlopen atof now loadSeq interfaceVer fence w = Inr s0"
    and "run_events sampler_next s0 es0 = Inr s" and "sampler_begin k r name d s = Inr (i, s1)"
    and "run_events sampler_next s1 es = Inr s2" and "\<forall>k'. SEnd k' i \<notin> set es"
    and "begins es0 + begins es < 2 ^ 64 - 2" and "ch_end (sp_callees s0) k \<noteq> None"
    and "sampler_end k i s2 = Inr s3"
  shows "(if passes_on k r s
      then \<exists>j. sp_log s1 = sp_log s @ fences s0 @ [CBegin k name d j]
        \<and> sp_log s3 = sp_log s2 @ fences s0 @ [CEnd k j]
      else sp_log s1 = sp_log s \<and> sp_log s3 = sp_log s2)
    \<and> sampler_end k' i s3 = Inr s3"
proof -
  note s0 = start_up_inv [OF assms(1)]
  have "unat (sp_uniqID s0) + begins es0 < 2 ^ 64" using s0 assms(6) by simp
  note s = sampler_run_inv [OF conjunct1 [OF s0] assms(2) this]
  have "watched s" "table_ok s" using s by (simp_all add: sampler_inv_def)
  note b = sampler_begin_cases [OF \<open>watched s\<close> assms(3)]
  have "unat (sp_uniqID s) + 1 < 2 ^ 64" using s s0 assms(6) by simp
  with sampler_begin_table [OF \<open>watched s\<close> \<open>table_ok s\<close> assms(3)] s b watched_same [of s s1] \<open>watched s\<close>
  have s1: "sampler_inv s1" "unat (sp_uniqID s1) = unat (sp_uniqID s) + 1"
    by (auto simp: sampler_inv_def)
  have bound: "unat (sp_uniqID s1) + begins es < 2 ^ 64" using s1 s s0 assms(6) by simp
  note s2 = sampler_run_inv [OF s1(1) assms(4) bound]
  have "watched s2" using s2 by (simp add: sampler_inv_def)
  have kept: "map_of (sp_infokIDSample s2) i = map_of (sp_infokIDSample s1) i"
    using sampler_run_keeps [OF s1(1) assms(4) _ _ bound] assms(5) b s1(2) by simp
  have i: "map_of (sp_infokIDSample s) i = None" using b table_ok_fresh [OF \<open>table_ok s\<close>] by simp
  have set_up: "fences s = fences s0" "fences s2 = fences s0" "ch_end (sp_callees s2) k \<noteq> None"
    using s b s2 assms(7) by (simp_all add: same_set_up_def fences_def)
  note e = sampler_end_cases [OF \<open>watched s2\<close> assms(8)]
  show ?thesis
  proof (cases "passes_on k r s")
    case True
    with b i kept obtain j where "sp_log s1 = sp_log s @ fences s @ [CBegin k name d j]"
      "map_of (sp_infokIDSample s2) i = Some j" by (auto simp: map_of_sp_insert)
    with e set_up True show ?thesis by (auto simp: sampler_end_def map_of_sp_erase split: option.split)
  next
    case False
    with b i kept have "sp_log s1 = sp_log s" "map_of (sp_infokIDSample s2) i = None" by auto
    with e False show ?thesis by (auto simp: sampler_end_def split: option.split)
  qed
qed

theorem sampled_kernel_ends_once_witness:
  "\<exists>s0 s1 s3. demo_start [(''KOKKOS_TOOLS_SAMPLER_SKIP'', ''0'')] = Inr s0
    \<and> sampler_begin ParScan 5 None 0 s0 = Inr (1, s1) \<and> sampler_end ParScan 1 s1 = Inr s3
    \<and> (\<exists>j. sp_log s3 = [CBegin ParScan None 0 j, CEnd ParScan j])"
proof -
  obtain s0 s1 s3 where s: "demo_start [(''KOKKOS_TOOLS_SAMPLER_SKIP'', ''0'')] = Inr s0"
    "sampler_begin ParScan 5 None 0 s0 = Inr (1, s1)" "sampler_end ParScan 1 s1 = Inr s3"
    "passes_on ParScan 5 s0" "fences s0 = []" "sp_log s0 = []" "sp_log s1 = [CBegin ParScan None 0 100]"
    "ch_end (sp_callees s0) ParScan \<noteq> None"
    using demo_scan by blast
  with sampled_kernel_ends_once [OF s(1)[unfolded demo_start_def] _ s(2) _ _ _ s(8) s(3), of "[]" "[]" ParScan]
  show ?thesis by auto
qed

lemma skip_rate_due:
  assumes "sampler_start_up getenv dlopen atof now loadSeq interfaceVer fence w = Inr s0"
    and "getenv ''KOKKOS_TOOLS_SAMPLER_PROB'' = None"
    and "getenv ''KOKKOS_TOOLS_SAMPLER_SKIP'' = Some t" and "0 \<le> atoi t" and "m < 2 ^ 64" and "r < RAND_MAX"
  shows "sp_due (of_nat m) r s0 = (m mod (nat (atoi t) + 1) = 0)"
proof -
  from start_up_settings [OF assms(1)] assms(2,3)
  have set_up: "sp_tool_prob_num s0 = d_of_nat 100" "fits_int (atoi t + 1)"
    "sp_kernelSampleSkip s0 = word_of_int (atoi t + 1)" by simp_all
  have skip: "unat (sp_kernelSampleSkip s0) = nat (atoi t) + 1"
    unfolding set_up(3) by (subst fits_int_word) (use set_up(2) assms(4) in \<open>auto simp: nat_add_distrib\<close>)
  have "unat (of_nat m :: u64) = m" using assms(5) by (simp add: unat_of_nat take_bit_eq_mod)
  with assms(6) show ?thesis by (simp add: sp_due_full [OF set_up(1)] word_mod_eq_0 skip)
qed

text \<open>
  A skip rate of \<open>n\<close> passes on every \<open>(n + 1)\<close>-th kernel of each kind, counted per kind from
  start-up, and no other: with \<open>KOKKOS_TOOLS_SAMPLER_SKIP\<close> set and no probability, the names the
  child is given are the picked ones, in order, as long as \<open>rand()\<close> does not return \<open>RAND_MAX\<close>.
\<close>

theorem sampler_skip_rate:
  assumes "sampler_start_up getenv dlopen atof now loadSeq interfaceVer fence w = Inr s0"
    and "getenv ''KOKKOS_TOOLS_SAMPLER_PROB'' = None"
    and "getenv ''KOKKOS_TOOLS_SAMPLER_SKIP'' = Some t" and "0 \<le> atoi t"
    and "run_events sampler_next s0 es = Inr s" and "begins es < 2 ^ 64"
    and "draws es \<subseteq> {..<RAND_MAX}" and "ch_begin (sp_callees s0) k \<noteq> None"
  shows "begun_names k (sp_log s) = picked k (\<lambda>m r. m mod (nat (atoi t) + 1) = 0) 0 es"
proof -
  note s0 = start_up_inv [OF assms(1)]
  have due: "sp_due (of_nat m) r s0 = (m mod (nat (atoi t) + 1) = 0)" if "m < 2 ^ 64" "r \<in> draws es" for m r
    using skip_rate_due [OF assms(1-4) that(1)] that(2) assms(7) by auto
  have "watched s0" using s0 by (simp add: sampler_inv_def)
  from sampler_run_picks [OF assms(5) this _ _ due assms(8), of 0] s0 assms(6) show ?thesis by simp
qed

theorem sampler_skip_rate_witness:
  "\<exists>s0 s. demo_start [(''KOKKOS_TOOLS_SAMPLER_SKIP'', ''1'')] = Inr s0
    \<and> run_events sampler_next s0 demo_events = Inr s \<and> begun_names ParFor (sp_log s) = [Some ''b'']"
proof -
  obtain s0 s where s: "demo_start [(''KOKKOS_TOOLS_SAMPLER_SKIP'', ''1'')] = Inr s0"
    "run_events sampler_next s0 demo_events = Inr s" "ch_begin (sp_callees s0) ParFor \<noteq> None"
    using demo_run by (simp add: demo_start_skip demo_child_def)
  from sampler_skip_rate [OF s(1)[unfolded demo_start_def] _ _ _ s(2) _ _ s(3), of "''1''"]
  have "begun_names ParFor (sp_log s) = picked ParFor (\<lambda>m r. m mod (nat (atoi ''1'') + 1) = 0) 0 demo_events"
    by (simp add: demo_env_def demo_atoi demo_events_def RAND_MAX_def)
  also have "\<dots> = [Some ''b'']" by (simp add: demo_atoi demo_events_def)
  finally show ?thesis using s by blast
qed

text \<open>
  The extremes of the sampling probability. A probability of 0 or less passes on nothing. A
  probability of 100 or more passes on every kernel but those for which \<open>rand()\<close> returns
  \<open>RAND_MAX\<close>: the draw is then 1 and not below the probability, so that not all of the invocations
  are profiled, as the message of the initialisation says.
\<close>

theorem sampler_probability_extremes:
  assumes "sampler_start_up getenv dlopen atof now loadSeq interfaceVer fence w = Inr s0"
    and "getenv ''KOKKOS_TOOLS_SAMPLER_PROB'' = Some p"
    and "run_events sampler_next s0 es = Inr s" and "begins es < 2 ^ 64"
    and "draws es \<subseteq> {..RAND_MAX}" and "ch_begin (sp_callees s0) k \<noteq> None"
  shows "(dlt (atof p) (d_of_nat 0) \<or> atof p = d_of_nat 0 \<longrightarrow> begun_names k (sp_log s) = [])
    \<and> (dlt (d_of_nat 100) (atof p) \<or> atof p = d_of_nat 100 \<longrightarrow>
        begun_names k (sp_log s) = picked k (\<lambda>m r. r < RAND_MAX) 0 es)"
proof -
  note s0 = start_up_inv [OF assms(1)]
  from start_up_settings [OF assms(1)] assms(2)
  have set_up: "sp_tool_prob_num s0 = clamp_probability (atof p)" "sp_kernelSampleSkip s0 = 1" by simp_all
  have w: "watched s0" using s0 by (simp add: sampler_inv_def)
  have n: "sp_invocationNum s0 k = of_nat 0" "0 + begins es < 2 ^ 64" using s0 assms(4) by simp_all
  have "begun_names k (sp_log s) = []" if "dlt (atof p) (d_of_nat 0) \<or> atof p = d_of_nat 0"
  proof -
    have "\<not> dlt (d_of_nat 100) (atof p)" using that not_100_below_0 by auto
    then have c: "clamp_probability (atof p) = d_of_nat 0" using that by (auto simp: clamp_probability_def)
    have "sp_due (of_nat m) r s0 = False" if "m < 2 ^ 64" "r \<in> draws es" for m r
      using that assms(5) sp_draw_not_negative [of r] unfolding sp_due_def set_up c zero_probability by auto
    from sampler_run_picks [OF assms(3) w n this assms(6)] s0 show ?thesis by (simp add: picked_none)
  qed
  moreover have "begun_names k (sp_log s) = picked k (\<lambda>m r. r < RAND_MAX) 0 es"
    if "dlt (d_of_nat 100) (atof p) \<or> atof p = d_of_nat 100"
  proof -
    have c: "clamp_probability (atof p) = d_of_nat 100"
      using that by (auto simp: clamp_probability_def dlt_d_of_nat)
    have "sp_due (of_nat m) r s0 = (r < RAND_MAX)" if "m < 2 ^ 64" "r \<in> draws es" for m r
      using that assms(5) sp_draw_below_one [of r] unfolding sp_due_def set_up c full_probability by auto
    from sampler_run_picks [OF assms(3) w n this assms(6)] s0 show ?thesis by simp
  qed
  ultimately show ?thesis by blast
qed

theorem sampler_probability_extremes_witness:
  "\<exists>s0 s. demo_start [(''KOKKOS_TOOLS_SAMPLER_PROB'', ''100'')] = Inr s0
    \<and> run_events sampler_next s0 [SBegin ParFor RAND_MAX (Some ''a'') 0, SBegin ParFor 3 (Some ''b'') 0] = Inr s
    \<and> begun_names ParFor (sp_log s) = [Some ''b'']"
proof -
  let ?es = "[SBegin ParFor RAND_MAX (Some ''a'') 0, SBegin ParFor 3 (Some ''b'') 0]"
  obtain s0 s where s: "demo_start [(''KOKKOS_TOOLS_SAMPLER_PROB'', ''100'')] = Inr s0"
    "run_events sampler_next s0 ?es = Inr s" "ch_begin (sp_callees s0) ParFor \<noteq> None"
    using demo_probability by blast
  from sampler_probability_extremes [OF s(1)[unfolded demo_start_def] _ s(2) _ _ s(3), of "''100''"]
  have "begun_names ParFor (sp_log s) = picked ParFor (\<lambda>m r. r < RAND_MAX) 0 ?es"
    by (simp add: demo_env_def demo_atoi RAND_MAX_def)
  also have "\<dots> = [Some ''b'']" by (simp add: RAND_MAX_def)
  finally show ?thesis using s by blast
qed

end
