(* ===== verification/Kernel_Filter.thy ===== *)
theory Kernel_Filter
  imports Child_Library "HOL-Library.Multiset"
begin

text \<open>
  The kernel filter, \<open>common/kernel-filter/kp_kernel_filter.cpp\<close>: a tool between Kokkos and a child
  library that passes on the kernels whose names match one of the regular expressions in a file.
  The state gathers the file's global variables and, as \<open>kf_world\<close>, what the child's functions act
  on. The environment, the files, \<open>dlopen\<close> and the regular expressions (\<open>compile\<close> is the constructor
  of \<open>std::regex\<close>, which may throw, \<open>regex_match\<close> the match) are parameters.
\<close>

section \<open>State\<close>

record ('r, 'w) kernel_filter =
  kf_filterKernels :: bool
  kf_nextKernelID :: u64
  kf_kernelNames :: "'r list"
  kf_activeKernels :: "u64 set"
  kf_callees :: "'w child"
  kf_stdout :: "token list"
  kf_stderr :: "token list"
  kf_world :: 'w

definition filter_start :: "'w \<Rightarrow> ('r, 'w) kernel_filter" where
  "filter_start w = \<lparr>kf_filterKernels = False, kf_nextKernelID = 0, kf_kernelNames = [],
     kf_activeKernels = {}, kf_callees = no_child, kf_stdout = [], kf_stderr = [], kf_world = w\<rparr>"

section \<open>Reading the filter file\<close>

text \<open>An open file: the characters not read yet, and whether a read has met the end (\<open>feof\<close>).\<close>

record FILE =
  f_rest :: string
  f_eof :: bool

definition line_end :: "char \<Rightarrow> bool" where
  "line_end c = (c = CHR 0x0A \<or> c = CHR 0x0C \<or> c = CHR 0x0D)"

text \<open>
  The loop of \<open>kokkospReadLine\<close>, from the index \<open>nextIndex\<close> on: the characters it stores, whether it
  read any, and the file after it.
\<close>

fun read_chars :: "string \<Rightarrow> string \<times> bool \<times> FILE" where
  "read_chars [] = ([], False, \<lparr>f_rest = [], f_eof = True\<rparr>)"
| "read_chars (c # cs) =
     (if line_end c then ([], True, \<lparr>f_rest = cs, f_eof = False\<rparr>)
      else (case read_chars cs of (l, r, f) \<Rightarrow> (c # l, True, f)))"

text \<open>The line buffer has 65536 bytes; the terminating NUL is stored in it too.\<close>

definition kokkospReadLine :: "FILE \<Rightarrow> (bool \<times> string \<times> FILE) outcome" where
  "kokkospReadLine f =
     (if f_eof f then Inr (False, [], f)
      else case read_chars (f_rest f) of (l, r, f') \<Rightarrow>
        if length l < 65536 then Inr (r, l, f') else Inl (Undefined ''lineBuffer[nextIndex]''))"

lemma read_chars_length: "read_chars cs = (l, r, f) \<Longrightarrow> length (f_rest f) \<le> length cs"
  by (induction cs arbitrary: l r f) (fastforce split: if_splits prod.splits)+

lemma read_chars_shorter: "read_chars cs = (l, True, f) \<Longrightarrow> length (f_rest f) < length cs"
  by (cases cs) (auto dest: read_chars_length split: if_splits prod.splits)

definition filter_message :: "string \<Rightarrow> token" where
  "filter_message l = Txt (''KokkosP: Filter ['' @ l @ '']'' @ eol)"

text \<open>The loop over the lines of the file: each is printed, compiled and added.\<close>

function read_filters ::
  "(string \<Rightarrow> 'r outcome) \<Rightarrow> FILE \<Rightarrow> ('r, 'w) kernel_filter \<Rightarrow> ('r, 'w) kernel_filter outcome" where
  "read_filters compile f s =
     (case kokkospReadLine f of
        Inl x \<Rightarrow> Inl x
      | Inr (False, l, f') \<Rightarrow> Inr s
      | Inr (True, l, f') \<Rightarrow>
          (case compile (cstr l) of
             Inl x \<Rightarrow> Inl x
           | Inr r \<Rightarrow> read_filters compile f' (s\<lparr>
               kf_stdout := kf_stdout s @ [filter_message (cstr l)],
               kf_kernelNames := kf_kernelNames s @ [r]\<rparr>)))"
  by pat_completeness auto

termination
  by (relation "measure (\<lambda>(c, f, s). length (f_rest f))")
    (auto simp: kokkospReadLine_def read_chars_shorter split: if_splits prod.splits)

declare read_filters.simps [simp del]

section \<open>Initialisation\<close>

definition kf_say :: "string \<Rightarrow> ('r, 'w) kernel_filter \<Rightarrow> ('r, 'w) kernel_filter" where
  "kf_say m s = s\<lparr>kf_stdout := kf_stdout s @ [Txt (m @ eol)]\<rparr>"

definition kf_rule :: string where
  "kf_rule = replicate 60 (CHR ''='')"

definition filter_library :: "(string \<Rightarrow> string option) \<Rightarrow> ('r, 'w) kernel_filter \<Rightarrow>
    (string \<times> ('r, 'w) kernel_filter) outcome" where
  "filter_library getenv s =
     (case getenv ''KOKKOS_TOOLS_LIBS'' of
        Some l \<Rightarrow> Inr (l, s)
      | None \<Rightarrow> (case getenv ''KOKKOS_PROFILE_LIBRARY'' of
          None \<Rightarrow> Inl (Exit (- 1))
        | Some l \<Rightarrow> Inr (l,
            kf_say ''KokkosP: Note that KOKKOS_PROFILE_LIBRARY is a deprecated variable. Please use KOKKOS_TOOLS_LIBS in the future.''
            (kf_say ''KokkosP: Found that KOKKOS_PROFILE_LIBRARY is set and it will be used.''
            (kf_say ''KokkosP: KOKKOS_TOOLS_LIBS not set.'' s)))))"

text \<open>
  Loading the child: a library that is missing from the list or cannot be opened is reported, and
  the filter goes on without one.
\<close>

definition kf_load_child ::
  "(string \<Rightarrow> ('w child, string) sum) \<Rightarrow> int \<Rightarrow> u64 \<Rightarrow> u32 \<Rightarrow> u64 \<Rightarrow> string \<Rightarrow>
    ('r, 'w) kernel_filter \<Rightarrow> ('r, 'w) kernel_filter outcome" where
  "kf_load_child dlopen loadSeq interfaceVer devInfoCount deviceInfo profileLibrary s =
     (case next_library loadSeq profileLibrary of
        None \<Rightarrow> Inr (kf_say (''KokkosP: No child library to call in '' @ profileLibrary) s)
      | Some nextLibrary \<Rightarrow>
          (let s1 = kf_say ''KokkosP: Loading child library ..''
                (kf_say (''KokkosP: Next library to call: '' @ nextLibrary) s)
           in case dlopen nextLibrary of
                Inr dlerror \<Rightarrow> Inr (s1\<lparr>kf_stderr := kf_stderr s1 @ [Txt (''KokkosP: Error: Unable to load: ''
                  @ nextLibrary @ '' (Error='' @ dlerror @ '')'' @ eol)]\<rparr>)
              | Inl c \<Rightarrow>
                  obind (call_child_init c loadSeq interfaceVer devInfoCount deviceInfo (kf_world s1)) (\<lambda>w.
                  Inr (s1\<lparr>kf_callees := c, kf_world := w\<rparr>))))"

text \<open>What follows the reading of the file.\<close>

definition kf_enable ::
  "(string \<Rightarrow> string option) \<Rightarrow> (string \<Rightarrow> ('w child, string) sum) \<Rightarrow> int \<Rightarrow> u64 \<Rightarrow> u32 \<Rightarrow> u64 \<Rightarrow>
    ('r, 'w) kernel_filter \<Rightarrow> ('r, 'w) kernel_filter outcome" where
  "kf_enable getenv dlopen loadSeq interfaceVer devInfoCount deviceInfo s =
     (let enabled = (kf_kernelNames s \<noteq> []);
          s1 = kf_say (''KokkosP: Kernel Filtering is '' @ (if enabled then ''enabled'' else ''disabled''))
             (s\<lparr>kf_filterKernels := enabled\<rparr>)
      in if enabled
         then obind (filter_library getenv s1) (\<lambda>(profileLibrary, s2).
              obind (kf_load_child dlopen loadSeq interfaceVer devInfoCount deviceInfo profileLibrary s2) (\<lambda>s3.
              Inr (kf_say kf_rule s3)))
         else Inr (kf_say kf_rule s1))"

definition kf_init_library ::
  "(string \<Rightarrow> string option) \<Rightarrow> (string \<Rightarrow> string option) \<Rightarrow> (string \<Rightarrow> 'r outcome) \<Rightarrow>
    (string \<Rightarrow> ('w child, string) sum) \<Rightarrow> int \<Rightarrow> u64 \<Rightarrow> u32 \<Rightarrow> u64 \<Rightarrow>
    ('r, 'w) kernel_filter \<Rightarrow> ('r, 'w) kernel_filter outcome" where
  "kf_init_library getenv fopen compile dlopen loadSeq interfaceVer devInfoCount deviceInfo s0 =
     (let s = s0\<lparr>kf_nextKernelID := 0\<rparr> in
      case getenv ''KOKKOSP_KERNEL_FILTER'' of
        None \<Rightarrow> Inr (kf_say kf_rule
          (kf_say ''KokkosP: No kernel filtering data provided, disabled from this tool onwards''
            (kf_say kf_rule (s\<lparr>kf_filterKernels := False\<rparr>))))
      | Some kernelFilterPath \<Rightarrow>
          (case fopen kernelFilterPath of
             None \<Rightarrow> Inl (Exit (- 1))
           | Some contents \<Rightarrow>
               obind (read_filters compile \<lparr>f_rest = contents, f_eof = False\<rparr>
                  (kf_say kf_rule (kf_say (''KokkosP: Filter File: '' @ kernelFilterPath) (kf_say kf_rule s))))
                 (kf_enable getenv dlopen loadSeq interfaceVer devInfoCount deviceInfo)))"

definition kf_finalize_library :: "('r, 'w) kernel_filter \<Rightarrow> ('r, 'w) kernel_filter outcome" where
  "kf_finalize_library s =
     obind (call_child_finalize (kf_callees s) (kf_world s)) (\<lambda>w.
     Inr (kf_say kf_rule (kf_say ''KokkosP: Kernel filtering library, finalized.''
       (kf_say kf_rule (s\<lparr>kf_world := w, kf_callees := no_child\<rparr>)))))"

section \<open>Kernels\<close>

text \<open>\<open>kokkospFilterMatch\<close>: the first expression that matches ends the loop.\<close>

fun match_any :: "(string \<Rightarrow> 'r \<Rightarrow> bool) \<Rightarrow> string \<Rightarrow> 'r list \<Rightarrow> bool" where
  "match_any regex_match nameStr [] = False"
| "match_any regex_match nameStr (nextRegex # rs) =
     (if regex_match nameStr nextRegex then True else match_any regex_match nameStr rs)"

definition kokkospFilterMatch ::
  "(string \<Rightarrow> 'r \<Rightarrow> bool) \<Rightarrow> string option \<Rightarrow> ('r, 'w) kernel_filter \<Rightarrow> bool outcome" where
  "kokkospFilterMatch regex_match name s =
     (case name of None \<Rightarrow> Inl (Undefined ''std::string of a null pointer'')
      | Some n \<Rightarrow> Inr (match_any regex_match n (kf_kernelNames s)))"

text \<open>The tool's own identifier, for a kernel that is not passed on.\<close>

definition own_id :: "('r, 'w) kernel_filter \<Rightarrow> u64 \<times> ('r, 'w) kernel_filter" where
  "own_id s = (kf_nextKernelID s, s\<lparr>kf_nextKernelID := kf_nextKernelID s + 1\<rparr>)"

definition pass_on ::
  "pkind \<Rightarrow> string option \<Rightarrow> u32 \<Rightarrow> u64 \<Rightarrow> ('r, 'w) kernel_filter \<Rightarrow> (u64 \<times> ('r, 'w) kernel_filter) outcome" where
  "pass_on k name devID kID0 s =
     (case ch_begin (kf_callees s) k of
        Some callee \<Rightarrow> obind (callee name devID kID0 (kf_world s)) (\<lambda>(kID, w).
          Inr (kID, s\<lparr>kf_world := w, kf_activeKernels := insert kID (kf_activeKernels s)\<rparr>))
      | None \<Rightarrow> Inr (own_id s))"

text \<open>
  The begin and end functions of the three kinds are three copies of one body over three callees.
  \<open>kID0\<close> is what \<open>*kID\<close> holds when the begin function is called.
\<close>

definition filter_begin ::
  "(string \<Rightarrow> 'r \<Rightarrow> bool) \<Rightarrow> pkind \<Rightarrow> string option \<Rightarrow> u32 \<Rightarrow> u64 \<Rightarrow>
    ('r, 'w) kernel_filter \<Rightarrow> (u64 \<times> ('r, 'w) kernel_filter) outcome" where
  "filter_begin regex_match k name devID kID0 s =
     (if kf_filterKernels s
      then obind (kokkospFilterMatch regex_match name s) (\<lambda>matched.
        if matched then pass_on k name devID kID0 s else Inr (own_id s))
      else pass_on k name devID kID0 s)"

definition filter_end :: "pkind \<Rightarrow> u64 \<Rightarrow> ('r, 'w) kernel_filter \<Rightarrow> ('r, 'w) kernel_filter outcome" where
  "filter_end k kID s =
     (if kID \<in> kf_activeKernels s
      then obind (case ch_end (kf_callees s) k of Some callee \<Rightarrow> callee kID (kf_world s) | None \<Rightarrow> Inr (kf_world s)) (\<lambda>w.
        Inr (s\<lparr>kf_world := w, kf_activeKernels := kf_activeKernels s - {kID}\<rparr>))
      else Inr s)"

definition kf_begin_parallel_for :: "(string \<Rightarrow> 'r \<Rightarrow> bool) \<Rightarrow> string option \<Rightarrow> u32 \<Rightarrow> u64 \<Rightarrow>
    ('r, 'w) kernel_filter \<Rightarrow> (u64 \<times> ('r, 'w) kernel_filter) outcome" where
  "kf_begin_parallel_for m = filter_begin m ParFor"

definition kf_end_parallel_for :: "u64 \<Rightarrow> ('r, 'w) kernel_filter \<Rightarrow> ('r, 'w) kernel_filter outcome" where
  "kf_end_parallel_for = filter_end ParFor"

definition kf_begin_parallel_scan :: "(string \<Rightarrow> 'r \<Rightarrow> bool) \<Rightarrow> string option \<Rightarrow> u32 \<Rightarrow> u64 \<Rightarrow>
    ('r, 'w) kernel_filter \<Rightarrow> (u64 \<times> ('r, 'w) kernel_filter) outcome" where
  "kf_begin_parallel_scan m = filter_begin m ParScan"

definition kf_end_parallel_scan :: "u64 \<Rightarrow> ('r, 'w) kernel_filter \<Rightarrow> ('r, 'w) kernel_filter outcome" where
  "kf_end_parallel_scan = filter_end ParScan"

definition kf_begin_parallel_reduce :: "(string \<Rightarrow> 'r \<Rightarrow> bool) \<Rightarrow> string option \<Rightarrow> u32 \<Rightarrow> u64 \<Rightarrow>
    ('r, 'w) kernel_filter \<Rightarrow> (u64 \<times> ('r, 'w) kernel_filter) outcome" where
  "kf_begin_parallel_reduce m = filter_begin m ParReduce"

definition kf_end_parallel_reduce :: "u64 \<Rightarrow> ('r, 'w) kernel_filter \<Rightarrow> ('r, 'w) kernel_filter outcome" where
  "kf_end_parallel_reduce = filter_end ParReduce"

section \<open>Events\<close>

datatype filter_event = FBegin pkind "string option" u32 u64 | FEnd pkind u64

fun filter_step :: "(string \<Rightarrow> 'r \<Rightarrow> bool) \<Rightarrow> ('r, 'w) kernel_filter \<Rightarrow> filter_event \<Rightarrow>
    (('r, 'w) kernel_filter \<times> u64 option) outcome" where
  "filter_step m s (FBegin k name devID kID0) =
     obind ((case k of ParFor \<Rightarrow> kf_begin_parallel_for | ParReduce \<Rightarrow> kf_begin_parallel_reduce
        | ParScan \<Rightarrow> kf_begin_parallel_scan) m name devID kID0 s) (\<lambda>(i, s'). Inr (s', Some i))"
| "filter_step m s (FEnd k kID) =
     obind ((case k of ParFor \<Rightarrow> kf_end_parallel_for | ParReduce \<Rightarrow> kf_end_parallel_reduce
        | ParScan \<Rightarrow> kf_end_parallel_scan) kID s) (\<lambda>s'. Inr (s', None))"

definition filter_next :: "(string \<Rightarrow> 'r \<Rightarrow> bool) \<Rightarrow> ('r, 'w) kernel_filter \<Rightarrow> filter_event \<Rightarrow>
    ('r, 'w) kernel_filter outcome" where
  "filter_next m s e = obind (filter_step m s e) (\<lambda>(s', i). Inr s')"

lemma filter_next_simps [simp]:
  "filter_next m s (FBegin k name devID i) = obind (filter_begin m k name devID i s) (\<lambda>(i, s'). Inr s')"
  "filter_next m s (FEnd k kID) = filter_end k kID s"
  by (cases k; simp add: filter_next_def kf_begin_parallel_for_def kf_begin_parallel_reduce_def
      kf_begin_parallel_scan_def kf_end_parallel_for_def kf_end_parallel_reduce_def
      kf_end_parallel_scan_def obind_def split: sum.splits)+

section \<open>The filter file\<close>

definition plain :: "string \<Rightarrow> bool" where
  "plain l = (length l < 65536 \<and> (\<forall>c \<in> set l. \<not> line_end c \<and> c \<noteq> CHR 0x00))"

lemma read_chars_line:
  "\<forall>c \<in> set l. \<not> line_end c \<Longrightarrow> line_end e \<Longrightarrow>
     read_chars (l @ e # cs) = (l, True, \<lparr>f_rest = cs, f_eof = False\<rparr>)"
  by (induction l) auto

lemma readLine_line:
  "plain l \<Longrightarrow> line_end e \<Longrightarrow> kokkospReadLine \<lparr>f_rest = l @ e # cs, f_eof = False\<rparr>
     = Inr (True, l, \<lparr>f_rest = cs, f_eof = False\<rparr>)"
  by (simp add: kokkospReadLine_def plain_def read_chars_line)

lemma readLine_end: "kokkospReadLine \<lparr>f_rest = [], f_eof = False\<rparr> = Inr (False, [], \<lparr>f_rest = [], f_eof = True\<rparr>)"
  by (simp add: kokkospReadLine_def)

lemma cstr_plain: "plain l \<Longrightarrow> cstr l = l"
  by (auto simp: plain_def cstr_def takeWhile_eq_all_conv)

text \<open>A file of lines, each with the character that ends it.\<close>

definition file_of :: "(string \<times> char) list \<Rightarrow> FILE" where
  "file_of ls = \<lparr>f_rest = concat (map (\<lambda>(l, e). l @ [e]) ls), f_eof = False\<rparr>"

lemma read_filters_file:
  assumes "\<forall>(l, e) \<in> set ls. plain l \<and> line_end e"
  shows "read_filters compile (file_of ls) s =
    (case those (map (\<lambda>(l, e). case compile l of Inr r \<Rightarrow> Some r | Inl x \<Rightarrow> None) ls) of
       Some rs \<Rightarrow> Inr (s\<lparr>
         kf_stdout := kf_stdout s @ map (filter_message \<circ> fst) ls,
         kf_kernelNames := kf_kernelNames s @ rs\<rparr>)
     | None \<Rightarrow> hd (concat (map (\<lambda>(l, e). case compile l of Inr r \<Rightarrow> [] | Inl x \<Rightarrow> [Inl x]) ls)))"
  using assms
proof (induction ls arbitrary: s)
  case Nil
  then show ?case by (subst read_filters.simps) (simp add: file_of_def readLine_end)
next
  case (Cons p ls)
  obtain l e where p: "p = (l, e)" by (rule prod.exhaust)
  have rest: "\<lparr>f_rest = concat (map (\<lambda>(l, e). l @ [e]) ls), f_eof = False\<rparr> = file_of ls"
    by (simp add: file_of_def)
  have "plain l" "line_end e" using Cons.prems p by auto
  then have line: "kokkospReadLine (file_of (p # ls)) = Inr (True, l, file_of ls)"
    by (simp add: file_of_def p readLine_line)
  note step = read_filters.simps [of compile "file_of (p # ls)" s, unfolded line, unfolded p]
  have IH: "\<forall>(l, e) \<in> set ls. plain l \<and> line_end e" using Cons.prems by simp
  show ?case
    by (cases "compile l"; cases "those (map (\<lambda>(l, e). case compile l of Inr r \<Rightarrow> Some r | Inl x \<Rightarrow> None) ls)")
      (simp_all add: p step cstr_plain [OF \<open>plain l\<close>] Cons.IH [OF IH])
qed

section \<open>What the child sees\<close>

abbreviation kf_log :: "('r, 'w \<times> child_call list) kernel_filter \<Rightarrow> child_call list" where
  "kf_log s \<equiv> snd (kf_world s)"

definition kf_watched :: "('r, 'w \<times> child_call list) kernel_filter \<Rightarrow> bool" where
  "kf_watched s = (\<exists>c. kf_callees s = logged c)"

definition accepts :: "(string \<Rightarrow> 'r \<Rightarrow> bool) \<Rightarrow> string option \<Rightarrow> ('r, 'w) kernel_filter \<Rightarrow> bool" where
  "accepts m name s = (\<not> kf_filterKernels s \<or> list_ex (m (the name)) (kf_kernelNames s))"

lemma match_any_iff: "match_any m n rs = list_ex (m n) rs"
  by (induction rs) auto

definition same_filter :: "('r, 'w) kernel_filter \<Rightarrow> ('r, 'w) kernel_filter \<Rightarrow> bool" where
  "same_filter s s' = (kf_callees s' = kf_callees s \<and> kf_kernelNames s' = kf_kernelNames s
     \<and> kf_filterKernels s' = kf_filterKernels s)"

lemma filter_begin_cases:
  assumes "kf_watched s" and "filter_begin m k name d i0 s = Inr (i, s')"
  shows "same_filter s s' \<and>
    (if accepts m name s \<and> ch_begin (kf_callees s) k \<noteq> None
     then kf_log s' = kf_log s @ [CBegin k name d i] \<and> kf_activeKernels s' = insert i (kf_activeKernels s)
       \<and> kf_nextKernelID s' = kf_nextKernelID s
     else (i, s') = own_id s)"
proof -
  from assms(1) obtain c where c: "kf_callees s = logged c" by (auto simp: kf_watched_def)
  have pass: "same_filter s s' \<and>
    (if ch_begin (kf_callees s) k \<noteq> None
     then kf_log s' = kf_log s @ [CBegin k name d i] \<and> kf_activeKernels s' = insert i (kf_activeKernels s)
       \<and> kf_nextKernelID s' = kf_nextKernelID s
     else (i, s') = own_id s)" if "pass_on k name d i0 s = Inr (i, s')"
    using that c by (cases "ch_begin c k")
      (auto simp: pass_on_def obind_Inr logged_begin_Inr own_id_def same_filter_def)
  have own: "same_filter s (snd (own_id s))" by (simp add: own_id_def same_filter_def)
  show ?thesis
  proof (cases "accepts m name s")
    case True
    with assms(2) have "pass_on k name d i0 s = Inr (i, s')"
      by (auto simp: filter_begin_def accepts_def kokkospFilterMatch_def match_any_iff obind_Inr split: option.splits if_splits)
    with pass True show ?thesis by simp
  next
    case False
    with assms(2) have "(i, s') = own_id s"
      by (auto simp: filter_begin_def accepts_def kokkospFilterMatch_def match_any_iff obind_Inr split: option.splits if_splits)
    with own False show ?thesis by (metis snd_conv)
  qed
qed

lemma filter_end_cases:
  assumes "kf_watched s" and "filter_end k i s = Inr s'"
  shows "same_filter s s' \<and> kf_activeKernels s' = kf_activeKernels s - {i} \<and> kf_log s' = kf_log s @
    (if i \<in> kf_activeKernels s \<and> ch_end (kf_callees s) k \<noteq> None then [CEnd k i] else [])"
proof -
  from assms(1) obtain c where c: "kf_callees s = logged c" by (auto simp: kf_watched_def)
  show ?thesis using assms(2) c by (cases "ch_end c k")
    (auto simp: filter_end_def obind_Inr logged_end_Inr same_filter_def split: if_splits)
qed

lemma kf_watched_same: "same_filter s s' \<Longrightarrow> kf_watched s \<Longrightarrow> kf_watched s'"
  by (simp add: same_filter_def kf_watched_def)

section \<open>Properties\<close>

text \<open>
  Reading the filter file gives back its lines: a file made of lines without line ends and of less
  than 65536 characters, each ended by a newline, a carriage return or a form feed, is read to its
  end, each line is printed and compiled once, in order, and the compiled expressions are appended.
\<close>

theorem read_filters_reads_lines:
  assumes "\<forall>(l, e) \<in> set ls. plain l \<and> line_end e" and "\<forall>(l, e) \<in> set ls. compile l = Inr (f l)"
  shows "read_filters compile (file_of ls) s = Inr (s\<lparr>
    kf_stdout := kf_stdout s @ map (filter_message \<circ> fst) ls,
    kf_kernelNames := kf_kernelNames s @ map (f \<circ> fst) ls\<rparr>)"
proof -
  have "those (map (\<lambda>(l, e). case compile l of Inr r \<Rightarrow> Some r | Inl x \<Rightarrow> None) ls) = Some (map (f \<circ> fst) ls)"
    using assms(2) by (induction ls) auto
  with read_filters_file [OF assms(1), of compile s] show ?thesis by simp
qed

theorem read_filters_reads_lines_witness:
  "kf_kernelNames (projr (read_filters Inr (file_of [(''axpy'', CHR 0x0A), (''dot.*'', CHR 0x0D)])
     (filter_start () :: (string, unit) kernel_filter))) = [''axpy'', ''dot.*'']"
  by (subst read_filters_reads_lines [where f = "\<lambda>l. l"]) (auto simp: plain_def line_end_def filter_start_def)

definition filter_inv :: "('r, 'w \<times> child_call list) kernel_filter \<Rightarrow> bool" where
  "filter_inv s = (kf_watched s
     \<and> (\<forall>i. count (mset (ended (kf_log s))) i \<le> count (mset (begun (kf_log s))) i)
     \<and> (\<forall>i \<in> kf_activeKernels s. count (mset (ended (kf_log s))) i < count (mset (begun (kf_log s))) i))"

lemma filter_next_inv:
  assumes "filter_inv s" and "filter_next m s e = Inr s'"
  shows "filter_inv s' \<and> same_filter s s'"
proof (cases e)
  case (FBegin k name d i0)
  with assms(2) obtain i where b: "filter_begin m k name d i0 s = Inr (i, s')" by (auto simp: obind_Inr)
  have w: "kf_watched s" using assms(1) by (simp add: filter_inv_def)
  note c = filter_begin_cases [OF w b]
  show ?thesis
  proof (cases "accepts m name s \<and> ch_begin (kf_callees s) k \<noteq> None")
    case True
    with c assms(1) kf_watched_same [of s s'] show ?thesis
      by (auto simp: filter_inv_def le_SucI less_SucI less_Suc_eq_le)
  next
    case False
    with c have "s' = snd (own_id s)" by (auto simp: own_id_def split: if_splits)
    then have "kf_world s' = kf_world s" "kf_activeKernels s' = kf_activeKernels s"
      by (simp_all add: own_id_def)
    with c assms(1) kf_watched_same [of s s'] show ?thesis by (simp add: filter_inv_def)
  qed
next
  case (FEnd k i)
  with assms(2) have b: "filter_end k i s = Inr s'" by simp
  have w: "kf_watched s" using assms(1) by (simp add: filter_inv_def)
  from filter_end_cases [OF w b] kf_watched_same [of s s'] assms(1) show ?thesis
    by (auto simp: filter_inv_def Suc_le_eq split: if_splits)
qed

lemma same_filter_trans: "same_filter a b \<Longrightarrow> same_filter b c \<Longrightarrow> same_filter a c"
  by (simp add: same_filter_def)

lemma filter_run_inv:
  assumes "run_events (filter_next m) s es = Inr s'" and "filter_inv s"
  shows "filter_inv s' \<and> same_filter s s'"
  using assms
proof (induction es arbitrary: s)
  case (Cons e es)
  then obtain s1 where "filter_next m s e = Inr s1" "run_events (filter_next m) s1 es = Inr s'"
    by (auto split: sum.splits)
  with Cons filter_next_inv [of s m e s1] same_filter_trans show ?case by blast
qed (simp add: same_filter_def)

text \<open>The names of the kernels of one kind in a sequence of events.\<close>

fun names_of :: "pkind \<Rightarrow> filter_event list \<Rightarrow> string option list" where
  "names_of k [] = []"
| "names_of k (FBegin k' name d i # es) = (if k' = k then name # names_of k es else names_of k es)"
| "names_of k (FEnd k' i # es) = names_of k es"

lemma filter_run_names:
  assumes "run_events (filter_next m) s es = Inr s'" and "kf_watched s"
    and "ch_begin (kf_callees s) k \<noteq> None"
  shows "begun_names k (kf_log s') = begun_names k (kf_log s) @ filter (\<lambda>n. accepts m n s) (names_of k es)"
  using assms
proof (induction es arbitrary: s)
  case (Cons e es)
  then obtain s1 where s1: "filter_next m s e = Inr s1" "run_events (filter_next m) s1 es = Inr s'"
    by (auto split: sum.splits)
  have step: "same_filter s s1 \<and> begun_names k (kf_log s1) = begun_names k (kf_log s)
    @ filter (\<lambda>n. accepts m n s) (names_of k [e])"
  proof (cases e)
    case (FBegin k' name d i0)
    with s1 obtain i where b: "filter_begin m k' name d i0 s = Inr (i, s1)" by (auto simp: obind_Inr)
    from filter_begin_cases [OF Cons.prems(2) b] FBegin Cons.prems(3) show ?thesis
      by (auto simp: own_id_def split: if_splits)
  next
    case (FEnd k' i)
    with s1 have b: "filter_end k' i s = Inr s1" by simp
    from filter_end_cases [OF Cons.prems(2) b] FEnd show ?thesis by auto
  qed
  then have "accepts m n s1 = accepts m n s" "ch_begin (kf_callees s1) k \<noteq> None" "kf_watched s1" for n
    using Cons.prems(2,3) kf_watched_same by (auto simp: accepts_def same_filter_def)
  with Cons.IH [OF s1(2)] step show ?case by (cases e) auto
qed simp

text \<open>What a successful initialisation leaves behind.\<close>

lemma kf_say_sel [simp]:
  "kf_callees (kf_say t s) = kf_callees s" "kf_kernelNames (kf_say t s) = kf_kernelNames s"
  "kf_filterKernels (kf_say t s) = kf_filterKernels s" "kf_world (kf_say t s) = kf_world s"
  "kf_activeKernels (kf_say t s) = kf_activeKernels s"
  by (simp_all add: kf_say_def)

lemma filter_library_sel:
  "filter_library getenv s = Inr (l, s') \<Longrightarrow> same_filter s s' \<and> kf_world s' = kf_world s
     \<and> kf_activeKernels s' = kf_activeKernels s"
  by (auto simp: filter_library_def same_filter_def split: option.splits)

lemma kf_load_child_sel:
  "kf_load_child (\<lambda>l. map_sum logged id (dlopen l)) q v n p lib s = Inr s' \<Longrightarrow>
     kf_watched s \<Longrightarrow> kf_watched s' \<and> snd (kf_world s') = snd (kf_world s) \<and> kf_kernelNames s' = kf_kernelNames s
       \<and> kf_filterKernels s' = kf_filterKernels s \<and> kf_activeKernels s' = kf_activeKernels s"
  by (auto simp: kf_load_child_def kf_watched_def Let_def obind_Inr map_sum_def
      dest: call_child_init_logged split: option.splits sum.splits)

lemma no_child_logged: "no_child = logged no_child"
  by (simp add: no_child_def logged_def)

lemma kf_enable_sel:
  assumes "kf_enable getenv (\<lambda>l. map_sum logged id (dlopen l)) q v n p s = Inr s'" and "kf_callees s = no_child"
  shows "kf_watched s' \<and> snd (kf_world s') = snd (kf_world s) \<and> kf_kernelNames s' = kf_kernelNames s
    \<and> kf_activeKernels s' = kf_activeKernels s \<and> (ch_begin (kf_callees s') k \<noteq> None \<longrightarrow> kf_filterKernels s')"
proof (cases "kf_kernelNames s = []")
  case True
  with assms no_child_logged show ?thesis by (auto simp: kf_enable_def kf_watched_def no_child_def)
next
  case False
  define s1 where "s1 = kf_say ''KokkosP: Kernel Filtering is enabled'' (s\<lparr>kf_filterKernels := True\<rparr>)"
  from assms(1) False obtain lib s2 s3 where l: "filter_library getenv s1 = Inr (lib, s2)"
    and s3: "kf_load_child (\<lambda>l. map_sum logged id (dlopen l)) q v n p lib s2 = Inr s3"
    and s': "s' = kf_say kf_rule s3"
    by (auto simp: kf_enable_def s1_def obind_Inr)
  have s1: "kf_filterKernels s1" "kf_world s1 = kf_world s" "kf_kernelNames s1 = kf_kernelNames s"
    "kf_activeKernels s1 = kf_activeKernels s" "kf_callees s1 = no_child"
    by (simp_all add: s1_def assms(2))
  have "kf_watched s2" using filter_library_sel [OF l] s1(5) no_child_logged
    by (metis kf_watched_def same_filter_def)
  from kf_load_child_sel [OF s3 this] filter_library_sel [OF l] s1 s' show ?thesis
    by (simp add: same_filter_def kf_watched_def)
qed

text \<open>The state in which the initialisation, having read the file, looks for the child.\<close>

lemma init_enables:
  fixes s :: "('r, 'w) kernel_filter"
  assumes "kf_init_library getenv fopen compile dlopen q v n p (filter_start w) = Inr s"
    and "getenv ''KOKKOSP_KERNEL_FILTER'' = Some path" and "fopen path = Some (f_rest (file_of ls))"
    and "\<forall>(l, e) \<in> set ls. plain l \<and> line_end e" and "\<forall>(l, e) \<in> set ls. compile l = Inr (f l)"
  obtains s1 where "kf_enable getenv dlopen q v n p s1 = Inr s" and "kf_callees s1 = no_child"
    and "kf_kernelNames s1 = map (f \<circ> fst) ls" and "kf_world s1 = w" and "kf_activeKernels s1 = {}" and "kf_nextKernelID s1 = 0"
proof -
  have contents: "\<lparr>f_rest = f_rest (file_of ls), f_eof = False\<rparr> = file_of ls" by (simp add: file_of_def)
  have r: "those (map (\<lambda>(l, e). case compile l of Inr r \<Rightarrow> Some r | Inl x \<Rightarrow> None) ls) = Some (map (f \<circ> fst) ls)"
    using assms(5) by (induction ls) auto
  define s0 :: "('r, 'w) kernel_filter" where "s0 = kf_say kf_rule (kf_say (''KokkosP: Filter File: '' @ path)
    (kf_say kf_rule ((filter_start w)\<lparr>kf_nextKernelID := 0\<rparr>)))"
  let ?s1 = "s0\<lparr>kf_stdout := kf_stdout s0 @ map (filter_message \<circ> fst) ls,
    kf_kernelNames := kf_kernelNames s0 @ map (f \<circ> fst) ls\<rparr>"
  have "kf_enable getenv dlopen q v n p ?s1 = Inr s"
    using assms(1) unfolding kf_init_library_def assms(2,3) Let_def option.case contents
      read_filters_file [OF assms(4)] r
    by (simp add: s0_def)
  moreover have "kf_callees s0 = no_child" "kf_kernelNames s0 = []" "kf_world s0 = w" "kf_activeKernels s0 = {}"
    "kf_nextKernelID s0 = 0"
    by (simp_all add: s0_def filter_start_def kf_say_def)
  ultimately show thesis using that [of ?s1] by simp
qed

lemma init_filters:
  fixes s :: "('r, 'w \<times> child_call list) kernel_filter"
  assumes "kf_init_library getenv fopen compile (\<lambda>l. map_sum logged id (dlopen l)) q v n p (filter_start (w, [])) = Inr s"
    and "getenv ''KOKKOSP_KERNEL_FILTER'' = Some path" and "fopen path = Some (f_rest (file_of ls))"
    and "\<forall>(l, e) \<in> set ls. plain l \<and> line_end e" and "\<forall>(l, e) \<in> set ls. compile l = Inr (f l)"
  shows "filter_inv s \<and> kf_log s = [] \<and> kf_activeKernels s = {} \<and> kf_kernelNames s = map (f \<circ> fst) ls
    \<and> (ch_begin (kf_callees s) k \<noteq> None \<longrightarrow> kf_filterKernels s)"
proof -
  from init_enables [OF assms] obtain s1 where
    e: "kf_enable getenv (\<lambda>l. map_sum logged id (dlopen l)) q v n p s1 = Inr s" "kf_callees s1 = no_child"
    and s1: "kf_kernelNames s1 = map (f \<circ> fst) ls" "kf_world s1 = (w, [])" "kf_activeKernels s1 = {}" by blast
  from kf_enable_sel [OF e, of k] s1 show ?thesis by (simp add: filter_inv_def)
qed

text \<open>
  C17. Exactly the kernels whose names match reach the child. After an initialisation with a filter
  file of lines that all compile, the kernels of a kind the child is given, over any sequence of
  callbacks, are those whose name matches the expression of at least one line, in order; and
  the child is told to end an identifier no more often than it gave it out.
\<close>

theorem filter_passes_matching:
  assumes "kf_init_library getenv fopen compile (\<lambda>l. map_sum logged id (dlopen l)) loadSeq interfaceVer 0 0
      (filter_start (w, [])) = Inr s0"
    and "getenv ''KOKKOSP_KERNEL_FILTER'' = Some path" and "fopen path = Some (f_rest (file_of ls))"
    and "\<forall>(l, e) \<in> set ls. plain l \<and> line_end e" and "\<forall>(l, e) \<in> set ls. compile l = Inr (f l)"
    and "run_events (filter_next regex_match) s0 es = Inr s" and "ch_begin (kf_callees s0) k \<noteq> None"
  shows "begun_names k (kf_log s) = filter (\<lambda>n. \<exists>(l, e) \<in> set ls. regex_match (the n) (f l)) (names_of k es)
    \<and> (\<forall>i. count (mset (ended (kf_log s))) i \<le> count (mset (begun (kf_log s))) i)"
proof -
  note s0 = init_filters [OF assms(1-5), of k]
  have acc: "accepts regex_match n s0 \<longleftrightarrow> (\<exists>(l, e) \<in> set ls. regex_match (the n) (f l))" for n
    using s0 assms(7) by (auto simp: accepts_def list_ex_iff split_beta)
  have "begun_names k (kf_log s) = filter (\<lambda>n. accepts regex_match n s0) (names_of k es)"
    using filter_run_names [OF assms(6) _ assms(7)] s0 by (simp add: filter_inv_def)
  moreover have "filter_inv s" using filter_run_inv [OF assms(6)] s0 by simp
  ultimately show ?thesis by (simp add: acc filter_inv_def)
qed

text \<open>An environment to run the tool in: a file with one expression, which matches itself only.\<close>

definition filter_env :: "string \<Rightarrow> string option" where
  "filter_env = map_of [(''KOKKOSP_KERNEL_FILTER'', ''f''), (''KOKKOS_TOOLS_LIBS'', ''filter;child'')]"

definition counting_child :: "u64 child" where
  "counting_child = \<lparr>ch_begin = (\<lambda>k. Some (\<lambda>name d i w. Inr (w, w + 1))),
     ch_end = (\<lambda>k. Some (\<lambda>i w. Inr w)), ch_init = Some (\<lambda>q v n p w. Inr 0), ch_finalize = None\<rparr>"

definition filter_demo :: "(string, u64 \<times> child_call list) kernel_filter outcome" where
  "filter_demo = kf_init_library filter_env (\<lambda>p. Some (f_rest (file_of [(''axpy'', CHR 0x0A)]))) Inr
     (\<lambda>l. map_sum logged id (if l = ''child'' then Inl counting_child else Inr ''not found'')) 0 20211015 0 0
     (filter_start (7, []))"

lemma filter_demo_library: "next_library 0 ''filter;child'' = Some ''child''"
  by code_simp

lemma filter_demo_state:
  "\<exists>s. filter_demo = Inr s \<and> kf_callees s = logged counting_child \<and> kf_filterKernels s
    \<and> kf_kernelNames s = [''axpy''] \<and> kf_activeKernels s = {} \<and> kf_nextKernelID s = 0 \<and> kf_world s = (0, [])"
proof -
  have f: "\<lparr>f_rest = f_rest (file_of [(''axpy'', CHR 0x0A)]), f_eof = False\<rparr> = file_of [(''axpy'', CHR 0x0A)]"
    by (simp add: file_of_def)
  have p: "\<forall>(l, e) \<in> set [(''axpy'', CHR 0x0A)]. plain l \<and> line_end e"
    by (simp add: plain_def line_end_def)
  show ?thesis
    by (simp add: filter_demo_def kf_init_library_def filter_env_def f read_filters_file [OF p] kf_enable_def
        filter_library_def kf_load_child_def filter_demo_library call_child_init_def counting_child_def
        logged_def unlogged_def filter_start_def Let_def kf_say_def)
qed

theorem filter_passes_matching_witness:
  "\<exists>s0 s. filter_demo = Inr s0
    \<and> run_events (filter_next (=)) s0 [FBegin ParFor (Some ''axpy'') 0 0, FBegin ParFor (Some ''dot'') 0 0] = Inr s
    \<and> begun_names ParFor (kf_log s) = [Some ''axpy'']"
proof -
  let ?es = "[FBegin ParFor (Some ''axpy'') 0 0, FBegin ParFor (Some ''dot'') 0 0]"
  obtain s0 where s0: "filter_demo = Inr s0" "kf_callees s0 = logged counting_child" "kf_filterKernels s0"
    "kf_kernelNames s0 = [''axpy'']" using filter_demo_state by blast
  obtain s where s: "run_events (filter_next (=)) s0 ?es = Inr s"
    using s0(2-4) by (cases "kf_world s0") (simp add: filter_begin_def kokkospFilterMatch_def pass_on_def
        own_id_def counting_child_def logged_begin_def)
  have "ch_begin (kf_callees s0) ParFor \<noteq> None" using s0(2) by (simp add: counting_child_def)
  from filter_passes_matching [OF s0(1)[unfolded filter_demo_def] _ _ _ _ s this,
      where f = "\<lambda>l. l" and ls = "[(''axpy'', CHR 0x0A)]" and path = "''f''"]
  have "begun_names ParFor (kf_log s) = filter (\<lambda>n. the n = ''axpy'') (names_of ParFor ?es)"
    by (simp add: filter_env_def plain_def line_end_def)
  with s0 s show ?thesis by auto
qed

text \<open>
  The tool's own identifiers can collide with the child's. A kernel that is passed on has the
  child's identifier; one that is not gets the tool's counter. When the two are equal, the end of the
  kernel that was not passed on is delivered to the child as the end of the other, whose own end is
  then not delivered.
\<close>

theorem filter_identifiers_collide:
  assumes "kf_callees s = logged c" and "kf_filterKernels s"
    and "match_any regex_match a (kf_kernelNames s)" and "\<not> match_any regex_match b (kf_kernelNames s)"
    and "filter_begin regex_match k (Some a) d 0 s = Inr (kf_nextKernelID s, s1)"
    and "ch_begin c k = Some f" and "ch_end c k = Some g"
    and "filter_begin regex_match k (Some b) d' 0 s1 = Inr (j, s2)" and "filter_end k j s2 = Inr s3"
  shows "j = kf_nextKernelID s \<and> kf_log s3 = kf_log s @ [CBegin k (Some a) d (kf_nextKernelID s), CEnd k j]
    \<and> filter_end k (kf_nextKernelID s) s3 = Inr s3"
proof -
  have w: "kf_watched s" using assms(1) by (auto simp: kf_watched_def)
  note b1 = filter_begin_cases [OF w assms(5)]
  have s1: "kf_watched s1" "kf_log s1 = kf_log s @ [CBegin k (Some a) d (kf_nextKernelID s)]"
    "kf_nextKernelID s \<in> kf_activeKernels s1" "kf_nextKernelID s1 = kf_nextKernelID s"
    using b1 w assms(1-6) kf_watched_same [of s s1] by (auto simp: accepts_def match_any_iff)
  note b2 = filter_begin_cases [OF s1(1) assms(8)]
  have "\<not> accepts regex_match (Some b) s1"
    using b1 assms(2,4) by (simp add: accepts_def match_any_iff same_filter_def)
  with b2 have own: "(j, s2) = own_id s1" by simp
  then have s2: "j = kf_nextKernelID s" "kf_log s2 = kf_log s1" "kf_activeKernels s2 = kf_activeKernels s1"
    using s1(4) by (simp_all add: own_id_def)
  have w2: "kf_watched s2" using b2 s1(1) kf_watched_same by blast
  have "ch_end (kf_callees s2) k \<noteq> None" using b1 b2 assms(1,7) by (simp add: same_filter_def)
  with filter_end_cases [OF w2 assms(9)] s1 s2 show ?thesis by (simp add: filter_end_def)
qed

theorem filter_identifiers_collide_witness:
  "\<exists>s s1 s2 s3. filter_demo = Inr s \<and> filter_begin (=) ParFor (Some ''axpy'') 0 0 s = Inr (0, s1)
    \<and> filter_begin (=) ParFor (Some ''dot'') 0 0 s1 = Inr (0, s2) \<and> filter_end ParFor 0 s2 = Inr s3
    \<and> filter_end ParFor 0 s3 = Inr s3"
proof -
  obtain s where s: "filter_demo = Inr s" "kf_callees s = logged counting_child" "kf_filterKernels s"
    "kf_kernelNames s = [''axpy'']" "kf_activeKernels s = {}" "kf_nextKernelID s = 0" "kf_world s = (0, [])"
    using filter_demo_state by blast
  obtain s1 s2 s3 where r: "filter_begin (=) ParFor (Some ''axpy'') 0 0 s = Inr (kf_nextKernelID s, s1)"
    "filter_begin (=) ParFor (Some ''dot'') 0 0 s1 = Inr (0, s2)" "filter_end ParFor 0 s2 = Inr s3"
    using s(2-7) by (simp add: filter_begin_def filter_end_def kokkospFilterMatch_def pass_on_def
        own_id_def counting_child_def logged_begin_def logged_end_def)
  from filter_identifiers_collide [OF s(2,3) _ _ r(1) _ _ r(2,3)] s r show ?thesis
    by (auto simp: counting_child_def)
qed

end
