(* ===== verification/Tool_Chain.thy ===== *)
theory Tool_Chain
  imports Sampler Kernel_Filter Timer_Report
begin

text \<open>
  Tools in a row: the simple kernel timer as the child library of the sampler or of the kernel filter.
  The timer's callbacks, as \<open>dlsym\<close> finds them, are put in the place of the child's; what the timer then
  holds is what it would hold alone in a program that launches only the kernels passed on to it.
\<close>

section \<open>The kernel timer as a child library\<close>

text \<open>
  What the timer acts on: its state, how often it has read the clock and the files it has written. The
  clock is a parameter, the reading at each time it is asked.
\<close>

record timer_world =
  tw_timer :: timer_state
  tw_readings :: nat
  tw_files :: "(string \<times> written) list"

definition timer_world_start :: timer_world where
  "timer_world_start = \<lparr>tw_timer = timer_start, tw_readings = 0, tw_files = []\<rparr>"

fun timer_begin_symbol :: "pkind \<Rightarrow> int \<times> int \<Rightarrow> string option \<Rightarrow> timer_state \<Rightarrow> (u64 \<times> timer_state) outcome" where
  "timer_begin_symbol ParFor = kt_begin_parallel_for"
| "timer_begin_symbol ParReduce = kt_begin_parallel_reduce"
| "timer_begin_symbol ParScan = kt_begin_parallel_scan"

definition after_reading :: "timer_state \<Rightarrow> timer_world \<Rightarrow> timer_world" where
  "after_reading t w = w\<lparr>tw_timer := t, tw_readings := Suc (tw_readings w)\<rparr>"

definition timer_library :: "(nat \<Rightarrow> int \<times> int) \<Rightarrow> string option \<Rightarrow> process \<Rightarrow> timer_world child" where
  "timer_library clock output_delim_env pr =
     \<lparr>ch_begin = (\<lambda>k. Some (\<lambda>name devID kID w.
        obind (timer_begin_symbol k (clock (tw_readings w)) name (tw_timer w)) (\<lambda>(i, t). Inr (i, after_reading t w)))),
      ch_end = (\<lambda>k. Some (\<lambda>kID w.
        obind (kt_end_parallel (clock (tw_readings w)) kID (tw_timer w)) (\<lambda>t. Inr (after_reading t w)))),
      ch_init = Some (\<lambda>loadSeq interfaceVer devInfoCount deviceInfo w.
        Inr (after_reading (kt_init_library loadSeq interfaceVer output_delim_env (clock (tw_readings w)) (tw_timer w)) w)),
      ch_finalize = Some (\<lambda>w.
        obind (kt_finalize_library pr (clock (tw_readings w)) (tw_timer w)) (\<lambda>(t, file).
        Inr ((after_reading t w)\<lparr>tw_files := tw_files w @ (case file of None \<Rightarrow> [] | Some f \<Rightarrow> [f])\<rparr>)))\<rparr>"

section \<open>What a tool delivers\<close>

text \<open>The calls in a log turn the child's world \<open>w\<close> into \<open>w'\<close>; \<open>f\<close> is the fence.\<close>

inductive delivers ::
  "'w child \<Rightarrow> (u32 \<Rightarrow> 'w \<Rightarrow> 'w outcome) option \<Rightarrow> 'w \<Rightarrow> child_call list \<Rightarrow> 'w \<Rightarrow> bool" for c f where
  none: "delivers c f w [] w"
| kernel_begin: "delivers c f w l w1 \<Longrightarrow> ch_begin c k = Some g \<Longrightarrow> g name d i w1 = Inr (j, w2) \<Longrightarrow>
    delivers c f w (l @ [CBegin k name d j]) w2"
| kernel_end: "delivers c f w l w1 \<Longrightarrow> ch_end c k = Some g \<Longrightarrow> g j w1 = Inr w2 \<Longrightarrow>
    delivers c f w (l @ [CEnd k j]) w2"
| fence: "delivers c f w l w1 \<Longrightarrow> f = Some g \<Longrightarrow> g d w1 = Inr w2 \<Longrightarrow> delivers c f w (l @ [CFence d]) w2"

text \<open>
  The contract of a tool with a watched child: whatever a callback does to the child's world is the
  effect of the calls it adds to the log.
\<close>

locale child_client =
  fixes step :: "'s \<Rightarrow> 'e \<Rightarrow> 's outcome" and world :: "'s \<Rightarrow> 'w \<times> child_call list"
    and set_up :: "'s \<Rightarrow> bool" and child :: "'w child" and fence_fn :: "(u32 \<Rightarrow> 'w \<Rightarrow> 'w outcome) option"
  assumes step_delivers: "set_up s \<Longrightarrow> step s e = Inr s' \<Longrightarrow> delivers child fence_fn w (snd (world s)) (fst (world s)) \<Longrightarrow>
    set_up s' \<and> delivers child fence_fn w (snd (world s')) (fst (world s'))"
begin

lemma run_delivers:
  "run_events step s es = Inr s' \<Longrightarrow> set_up s \<Longrightarrow> delivers child fence_fn w (snd (world s)) (fst (world s)) \<Longrightarrow>
    set_up s' \<and> delivers child fence_fn w (snd (world s')) (fst (world s'))"
proof (induction es arbitrary: s)
  case (Cons e es)
  then obtain s1 where "step s e = Inr s1" "run_events step s1 es = Inr s'" by (auto split: sum.splits)
  with Cons step_delivers show ?case by blast
qed simp

end

lemma fence_delivers:
  assumes "fence_if_asked s = Inr s'" and "sp_fence s = logged_fence f" and "delivers c f w (snd (sp_world s)) (fst (sp_world s))"
  shows "delivers c f w (snd (sp_world s')) (fst (sp_world s')) \<and> sp_callees s' = sp_callees s \<and> sp_fence s' = sp_fence s"
proof (cases "sp_tool_globFence s = 0")
  case True
  with assms show ?thesis by (simp add: fence_if_asked_def)
next
  case False
  with assms(1) obtain h wl where h: "sp_fence s = Some h" "h 0 (sp_world s) = Inr wl"
    and s': "sp_world s' = wl" "sp_callees s' = sp_callees s" "sp_fence s' = sp_fence s"
    by (auto simp: fence_if_asked_def invoke_ktools_fence_def obind_Inr split: option.splits)
  obtain u l where ul: "sp_world s = (u, l)" by (cases "sp_world s")
  with h assms(2) obtain g u' where "f = Some g" "g 0 u = Inr u'" "wl = (u', l @ [CFence 0])"
    by (auto simp: logged_fence_def obind_Inr)
  with delivers.fence [of c f w l u g 0 u'] assms(3) ul s' show ?thesis by simp
qed

lemma logged_begin_delivers:
  assumes "delivers c f w (snd u) (fst u)" and "ch_begin c k = Some g" and "logged_begin k g name d i u = Inr (j, u')"
  shows "delivers c f w (snd u') (fst u')"
  using assms(3) delivers.kernel_begin [OF assms(1,2)] by (auto simp: logged_begin_Inr)

lemma logged_end_delivers:
  assumes "delivers c f w (snd u) (fst u)" and "ch_end c k = Some g" and "logged_end k g j u = Inr u'"
  shows "delivers c f w (snd u') (fst u')"
  using assms(3) delivers.kernel_end [OF assms(1,2)] by (auto simp: logged_end_Inr)

lemma sampler_begin_delivers:
  assumes b: "sampler_begin k r name d s = Inr (i, s')" and s: "sp_callees s = logged c" "sp_fence s = logged_fence f"
    and w: "delivers c f w (snd (sp_world s)) (fst (sp_world s))"
  shows "sp_callees s' = logged c \<and> sp_fence s' = logged_fence f \<and> delivers c f w (snd (sp_world s')) (fst (sp_world s'))"
proof -
  define s1 where "s1 = s\<lparr>sp_uniqID := sp_uniqID s + 1,
    sp_invocationNum := (sp_invocationNum s)(k := sp_invocationNum s k + 1)\<rparr>"
  note b1 = b [unfolded sampler_begin_def Let_def, folded s1_def]
  have s1: "sp_callees s1 = logged c" "sp_fence s1 = logged_fence f" "sp_world s1 = sp_world s"
    using s by (simp_all add: s1_def)
  show ?thesis
  proof (cases "s' = s1")
    case True
    with s1 w show ?thesis by simp
  next
    case False
    with b1 s1(1) obtain g s2 j u where g: "ch_begin c k = Some g"
      and s2: "fence_if_asked (say_above 0 (sample_message (sp_uniqID s) '' calling child-begin function...'') s1) = Inr s2"
      and j: "logged_begin k g name d 0 (sp_world s2) = Inr (j, u)"
      and s': "s' = (say_above 0 (sample_message (sp_uniqID s) '' finished with child-begin function.'')
         (s2\<lparr>sp_world := u\<rparr>))\<lparr>sp_infokIDSample := sp_insert (sp_uniqID s) j (sp_infokIDSample s2)\<rparr>"
      by (auto simp: obind_Inr split: if_splits option.splits)
    have "delivers c f w (snd (sp_world s2)) (fst (sp_world s2)) \<and> sp_callees s2 = logged c \<and> sp_fence s2 = logged_fence f"
      using fence_delivers [OF s2, of f c w] s1 w by simp
    with logged_begin_delivers [OF _ g j] s' show ?thesis by simp
  qed
qed

lemma sampler_end_delivers:
  assumes e: "sampler_end k i s = Inr s'" and s: "sp_callees s = logged c" "sp_fence s = logged_fence f"
    and w: "delivers c f w (snd (sp_world s)) (fst (sp_world s))"
  shows "sp_callees s' = logged c \<and> sp_fence s' = logged_fence f \<and> delivers c f w (snd (sp_world s')) (fst (sp_world s'))"
proof (cases "s' = s")
  case True
  with s w show ?thesis by simp
next
  case False
  with e s(1) obtain g s2 j u where g: "ch_end c k = Some g"
    and s2: "fence_if_asked (say_above 0 (sample_message i '' calling child-end function...'') s) = Inr s2"
    and u: "logged_end k g j (sp_world s2) = Inr u"
    and s': "s' = (say_above 0 (sample_message i '' finished with child-end function.'')
       (s2\<lparr>sp_world := u\<rparr>))\<lparr>sp_infokIDSample := sp_erase i (sp_infokIDSample s2)\<rparr>"
    by (auto simp: sampler_end_def obind_Inr Let_def split: option.splits)
  have "delivers c f w (snd (sp_world s2)) (fst (sp_world s2)) \<and> sp_callees s2 = logged c \<and> sp_fence s2 = logged_fence f"
    using fence_delivers [OF s2, of f c w] s w by simp
  with logged_end_delivers [OF _ g u] s' show ?thesis by simp
qed

interpretation sampler_client: child_client sampler_next sp_world
  "\<lambda>s. sp_callees s = logged c \<and> sp_fence s = logged_fence f" c f for c f
proof
  fix s s' :: "('a \<times> child_call list) sampler" and e w
  assume s: "sp_callees s = logged c \<and> sp_fence s = logged_fence f" and n: "sampler_next s e = Inr s'"
    and d: "delivers c f w (snd (sp_world s)) (fst (sp_world s))"
  show "(sp_callees s' = logged c \<and> sp_fence s' = logged_fence f) \<and> delivers c f w (snd (sp_world s')) (fst (sp_world s'))"
  proof (cases e)
    case (SBegin k r name dev)
    with n s d show ?thesis by (auto simp: obind_Inr dest: sampler_begin_delivers)
  next
    case (SEnd k i)
    with n s d sampler_end_delivers show ?thesis by (metis sampler_next_simps(2))
  qed
qed

interpretation filter_client: child_client "filter_next m" kf_world "\<lambda>s. kf_callees s = logged c" c None for m c
proof
  fix s s' :: "('a, 'b \<times> child_call list) kernel_filter" and e w
  assume s: "kf_callees s = logged c" and n: "filter_next m s e = Inr s'"
    and d: "delivers c None w (snd (kf_world s)) (fst (kf_world s))"
  have own: "kf_callees (snd (own_id s)) = logged c \<and> kf_world (snd (own_id s)) = kf_world s"
    using s by (simp add: own_id_def)
  have pass: "kf_callees s1 = logged c \<and> delivers c None w (snd (kf_world s1)) (fst (kf_world s1))"
    if "pass_on k name dev i0 s = Inr (i, s1)" for k name dev i0 i s1
    using that s d own logged_begin_delivers [OF d]
    by (auto simp: pass_on_def obind_Inr split: option.splits)
  show "kf_callees s' = logged c \<and> delivers c None w (snd (kf_world s')) (fst (kf_world s'))"
  proof (cases e)
    case (FBegin k name dev i0)
    with n obtain i where "filter_begin m k name dev i0 s = Inr (i, s')" by (auto simp: obind_Inr)
    with pass own d show ?thesis by (auto simp: filter_begin_def obind_Inr split: if_splits)
  next
    case (FEnd k i)
    with n s d logged_end_delivers [OF d] show ?thesis
      by (auto simp: filter_end_def obind_Inr split: if_splits option.splits)
  qed
qed

section \<open>What the timer is told\<close>

datatype kernel_call = Begin_call pkind "string option" | End_call pkind

text \<open>The calls of a log without devices, identifiers and fences, which the timer does not look at.\<close>

fun kernel_calls_of :: "child_call list \<Rightarrow> kernel_call list" where
  "kernel_calls_of [] = []"
| "kernel_calls_of (CBegin k name d j # l) = Begin_call k name # kernel_calls_of l"
| "kernel_calls_of (CEnd k j # l) = End_call k # kernel_calls_of l"
| "kernel_calls_of (CFence d # l) = kernel_calls_of l"

text \<open>The callbacks of the timer these calls are, the first at reading \<open>n\<close> of the clock.\<close>

fun timed :: "(nat \<Rightarrow> int \<times> int) \<Rightarrow> nat \<Rightarrow> kernel_call list \<Rightarrow> timer_event list" where
  "timed clock n [] = []"
| "timed clock n (Begin_call k name # cs) = KBegin k name (clock n) # timed clock (Suc n) cs"
| "timed clock n (End_call k # cs) = KEnd k 0 (clock n) # timed clock (Suc n) cs"

lemma kernel_calls_of_append [simp]: "kernel_calls_of (xs @ ys) = kernel_calls_of xs @ kernel_calls_of ys"
  by (induction xs rule: kernel_calls_of.induct) simp_all

lemma timed_append: "timed clock n (xs @ ys) = timed clock n xs @ timed clock (n + length xs) ys"
  by (induction clock n xs rule: timed.induct) simp_all

lemma kernel_calls_of_fences [simp]: "kernel_calls_of (fences s) = []"
  by (simp add: fences_def)

text \<open>A fence does not touch the tools; it may be there or not.\<close>

definition device_fence :: "bool \<Rightarrow> (u32 \<Rightarrow> 'w \<Rightarrow> 'w outcome) option" where
  "device_fence there = (if there then Some (\<lambda>d w. Inr w) else None)"

lemma timer_library_sel:
  "ch_begin (timer_library clock delim pr) k = Some (\<lambda>name devID kID w.
     obind (timer_begin_symbol k (clock (tw_readings w)) name (tw_timer w)) (\<lambda>(i, t). Inr (i, after_reading t w)))"
  "ch_end (timer_library clock delim pr) k = Some (\<lambda>kID w.
     obind (kt_end_parallel (clock (tw_readings w)) kID (tw_timer w)) (\<lambda>t. Inr (after_reading t w)))"
  by (simp_all add: timer_library_def)

lemma timer_begin_symbol_next:
  "timer_begin_symbol k now name t = Inr (i, t') \<Longrightarrow> timer_next t (KBegin k name now) = Inr t'"
  by (cases k) (simp_all add: timer_next_def kt_begin_parallel_for_def kt_begin_parallel_reduce_def kt_begin_parallel_scan_def)

lemma kt_end_next: "kt_end_parallel now i t = Inr t' \<Longrightarrow> timer_next t (KEnd k j now) = Inr t'"
  by (auto simp: timer_next_def kt_end_parallel_def split: option.splits)

lemma timer_delivers:
  "delivers (timer_library clock delim pr) (device_fence there) w l w' \<Longrightarrow>
    run_events timer_next (tw_timer w) (timed clock (tw_readings w) (kernel_calls_of l)) = Inr (tw_timer w')
    \<and> tw_readings w' = tw_readings w + length (kernel_calls_of l)"
proof (induction rule: delivers.induct)
  case (kernel_begin w l w1 k g name d i j w2)
  then obtain t where "timer_begin_symbol k (clock (tw_readings w1)) name (tw_timer w1) = Inr (j, t)" "w2 = after_reading t w1"
    by (auto simp: timer_library_sel obind_Inr)
  with kernel_begin timer_begin_symbol_next show ?case
    by (simp add: timed_append run_events_append after_reading_def)
next
  case (kernel_end w l w1 k g j w2)
  then obtain t where "kt_end_parallel (clock (tw_readings w1)) j (tw_timer w1) = Inr t" "w2 = after_reading t w1"
    by (auto simp: timer_library_sel obind_Inr)
  with kernel_end kt_end_next show ?case
    by (simp add: timed_append run_events_append after_reading_def)
qed (auto simp: device_fence_def split: if_splits)

section \<open>Programs\<close>

text \<open>
  A program launches kernels and finishes them, the one launched last first; it hands the identifier a
  begin callback gives it to the end callback. A launch carries the device and what \<open>rand()\<close> would return.
\<close>

datatype launch_event = Launch pkind "string option" u32 nat | Finish

fun program_step ::
  "(pkind \<Rightarrow> string option \<Rightarrow> u32 \<Rightarrow> nat \<Rightarrow> 's \<Rightarrow> (u64 \<times> 's) outcome) \<Rightarrow> (pkind \<Rightarrow> u64 \<Rightarrow> 's \<Rightarrow> 's outcome) \<Rightarrow>
    's \<times> (pkind \<times> u64) list \<Rightarrow> launch_event \<Rightarrow> ('s \<times> (pkind \<times> u64) list) outcome" where
  "program_step b e (s, running) (Launch k name d r) = obind (b k name d r s) (\<lambda>(i, s'). Inr (s', (k, i) # running))"
| "program_step b e (s, []) Finish = Inr (s, [])"
| "program_step b e (s, (k, i) # running) Finish = obind (e k i s) (\<lambda>s'. Inr (s', running))"

text \<open>
  The calls that reach the child when the launches to be passed on are those that satisfy \<open>P\<close>, a
  condition on the kind, the name, the number of the launch among its kind and the draw.
\<close>

fun passed ::
  "(pkind \<Rightarrow> string option \<Rightarrow> nat \<Rightarrow> nat \<Rightarrow> bool) \<Rightarrow> (pkind \<Rightarrow> nat) \<Rightarrow> (pkind \<times> bool) list \<Rightarrow> launch_event list \<Rightarrow> kernel_call list" where
  "passed P n running [] = []"
| "passed P n running (Launch k name d r # es) =
     (if P k name (Suc (n k)) r
      then Begin_call k name # passed P (n(k := Suc (n k))) ((k, True) # running) es
      else passed P (n(k := Suc (n k))) ((k, False) # running) es)"
| "passed P n [] (Finish # es) = passed P n [] es"
| "passed P n ((k, b) # running) (Finish # es) = (if b then End_call k # passed P n running es else passed P n running es)"

fun launches :: "launch_event list \<Rightarrow> nat" where
  "launches [] = 0"
| "launches (Launch k name d r # es) = Suc (launches es)"
| "launches (Finish # es) = launches es"

fun launch_draws :: "launch_event list \<Rightarrow> nat set" where
  "launch_draws [] = {}"
| "launch_draws (Launch k name d r # es) = insert r (launch_draws es)"
| "launch_draws (Finish # es) = launch_draws es"

text \<open>A program makes a run of the tool's callbacks.\<close>

lemma program_run:
  assumes "\<And>k name d r s i s'. b k name d r s = Inr (i, s') \<Longrightarrow> \<exists>ev. step s ev = Inr s'"
    and "\<And>k i s s'. e k i s = Inr s' \<Longrightarrow> \<exists>ev. step s ev = Inr s'"
  shows "run_events (program_step b e) (s, running) es = Inr (s', running') \<Longrightarrow> \<exists>evs. run_events step s evs = Inr s'"
proof (induction es arbitrary: s running)
  case Nil
  then show ?case by (intro exI [of _ "[]"]) simp
next
  case (Cons x es)
  then obtain s1 r1 where x: "program_step b e (s, running) x = Inr (s1, r1)"
    and "run_events (program_step b e) (s1, r1) es = Inr (s', running')" by (auto split: sum.splits)
  from Cons.IH [OF this(2)] obtain evs where evs: "run_events step s1 evs = Inr s'" by blast
  show ?case
  proof (cases "s1 = s")
    case True
    with evs show ?thesis by blast
  next
    case False
    with x have "\<exists>ev. step s ev = Inr s1"
      by (cases "(b, e, (s, running), x)" rule: program_step.cases) (auto simp: obind_Inr dest: assms)
    then obtain ev where "step s ev = Inr s1" by blast
    with evs show ?thesis by (intro exI [of _ "ev # evs"]) simp
  qed
qed

section \<open>Behind the sampler\<close>

text \<open>
  The sampler between callbacks of a program: the table has an entry for exactly the running kernels
  that were passed on, the identifiers of running kernels are distinct and were issued, the counts are
  those of the launches so far.
\<close>

definition running_ok :: "('w \<times> child_call list) sampler \<Rightarrow> (pkind \<times> u64) list \<Rightarrow> (pkind \<times> bool) list \<Rightarrow> bool" where
  "running_ok s running flags =
     (list_all2 (\<lambda>(k, i) (k', b). k' = k \<and> (b \<longleftrightarrow> map_of (sp_infokIDSample s) i \<noteq> None)) running flags
      \<and> distinct (map snd running) \<and> (\<forall>i \<in> snd ` set running. unat i < unat (sp_uniqID s)))"

definition counts_ok :: "'w sampler \<Rightarrow> (pkind \<Rightarrow> nat) \<Rightarrow> nat \<Rightarrow> bool" where
  "counts_ok s n m = (unat (sp_uniqID s) + m < 2 ^ 64 \<and> (\<forall>k. sp_invocationNum s k = of_nat (n k) \<and> n k + m < 2 ^ 64))"

definition complete_child :: "'w child \<Rightarrow> bool" where
  "complete_child c = (\<forall>k. ch_begin c k \<noteq> None \<and> ch_end c k \<noteq> None)"

lemma running_ok_table:
  assumes "running_ok s running flags" and "unat (sp_uniqID s) \<le> unat (sp_uniqID s')"
    and "\<And>i. i \<in> snd ` set running \<Longrightarrow> map_of (sp_infokIDSample s') i = map_of (sp_infokIDSample s) i"
  shows "running_ok s' running flags"
proof -
  have "list_all2 (\<lambda>(k, i) (k', b). k' = k \<and> (b \<longleftrightarrow> map_of (sp_infokIDSample s') i \<noteq> None)) running flags"
    using assms(1) unfolding running_ok_def
    by (auto intro: list_all2_mono elim!: list.rel_mono_strong simp: assms(3) rev_image_eqI)
  with assms(1,2) show ?thesis by (auto simp: running_ok_def)
qed

lemma sampler_launch:
  assumes "watched s" and "table_ok s" and "complete_child (sp_callees s)" and "running_ok s running flags"
    and "counts_ok s n (Suc m)" and b: "sampler_begin k r name d s = Inr (i, s')"
  shows "watched s' \<and> table_ok s' \<and> same_set_up s s' \<and> counts_ok s' (n(k := Suc (n k))) m
    \<and> running_ok s' ((k, i) # running) ((k, sp_due (of_nat (Suc (n k))) r s) # flags)
    \<and> kernel_calls_of (sp_log s') = kernel_calls_of (sp_log s)
      @ (if sp_due (of_nat (Suc (n k))) r s then [Begin_call k name] else [])"
proof -
  note c = sampler_begin_cases [OF assms(1) b]
  have u: "unat (sp_uniqID s) + 1 < 2 ^ 64" using assms(5) by (simp add: counts_ok_def)
  note t = sampler_begin_table [OF assms(1,2) b u]
  have due: "passes_on k r s = sp_due (of_nat (Suc (n k))) r s"
    using assms(3,5) by (simp add: passes_on_def complete_child_def counts_ok_def add.commute)
  have issued: "\<forall>i \<in> snd ` set running. unat i < unat (sp_uniqID s)" using assms(4) by (simp add: running_ok_def)
  then have old: "i' \<noteq> sp_uniqID s" if "i' \<in> snd ` set running" for i' using that by blast
  have "map_of (sp_infokIDSample s') i' = map_of (sp_infokIDSample s) i'" if "i' \<in> snd ` set running" for i'
    using c old [OF that] by (auto simp: map_of_sp_insert split: if_splits)
  moreover have "unat (sp_uniqID s) \<le> unat (sp_uniqID s')" using t by simp
  ultimately have "running_ok s' running flags" using running_ok_table [OF assms(4)] by blast
  moreover have "(map_of (sp_infokIDSample s') i \<noteq> None) = passes_on k r s"
    using c table_ok_fresh [OF assms(2)] by (auto simp: map_of_sp_insert split: if_splits)
  moreover have "i \<notin> snd ` set running" using c old by blast
  ultimately have running: "running_ok s' ((k, i) # running) ((k, passes_on k r s) # flags)"
    using t c by (auto simp: running_ok_def)
  have "counts_ok s' (n(k := Suc (n k))) m"
  proof -
    have less: "n k' + Suc m < 2 ^ 64" for k' using assms(5) unfolding counts_ok_def by blast
    have "(n(k := Suc (n k))) k' + m < 2 ^ 64" for k' using less [of k'] by (cases "k' = k") simp_all
    with t c assms(5) show ?thesis by (simp add: counts_ok_def)
  qed
  with running c t due watched_same [of s s'] assms(1) show ?thesis by auto
qed

lemma sampler_finish:
  assumes "watched s" and "table_ok s" and "complete_child (sp_callees s)" and "running_ok s ((k, i) # running) ((k', b) # flags)"
    and "counts_ok s n m" and e: "sampler_end k i s = Inr s'"
  shows "watched s' \<and> table_ok s' \<and> same_set_up s s' \<and> counts_ok s' n m \<and> running_ok s' running flags
    \<and> kernel_calls_of (sp_log s') = kernel_calls_of (sp_log s) @ (if b then [End_call k'] else [])"
proof -
  note c = sampler_end_cases [OF assms(1) e]
  note t = sampler_end_table [OF assms(1,2) e]
  have r: "running_ok s running flags" "k' = k" "b \<longleftrightarrow> map_of (sp_infokIDSample s) i \<noteq> None" "i \<notin> snd ` set running"
    using assms(4) by (auto simp: running_ok_def)
  have ce: "ch_end (sp_callees s) k \<noteq> None" using assms(3) by (simp add: complete_child_def)
  have "map_of (sp_infokIDSample s') i' = map_of (sp_infokIDSample s) i'" if "i' \<in> snd ` set running" for i'
  proof -
    have "i' \<noteq> i" using that r(4) by blast
    with c show ?thesis by (auto simp: map_of_sp_erase split: option.splits if_splits)
  qed
  moreover have "unat (sp_uniqID s) \<le> unat (sp_uniqID s')" using t by simp
  ultimately have "running_ok s' running flags" using running_ok_table [OF r(1)] by blast
  with c t r ce watched_same [of s s'] assms(1,5) show ?thesis
    by (auto simp: counts_ok_def split: option.splits)
qed

lemma sampler_program:
  assumes "run_events (program_step (\<lambda>k name d r. sampler_begin k r name d) sampler_end) (s, running) es = Inr (s', running')"
    and "watched s" and "table_ok s" and "complete_child (sp_callees s)" and "running_ok s running flags"
    and "counts_ok s n (launches es)"
    and "\<And>k name m r. m < 2 ^ 64 \<Longrightarrow> r \<in> launch_draws es \<Longrightarrow> sp_due (of_nat m) r s = P k name m r"
  shows "kernel_calls_of (sp_log s') = kernel_calls_of (sp_log s) @ passed P n flags es"
  using assms
proof (induction P n flags es arbitrary: s running rule: passed.induct)
  case (2 P n flags k name d r es)
  then obtain i s1 where b: "sampler_begin k r name d s = Inr (i, s1)"
    and run: "run_events (program_step (\<lambda>k name d r. sampler_begin k r name d) sampler_end) (s1, (k, i) # running) es = Inr (s', running')"
    by (auto simp: obind_Inr split: sum.splits)
  have "counts_ok s n (Suc (launches es))" using "2.prems"(6) by simp
  note l = sampler_launch [OF "2.prems"(2-5) this b]
  have "\<forall>k. n k + Suc (launches es) < 2 ^ 64" using "2.prems"(6) by (simp add: counts_ok_def)
  then have "n k + Suc (launches es) < 2 ^ 64" by blast
  then have "Suc (n k) < 2 ^ 64" by linarith
  then have P: "sp_due (of_nat (Suc (n k))) r s = P k name (Suc (n k)) r" using "2.prems"(7) by simp
  have due: "sp_due (of_nat m) q s1 = P k' name' m q" if "m < 2 ^ 64" "q \<in> launch_draws es" for k' name' m q
    using that "2.prems"(7) [of m q] l by (simp add: same_set_up_def sp_due_def)
  have cc: "complete_child (sp_callees s1)" using l "2.prems"(4) by (simp add: same_set_up_def)
  note l = l [unfolded P]
  then have w: "watched s1" "table_ok s1" "counts_ok s1 (n(k := Suc (n k))) (launches es)"
    "running_ok s1 ((k, i) # running) ((k, P k name (Suc (n k)) r) # flags)" by simp_all
  show ?case
  proof (cases "P k name (Suc (n k)) r")
    case True
    then have "running_ok s1 ((k, i) # running) ((k, True) # flags)" using w(4) by simp
    from "2.IH"(1) [OF True run w(1,2) cc this w(3) due] l True show ?thesis by (simp add: fun_upd_def)
  next
    case False
    then have "running_ok s1 ((k, i) # running) ((k, False) # flags)" using w(4) by simp
    from "2.IH"(2) [OF False run w(1,2) cc this w(3) due] l False show ?thesis by (simp add: fun_upd_def)
  qed
next
  case (3 P n es)
  then have "running = []" by (simp add: running_ok_def)
  with 3 show ?case by simp
next
  case (4 P n k' b flags es)
  then obtain k i running1 where r: "running = (k, i) # running1" by (cases running) (auto simp: running_ok_def)
  with "4.prems"(1) obtain s1 where e: "sampler_end k i s = Inr s1"
    and run: "run_events (program_step (\<lambda>k name d r. sampler_begin k r name d) sampler_end) (s1, running1) es = Inr (s', running')"
    by (auto simp: obind_Inr split: sum.splits)
  have "counts_ok s n (launches es)" using "4.prems"(6) by simp
  note f = sampler_finish [OF "4.prems"(2-4) "4.prems"(5) [unfolded r] this e]
  have due: "sp_due (of_nat m) q s1 = P k' name' m q" if "m < 2 ^ 64" "q \<in> launch_draws es" for k' name' m q
    using that "4.prems"(7) [of m q] f by (simp add: same_set_up_def sp_due_def)
  have cc: "complete_child (sp_callees s1)" using f "4.prems"(4) by (simp add: same_set_up_def)
  from f have w: "watched s1" "table_ok s1" "running_ok s1 running1 flags" "counts_ok s1 n (launches es)" by simp_all
  show ?case
  proof (cases b)
    case True
    from "4.IH"(1) [OF True run w(1,2) cc w(3,4) due] f True show ?thesis by simp
  next
    case False
    from "4.IH"(2) [OF False run w(1,2) cc w(3,4) due] f False show ?thesis by simp
  qed
qed simp

lemma child_init_unlogged:
  "call_child_init (logged c) q v n p (w, l) = Inr u \<Longrightarrow> call_child_init c q v n p w = Inr (fst u) \<and> snd u = l"
  by (auto simp: call_child_init_def unlogged_Inr split: option.splits)

text \<open>The library found by \<open>dlopen\<close> is the child, and has been initialised.\<close>

lemma start_up_child:
  assumes "sampler_start_up getenv (\<lambda>l. if is_child l then Some c else None) atof now loadSeq interfaceVer fence w = Inr s"
  shows "sp_callees s = logged c \<and> sp_fence s = logged_fence fence \<and>
    call_child_init c loadSeq interfaceVer 0 0 w = Inr (fst (sp_world s))"
proof -
  from assms obtain s1 lib s2 sl s4 where
      s1: "read_settings getenv (sampler_start (w, [])) = Inr s1"
    and s2: "profile_library getenv s1 = Inr (lib, s2)"
    and sl: "sp_load_child (\<lambda>l. map_option logged (if is_child l then Some c else None)) loadSeq interfaceVer 0 0 lib s2 = Inr sl"
    and s4: "set_skip (getenv ''KOKKOS_TOOLS_SAMPLER_SKIP'')
      (set_probability atof (getenv ''KOKKOS_TOOLS_SAMPLER_PROB'') (seed_rand now (sl\<lparr>sp_uniqID := 1\<rparr>))) = Inr s4"
    and s: "s = set_default s4\<lparr>sp_fence := logged_fence fence\<rparr>"
    by (auto simp: sampler_start_up_def sp_init_library_def obind_Inr
        sp_provide_tool_programming_interface_def)
  have "sp_world s2 = (w, [])"
    using s1 s2 by (auto simp: read_settings_def obind_Inr sampler_start_def profile_library_def split: option.splits)
  with sl have sl': "sp_callees sl = logged c" "call_child_init c loadSeq interfaceVer 0 0 w = Inr (fst (sp_world sl))"
    by (auto simp: sp_load_child_def Let_def obind_Inr dest!: child_init_unlogged split: option.splits if_splits)
  have "sp_callees s = sp_callees sl \<and> sp_world s = sp_world sl"
    using set_probability_tables [of "seed_rand now (sl\<lparr>sp_uniqID := 1\<rparr>)" atof "getenv ''KOKKOS_TOOLS_SAMPLER_PROB''"]
      set_skip_tables [OF s4] set_default_tables [of s4] s by (simp add: same_tables_def)
  with sl' s show ?thesis by simp
qed

lemma sampler_next_of_program:
  "sampler_begin k r name d s = Inr (i, s') \<Longrightarrow> \<exists>ev. sampler_next s ev = Inr s'"
  "sampler_end k i s = Inr s' \<Longrightarrow> \<exists>ev. sampler_next s ev = Inr s'"
  by (auto intro: exI [of _ "SBegin k r name d"] exI [of _ "SEnd k i"] simp del: sampler_next_simps(1) simp: sampler_next_simps(1) obind_Inr)

lemma complete_timer_library: "complete_child (logged (timer_library clock delim pr))"
  by (simp add: complete_child_def timer_library_def)

text \<open>
  C15. Sampling in front of the kernel timer times exactly the sampled kernels. With a skip rate of \<open>n\<close>
  and any program, however it nests its kernels, the timer ends in the state it would reach on its own if
  it were told only of every \<open>(n + 1)\<close>-th launch of each kind and of its end, at the moments it reads the
  clock; \<open>rand()\<close> does not return \<open>RAND_MAX\<close>, for which the sampler skips the launch.
\<close>

theorem sampled_timer:
  assumes "sampler_start_up getenv (\<lambda>l. if is_timer l then Some (timer_library clock delim pr) else None) atof now
      loadSeq interfaceVer (device_fence there) timer_world_start = Inr s0"
    and "getenv ''KOKKOS_TOOLS_SAMPLER_PROB'' = None"
    and "getenv ''KOKKOS_TOOLS_SAMPLER_SKIP'' = Some t" and "0 \<le> atoi t"
    and "run_events (program_step (\<lambda>k name d r. sampler_begin k r name d) sampler_end) (s0, []) es = Inr (s, running)"
    and "launches es < 2 ^ 64 - 1" and "launch_draws es \<subseteq> {..<RAND_MAX}"
  shows "run_events timer_next (kt_init_library (loadSeq + 1) interfaceVer delim (clock 0) timer_start)
      (timed clock 1 (passed (\<lambda>k name m r. m mod (nat (atoi t) + 1) = 0) (\<lambda>k. 0) [] es))
    = Inr (tw_timer (fst (sp_world s)))"
proof -
  let ?c = "timer_library clock delim pr" and ?f = "device_fence there"
  note c = start_up_child [OF assms(1)] and i = start_up_inv [OF assms(1)]
  have due: "sp_due (of_nat m) r s0 = (m mod (nat (atoi t) + 1) = 0)" if "m < 2 ^ 64" "r \<in> launch_draws es" for m r
    using skip_rate_due [OF assms(1-4) that(1)] that(2) assms(7) by auto
  have "kernel_calls_of (sp_log s) = kernel_calls_of (sp_log s0)
      @ passed (\<lambda>k name m r. m mod (nat (atoi t) + 1) = 0) (\<lambda>k. 0) [] es"
    by (rule sampler_program [OF assms(5) _ _ _ _ _ due])
      (use i c assms(6) complete_timer_library in \<open>auto simp: sampler_inv_def running_ok_def counts_ok_def\<close>)
  moreover obtain evs where evs: "run_events sampler_next s0 evs = Inr s"
    using program_run [where step = sampler_next, OF _ _ assms(5)] sampler_next_of_program by metis
  have d: "delivers ?c ?f (fst (sp_world s0)) (sp_log s) (fst (sp_world s))"
    using sampler_client.run_delivers [OF evs, of ?c ?f "fst (sp_world s0)"] c i delivers.none [of ?c ?f] by simp
  have w: "fst (sp_world s0) = after_reading (kt_init_library (loadSeq + 1) interfaceVer delim (clock 0) timer_start) timer_world_start"
    using c by (simp add: call_child_init_def timer_library_def timer_world_start_def)
  ultimately show ?thesis
    using timer_delivers [OF d] i by (simp add: w after_reading_def timer_world_start_def)
qed

text \<open>A clock, a process and a start-up to run the chain with.\<close>

definition chain_clock :: "nat \<Rightarrow> int \<times> int" where
  "chain_clock n = (int n, 0)"

definition chain_process :: process where
  "chain_process = \<lparr>p_env = (\<lambda>v. None), p_hostname = ''h'', p_pid = 1, p_cwd = ''/'',
     p_can_open = (\<lambda>f. True), p_sort = insertion_sort compareKernelPerformanceInfo\<rparr>"

definition chain_start :: "(timer_world \<times> child_call list) sampler outcome" where
  "chain_start = sampler_start_up (demo_env [(''KOKKOS_TOOLS_SAMPLER_SKIP'', ''1'')])
     (\<lambda>l. if l = ''child'' then Some (timer_library chain_clock None chain_process) else None)
     (\<lambda>t. d_of_nat (nat (atoi t))) 0 0 20211015 (device_fence False) timer_world_start"

definition chain_program :: "launch_event list" where
  "chain_program = [Launch ParFor (Some ''a'') 0 7, Launch ParFor (Some ''b'') 0 8, Finish, Finish]"

lemma chain_start_state:
  "chain_start = Inr \<lparr>sp_uniqID = 1, sp_kernelSampleSkip = 2,
     sp_tool_prob_num = d_of_nat 100, sp_tool_verbosity = 0, sp_tool_globFence = 0, sp_tool_seed = - 1,
     sp_infokIDSample = [], sp_invocationNum = (\<lambda>k. 0),
     sp_callees = logged (timer_library chain_clock None chain_process), sp_fence = None,
     sp_srand = Some 0, sp_stdout = [], sp_stderr = [],
     sp_world = (after_reading (kt_init_library 1 20211015 None (0, 0) timer_start) timer_world_start, [])\<rparr>"
  by (simp add: chain_start_def sampler_start_up_def sp_init_library_def read_settings_def
      demo_env_def env_int_def profile_library_def sp_load_child_def demo_library
      call_child_init_def unlogged_def demo_atoi sampler_start_def say_above_def seed_rand_def
      set_probability_def set_skip_def set_default_def c_atoi_def fits_int_def Let_def
      sp_provide_tool_programming_interface_def logged_fence_def device_fence_def
      timer_library_def timer_world_start_def chain_clock_def)

lemma increment_counter_current: "\<exists>p. kt_currentEntry (increment_counter now n ty t) = Some p"
  by (simp add: increment_counter_def split: prod.split)

lemma chain_run:
  "\<exists>s0 s. chain_start = Inr s0
    \<and> run_events (program_step (\<lambda>k name d r. sampler_begin k r name d) sampler_end) (s0, []) chain_program = Inr (s, [])"
proof -
  let ?t = "kt_init_library 1 20211015 None (0, 0) timer_start"
  obtain p where p: "kt_currentEntry (increment_counter (1, 0) ''b'' PARALLEL_FOR (?t\<lparr>kt_uniqID := kt_uniqID ?t + 1\<rparr>)) = Some p"
    using increment_counter_current by blast
  show ?thesis
    by (simp add: chain_start_state chain_program_def sampler_begin_def sampler_end_def sp_due_full RAND_MAX_def
        Let_def say_above_def fence_if_asked_def logged_begin_def logged_end_def timer_library_sel after_reading_def
        sp_insert_def sp_erase_def kt_begin_parallel_for_def begin_parallel_def kt_end_parallel_def
        timer_world_start_def chain_clock_def p)
qed

theorem sampled_timer_witness:
  "\<exists>s0 s. chain_start = Inr s0
    \<and> run_events (program_step (\<lambda>k name d r. sampler_begin k r name d) sampler_end) (s0, []) chain_program = Inr (s, [])
    \<and> run_events timer_next (kt_init_library 1 20211015 None (0, 0) timer_start)
        [KBegin ParFor (Some ''b'') (1, 0), KEnd ParFor 0 (2, 0)] = Inr (tw_timer (fst (sp_world s)))"
proof -
  obtain s0 s where s0: "chain_start = Inr s0"
    and s: "run_events (program_step (\<lambda>k name d r. sampler_begin k r name d) sampler_end) (s0, []) chain_program = Inr (s, [])"
    using chain_run by blast
  have "passed (\<lambda>k name m r. m mod (nat (atoi ''1'') + 1) = 0) (\<lambda>k. 0) [] chain_program
      = [Begin_call ParFor (Some ''b''), End_call ParFor]"
    by (simp add: chain_program_def demo_atoi)
  moreover have "launches chain_program < 2 ^ 64 - 1" "launch_draws chain_program \<subseteq> {..<RAND_MAX}"
    by (simp_all add: chain_program_def RAND_MAX_def)
  ultimately show ?thesis
    using sampled_timer [OF s0 [unfolded chain_start_def] _ _ _ s, of "''1''"] s0 s
    by (auto simp: demo_env_def demo_atoi chain_clock_def)
qed

section \<open>Behind the kernel filter\<close>

text \<open>Programs whose kernels follow one another.\<close>

fun flat :: "launch_event list \<Rightarrow> bool" where
  "flat [] = True"
| "flat (Launch k name d r # Finish # es) = flat es"
| "flat es = False"

abbreviation filter_program_step ::
  "(string \<Rightarrow> 'r \<Rightarrow> bool) \<Rightarrow> ('r, 'w) kernel_filter \<times> (pkind \<times> u64) list \<Rightarrow> launch_event \<Rightarrow>
    (('r, 'w) kernel_filter \<times> (pkind \<times> u64) list) outcome" where
  "filter_program_step m \<equiv> program_step (\<lambda>k name d r. filter_begin m k name d 0) filter_end"

lemma filter_library_child:
  "filter_library getenv s = Inr (lib, s') \<Longrightarrow>
    kf_callees s' = kf_callees s \<and> kf_world s' = kf_world s \<and> kf_nextKernelID s' = kf_nextKernelID s"
  by (auto simp: filter_library_def kf_say_def split: option.splits)

lemma enable_child:
  assumes "kf_enable getenv (\<lambda>l. map_sum logged id (if is_child l then Inl c else Inr err)) q v n p s = Inr s'"
    and "kf_callees s = no_child" and "kf_world s = (w, [])" and "ch_begin (kf_callees s') ParFor \<noteq> None"
  shows "kf_callees s' = logged c \<and> call_child_init c q v n p w = Inr (fst (kf_world s')) \<and> kf_nextKernelID s' = kf_nextKernelID s"
proof -
  define s1 where "s1 = kf_say ''KokkosP: Kernel Filtering is enabled'' (s\<lparr>kf_filterKernels := True\<rparr>)"
  have s1: "kf_callees s1 = no_child" "kf_world s1 = (w, [])" "kf_nextKernelID s1 = kf_nextKernelID s"
    using assms(2,3) by (simp_all add: s1_def kf_say_def)
  have "kf_kernelNames s \<noteq> []" using assms(1,2,4) by (auto simp: kf_enable_def kf_say_def no_child_def)
  with assms(1) obtain lib s2 s3 where l: "filter_library getenv s1 = Inr (lib, s2)"
    and s3: "kf_load_child (\<lambda>l. map_sum logged id (if is_child l then Inl c else Inr err)) q v n p lib s2 = Inr s3"
    and s': "s' = kf_say kf_rule s3"
    by (auto simp: kf_enable_def s1_def obind_Inr)
  from filter_library_child [OF l] s1 have s2: "kf_callees s2 = no_child" "kf_world s2 = (w, [])"
    "kf_nextKernelID s2 = kf_nextKernelID s" by simp_all
  with s3 s' assms(4) show ?thesis
    by (auto simp: kf_load_child_def Let_def obind_Inr kf_say_def no_child_def dest!: child_init_unlogged
        split: option.splits sum.splits if_splits)
qed

lemma filter_flat_program:
  assumes "run_events (filter_program_step m) (s, []) es = Inr (s', running)" and "flat es"
    and "kf_watched s" and "complete_child (kf_callees s)" and "kf_activeKernels s = {}"
  shows "kernel_calls_of (kf_log s') = kernel_calls_of (kf_log s) @ passed (\<lambda>k name n r. accepts m name s) n [] es"
  using assms
proof (induction es arbitrary: s n rule: flat.induct)
  case (2 k name d r es)
  then obtain i s1 s2 where b: "filter_begin m k name d 0 s = Inr (i, s1)" and e: "filter_end k i s1 = Inr s2"
    and run: "run_events (filter_program_step m) (s2, []) es = Inr (s', running)"
    by (auto simp: obind_Inr split: sum.splits)
  note cb = filter_begin_cases [OF "2.prems"(3) b]
  then have "kf_watched s1" using "2.prems"(3) kf_watched_same by blast
  note ce = filter_end_cases [OF this e]
  have s2: "kf_watched s2" "complete_child (kf_callees s2)" "accepts m n s2 = accepts m n s" for n
    using cb ce "2.prems"(3,4) kf_watched_same by (auto simp: same_filter_def accepts_def)
  have "kf_activeKernels s2 = {}" and log: "kernel_calls_of (kf_log s2) = kernel_calls_of (kf_log s)
      @ (if accepts m name s then [Begin_call k name, End_call k] else [])"
    using cb ce "2.prems"(4,5) by (auto simp: complete_child_def same_filter_def own_id_def split: if_splits)
  from "2.IH" [of s2 "n(k := Suc (n k))", OF run _ s2(1,2) this(1)] "2.prems"(2) log s2(3) show ?case by (simp add: fun_upd_def)
qed simp_all

lemma filter_next_of_program:
  "filter_begin m k name d 0 s = Inr (i, s') \<Longrightarrow> \<exists>ev. filter_next m s ev = Inr s'"
  "filter_end k i s = Inr s' \<Longrightarrow> \<exists>ev. filter_next m s ev = Inr s'"
  by (auto intro: exI [of _ "FBegin k name d 0"] exI [of _ "FEnd k i"] simp del: filter_next_simps(1) simp: filter_next_simps(1) obind_Inr)

text \<open>The filter as its initialisation leaves it, with the kernel timer loaded.\<close>

lemma filter_start_up:
  fixes s0 :: "('r, timer_world \<times> child_call list) kernel_filter"
  assumes "kf_init_library getenv fopen compile (\<lambda>l. map_sum logged id (if is_timer l then Inl (timer_library clock delim pr) else Inr err))
      loadSeq interfaceVer 0 0 (filter_start (timer_world_start, [])) = Inr s0"
    and "getenv ''KOKKOSP_KERNEL_FILTER'' = Some path" and "fopen path = Some (f_rest (file_of ls))"
    and "\<forall>(l, e) \<in> set ls. plain l \<and> line_end e" and "\<forall>(l, e) \<in> set ls. compile l = Inr (f l)"
    and "ch_begin (kf_callees s0) ParFor \<noteq> None"
  shows "kf_callees s0 = logged (timer_library clock delim pr) \<and> kf_watched s0 \<and> complete_child (kf_callees s0)
    \<and> kf_log s0 = [] \<and> kf_activeKernels s0 = {} \<and> kf_nextKernelID s0 = 0 \<and> kf_filterKernels s0
    \<and> (\<forall>name. accepts m name s0 = (\<exists>(l, e) \<in> set ls. m (the name) (f l)))
    \<and> fst (kf_world s0) = after_reading (kt_init_library (loadSeq + 1) interfaceVer delim (clock 0) timer_start) timer_world_start"
proof -
  from init_enables [OF assms(1-5)] obtain s1 where
    e: "kf_enable getenv (\<lambda>l. map_sum logged id (if is_timer l then Inl (timer_library clock delim pr) else Inr err))
      loadSeq interfaceVer 0 0 s1 = Inr s0" "kf_callees s1 = no_child" "kf_world s1 = (timer_world_start, [])"
      "kf_nextKernelID s1 = 0" by blast
  note c = enable_child [OF e(1-3) assms(6)] and i = init_filters [OF assms(1-5), of ParFor]
  have "fst (kf_world s0) = after_reading (kt_init_library (loadSeq + 1) interfaceVer delim (clock 0) timer_start) timer_world_start"
    using c by (simp add: call_child_init_def timer_library_def timer_world_start_def)
  with c e(4) i assms(6) complete_timer_library [of clock delim pr] show ?thesis
    by (auto simp: accepts_def list_ex_iff split_beta filter_inv_def)
qed

lemma filtered_timer_run:
  fixes s0 :: "('r, timer_world \<times> child_call list) kernel_filter"
  assumes "kf_init_library getenv fopen compile (\<lambda>l. map_sum logged id (if is_timer l then Inl (timer_library clock delim pr) else Inr err))
      loadSeq interfaceVer 0 0 (filter_start (timer_world_start, [])) = Inr s0"
    and "getenv ''KOKKOSP_KERNEL_FILTER'' = Some path" and "fopen path = Some (f_rest (file_of ls))"
    and "\<forall>(l, e) \<in> set ls. plain l \<and> line_end e" and "\<forall>(l, e) \<in> set ls. compile l = Inr (f l)"
    and "ch_begin (kf_callees s0) ParFor \<noteq> None"
    and "run_events (filter_program_step regex_match) (s0, []) es = Inr (s, running)" and "flat es"
  shows "run_events timer_next (kt_init_library (loadSeq + 1) interfaceVer delim (clock 0) timer_start)
      (timed clock 1 (passed (\<lambda>k name n r. \<exists>(l, e) \<in> set ls. regex_match (the name) (f l)) (\<lambda>k. 0) [] es))
    = Inr (tw_timer (fst (kf_world s)))"
proof -
  let ?c = "timer_library clock delim pr"
  note s0 = filter_start_up [OF assms(1-6), of regex_match]
  then have "kf_watched s0" "complete_child (kf_callees s0)" "kf_activeKernels s0 = {}" by blast+
  from filter_flat_program [OF assms(7,8) this, of "\<lambda>k. 0"] s0
  have "kernel_calls_of (kf_log s) = passed (\<lambda>k name n r. \<exists>(l, e) \<in> set ls. regex_match (the name) (f l)) (\<lambda>k. 0) [] es"
    by simp
  moreover obtain evs where evs: "run_events (filter_next regex_match) s0 evs = Inr s"
    using program_run [where step = "filter_next regex_match", OF _ _ assms(7)] filter_next_of_program by metis
  have "delivers ?c None (fst (kf_world s0)) (kf_log s) (fst (kf_world s))"
    using filter_client.run_delivers [OF evs, of ?c "fst (kf_world s0)"] s0 delivers.none [of ?c None] by simp
  then have "delivers ?c (device_fence False) (fst (kf_world s0)) (kf_log s) (fst (kf_world s))" by (simp add: device_fence_def)
  ultimately show ?thesis using timer_delivers s0 by (fastforce simp: after_reading_def timer_world_start_def)
qed

text \<open>
  C18. Filtering in front of the kernel timer times exactly the kernels that match. For any program whose
  kernels follow one another, the timer ends in the state it would reach on its own if it were told only
  of the launches, of any kind, whose name matches an expression of the filter file, and of their ends.
\<close>

theorem filtered_timer:
  fixes s0 :: "('r, timer_world \<times> child_call list) kernel_filter"
  assumes "kf_init_library getenv fopen compile (\<lambda>l. map_sum logged id (if is_timer l then Inl (timer_library clock delim pr) else Inr err))
      loadSeq interfaceVer 0 0 (filter_start (timer_world_start, [])) = Inr s0"
    and "getenv ''KOKKOSP_KERNEL_FILTER'' = Some path" and "fopen path = Some (f_rest (file_of ls))"
    and "\<forall>(l, e) \<in> set ls. plain l \<and> line_end e" and "\<forall>(l, e) \<in> set ls. compile l = Inr (f l)"
    and "ch_begin (kf_callees s0) ParFor \<noteq> None"
    and "run_events (filter_program_step regex_match) (s0, []) es = Inr (s, running)" and "flat es"
  shows "run_events timer_next (kt_init_library (loadSeq + 1) interfaceVer delim (clock 0) timer_start)
      (timed clock 1 (passed (\<lambda>k name n r. \<exists>(l, e) \<in> set ls. regex_match (the name) (f l)) (\<lambda>k. 0) [] es))
    = Inr (tw_timer (fst (kf_world s)))"
  by (rule filtered_timer_run [OF assms])

definition chain_filter :: "(string, timer_world \<times> child_call list) kernel_filter outcome" where
  "chain_filter = kf_init_library filter_env (\<lambda>p. Some (f_rest (file_of [(''axpy'', CHR 0x0A)]))) Inr
     (\<lambda>l. map_sum logged id (if l = ''child'' then Inl (timer_library chain_clock None chain_process) else Inr ''not found''))
     0 20211015 0 0 (filter_start (timer_world_start, []))"

lemma axpy_file: "\<forall>(l, e) \<in> set [(''axpy'', CHR 0x0A)]. plain l \<and> line_end e"
  by (simp add: plain_def line_end_def)

lemma chain_filter_state:
  obtains s where "chain_filter = Inr s" and "kf_callees s = logged (timer_library chain_clock None chain_process)"
    and "kf_filterKernels s" and "kf_kernelNames s = [''axpy'']" and "kf_activeKernels s = {}" and "kf_nextKernelID s = 0"
    and "kf_world s = (after_reading (kt_init_library 1 20211015 None (0, 0) timer_start) timer_world_start, [])"
proof -
  have f: "\<lparr>f_rest = f_rest (file_of [(''axpy'', CHR 0x0A)]), f_eof = False\<rparr> = file_of [(''axpy'', CHR 0x0A)]"
    by (simp add: file_of_def)
  have "\<exists>s. chain_filter = Inr s \<and> kf_callees s = logged (timer_library chain_clock None chain_process)
    \<and> kf_filterKernels s \<and> kf_kernelNames s = [''axpy''] \<and> kf_activeKernels s = {} \<and> kf_nextKernelID s = 0
    \<and> kf_world s = (after_reading (kt_init_library 1 20211015 None (0, 0) timer_start) timer_world_start, [])"
    by (simp add: chain_filter_def kf_init_library_def filter_env_def f read_filters_file [OF axpy_file]
        kf_enable_def filter_library_def kf_load_child_def filter_demo_library call_child_init_def timer_library_def
        unlogged_def filter_start_def Let_def kf_say_def timer_world_start_def chain_clock_def)
  with that show thesis by blast
qed

definition filtered_program :: "launch_event list" where
  "filtered_program = [Launch ParFor (Some ''axpy'') 0 0, Finish, Launch ParReduce (Some ''dot'') 0 0, Finish]"

definition nested_program :: "launch_event list" where
  "nested_program = [Launch ParFor (Some ''axpy'') 0 0, Launch ParReduce (Some ''dot'') 0 0, Finish]"

lemma chain_filter_runs:
  obtains s0 s1 s2 where "chain_filter = Inr s0" and "kf_callees s0 = logged (timer_library chain_clock None chain_process)"
    and "run_events (filter_program_step (=)) (s0, []) filtered_program = Inr (s1, [])"
    and "run_events (filter_program_step (=)) (s0, []) nested_program = Inr (s2, [(ParFor, 0)])"
proof -
  let ?t = "kt_init_library 1 20211015 None (0, 0) timer_start"
  obtain p where p: "kt_currentEntry (increment_counter (1, 0) ''axpy'' PARALLEL_FOR (?t\<lparr>kt_uniqID := kt_uniqID ?t + 1\<rparr>)) = Some p"
    using increment_counter_current by blast
  have i: "kt_uniqID ?t = 0" by (simp add: kt_init_library_def timer_start_def)
  obtain s0 where s0: "chain_filter = Inr s0" "kf_callees s0 = logged (timer_library chain_clock None chain_process)"
    "kf_filterKernels s0" "kf_kernelNames s0 = [''axpy'']" "kf_activeKernels s0 = {}" "kf_nextKernelID s0 = 0"
    "kf_world s0 = (after_reading ?t timer_world_start, [])" by (rule chain_filter_state)
  note eqs = filtered_program_def nested_program_def filter_begin_def filter_end_def kokkospFilterMatch_def pass_on_def own_id_def
    logged_begin_def logged_end_def timer_library_sel after_reading_def kt_begin_parallel_for_def begin_parallel_def
    kt_end_parallel_def timer_world_start_def chain_clock_def
  show thesis using s0(3-) p i by (intro that [OF s0(1,2)]) (simp_all add: eqs s0(2))
qed

theorem filtered_timer_witness:
  "\<exists>s0 s. chain_filter = Inr s0
    \<and> run_events (filter_program_step (=)) (s0, []) filtered_program = Inr (s, [])
    \<and> run_events timer_next (kt_init_library 1 20211015 None (0, 0) timer_start)
        [KBegin ParFor (Some ''axpy'') (1, 0), KEnd ParFor 0 (2, 0)] = Inr (tw_timer (fst (kf_world s)))"
proof -
  obtain s0 s where s0: "chain_filter = Inr s0" "kf_callees s0 = logged (timer_library chain_clock None chain_process)"
    and s: "run_events (filter_program_step (=)) (s0, []) filtered_program = Inr (s, [])" by (rule chain_filter_runs)
  have "ch_begin (kf_callees s0) ParFor \<noteq> None" by (simp add: s0(2) timer_library_sel)
  from filtered_timer [OF s0(1)[unfolded chain_filter_def] _ _ axpy_file _ this s, of "''f''" "\<lambda>l. l"]
  have "run_events timer_next (kt_init_library 1 20211015 None (0, 0) timer_start)
      (timed chain_clock 1 (passed (\<lambda>k name n r. the name = ''axpy'') (\<lambda>k. 0) [] filtered_program)) = Inr (tw_timer (fst (kf_world s)))"
    by (simp add: filter_env_def chain_clock_def filtered_program_def)
  with s0 s show ?thesis by (auto simp: filtered_program_def chain_clock_def)
qed

lemma timer_begin_symbol_id: "timer_begin_symbol k now name t = Inr (i, t') \<Longrightarrow> i = kt_uniqID t"
  by (cases k) (auto simp: kt_begin_parallel_for_def kt_begin_parallel_reduce_def kt_begin_parallel_scan_def begin_parallel_def
      Let_def split: option.splits if_splits)

lemma filter_begin_passed:
  assumes "kf_callees s = logged c" and "accepts m name s" and "ch_begin c k = Some g"
    and "filter_begin m k name d i0 s = Inr (i, s')"
  shows "\<exists>w. g name d i0 (fst (kf_world s)) = Inr (i, w)"
  using assms by (auto simp: filter_begin_def pass_on_def obind_Inr logged_begin_Inr accepts_def kokkospFilterMatch_def
      match_any_iff split: option.splits if_splits)

text \<open>
  C19. Behind the filter a kernel inside another ends the outer one in the timer. The first kernel that
  matches has the timer's identifier 0, and a kernel that does not match, launched inside it, has the
  filter's own identifier 0: its end reaches the timer as the end of the outer kernel, whose time is
  cut short, and the outer kernel's own end is not passed on.
\<close>

theorem filter_timer_nested:
  fixes s0 :: "('r, timer_world \<times> child_call list) kernel_filter"
  assumes "kf_init_library getenv fopen compile (\<lambda>l. map_sum logged id (if is_timer l then Inl (timer_library clock delim pr) else Inr err))
      loadSeq interfaceVer 0 0 (filter_start (timer_world_start, [])) = Inr s0"
    and "getenv ''KOKKOSP_KERNEL_FILTER'' = Some path" and "fopen path = Some (f_rest (file_of ls))"
    and "\<forall>(l, e) \<in> set ls. plain l \<and> line_end e" and "\<forall>(l, e) \<in> set ls. compile l = Inr (f l)"
    and "ch_begin (kf_callees s0) ParFor \<noteq> None"
    and "\<exists>(l, e) \<in> set ls. regex_match a (f l)" and "\<forall>(l, e) \<in> set ls. \<not> regex_match b (f l)"
    and "run_events (filter_program_step regex_match) (s0, [])
      [Launch k (Some a) d r, Launch k' (Some b) d' r', Finish] = Inr (s, running)"
  shows "run_events timer_next (kt_init_library (loadSeq + 1) interfaceVer delim (clock 0) timer_start)
      [KBegin k (Some a) (clock 1), KEnd k' 0 (clock 2)] = Inr (tw_timer (fst (kf_world s)))
    \<and> running = [(k, 0)] \<and> filter_program_step regex_match (s, running) Finish = Inr (s, [])"
proof -
  let ?t = "kt_init_library (loadSeq + 1) interfaceVer delim (clock 0) timer_start"
  note s0 = filter_start_up [OF assms(1-6), of regex_match]
  from assms(9) obtain i s1 j s2 where b1: "filter_begin regex_match k (Some a) d 0 s0 = Inr (i, s1)"
    and b2: "filter_begin regex_match k' (Some b) d' 0 s1 = Inr (j, s2)" and e: "filter_end k' j s2 = Inr s"
    and running: "running = [(k, i)]" by (auto simp: obind_Inr split: sum.splits)
  have acc: "accepts regex_match (Some a) s0" "\<not> accepts regex_match (Some b) s0" using s0 assms(7,8) by auto
  from filter_begin_passed [OF _ acc(1) _ b1] s0 obtain w
    where "obind (timer_begin_symbol k (clock 1) (Some a) ?t) (\<lambda>(i, t). Inr (i, after_reading t (fst (kf_world s0)))) = Inr (i, w)"
    by (fastforce simp: timer_library_sel after_reading_def timer_world_start_def)
  then have i: "i = 0" by (auto simp: obind_Inr kt_init_library_def timer_start_def dest!: timer_begin_symbol_id)
  note c1 = filter_begin_cases [OF _ b1]
  have s1: "same_filter s0 s1" "kf_log s1 = [CBegin k (Some a) d 0]" "kf_activeKernels s1 = {0}" "kf_nextKernelID s1 = 0"
    "kf_watched s1" using c1 s0 acc i kf_watched_same [of s0 s1] by (auto simp: complete_child_def)
  have "\<not> accepts regex_match (Some b) s1" using s1(1) acc by (simp add: accepts_def same_filter_def)
  with filter_begin_cases [OF s1(5) b2] s1
  have s2: "same_filter s1 s2" "kf_log s2 = [CBegin k (Some a) d 0]" "kf_activeKernels s2 = {0}" "j = 0" "kf_watched s2"
    using kf_watched_same [of s1 s2] by (auto simp: own_id_def)
  have "ch_end (kf_callees s2) k' \<noteq> None" using s0 s1(1) s2(1) by (simp add: same_filter_def timer_library_sel)
  with filter_end_cases [OF s2(5) e] s2
  have s: "kf_log s = [CBegin k (Some a) d 0, CEnd k' 0]" "kf_activeKernels s = {}" by auto
  obtain evs where evs: "run_events (filter_next regex_match) s0 evs = Inr s"
    using program_run [where step = "filter_next regex_match", OF _ _ assms(9)] filter_next_of_program by metis
  have "delivers (timer_library clock delim pr) (device_fence False) (fst (kf_world s0)) (kf_log s) (fst (kf_world s))"
    using filter_client.run_delivers [OF evs, of "timer_library clock delim pr" "fst (kf_world s0)"] s0
      delivers.none [of "timer_library clock delim pr" None] by (simp add: device_fence_def)
  from timer_delivers [OF this] s0 have "run_events timer_next ?t
      [KBegin k (Some a) (clock 1), KEnd k' 0 (clock 2)] = Inr (tw_timer (fst (kf_world s)))"
    by (simp add: s(1) after_reading_def timer_world_start_def numeral_2_eq_2)
  moreover have "filter_end k i s = Inr s" using s(2) by (simp add: filter_end_def)
  ultimately show ?thesis using running i by simp
qed

theorem filter_timer_nested_witness:
  "\<exists>s0 s. chain_filter = Inr s0
    \<and> run_events (filter_program_step (=)) (s0, []) nested_program = Inr (s, [(ParFor, 0)])
    \<and> filter_program_step (=) (s, [(ParFor, 0)]) Finish = Inr (s, [])"
proof -
  obtain s0 s where s0: "chain_filter = Inr s0" "kf_callees s0 = logged (timer_library chain_clock None chain_process)"
    and s: "run_events (filter_program_step (=)) (s0, []) nested_program = Inr (s, [(ParFor, 0)])" by (rule chain_filter_runs)
  have "ch_begin (kf_callees s0) ParFor \<noteq> None" by (simp add: s0(2) timer_library_sel)
  from filter_timer_nested [OF s0(1)[unfolded chain_filter_def] _ _ axpy_file _ this _ _ s [unfolded nested_program_def],
      of "''f''" "\<lambda>l. l"] s0 s
  show ?thesis by (auto simp: filter_env_def)
qed

end
