(* ===== verification/Three_Tools.thy ===== *)
theory Three_Tools
  imports Tool_Chain
begin

text \<open>
  The sampler in front of the kernel filter in front of the kernel timer. The sampler is shown to run any child
  on the program of the sampled kernels; with the filter as that child, and the timer behind
  the filter, the timer holds what it would hold alone in a program of the kernels both let through.
\<close>

section \<open>The sampler runs its child on the sampled program\<close>

text \<open>A program that calls the functions of a library, which are all there.\<close>

abbreviation child_program_step ::
  "'w child \<Rightarrow> 'w \<times> (pkind \<times> u64) list \<Rightarrow> launch_event \<Rightarrow> ('w \<times> (pkind \<times> u64) list) outcome" where
  "child_program_step c \<equiv> program_step (\<lambda>k name d r. the (ch_begin c k) name d 0) (\<lambda>k. the (ch_end c k))"

abbreviation sampler_program_step ::
  "'w sampler \<times> (pkind \<times> u64) list \<Rightarrow> launch_event \<Rightarrow> ('w sampler \<times> (pkind \<times> u64) list) outcome" where
  "sampler_program_step \<equiv> program_step (\<lambda>k name d r. sampler_begin k r name d) sampler_end"

text \<open>The launches that satisfy \<open>P\<close>, as in \<open>passed\<close>, with what finishes them.\<close>

fun thinned ::
  "(pkind \<Rightarrow> string option \<Rightarrow> nat \<Rightarrow> nat \<Rightarrow> bool) \<Rightarrow> (pkind \<Rightarrow> nat) \<Rightarrow> (pkind \<times> bool) list \<Rightarrow> launch_event list \<Rightarrow> launch_event list" where
  "thinned P n running [] = []"
| "thinned P n running (Launch k name d r # es) =
     (if P k name (Suc (n k)) r
      then Launch k name d r # thinned P (n(k := Suc (n k))) ((k, True) # running) es
      else thinned P (n(k := Suc (n k))) ((k, False) # running) es)"
| "thinned P n [] (Finish # es) = thinned P n [] es"
| "thinned P n ((k, b) # running) (Finish # es) = (if b then Finish # thinned P n running es else thinned P n running es)"

text \<open>The running kernels of the child: those with an entry in the table, under the child's identifiers.\<close>

definition child_running :: "'w sampler \<Rightarrow> (pkind \<times> u64) list \<Rightarrow> (pkind \<times> u64) list" where
  "child_running s running =
     map (\<lambda>(k, i). (k, the (map_of (sp_infokIDSample s) i))) (filter (\<lambda>(k, i). map_of (sp_infokIDSample s) i \<noteq> None) running)"

lemma child_running_same:
  "(\<And>i. i \<in> snd ` set running \<Longrightarrow> map_of (sp_infokIDSample s') i = map_of (sp_infokIDSample s) i) \<Longrightarrow>
    child_running s' running = child_running s running"
  by (induction running) (auto simp: child_running_def)

lemma child_running_Cons:
  "child_running s ((k, i) # running) =
    (case map_of (sp_infokIDSample s) i of None \<Rightarrow> [] | Some j \<Rightarrow> [(k, j)]) @ child_running s running"
  by (simp add: child_running_def split: option.splits)

lemma fence_world:
  assumes "fence_if_asked s = Inr s'" and "sp_fence s = logged_fence (device_fence there)"
  shows "fst (sp_world s') = fst (sp_world s) \<and> sp_callees s' = sp_callees s \<and> sp_infokIDSample s' = sp_infokIDSample s"
proof (cases "sp_tool_globFence s = 0")
  case True
  with assms show ?thesis by (simp add: fence_if_asked_def)
next
  case False
  with assms show ?thesis
    by (cases "sp_world s") (auto simp: fence_if_asked_def invoke_ktools_fence_def obind_Inr logged_fence_def device_fence_def
        split: option.splits if_splits)
qed

lemma sampler_begin_child:
  assumes b: "sampler_begin k r name d s = Inr (i, s')" and s: "sp_callees s = logged c" "sp_fence s = logged_fence (device_fence there)"
  shows "if passes_on k r s
    then \<exists>g j. ch_begin c k = Some g \<and> g name d 0 (fst (sp_world s)) = Inr (j, fst (sp_world s'))
      \<and> sp_infokIDSample s' = sp_insert (sp_uniqID s) j (sp_infokIDSample s)
    else fst (sp_world s') = fst (sp_world s) \<and> sp_infokIDSample s' = sp_infokIDSample s"
proof -
  define s1 where "s1 = s\<lparr>sp_uniqID := sp_uniqID s + 1,
    sp_invocationNum := (sp_invocationNum s)(k := sp_invocationNum s k + 1)\<rparr>"
  note b1 = b [unfolded sampler_begin_def Let_def, folded s1_def]
  have s1: "sp_callees s1 = logged c" "sp_fence s1 = logged_fence (device_fence there)" "sp_world s1 = sp_world s"
    "sp_infokIDSample s1 = sp_infokIDSample s" "sp_due n r s1 = sp_due n r s" for n
    using s by (simp_all add: s1_def sp_due_def)
  show ?thesis
  proof (cases "passes_on k r s")
    case False
    with b1 s1 s show ?thesis by (auto simp: passes_on_def split: if_splits option.splits)
  next
    case True
    with b1 s1 s obtain g s2 j u where g: "ch_begin c k = Some g"
      and s2: "fence_if_asked (say_above 0 (sample_message (sp_uniqID s) '' calling child-begin function...'') s1) = Inr s2"
      and j: "logged_begin k g name d 0 (sp_world s2) = Inr (j, u)"
      and s': "s' = (say_above 0 (sample_message (sp_uniqID s) '' finished with child-begin function.'')
         (s2\<lparr>sp_world := u\<rparr>))\<lparr>sp_infokIDSample := sp_insert (sp_uniqID s) j (sp_infokIDSample s2)\<rparr>"
      by (auto simp: obind_Inr passes_on_def split: if_splits option.splits)
    from fence_world [OF s2, of there] s1 j g True s' show ?thesis by (auto simp: logged_begin_Inr)
  qed
qed

lemma sampler_end_child:
  assumes e: "sampler_end k i s = Inr s'" and s: "sp_callees s = logged c" "sp_fence s = logged_fence (device_fence there)"
    and "ch_end c k \<noteq> None"
  shows "case map_of (sp_infokIDSample s) i of
      Some j \<Rightarrow> the (ch_end c k) j (fst (sp_world s)) = Inr (fst (sp_world s')) \<and> sp_infokIDSample s' = sp_erase i (sp_infokIDSample s)
    | None \<Rightarrow> s' = s"
proof (cases "map_of (sp_infokIDSample s) i")
  case None
  with e s show ?thesis by (auto simp: sampler_end_def split: option.splits)
next
  case (Some j)
  with e s assms(4) obtain g s2 u where g: "ch_end c k = Some g"
    and s2: "fence_if_asked (say_above 0 (sample_message i '' calling child-end function...'') s) = Inr s2"
    and u: "logged_end k g j (sp_world s2) = Inr u"
    and s': "s' = (say_above 0 (sample_message i '' finished with child-end function.'')
       (s2\<lparr>sp_world := u\<rparr>))\<lparr>sp_infokIDSample := sp_erase i (sp_infokIDSample s2)\<rparr>"
    by (auto simp: sampler_end_def obind_Inr Let_def split: option.splits)
  from fence_world [OF s2, of there] s u g s' Some show ?thesis by (auto simp: logged_end_Inr)
qed


text \<open>A launch and a finish, seen from the child.\<close>

lemma launch_child:
  assumes "watched s" and "table_ok s" and "complete_child c" and "running_ok s running flags"
    and "counts_ok s n (Suc m)" and b: "sampler_begin k r name d s = Inr (i, s')"
    and s: "sp_callees s = logged c" "sp_fence s = logged_fence (device_fence there)"
  shows "if sp_due (of_nat (Suc (n k))) r s
    then child_program_step c (fst (sp_world s), child_running s running) (Launch k name d r)
      = Inr (fst (sp_world s'), child_running s' ((k, i) # running))
    else fst (sp_world s') = fst (sp_world s) \<and> child_running s' ((k, i) # running) = child_running s running"
proof -
  note c = sampler_begin_cases [OF assms(1) b] and w = sampler_begin_child [OF b s]
  have due: "passes_on k r s = sp_due (of_nat (Suc (n k))) r s"
    using assms(3,5) s by (simp add: passes_on_def complete_child_def counts_ok_def logged_def add.commute)
  have i: "i = sp_uniqID s" using c by simp
  have "\<forall>i' \<in> snd ` set running. unat i' < unat (sp_uniqID s)" using assms(4) by (simp add: running_ok_def)
  then have old: "i' \<noteq> sp_uniqID s" if "i' \<in> snd ` set running" for i' using that by blast
  have "map_of (sp_infokIDSample s') i' = map_of (sp_infokIDSample s) i'" if "i' \<in> snd ` set running" for i'
    using w old [OF that] by (auto simp: map_of_sp_insert split: if_splits)
  then have same: "child_running s' running = child_running s running" by (rule child_running_same)
  show ?thesis
    using w same table_ok_fresh [OF assms(2)] unfolding due
    by (auto simp: child_running_Cons i map_of_sp_insert split: if_splits)
qed

lemma finish_child:
  assumes "watched s" and "complete_child c" and "running_ok s ((k, i) # running) ((k', b) # flags)"
    and e: "sampler_end k i s = Inr s'"
    and s: "sp_callees s = logged c" "sp_fence s = logged_fence (device_fence there)"
  shows "if b
    then child_program_step c (fst (sp_world s), child_running s ((k, i) # running)) Finish
      = Inr (fst (sp_world s'), child_running s' running)
    else fst (sp_world s') = fst (sp_world s) \<and> child_running s ((k, i) # running) = child_running s' running"
proof -
  have "ch_end c k \<noteq> None" using assms(2) by (simp add: complete_child_def)
  note w = sampler_end_child [OF e s this]
  have r: "b \<longleftrightarrow> map_of (sp_infokIDSample s) i \<noteq> None" "i \<notin> snd ` set running"
    using assms(3) by (auto simp: running_ok_def)
  have "map_of (sp_infokIDSample s') i' = map_of (sp_infokIDSample s) i'" if "i' \<in> snd ` set running" for i'
  proof -
    have "i' \<noteq> i" using that r(2) by blast
    with w show ?thesis by (auto simp: map_of_sp_erase split: option.splits if_splits)
  qed
  then have "child_running s' running = child_running s running" by (rule child_running_same)
  with w r show ?thesis by (auto simp: child_running_Cons split: option.splits)
qed

text \<open>
  A run of the sampler is a run of its child on the program of the sampled kernels. The sampler hands the
  child its own identifiers back, also when the child gives one identifier to several kernels.
\<close>

lemma sampler_thins:
  assumes "run_events sampler_program_step (s, running) es = Inr (s', running')"
    and "watched s" and "table_ok s" and "complete_child c" and "running_ok s running flags"
    and "counts_ok s n (launches es)"
    and "\<And>k name m r. m < 2 ^ 64 \<Longrightarrow> r \<in> launch_draws es \<Longrightarrow> sp_due (of_nat m) r s = P k name m r"
    and "sp_callees s = logged c" and "sp_fence s = logged_fence (device_fence there)"
  shows "run_events (child_program_step c) (fst (sp_world s), child_running s running) (thinned P n flags es)
    = Inr (fst (sp_world s'), child_running s' running')"
  using assms
proof (induction P n flags es arbitrary: s running rule: thinned.induct)
  case (1 P n flags)
  then show ?case by simp
next
  case (2 P n flags k name d r es)
  then obtain i s1 where b: "sampler_begin k r name d s = Inr (i, s1)"
    and run: "run_events sampler_program_step (s1, (k, i) # running) es = Inr (s', running')"
    by (auto simp: obind_Inr split: sum.splits)
  have cs: "complete_child (sp_callees s)" using "2.prems"(4,8) by (simp add: complete_child_def logged_def)
  have co: "counts_ok s n (Suc (launches es))" using "2.prems"(6) by simp
  note l = sampler_launch [OF "2.prems"(2,3) cs "2.prems"(5) co b]
  note w = launch_child [OF "2.prems"(2-5) co b "2.prems"(8,9)]
  have "\<forall>k. n k + Suc (launches es) < 2 ^ 64" using "2.prems"(6) by (simp add: counts_ok_def)
  then have "n k + Suc (launches es) < 2 ^ 64" by blast
  then have "Suc (n k) < 2 ^ 64" by linarith
  then have P: "sp_due (of_nat (Suc (n k))) r s = P k name (Suc (n k)) r" using "2.prems"(7) by simp
  have due: "sp_due (of_nat m) q s1 = P k' name' m q" if "m < 2 ^ 64" "q \<in> launch_draws es" for k' name' m q
    using that "2.prems"(7) [of m q] l by (simp add: same_set_up_def sp_due_def)
  have cc: "sp_callees s1 = logged c" "sp_fence s1 = logged_fence (device_fence there)"
    using l "2.prems"(8,9) by (simp_all add: same_set_up_def)
  note l = l [unfolded P] and w = w [unfolded P]
  then have ok: "watched s1" "table_ok s1" "counts_ok s1 (n(k := Suc (n k))) (launches es)"
    "running_ok s1 ((k, i) # running) ((k, P k name (Suc (n k)) r) # flags)" by simp_all
  show ?case
  proof (cases "P k name (Suc (n k)) r")
    case True
    then have "running_ok s1 ((k, i) # running) ((k, True) # flags)" using ok(4) by simp
    from "2.IH"(1) [OF True run ok(1,2) "2.prems"(4) this ok(3) due cc] w True
    show ?thesis by (simp add: fun_upd_def)
  next
    case False
    then have "running_ok s1 ((k, i) # running) ((k, False) # flags)" using ok(4) by simp
    from "2.IH"(2) [OF False run ok(1,2) "2.prems"(4) this ok(3) due cc] w False
    show ?thesis by (simp add: fun_upd_def)
  qed
next
  case (3 P n es)
  then have "running = []" by (simp add: running_ok_def)
  with 3 show ?case by simp
next
  case (4 P n k' b flags es)
  then obtain k i running1 where r: "running = (k, i) # running1" by (cases running) (auto simp: running_ok_def)
  with "4.prems"(1) obtain s1 where e: "sampler_end k i s = Inr s1"
    and run: "run_events sampler_program_step (s1, running1) es = Inr (s', running')"
    by (auto simp: obind_Inr split: sum.splits)
  have cs: "complete_child (sp_callees s)" using "4.prems"(4,8) by (simp add: complete_child_def logged_def)
  have co: "counts_ok s n (launches es)" using "4.prems"(6) by simp
  note f = sampler_finish [OF "4.prems"(2,3) cs "4.prems"(5) [unfolded r] co e]
  note w = finish_child [OF "4.prems"(2,4) "4.prems"(5) [unfolded r] e "4.prems"(8,9)]
  have due: "sp_due (of_nat m) q s1 = P k' name' m q" if "m < 2 ^ 64" "q \<in> launch_draws es" for k' name' m q
    using that "4.prems"(7) [of m q] f by (simp add: same_set_up_def sp_due_def)
  have cc: "sp_callees s1 = logged c" "sp_fence s1 = logged_fence (device_fence there)"
    using f "4.prems"(8,9) by (simp_all add: same_set_up_def)
  from f have ok: "watched s1" "table_ok s1" "running_ok s1 running1 flags" "counts_ok s1 n (launches es)" by simp_all
  show ?case
  proof (cases b)
    case True
    from "4.IH"(1) [OF True run ok(1,2) "4.prems"(4) ok(3,4) due cc] w True r show ?thesis by simp
  next
    case False
    from "4.IH"(2) [OF False run ok(1,2) "4.prems"(4) ok(3,4) due cc] w False r show ?thesis by simp
  qed
qed

text \<open>Thinning a program of kernels that follow one another leaves such a program, and conditions add up.\<close>

lemma flat_thinned: "flat es \<Longrightarrow> flat (thinned P n [] es)"
  by (induction es arbitrary: n rule: flat.induct) simp_all

lemma passed_thinned:
  "flat es \<Longrightarrow> passed (\<lambda>k name m r. Q k name) n' [] (thinned P n [] es)
    = passed (\<lambda>k name m r. P k name m r \<and> Q k name) n [] es"
  by (induction es arbitrary: n n' rule: flat.induct) simp_all

section \<open>The kernel filter as a child library\<close>

text \<open>What \<open>dlsym\<close> finds in the filter's library.\<close>

definition filter_child ::
  "(string \<Rightarrow> 'r \<Rightarrow> bool) \<Rightarrow> (string \<Rightarrow> string option) \<Rightarrow> (string \<Rightarrow> string option) \<Rightarrow> (string \<Rightarrow> 'r outcome) \<Rightarrow>
    (string \<Rightarrow> ('w child, string) sum) \<Rightarrow> ('r, 'w) kernel_filter child" where
  "filter_child m getenv fopen compile dlopen =
     \<lparr>ch_begin = (\<lambda>k. Some (filter_begin m k)), ch_end = (\<lambda>k. Some (filter_end k)),
      ch_init = Some (kf_init_library getenv fopen compile dlopen), ch_finalize = Some kf_finalize_library\<rparr>"

lemma filter_child_sel:
  "ch_begin (filter_child m getenv fopen compile dlopen) k = Some (filter_begin m k)"
  "ch_end (filter_child m getenv fopen compile dlopen) k = Some (filter_end k)"
  "ch_init (filter_child m getenv fopen compile dlopen) = Some (kf_init_library getenv fopen compile dlopen)"
  "complete_child (filter_child m getenv fopen compile dlopen)"
  by (simp_all add: filter_child_def complete_child_def)

text \<open>
  C16. The three tools compose. With a skip rate of \<open>n\<close>, a filter file of expressions and the kernel timer
  at the end of the row, the timer ends in the state it would reach on its own if it were told only
  of the kernels, and of their ends, that are both an \<open>(n + 1)\<close>-th launch of their kind and named by an
  expression, at the moments it reads the clock. The counting is of all launches, also of those the filter then
  drops. Kernels follow one another; \<open>rand()\<close> does not return \<open>RAND_MAX\<close>.
\<close>

theorem sampled_filtered_timer:
  fixes f :: "string \<Rightarrow> 'r"
  assumes "sampler_start_up getenv (\<lambda>l. if is_child l then Some (filter_child regex_match getenv fopen compile
        (\<lambda>l. map_sum logged id (if is_timer l then Inl (timer_library clock delim pr) else Inr err))) else None)
      atof now loadSeq interfaceVer (device_fence there) (filter_start (timer_world_start, [])) = Inr s0"
    and "getenv ''KOKKOS_TOOLS_SAMPLER_PROB'' = None"
    and "getenv ''KOKKOS_TOOLS_SAMPLER_SKIP'' = Some t" and "0 \<le> atoi t"
    and "getenv ''KOKKOSP_KERNEL_FILTER'' = Some path" and "fopen path = Some (f_rest (file_of ls))"
    and "\<forall>(l, e) \<in> set ls. plain l \<and> line_end e" and "\<forall>(l, e) \<in> set ls. compile l = Inr (f l)"
    and "ch_begin (kf_callees (fst (sp_world s0))) ParFor \<noteq> None"
    and "run_events sampler_program_step (s0, []) es = Inr (s, running)" and "flat es"
    and "launches es < 2 ^ 64 - 1" and "launch_draws es \<subseteq> {..<RAND_MAX}"
  shows "run_events timer_next (kt_init_library (loadSeq + 2) interfaceVer delim (clock 0) timer_start)
      (timed clock 1 (passed (\<lambda>k name m r. m mod (nat (atoi t) + 1) = 0 \<and> (\<exists>(l, e) \<in> set ls. regex_match (the name) (f l)))
        (\<lambda>k. 0) [] es))
    = Inr (tw_timer (fst (kf_world (fst (sp_world s)))))"
proof -
  let ?d = "\<lambda>l. map_sum logged id (if is_timer l then Inl (timer_library clock delim pr) else Inr err)"
  let ?c = "filter_child regex_match getenv fopen compile ?d"
  let ?P = "\<lambda>k name m r. m mod (nat (atoi t) + 1) = 0"
  let ?fs = "fst (sp_world s0)" and ?fe = "fst (sp_world s)"
  note c = start_up_child [OF assms(1)] and i = start_up_inv [OF assms(1)]
  have due: "sp_due (of_nat m) r s0 = ?P k name m r" if "m < 2 ^ 64" "r \<in> launch_draws es" for k name m r
    using skip_rate_due [OF assms(1-4) that(1)] that(2) assms(13) by auto
  have "run_events (child_program_step ?c) (?fs, child_running s0 []) (thinned ?P (\<lambda>k. 0) [] es)
      = Inr (?fe, child_running s running)"
    using i c assms(12) due
    by (intro sampler_thins [OF assms(10), where P = ?P and n = "\<lambda>k. 0" and flags = "[]" and there = there and c = ?c])
      (auto simp: sampler_inv_def running_ok_def counts_ok_def filter_child_sel)
  then have run: "run_events (filter_program_step regex_match) (?fs, []) (thinned ?P (\<lambda>k. 0) [] es)
      = Inr (?fe, child_running s running)"
    by (simp add: filter_child_sel child_running_def)
  have init: "kf_init_library getenv fopen compile ?d (loadSeq + 1) interfaceVer 0 0 (filter_start (timer_world_start, [])) = Inr ?fs"
    using c by (simp add: call_child_init_def filter_child_sel)
  show ?thesis
    using filtered_timer_run [OF init assms(5-9) run flat_thinned [OF assms(11)]]
    by (simp add: passed_thinned [OF assms(11)] add.assoc)
qed

text \<open>Three libraries in a row, and a program of which one launch in two is sampled.\<close>

definition three_env :: "string \<Rightarrow> string option" where
  "three_env = map_of [(''KOKKOS_TOOLS_LIBS'', ''sampler;filter;child''), (''KOKKOS_TOOLS_SAMPLER_SKIP'', ''1''),
     (''KOKKOSP_KERNEL_FILTER'', ''f'')]"

definition three_filter :: "(string, timer_world \<times> child_call list) kernel_filter child" where
  "three_filter = filter_child (=) three_env (\<lambda>p. Some (f_rest (file_of [(''axpy'', CHR 0x0A)]))) Inr
     (\<lambda>l. map_sum logged id (if l = ''child'' then Inl (timer_library chain_clock None chain_process) else Inr ''not found''))"

definition three_start :: "((string, timer_world \<times> child_call list) kernel_filter \<times> child_call list) sampler outcome" where
  "three_start = sampler_start_up three_env (\<lambda>l. if l = ''filter'' then Some three_filter else None)
     (\<lambda>t. d_of_nat (nat (atoi t))) 0 0 20211015 (device_fence False) (filter_start (timer_world_start, []))"

definition three_program :: "launch_event list" where
  "three_program = [Launch ParFor (Some ''axpy'') 0 7, Finish, Launch ParFor (Some ''axpy'') 0 8, Finish,
     Launch ParFor (Some ''dot'') 0 8, Finish, Launch ParFor (Some ''dot'') 0 8, Finish]"

lemma three_libraries:
  "next_library 0 ''sampler;filter;child'' = Some ''filter''" "next_library 1 ''sampler;filter;child'' = Some ''child''"
  by code_simp+

definition three_loaded :: "(string, timer_world \<times> child_call list) kernel_filter \<Rightarrow> bool" where
  "three_loaded s =
     (kf_callees s = logged (timer_library chain_clock None chain_process)
      \<and> kf_filterKernels s \<and> kf_kernelNames s = [''axpy''] \<and> kf_activeKernels s = {} \<and> kf_nextKernelID s = 0
      \<and> kf_world s = (after_reading (kt_init_library 2 20211015 None (0, 0) timer_start) timer_world_start, []))"

lemma three_filter_state:
  "\<exists>s. kf_init_library three_env (\<lambda>p. Some (f_rest (file_of [(''axpy'', CHR 0x0A)]))) Inr
     (\<lambda>l. map_sum logged id (if l = ''child'' then Inl (timer_library chain_clock None chain_process) else Inr ''not found''))
     1 20211015 0 0 (filter_start (timer_world_start, [])) = Inr s \<and> three_loaded s"
proof -
  have f: "\<lparr>f_rest = f_rest (file_of [(''axpy'', CHR 0x0A)]), f_eof = False\<rparr> = file_of [(''axpy'', CHR 0x0A)]"
    by (simp add: file_of_def)
  show ?thesis
    by (simp add: kf_init_library_def three_env_def f read_filters_file [OF axpy_file] three_loaded_def
        kf_enable_def filter_library_def kf_load_child_def three_libraries call_child_init_def timer_library_def
        unlogged_def filter_start_def Let_def kf_say_def timer_world_start_def chain_clock_def)
qed

lemma three_start_state:
  "\<exists>s. three_start = Inr \<lparr>sp_uniqID = 1, sp_kernelSampleSkip = 2,
     sp_tool_prob_num = d_of_nat 100, sp_tool_verbosity = 0, sp_tool_globFence = 0, sp_tool_seed = - 1,
     sp_infokIDSample = [], sp_invocationNum = (\<lambda>k. 0),
     sp_callees = logged three_filter, sp_fence = None,
     sp_srand = Some 0, sp_stdout = [], sp_stderr = [], sp_world = (s, [])\<rparr> \<and> three_loaded s"
proof -
  obtain s where "ch_init three_filter \<noteq> None" "the (ch_init three_filter) 1 20211015 0 0 (filter_start (timer_world_start, [])) = Inr s"
    "three_loaded s"
    using three_filter_state by (auto simp: three_filter_def filter_child_sel)
  then show ?thesis
    by (auto simp: three_start_def sampler_start_up_def sp_init_library_def read_settings_def
      three_env_def env_int_def profile_library_def sp_load_child_def three_libraries
      call_child_init_def unlogged_def demo_atoi sampler_start_def say_above_def seed_rand_def
      set_probability_def set_skip_def set_default_def c_atoi_def fits_int_def Let_def
      sp_provide_tool_programming_interface_def logged_fence_def device_fence_def logged_def)
qed

lemma three_run:
  "\<exists>s0 s. three_start = Inr s0 \<and> three_loaded (fst (sp_world s0))
    \<and> run_events sampler_program_step (s0, []) three_program = Inr (s, [])"
proof -
  let ?t = "kt_init_library 2 20211015 None (0, 0) timer_start"
  obtain p where p: "kt_currentEntry (increment_counter (1, 0) ''axpy'' PARALLEL_FOR (?t\<lparr>kt_uniqID := kt_uniqID ?t + 1\<rparr>)) = Some p"
    using increment_counter_current by blast
  have i: "kt_uniqID ?t = 0" by (simp add: kt_init_library_def timer_start_def)
  obtain s s0 where s: "three_start = Inr s0" "s0 = \<lparr>sp_uniqID = 1, sp_kernelSampleSkip = 2,
     sp_tool_prob_num = d_of_nat 100, sp_tool_verbosity = 0, sp_tool_globFence = 0, sp_tool_seed = - 1,
     sp_infokIDSample = [], sp_invocationNum = (\<lambda>k. 0),
     sp_callees = logged three_filter, sp_fence = None,
     sp_srand = Some 0, sp_stdout = [], sp_stderr = [], sp_world = (s, [])\<rparr>" "three_loaded s"
    using three_start_state by blast
  have "\<exists>s'. run_events sampler_program_step (s0, []) three_program = Inr (s', [])"
    using s(3) p i by (simp add: s(2) three_program_def sampler_begin_def sampler_end_def sp_due_full RAND_MAX_def three_filter_def filter_child_sel
        Let_def say_above_def fence_if_asked_def logged_begin_def logged_end_def timer_library_sel after_reading_def
        sp_insert_def sp_erase_def kt_begin_parallel_for_def begin_parallel_def kt_end_parallel_def
        timer_world_start_def chain_clock_def three_loaded_def
        filter_begin_def filter_end_def kokkospFilterMatch_def pass_on_def own_id_def)
  then show ?thesis using s by auto
qed

theorem sampled_filtered_timer_witness:
  "\<exists>s0 s. three_start = Inr s0 \<and> run_events sampler_program_step (s0, []) three_program = Inr (s, [])
    \<and> run_events timer_next (kt_init_library 2 20211015 None (0, 0) timer_start)
        [KBegin ParFor (Some ''axpy'') (1, 0), KEnd ParFor 0 (2, 0)] = Inr (tw_timer (fst (kf_world (fst (sp_world s)))))"
proof -
  obtain s0 s where s0: "three_start = Inr s0" "three_loaded (fst (sp_world s0))"
    and s: "run_events sampler_program_step (s0, []) three_program = Inr (s, [])"
    using three_run by blast
  have "ch_begin (kf_callees (fst (sp_world s0))) ParFor \<noteq> None" using s0(2) by (simp add: three_loaded_def timer_library_sel)
  moreover have "flat three_program" "launches three_program < 2 ^ 64 - 1" "launch_draws three_program \<subseteq> {..<RAND_MAX}"
    by (simp_all add: three_program_def RAND_MAX_def)
  ultimately have "run_events timer_next (kt_init_library (0 + 2) 20211015 None (chain_clock 0) timer_start)
      (timed chain_clock 1 (passed (\<lambda>k name m r. m mod (nat (atoi ''1'') + 1) = 0
          \<and> (\<exists>(l, e) \<in> set [(''axpy'', CHR 0x0A)]. the name = l)) (\<lambda>k. 0) [] three_program))
    = Inr (tw_timer (fst (kf_world (fst (sp_world s)))))"
    by (intro sampled_filtered_timer [OF s0(1) [unfolded three_start_def three_filter_def] _ _ _ _ _ axpy_file _ _ s])
      (simp_all add: three_env_def demo_atoi)
  with s0 s show ?thesis by (auto simp: three_program_def demo_atoi chain_clock_def)
qed

end
