(* ===== verification/Memory_Tracking.thy ===== *)
theory Memory_Tracking
  imports Double Interface
begin

text \<open>
  The tracking of \<open>profiling/memory-usage/kp_memory_usage.cpp\<close>, with the shared timer of
  \<open>kp_timer.hpp\<close>: the table of at most 16 memory spaces with the size in use and its history, and the
  \<open>.memspace_usage\<close> file of each space. The copy of this code in
  \<open>profiling/memory-events/kp_memory_events.cpp\<close> is modelled by definitions of its own, in
  \<open>Events_Tracking\<close>. Clock readings (in nanoseconds) and the process's \<open>ru_maxrss\<close> are arguments.
  The names of space handles end with a NUL inside their 64 characters.
\<close>

section \<open>Timer\<close>

text \<open>\<open>Kokkos::Timer\<close> of \<open>kp_timer.hpp\<close>: the time point of the last reset.\<close>

type_synonym Timer = int

definition timer_reset :: "int \<Rightarrow> Timer" where
  "timer_reset now = now"

definition timer_seconds :: "int \<Rightarrow> Timer \<Rightarrow> double" where
  "timer_seconds now m_old = ddiv (d_of_int (now - m_old)) (d_of_nat 1000000000)"

definition max_mem_usage :: "int \<Rightarrow> double" where
  "max_mem_usage ru_maxrss = dmul (d_of_int ru_maxrss) (d_of_nat 1024)"

section \<open>Space table\<close>

type_synonym usage_row = "double \<times> u64 \<times> double"

record space_table =
  ms_num_spaces :: nat
  ms_space_name :: "string list"
  ms_space_size :: "u64 list"
  ms_track :: "usage_row list list"

text \<open>The arrays have 16 elements. The initialisation resets the number of spaces and the sizes only.\<close>

definition spaces_start :: space_table where
  "spaces_start = \<lparr>ms_num_spaces = 0, ms_space_name = replicate 16 [], ms_space_size = replicate 16 0,
     ms_track = replicate 16 []\<rparr>"

definition reset_spaces :: "space_table \<Rightarrow> space_table" where
  "reset_spaces t = t\<lparr>ms_num_spaces := 0, ms_space_size := replicate 16 0\<rparr>"

text \<open>The loop over all spaces: the last one whose name is equal, or \<open>num_spaces\<close>.\<close>

definition find_space :: "string \<Rightarrow> space_table \<Rightarrow> nat" where
  "find_space nm t = foldl (\<lambda>space_i s. if strcmp_eq (ms_space_name t ! s) nm then s else space_i)
     (ms_num_spaces t) [0..<ms_num_spaces t]"

definition space_of :: "string \<Rightarrow> space_table \<Rightarrow> (nat \<times> space_table) outcome" where
  "space_of nm t = (let space_i = find_space nm t in
     if space_i = ms_num_spaces t
     then if ms_num_spaces t < 16
          then Inr (space_i, t\<lparr>ms_space_name := (ms_space_name t)[ms_num_spaces t := cstr nm],
                 ms_num_spaces := ms_num_spaces t + 1\<rparr>)
          else Inl (Undefined ''space_name[num_spaces]'')
     else Inr (space_i, t))"

definition set_size :: "nat \<Rightarrow> u64 \<Rightarrow> double \<Rightarrow> double \<Rightarrow> space_table \<Rightarrow> space_table" where
  "set_size i v time mem t = t\<lparr>ms_space_size := (ms_space_size t)[i := v],
     ms_track := (ms_track t)[i := ms_track t ! i @ [(time, v, mem)]]\<rparr>"

definition track_allocate :: "string \<Rightarrow> u64 \<Rightarrow> double \<Rightarrow> double \<Rightarrow> space_table \<Rightarrow> (nat \<times> space_table) outcome" where
  "track_allocate nm n time mem t = obind (space_of nm t) (\<lambda>(i, t1).
     Inr (i, set_size i (ms_space_size t1 ! i + n) time mem t1))"

definition track_deallocate :: "string \<Rightarrow> u64 \<Rightarrow> double \<Rightarrow> double \<Rightarrow> space_table \<Rightarrow> (nat \<times> space_table) outcome" where
  "track_deallocate nm n time mem t = obind (space_of nm t) (\<lambda>(i, t1).
     Inr (i, if n \<le> ms_space_size t1 ! i then set_size i (ms_space_size t1 ! i - n) time mem t1 else t1))"

section \<open>Usage files\<close>

definition megabytes :: "double \<Rightarrow> double" where
  "megabytes x = ddiv (ddiv x (d_of_nat 1024)) (d_of_nat 1024)"

text \<open>The loop over the history of a space; \<open>maxvalue\<close> is its local variable.\<close>

fun usage_rows :: "u64 \<Rightarrow> usage_row list \<Rightarrow> token list" where
  "usage_rows maxvalue [] = []"
| "usage_rows maxvalue ((time, v, mem) # rs) = (let maxvalue' = (if v > maxvalue then v else maxvalue) in
     [Num ''%lf'' time, Txt '' '', Num ''%.1lf'' (megabytes (dmul (d_of_nat 1) (d_of_nat (unat v)))), Txt '' '',
      Num ''%.1lf'' (megabytes (dmul (d_of_nat 1) (d_of_nat (unat maxvalue')))), Txt '' '',
      Num ''%.1lf'' (megabytes (dmul (d_of_nat 1) mem)), Txt eol] @ usage_rows maxvalue' rs)"

definition usage_file :: "string \<Rightarrow> usage_row list \<Rightarrow> token list" where
  "usage_file nm rs = Txt (''# Space '' @ nm @ eol)
     # Txt (''# Time(s)  Size(MB)   HighWater(MB)   HighWater-Process(MB)'' @ eol) # usage_rows 0 rs"

text \<open>The files of all spaces: name and contents. \<open>fopen\<close> is taken to succeed.\<close>

definition usage_files :: "string \<Rightarrow> int \<Rightarrow> space_table \<Rightarrow> (string \<times> token list) list" where
  "usage_files hostname pid t = map (\<lambda>s.
     (hostname @ ''-'' @ dec_int pid @ ''-'' @ ms_space_name t ! s @ ''.memspace_usage'',
      usage_file (ms_space_name t ! s) (ms_track t ! s))) [0..<ms_num_spaces t]"

section \<open>Invariant and history\<close>

definition spaces_ok :: "space_table \<Rightarrow> bool" where
  "spaces_ok t \<longleftrightarrow> ms_num_spaces t \<le> 16 \<and> length (ms_space_name t) = 16 \<and> length (ms_space_size t) = 16
     \<and> length (ms_track t) = 16 \<and> distinct (take (ms_num_spaces t) (ms_space_name t))
     \<and> (\<forall>i < ms_num_spaces t. cstr (ms_space_name t ! i) = ms_space_name t ! i)
     \<and> (\<forall>i. ms_num_spaces t \<le> i \<and> i < 16 \<longrightarrow> ms_space_size t ! i = 0 \<and> ms_track t ! i = [])"

definition known :: "space_table \<Rightarrow> string set" where
  "known t = set (take (ms_num_spaces t) (ms_space_name t))"

lemma foldl_last_match:
  "foldl (\<lambda>a s. if P s then s else a) d [0..<n] = (if \<exists>s < n. P s then GREATEST s. s < n \<and> P s else d)"
proof (induction n)
  case (Suc n)
  show ?case
  proof (cases "P n")
    case True
    then have "(GREATEST s. s < Suc n \<and> P s) = n" by (intro Greatest_equality) auto
    with True show ?thesis by auto
  next
    case False
    then have "(\<lambda>s. s < Suc n \<and> P s) = (\<lambda>s. s < n \<and> P s)" by (auto simp: less_Suc_eq fun_eq_iff)
    with False Suc show ?thesis by (auto simp: less_Suc_eq)
  qed
qed simp

lemma find_space_known:
  assumes "spaces_ok t" and "i < ms_num_spaces t" and "ms_space_name t ! i = cstr nm"
  shows "find_space nm t = i"
proof -
  have m: "strcmp_eq (ms_space_name t ! s) nm \<longleftrightarrow> s = i" if "s < ms_num_spaces t" for s
  proof -
    have "ms_space_name t ! s = ms_space_name t ! i \<longleftrightarrow> s = i"
      using assms(1,2) that nth_eq_iff_index_eq [of "take (ms_num_spaces t) (ms_space_name t)" s i]
      by (simp add: spaces_ok_def)
    moreover have "cstr (ms_space_name t ! s) = ms_space_name t ! s" using assms(1) that by (simp add: spaces_ok_def)
    ultimately show ?thesis using assms(3) by (simp add: strcmp_eq_def)
  qed
  then have "(\<lambda>s. s < ms_num_spaces t \<and> strcmp_eq (ms_space_name t ! s) nm) = (\<lambda>s. s = i)"
    using assms(2) by (auto simp: fun_eq_iff)
  moreover have "(GREATEST s. s = i) = i" by (rule Greatest_equality) auto
  ultimately show ?thesis using assms(2) m by (auto simp: find_space_def foldl_last_match)
qed

lemma find_space_unknown:
  assumes "spaces_ok t" and "cstr nm \<notin> known t"
  shows "find_space nm t = ms_num_spaces t"
proof -
  have "\<not> strcmp_eq (ms_space_name t ! s) nm" if "s < ms_num_spaces t" for s
  proof -
    have "ms_space_name t ! s \<in> known t" using assms(1) that
      by (auto simp: known_def spaces_ok_def in_set_conv_nth intro!: exI [of _ s])
    moreover have "cstr (ms_space_name t ! s) = ms_space_name t ! s" using assms(1) that by (simp add: spaces_ok_def)
    ultimately show ?thesis using assms(2) by (auto simp: strcmp_eq_def)
  qed
  then show ?thesis by (auto simp: find_space_def foldl_last_match)
qed

text \<open>The space an operation is about: it is known afterwards, and nothing else changes.\<close>

lemma space_of_cases:
  assumes "spaces_ok t" and "space_of nm t = Inr (i, t1)"
  shows "spaces_ok t1 \<and> i < ms_num_spaces t1 \<and> ms_space_name t1 ! i = cstr nm \<and> known t1 = insert (cstr nm) (known t)
    \<and> ms_space_size t1 = ms_space_size t \<and> ms_track t1 = ms_track t \<and> ms_num_spaces t \<le> ms_num_spaces t1
    \<and> (\<forall>j < ms_num_spaces t. ms_space_name t1 ! j = ms_space_name t ! j)"
proof (cases "cstr nm \<in> known t")
  case True
  then obtain j where j: "j < ms_num_spaces t" "ms_space_name t ! j = cstr nm"
    using assms(1) by (auto simp: known_def spaces_ok_def in_set_conv_nth)
  with find_space_known [OF assms(1) j] assms(2) have "t1 = t" "i = j" by (auto simp: space_of_def Let_def)
  with True j assms(1) show ?thesis by (simp add: insert_absorb)
next
  case False
  with find_space_unknown [OF assms(1)] assms(2) have n: "ms_num_spaces t < 16" "i = ms_num_spaces t"
    "t1 = t\<lparr>ms_space_name := (ms_space_name t)[ms_num_spaces t := cstr nm], ms_num_spaces := ms_num_spaces t + 1\<rparr>"
    by (auto simp: space_of_def Let_def split: if_splits)
  have k: "take (Suc (ms_num_spaces t)) ((ms_space_name t)[ms_num_spaces t := cstr nm])
    = take (ms_num_spaces t) (ms_space_name t) @ [cstr nm]"
    using n(1) assms(1) by (simp add: take_Suc_conv_app_nth spaces_ok_def)
  with False n assms(1) show ?thesis
    by (auto simp: spaces_ok_def known_def nth_list_update less_Suc_eq)
qed

lemma card_known: "spaces_ok t \<Longrightarrow> card (known t) = ms_num_spaces t"
  by (simp add: known_def spaces_ok_def distinct_card)

lemma space_of_returns:
  assumes "spaces_ok t"
  shows "returns (space_of nm t) \<longleftrightarrow> card (insert (cstr nm) (known t)) \<le> 16"
proof (cases "cstr nm \<in> known t")
  case True
  then obtain j where j: "j < ms_num_spaces t" "ms_space_name t ! j = cstr nm"
    using assms by (auto simp: known_def spaces_ok_def in_set_conv_nth)
  with find_space_known [OF assms j] True card_known [OF assms] assms show ?thesis
    by (simp add: space_of_def insert_absorb spaces_ok_def)
next
  case False
  have "finite (known t)" by (simp add: known_def)
  with False find_space_unknown [OF assms False] card_known [OF assms] show ?thesis
    by (auto simp: space_of_def Let_def)
qed

section \<open>Histories\<close>

text \<open>
  The callbacks the two tools can receive, with the clock reading and the \<open>ru_maxrss\<close> they get; a
  null label or name is \<open>None\<close>.
\<close>

datatype mem_event =
    MAlloc SpaceHandle "string option" u64 u64 int int
  | MDealloc SpaceHandle "string option" u64 u64 int int
  | MPush "string option" int
  | MPop int

text \<open>The specification: the history of the space called \<open>nm\<close>, from the size \<open>v\<close> on.\<close>

fun history :: "Timer \<Rightarrow> string \<Rightarrow> u64 \<Rightarrow> mem_event list \<Rightarrow> usage_row list" where
  "history tm nm v [] = []"
| "history tm nm v (MAlloc h label p n now rss # es) =
     (if cstr (sh_name h) = nm
      then (timer_seconds now tm, v + n, max_mem_usage rss) # history tm nm (v + n) es
      else history tm nm v es)"
| "history tm nm v (MDealloc h label p n now rss # es) =
     (if cstr (sh_name h) = nm \<and> n \<le> v
      then (timer_seconds now tm, v - n, max_mem_usage rss) # history tm nm (v - n) es
      else history tm nm v es)"
| "history tm nm v (MPush name now # es) = history tm nm v es"
| "history tm nm v (MPop now # es) = history tm nm v es"

text \<open>The names of the spaces in a sequence of events.\<close>

fun event_space :: "mem_event \<Rightarrow> string set" where
  "event_space (MAlloc h label p n now rss) = {cstr (sh_name h)}"
| "event_space (MDealloc h label p n now rss) = {cstr (sh_name h)}"
| "event_space (MPush name now) = {}"
| "event_space (MPop now) = {}"

definition event_spaces :: "mem_event list \<Rightarrow> string set" where
  "event_spaces es = (\<Union>e \<in> set es. event_space e)"

lemma event_spaces_simps [simp]:
  "event_spaces [] = {}" "event_spaces (e # es) = event_space e \<union> event_spaces es"
  by (simp_all add: event_spaces_def)

lemma finite_event_spaces [simp]: "finite (event_spaces es)"
proof -
  have "finite (event_space e)" for e by (cases e) simp_all
  then show ?thesis by (simp add: event_spaces_def)
qed

text \<open>The two kinds of tracking event on the table alone.\<close>

fun track_event :: "Timer \<Rightarrow> space_table \<Rightarrow> mem_event \<Rightarrow> space_table outcome" where
  "track_event tm t (MAlloc h label p n now rss) =
     obind (track_allocate (sh_name h) n (timer_seconds now tm) (max_mem_usage rss) t) (\<lambda>(i, t'). Inr t')"
| "track_event tm t (MDealloc h label p n now rss) =
     obind (track_deallocate (sh_name h) n (timer_seconds now tm) (max_mem_usage rss) t) (\<lambda>(i, t'). Inr t')"
| "track_event tm t (MPush name now) = Inr t"
| "track_event tm t (MPop now) = Inr t"

lemma set_size_sel [simp]:
  "ms_num_spaces (set_size i v time mem t) = ms_num_spaces t"
  "ms_space_name (set_size i v time mem t) = ms_space_name t"
  "known (set_size i v time mem t) = known t"
  "find_space k (set_size i v time mem t) = find_space k t"
  "ms_space_size (set_size i v time mem t) = (ms_space_size t)[i := v]"
  "ms_track (set_size i v time mem t) = (ms_track t)[i := ms_track t ! i @ [(time, v, mem)]]"
  by (simp_all add: set_size_def known_def find_space_def)

lemma spaces_ok_set_size: "spaces_ok t \<Longrightarrow> i < ms_num_spaces t \<Longrightarrow> spaces_ok (set_size i v time mem t)"
  by (auto simp: spaces_ok_def set_size_def nth_list_update)

text \<open>The size of a space and its history after one event are what the specification says.\<close>

definition size_of_space :: "string \<Rightarrow> space_table \<Rightarrow> u64" where
  "size_of_space nm t = (if nm \<in> known t then ms_space_size t ! find_space nm t else 0)"

definition track_of_space :: "string \<Rightarrow> space_table \<Rightarrow> usage_row list" where
  "track_of_space nm t = (if nm \<in> known t then ms_track t ! find_space nm t else [])"

lemma known_index:
  assumes "spaces_ok t" and "nm \<in> known t"
  obtains i where "i < ms_num_spaces t" and "ms_space_name t ! i = nm" and "find_space nm t = i" and "cstr nm = nm"
proof -
  from assms obtain i where i: "i < ms_num_spaces t" "ms_space_name t ! i = nm"
    by (auto simp: known_def spaces_ok_def in_set_conv_nth)
  moreover from this assms(1) have "cstr nm = nm" by (auto simp: spaces_ok_def)
  ultimately show thesis using that find_space_known [OF assms(1) i(1)] by simp
qed

lemma space_of_unchanged:
  assumes "spaces_ok t" and "space_of nm t = Inr (i, t1)"
  shows "size_of_space k t1 = size_of_space k t \<and> track_of_space k t1 = track_of_space k t
    \<and> size_of_space (cstr nm) t1 = ms_space_size t1 ! i \<and> track_of_space (cstr nm) t1 = ms_track t1 ! i"
proof -
  note c = space_of_cases [OF assms]
  have find1: "find_space (cstr nm) t1 = i" "cstr nm \<in> known t1"
    using c find_space_known [of t1 i "cstr nm"] by simp_all
  have "size_of_space k t1 = size_of_space k t \<and> track_of_space k t1 = track_of_space k t"
  proof (cases "k \<in> known t")
    case True
    with known_index [OF assms(1)] obtain j where j: "j < ms_num_spaces t" "ms_space_name t ! j = k"
      "find_space k t = j" "cstr k = k" by metis
    then have "find_space k t1 = j" using c find_space_known [of t1 j k] by simp
    with True j c show ?thesis by (simp add: size_of_space_def track_of_space_def)
  next
    case False
    show ?thesis
    proof (cases "k = cstr nm")
      case True
      with False find_space_unknown [OF assms(1)] have "find_space nm t = ms_num_spaces t" by simp
      with assms(2) have "i = ms_num_spaces t" "ms_num_spaces t < 16"
        by (auto simp: space_of_def Let_def split: if_splits)
      then have "ms_space_size t ! i = 0" "ms_track t ! i = []" using assms(1) by (auto simp: spaces_ok_def)
      with True False find1 c show ?thesis by (simp add: size_of_space_def track_of_space_def)
    next
      case False
      with \<open>k \<notin> known t\<close> c show ?thesis by (simp add: size_of_space_def track_of_space_def)
    qed
  qed
  with find1 show ?thesis by (simp add: size_of_space_def track_of_space_def)
qed

lemma set_size_spaces:
  assumes "spaces_ok t" and "i < ms_num_spaces t"
  shows "size_of_space k (set_size i v time mem t) = (if k = ms_space_name t ! i then v else size_of_space k t)"
    and "track_of_space k (set_size i v time mem t) =
      track_of_space k t @ (if k = ms_space_name t ! i then [(time, v, mem)] else [])"
proof -
  have i: "i < 16" "length (ms_space_size t) = 16" "length (ms_track t) = 16" "ms_space_name t ! i \<in> known t"
    using assms by (auto simp: spaces_ok_def known_def in_set_conv_nth intro!: exI [of _ i])
  have eq: "find_space k t = i \<longleftrightarrow> k = ms_space_name t ! i" if "k \<in> known t"
    using known_index [OF assms(1) that] known_index [OF assms(1) i(4)] find_space_known [OF assms] assms(1)
    by (metis spaces_ok_def assms(2))
  show "size_of_space k (set_size i v time mem t) = (if k = ms_space_name t ! i then v else size_of_space k t)"
    using i eq by (auto simp: size_of_space_def nth_list_update)
  show "track_of_space k (set_size i v time mem t) =
      track_of_space k t @ (if k = ms_space_name t ! i then [(time, v, mem)] else [])"
    using i eq by (auto simp: track_of_space_def nth_list_update)
qed

lemma track_event_cases:
  assumes "spaces_ok t" and "track_event tm t e = Inr t'"
  shows "spaces_ok t' \<and> known t' = known t \<union> event_space e
    \<and> track_of_space k t' @ history tm k (size_of_space k t') es
        = track_of_space k t @ history tm k (size_of_space k t) (e # es)"
proof (cases e)
  case (MAlloc h label p n now rss)
  with assms(2) obtain i t1 where t1: "space_of (sh_name h) t = Inr (i, t1)"
    and t': "t' = set_size i (ms_space_size t1 ! i + n) (timer_seconds now tm) (max_mem_usage rss) t1"
    by (auto simp: track_allocate_def obind_Inr)
  note c = space_of_cases [OF assms(1) t1] and u = space_of_unchanged [OF assms(1) t1, of k]
  from c have ok: "spaces_ok t1" "i < ms_num_spaces t1" by simp_all
  from c u spaces_ok_set_size [OF ok] set_size_spaces [OF ok] MAlloc show ?thesis by (auto simp: t')
next
  case (MDealloc h label p n now rss)
  with assms(2) obtain i t1 where t1: "space_of (sh_name h) t = Inr (i, t1)"
    and t': "t' = (if n \<le> ms_space_size t1 ! i
      then set_size i (ms_space_size t1 ! i - n) (timer_seconds now tm) (max_mem_usage rss) t1 else t1)"
    by (auto simp: track_deallocate_def obind_Inr)
  note c = space_of_cases [OF assms(1) t1] and u = space_of_unchanged [OF assms(1) t1, of k]
  from c have ok: "spaces_ok t1" "i < ms_num_spaces t1" by simp_all
  from c u spaces_ok_set_size [OF ok] set_size_spaces [OF ok] MDealloc show ?thesis by (auto simp: t')
qed (use assms in auto)

lemma track_event_returns:
  assumes "spaces_ok t"
  shows "returns (track_event tm t e) \<longleftrightarrow> card (known t \<union> event_space e) \<le> 16"
proof -
  have "returns (obind r f) \<longleftrightarrow> returns r" if "\<And>x. returns (f x)" for r :: "(nat \<times> space_table) outcome" and f :: "_ \<Rightarrow> space_table outcome"
    using that by (cases r) simp_all
  moreover have "card (known t) \<le> 16" using card_known [OF assms] assms by (simp add: spaces_ok_def)
  ultimately show ?thesis using space_of_returns [OF assms]
    by (cases e) (auto simp: track_allocate_def track_deallocate_def returns_iff obind_Inr)
qed

lemma run_track_cases:
  assumes "spaces_ok t" and "run_events (track_event tm) t es = Inr t'"
  shows "spaces_ok t' \<and> known t' = known t \<union> event_spaces es
    \<and> track_of_space k t' = track_of_space k t @ history tm k (size_of_space k t) es"
  using assms
proof (induction es arbitrary: t)
  case (Cons e es)
  then obtain t1 where "track_event tm t e = Inr t1" "run_events (track_event tm) t1 es = Inr t'"
    by (auto split: sum.splits)
  with Cons.IH [of t1] track_event_cases [OF Cons.prems(1), of tm e t1 k es] show ?case by auto
qed simp

lemma run_track_returns:
  assumes "spaces_ok t"
  shows "returns (run_events (track_event tm) t es) \<longleftrightarrow> card (known t \<union> event_spaces es) \<le> 16"
  using assms
proof (induction es arbitrary: t)
  case Nil
  then show ?case by (simp add: card_known spaces_ok_def)
next
  case (Cons e es)
  have fin: "finite (known t \<union> event_space e \<union> event_spaces es)"
    by (cases e) (simp_all add: known_def)
  show ?case
  proof (cases "track_event tm t e")
    case (Inl x)
    with track_event_returns [OF Cons.prems, of tm e] have "16 < card (known t \<union> event_space e)" by simp
    also have "\<dots> \<le> card (known t \<union> event_space e \<union> event_spaces es)" by (rule card_mono [OF fin]) blast
    finally show ?thesis using Inl by (simp add: Un_assoc)
  next
    case (Inr t1)
    with Cons.IH [of t1] track_event_cases [OF Cons.prems Inr] show ?thesis by (simp add: Un_assoc)
  qed
qed

lemma spaces_start_facts [simp]:
  "spaces_ok spaces_start" "known spaces_start = {}" "size_of_space k spaces_start = 0"
  "track_of_space k spaces_start = []"
  by (auto simp: spaces_ok_def spaces_start_def known_def size_of_space_def track_of_space_def cstr_def)

lemma reset_spaces_start [simp]: "reset_spaces spaces_start = spaces_start"
  by (simp add: reset_spaces_def spaces_start_def)

section \<open>The high-water column\<close>

text \<open>The loop prints, with each row, the largest size up to it.\<close>

definition usage_row :: "u64 \<Rightarrow> usage_row \<Rightarrow> token list" where
  "usage_row peak r = (case r of (time, v, mem) \<Rightarrow>
     [Num ''%lf'' time, Txt '' '', Num ''%.1lf'' (megabytes (dmul (d_of_nat 1) (d_of_nat (unat v)))), Txt '' '',
      Num ''%.1lf'' (megabytes (dmul (d_of_nat 1) (d_of_nat (unat peak)))), Txt '' '',
      Num ''%.1lf'' (megabytes (dmul (d_of_nat 1) mem)), Txt eol])"

definition peaks :: "u64 \<Rightarrow> usage_row list \<Rightarrow> u64 list" where
  "peaks m rs = map (\<lambda>i. fold max (map (fst \<circ> snd) (take (Suc i) rs)) m) [0..<length rs]"

lemma peaks_Cons: "peaks m (r # rs) = max (fst (snd r)) m # peaks (max (fst (snd r)) m) rs"
  unfolding peaks_def by (simp add: upt_conv_Cons map_Suc_upt [symmetric] o_def del: upt_Suc)

lemma usage_rows_peaks: "usage_rows m rs = concat (map2 usage_row (peaks m rs) rs)"
proof (induction rs arbitrary: m)
  case (Cons r rs)
  obtain time v mem where r: "r = (time, v, mem)" by (metis prod_cases3)
  have "max v m = (if v > m then v else m)" by (auto simp: max_def)
  with Cons show ?case by (simp add: r peaks_Cons usage_row_def Let_def)
qed (simp add: peaks_def)

end
