(* ===== verification/Events_Tracking.thy ===== *)
theory Events_Tracking
  imports Memory_Tracking
begin

text \<open>
  The space table and the usage files once more, as \<open>profiling/memory-events/kp_memory_events.cpp\<close> has them: the tool
  does not share the code of the memory usage tool but has a copy of it, which is modelled
  from that file. The lemmas at the end compare the two.
\<close>

section \<open>The copy\<close>

definition me_max_mem_usage :: "int \<Rightarrow> double" where
  "me_max_mem_usage ru_maxrss = (let max_rssKB = d_of_int ru_maxrss in dmul max_rssKB (d_of_nat 1024))"

text \<open>The initialisation: the number of spaces, and the loop over the 16 sizes.\<close>

definition me_reset_spaces :: "space_table \<Rightarrow> space_table" where
  "me_reset_spaces t = (let t = t\<lparr>ms_num_spaces := 0\<rparr> in
     foldl (\<lambda>t i. t\<lparr>ms_space_size := (ms_space_size t)[i := 0]\<rparr>) t [0..<16])"

text \<open>The loop \<open>for (int s = 0; s < num_spaces; s++)\<close>, with \<open>k\<close> passes left; \<open>space_i\<close> is assigned in it.\<close>

fun me_space_loop :: "string list \<Rightarrow> string \<Rightarrow> nat \<Rightarrow> nat \<Rightarrow> nat \<Rightarrow> nat" where
  "me_space_loop names nm s 0 space_i = space_i"
| "me_space_loop names nm s (Suc k) space_i =
     me_space_loop names nm (Suc s) k (if strcmp_eq (names ! s) nm then s else space_i)"

definition me_space_index :: "string \<Rightarrow> space_table \<Rightarrow> (nat \<times> space_table) outcome" where
  "me_space_index nm t = (let n = ms_num_spaces t; space_i = me_space_loop (ms_space_name t) nm 0 n n in
     if space_i \<noteq> n then Inr (space_i, t)
     else if 16 \<le> n then Inl (Undefined ''space_name[num_spaces]'')
     else Inr (space_i, t\<lparr>ms_space_name := (ms_space_name t)[n := cstr nm], ms_num_spaces := Suc n\<rparr>))"

text \<open>\<open>space_size_track[space_i].push_back(...)\<close>, with the size the array has by then.\<close>

definition me_push_back :: "nat \<Rightarrow> double \<Rightarrow> double \<Rightarrow> space_table \<Rightarrow> space_table" where
  "me_push_back space_i time mem t =
     t\<lparr>ms_track := (ms_track t)[space_i := ms_track t ! space_i @ [(time, ms_space_size t ! space_i, mem)]]\<rparr>"

definition me_track_allocate :: "string \<Rightarrow> u64 \<Rightarrow> double \<Rightarrow> double \<Rightarrow> space_table \<Rightarrow> (nat \<times> space_table) outcome" where
  "me_track_allocate nm sz time mem t0 =
     obind (me_space_index nm t0) (\<lambda>(space_i, t).
     let t = t\<lparr>ms_space_size := (ms_space_size t)[space_i := ms_space_size t ! space_i + sz]\<rparr>
     in Inr (space_i, me_push_back space_i time mem t))"

definition me_track_deallocate :: "string \<Rightarrow> u64 \<Rightarrow> double \<Rightarrow> double \<Rightarrow> space_table \<Rightarrow> (nat \<times> space_table) outcome" where
  "me_track_deallocate nm sz time mem t0 =
     obind (me_space_index nm t0) (\<lambda>(space_i, t).
     if ms_space_size t ! space_i \<ge> sz
     then let t = t\<lparr>ms_space_size := (ms_space_size t)[space_i := ms_space_size t ! space_i - sz]\<rparr>
       in Inr (space_i, me_push_back space_i time mem t)
     else Inr (space_i, t))"

text \<open>The loop over the history of space \<open>s\<close> at index \<open>i\<close>, with \<open>k\<close> passes left.\<close>

definition me_mb :: "double \<Rightarrow> double" where
  "me_mb x = ddiv (ddiv (dmul (d_of_nat 1) x) (d_of_nat 1024)) (d_of_nat 1024)"

fun me_row_loop :: "usage_row list \<Rightarrow> nat \<Rightarrow> nat \<Rightarrow> u64 \<Rightarrow> token list" where
  "me_row_loop track i 0 maxvalue = []"
| "me_row_loop track i (Suc k) maxvalue =
     (let v = fst (snd (track ! i)); maxvalue = (if v > maxvalue then v else maxvalue) in
      [Num ''%lf'' (fst (track ! i)), Txt '' '', Num ''%.1lf'' (me_mb (d_of_nat (unat v))), Txt '' '',
       Num ''%.1lf'' (me_mb (d_of_nat (unat maxvalue))), Txt '' '', Num ''%.1lf'' (me_mb (snd (snd (track ! i)))), Txt eol]
      @ me_row_loop track (Suc i) k maxvalue)"

definition me_usage_file :: "string \<Rightarrow> int \<Rightarrow> space_table \<Rightarrow> nat \<Rightarrow> string \<times> token list" where
  "me_usage_file hostname pid t s =
     (hostname @ ''-'' @ dec_int pid @ ''-'' @ ms_space_name t ! s @ ''.memspace_usage'',
      [Txt (''# Space '' @ ms_space_name t ! s @ eol),
       Txt (''# Time(s)  Size(MB)   HighWater(MB)   HighWater-Process(MB)'' @ eol)]
      @ me_row_loop (ms_track t ! s) 0 (length (ms_track t ! s)) 0)"

fun me_file_loop :: "string \<Rightarrow> int \<Rightarrow> space_table \<Rightarrow> nat \<Rightarrow> nat \<Rightarrow> (string \<times> token list) list" where
  "me_file_loop hostname pid t s 0 = []"
| "me_file_loop hostname pid t s (Suc k) = me_usage_file hostname pid t s # me_file_loop hostname pid t (Suc s) k"

definition me_usage_files :: "string \<Rightarrow> int \<Rightarrow> space_table \<Rightarrow> (string \<times> token list) list" where
  "me_usage_files hostname pid t = me_file_loop hostname pid t 0 (ms_num_spaces t)"

section \<open>The two copies compared\<close>

named_theorems me_copy

lemma me_max_mem_usage_eq [me_copy]: "me_max_mem_usage rss = max_mem_usage rss"
  by (simp add: me_max_mem_usage_def max_mem_usage_def)

lemma me_reset_spaces_eq [me_copy]:
  assumes "length (ms_space_size t) = 16"
  shows "me_reset_spaces t = reset_spaces t"
proof -
  have f: "foldl (\<lambda>t i. t\<lparr>ms_space_size := (ms_space_size t)[i := 0]\<rparr>) t is
      = t\<lparr>ms_space_size := foldl (\<lambda>xs i. xs[i := 0]) (ms_space_size t) is\<rparr>" for t :: space_table and "is"
    by (induction "is" arbitrary: t) simp_all
  have g: "foldl (\<lambda>xs i. xs[i := 0]) xs [0..<n] = replicate n 0 @ drop n xs" if "n \<le> length xs" for n and xs :: "u64 list"
    using that
  proof (induction n)
    case (Suc n)
    then have "drop n xs = xs ! n # drop (Suc n) xs" by (simp add: Cons_nth_drop_Suc)
    with Suc show ?case by (simp add: list_update_append replicate_append_same)
  qed simp
  show ?thesis using g [of 16 "ms_space_size t"] assms by (simp add: me_reset_spaces_def reset_spaces_def f)
qed

lemma me_space_loop_foldl:
  "me_space_loop names nm s k space_i = foldl (\<lambda>i s. if strcmp_eq (names ! s) nm then s else i) space_i [s..<s + k]"
proof (induction names nm s k space_i rule: me_space_loop.induct)
  case (2 names nm s k space_i)
  have "[s..<s + Suc k] = s # [Suc s..<Suc s + k]" by (simp add: upt_conv_Cons)
  with 2 show ?case by simp
qed simp

lemma me_space_index_eq: "me_space_index nm t = space_of nm t"
  by (simp add: me_space_index_def space_of_def find_space_def me_space_loop_foldl Let_def)

lemma me_track_eq [me_copy]:
  assumes "spaces_ok t"
  shows "me_track_allocate nm sz time mem t = track_allocate nm sz time mem t"
    and "me_track_deallocate nm sz time mem t = track_deallocate nm sz time mem t"
proof -
  have i: "i < length (ms_space_size t1)" if "space_of nm t = Inr (i, t1)" for i t1
    using space_of_cases [OF assms that] by (auto simp: spaces_ok_def)
  show "me_track_allocate nm sz time mem t = track_allocate nm sz time mem t"
    using i by (cases "space_of nm t")
      (auto simp: me_track_allocate_def track_allocate_def me_space_index_eq me_push_back_def set_size_def Let_def)
  show "me_track_deallocate nm sz time mem t = track_deallocate nm sz time mem t"
    using i by (cases "space_of nm t")
      (auto simp: me_track_deallocate_def track_deallocate_def me_space_index_eq me_push_back_def set_size_def Let_def)
qed

lemma me_row_loop_rows: "me_row_loop track i (length track - i) m = usage_rows m (drop i track)"
proof (induction "length track - i" arbitrary: i m)
  case (Suc k)
  then have d: "drop i track = track ! i # drop (Suc i) track" and l: "length track - i = Suc (length track - Suc i)"
    by (simp_all add: Cons_nth_drop_Suc)
  obtain time v mem where r: "track ! i = (time, v, mem)" by (metis prod_cases3)
  show ?case using Suc.hyps(1) [of "Suc i"] Suc.hyps(2) unfolding d l
    by (simp add: r me_mb_def megabytes_def Let_def)
qed simp

lemma me_file_loop_map: "me_file_loop hostname pid t s k = map (me_usage_file hostname pid t) [s..<s + k]"
proof (induction hostname pid t s k rule: me_file_loop.induct)
  case (2 hostname pid t s k)
  have "[s..<s + Suc k] = s # [Suc s..<Suc s + k]" by (simp add: upt_conv_Cons)
  with 2 show ?case by simp
qed simp

lemma me_usage_files_eq [me_copy]: "me_usage_files hostname pid t = usage_files hostname pid t"
  using me_row_loop_rows [of _ 0]
  by (simp add: me_usage_files_def usage_files_def me_file_loop_map me_usage_file_def usage_file_def)

end
