(* ===== verification/Memory_Tools.thy ===== *)
theory Memory_Tools
  imports Events_Tracking
begin

text \<open>
  The two tools, each over its own copy of the tracking (\<open>Memory_Tracking\<close>, \<open>Events_Tracking\<close>):
  \<open>profiling/memory-usage/kp_memory_usage.cpp\<close>, which writes the usage files, and \<open>profiling/memory-events/kp_memory_events.cpp\<close>, which also logs every event in
  records (\<open>kp_memory_events.hpp\<close>). The host name and the process identifier are arguments of the
  finalisation, whose result is the list of files it writes, name and contents.
\<close>

section \<open>Memory usage\<close>

record usage_state =
  mu_spaces :: space_table
  mu_timer :: Timer

text \<open>Static initialisation: the constructor of the timer resets it.\<close>

definition usage_start :: "int \<Rightarrow> usage_state" where
  "usage_start now = \<lparr>mu_spaces = spaces_start, mu_timer = timer_reset now\<rparr>"

definition mu_init_library :: "int \<Rightarrow> usage_state \<Rightarrow> usage_state" where
  "mu_init_library now s = \<lparr>mu_spaces = reset_spaces (mu_spaces s), mu_timer = timer_reset now\<rparr>"

definition mu_allocate_data ::
  "SpaceHandle \<Rightarrow> string option \<Rightarrow> u64 \<Rightarrow> u64 \<Rightarrow> int \<Rightarrow> int \<Rightarrow> usage_state \<Rightarrow> usage_state outcome" where
  "mu_allocate_data space label ptr n now rss s =
     obind (track_allocate (sh_name space) n (timer_seconds now (mu_timer s)) (max_mem_usage rss) (mu_spaces s)) (\<lambda>(i, t).
     Inr (s\<lparr>mu_spaces := t\<rparr>))"

definition mu_deallocate_data ::
  "SpaceHandle \<Rightarrow> string option \<Rightarrow> u64 \<Rightarrow> u64 \<Rightarrow> int \<Rightarrow> int \<Rightarrow> usage_state \<Rightarrow> usage_state outcome" where
  "mu_deallocate_data space label ptr n now rss s =
     obind (track_deallocate (sh_name space) n (timer_seconds now (mu_timer s)) (max_mem_usage rss) (mu_spaces s)) (\<lambda>(i, t).
     Inr (s\<lparr>mu_spaces := t\<rparr>))"

definition mu_finalize_library :: "string \<Rightarrow> int \<Rightarrow> usage_state \<Rightarrow> (string \<times> token list) list" where
  "mu_finalize_library hostname pid s = usage_files hostname pid (mu_spaces s)"

text \<open>The tool has no callback for regions.\<close>

fun mu_next :: "usage_state \<Rightarrow> mem_event \<Rightarrow> usage_state outcome" where
  "mu_next s (MAlloc h label p n now rss) = mu_allocate_data h label p n now rss s"
| "mu_next s (MDealloc h label p n now rss) = mu_deallocate_data h label p n now rss s"
| "mu_next s (MPush name now) = Inr s"
| "mu_next s (MPop now) = Inr s"

section \<open>Memory events\<close>

record EventRecord =
  er_ptr :: u64
  er_size :: u64
  er_operation :: int
  er_space :: int
  er_time :: double
  er_name :: string

definition MEMOP_ALLOCATE :: int where "MEMOP_ALLOCATE = 1"
definition MEMOP_DEALLOCATE :: int where "MEMOP_DEALLOCATE = 2"
definition MEMOP_PUSH_REGION :: int where "MEMOP_PUSH_REGION = 3"
definition MEMOP_POP_REGION :: int where "MEMOP_POP_REGION = 4"

lemmas memop_defs = MEMOP_ALLOCATE_def MEMOP_DEALLOCATE_def MEMOP_PUSH_REGION_def MEMOP_POP_REGION_def

text \<open>The constructor; assigning a null name to the string is undefined.\<close>

definition newEventRecord ::
  "u64 \<Rightarrow> u64 \<Rightarrow> int \<Rightarrow> int \<Rightarrow> double \<Rightarrow> string option \<Rightarrow> EventRecord outcome" where
  "newEventRecord ptr n operation space time name =
     (case name of None \<Rightarrow> Inl (Undefined ''std::string of a null pointer'')
      | Some nm \<Rightarrow> Inr \<lparr>er_ptr = ptr, er_size = n, er_operation = operation, er_space = space,
          er_time = time, er_name = cstr nm\<rparr>)"

text \<open>\<open>%16s\<close> and \<open>%14\<close> pad with blanks on the left; a pointer is spelled by the C library, width included.\<close>

definition pad_left :: "nat \<Rightarrow> string \<Rightarrow> string" where
  "pad_left n s = replicate (n - length s) (CHR '' '') @ s"

definition record_space :: "string list \<Rightarrow> EventRecord \<Rightarrow> string" where
  "record_space names r = (if er_space r < 0 then [] else names ! nat (er_space r))"

definition er_print_record :: "string list \<Rightarrow> EventRecord \<Rightarrow> token list" where
  "er_print_record names r =
     (if er_operation r = MEMOP_ALLOCATE
      then [Num ''%lf'' (er_time r), Txt '' '', Ptr (er_ptr r),
        Txt ('' '' @ pad_left 14 (dec_int (sint (er_size r))) @ '' '' @ pad_left 16 (record_space names r)
          @ '' Allocate   '' @ er_name r @ eol)] else [])
   @ (if er_operation r = MEMOP_DEALLOCATE
      then [Num ''%lf'' (er_time r), Txt '' '', Ptr (er_ptr r),
        Txt ('' '' @ pad_left 14 (dec_int (sint (- er_size r))) @ '' '' @ pad_left 16 (record_space names r)
          @ '' DeAllocate '' @ er_name r @ eol)] else [])
   @ (if er_operation r = MEMOP_PUSH_REGION
      then [Num ''%lf'' (er_time r), Txt ('' PushRegion '' @ er_name r @ '' {'' @ eol)] else [])
   @ (if er_operation r = MEMOP_POP_REGION
      then [Num ''%lf'' (er_time r), Txt ('' } PopRegion '' @ er_name r @ eol)] else [])"

record events_state =
  me_spaces :: space_table
  me_timer :: Timer
  me_events :: "EventRecord list"
  me_stdout :: "token list"

definition events_start :: "int \<Rightarrow> events_state" where
  "events_start now = \<lparr>me_spaces = spaces_start, me_timer = timer_reset now, me_events = [], me_stdout = []\<rparr>"

definition me_init_library :: "int \<Rightarrow> u64 \<Rightarrow> int \<Rightarrow> events_state \<Rightarrow> events_state" where
  "me_init_library loadSeq interfaceVer now s = s\<lparr>me_spaces := me_reset_spaces (me_spaces s),
     me_stdout := me_stdout s @ [Txt (''KokkosP: MemoryEvents loaded (sequence: '' @ dec_int loadSeq
       @ '', version: '' @ dec_nat (unat interfaceVer) @ '')'' @ eol)],
     me_timer := timer_reset now\<rparr>"

definition push_event :: "EventRecord outcome \<Rightarrow> events_state \<Rightarrow> events_state outcome" where
  "push_event r s = obind r (\<lambda>e. Inr (s\<lparr>me_events := me_events s @ [e]\<rparr>))"

definition me_allocate_data ::
  "SpaceHandle \<Rightarrow> string option \<Rightarrow> u64 \<Rightarrow> u64 \<Rightarrow> int \<Rightarrow> int \<Rightarrow> events_state \<Rightarrow> events_state outcome" where
  "me_allocate_data space label ptr n now rss s = (let time = timer_seconds now (me_timer s) in
     obind (me_track_allocate (sh_name space) n time (me_max_mem_usage rss) (me_spaces s)) (\<lambda>(space_i, t).
     push_event (newEventRecord ptr n MEMOP_ALLOCATE (int space_i) time label) (s\<lparr>me_spaces := t\<rparr>)))"

definition me_deallocate_data ::
  "SpaceHandle \<Rightarrow> string option \<Rightarrow> u64 \<Rightarrow> u64 \<Rightarrow> int \<Rightarrow> int \<Rightarrow> events_state \<Rightarrow> events_state outcome" where
  "me_deallocate_data space label ptr n now rss s = (let time = timer_seconds now (me_timer s) in
     obind (me_track_deallocate (sh_name space) n time (me_max_mem_usage rss) (me_spaces s)) (\<lambda>(space_i, t).
     push_event (newEventRecord ptr n MEMOP_DEALLOCATE (int space_i) time label) (s\<lparr>me_spaces := t\<rparr>)))"

definition me_push_profile_region :: "string option \<Rightarrow> int \<Rightarrow> events_state \<Rightarrow> events_state outcome" where
  "me_push_profile_region name now s =
     push_event (newEventRecord 0 0 MEMOP_PUSH_REGION 0 (timer_seconds now (me_timer s)) name) s"

definition me_pop_profile_region :: "int \<Rightarrow> events_state \<Rightarrow> events_state outcome" where
  "me_pop_profile_region now s =
     push_event (newEventRecord 0 0 MEMOP_POP_REGION 0 (timer_seconds now (me_timer s)) (Some [])) s"

definition me_finalize_library :: "string \<Rightarrow> int \<Rightarrow> events_state \<Rightarrow> (string \<times> token list) list" where
  "me_finalize_library hostname pid s =
     (hostname @ ''-'' @ dec_int pid @ ''.mem_events'',
      Txt (''# Memory Events'' @ eol)
        # Txt (''# Time     Ptr                  Size        MemSpace      Op         Name'' @ eol)
        # concat (map (er_print_record (ms_space_name (me_spaces s))) (me_events s)))
     # me_usage_files hostname pid (me_spaces s)"

fun me_next :: "events_state \<Rightarrow> mem_event \<Rightarrow> events_state outcome" where
  "me_next s (MAlloc h label p n now rss) = me_allocate_data h label p n now rss s"
| "me_next s (MDealloc h label p n now rss) = me_deallocate_data h label p n now rss s"
| "me_next s (MPush name now) = me_push_profile_region name now s"
| "me_next s (MPop now) = me_pop_profile_region now s"

section \<open>Runs\<close>

text \<open>A start-up: static initialisation, then the initialisation callback.\<close>

definition mu_ready :: "int \<Rightarrow> int \<Rightarrow> usage_state" where
  "mu_ready t0 t1 = mu_init_library t1 (usage_start t0)"

definition me_ready :: "int \<Rightarrow> u64 \<Rightarrow> int \<Rightarrow> int \<Rightarrow> events_state" where
  "me_ready loadSeq ver t0 t1 = me_init_library loadSeq ver t1 (events_start t0)"

lemma mu_ready_sel [simp]: "mu_spaces (mu_ready t0 t1) = spaces_start" "mu_timer (mu_ready t0 t1) = t1"
  by (simp_all add: mu_ready_def mu_init_library_def usage_start_def timer_reset_def)

lemma me_ready_sel [simp]: "me_spaces (me_ready q v t0 t1) = spaces_start" "me_timer (me_ready q v t0 t1) = t1"
  "me_events (me_ready q v t0 t1) = []"
  using me_reset_spaces_eq [of spaces_start] reset_spaces_start
  by (simp_all add: me_ready_def me_init_library_def events_start_def timer_reset_def) (simp add: spaces_start_def)

lemma mu_next_track:
  "mu_next s e = obind (track_event (mu_timer s) (mu_spaces s) e) (\<lambda>t. Inr (s\<lparr>mu_spaces := t\<rparr>))"
  by (cases e) (auto simp: mu_allocate_data_def mu_deallocate_data_def obind_def split: sum.splits prod.splits)

lemma mu_run_track:
  "run_events mu_next s es = obind (run_events (track_event (mu_timer s)) (mu_spaces s) es) (\<lambda>t. Inr (s\<lparr>mu_spaces := t\<rparr>))"
proof (induction es arbitrary: s)
  case (Cons e es)
  show ?case
  proof (cases "track_event (mu_timer s) (mu_spaces s) e")
    case (Inr t)
    then have "mu_next s e = Inr (s\<lparr>mu_spaces := t\<rparr>)" by (simp add: mu_next_track)
    with Cons [of "s\<lparr>mu_spaces := t\<rparr>"] Inr show ?thesis by simp
  qed (simp add: mu_next_track)
qed simp

lemma mu_run_returns:
  "returns (run_events mu_next (mu_ready t0 t1) es) \<longleftrightarrow> card (event_spaces es) \<le> 16"
  using run_track_returns [OF spaces_start_facts(1), of t1 es]
  by (auto simp: mu_run_track returns_iff obind_Inr)

text \<open>What one event adds to the log, given the table after it.\<close>

definition logged_event :: "Timer \<Rightarrow> space_table \<Rightarrow> mem_event \<Rightarrow> EventRecord outcome" where
  "logged_event tm t e = (case e of
     MAlloc h label p n now rss \<Rightarrow>
       newEventRecord p n MEMOP_ALLOCATE (int (find_space (sh_name h) t)) (timer_seconds now tm) label
   | MDealloc h label p n now rss \<Rightarrow>
       newEventRecord p n MEMOP_DEALLOCATE (int (find_space (sh_name h) t)) (timer_seconds now tm) label
   | MPush name now \<Rightarrow> newEventRecord 0 0 MEMOP_PUSH_REGION 0 (timer_seconds now tm) name
   | MPop now \<Rightarrow> newEventRecord 0 0 MEMOP_POP_REGION 0 (timer_seconds now tm) (Some []))"

lemma space_of_index:
  "spaces_ok t \<Longrightarrow> space_of nm t = Inr (i, t1) \<Longrightarrow> find_space nm t1 = i"
  using space_of_cases find_space_known by metis

lemma me_next_track:
  assumes "spaces_ok (me_spaces s)"
  shows "me_next s e = obind (track_event (me_timer s) (me_spaces s) e) (\<lambda>t.
    push_event (logged_event (me_timer s) t e) (s\<lparr>me_spaces := t\<rparr>))"
proof (cases e)
  case (MAlloc h label p n now rss)
  with space_of_index [OF assms] show ?thesis
    by (cases "space_of (sh_name h) (me_spaces s)")
      (auto simp: me_allocate_data_def me_copy assms track_allocate_def logged_event_def Let_def)
next
  case (MDealloc h label p n now rss)
  with space_of_index [OF assms] show ?thesis
    by (cases "space_of (sh_name h) (me_spaces s)")
      (auto simp: me_deallocate_data_def me_copy assms track_deallocate_def logged_event_def Let_def)
qed (auto simp: me_push_profile_region_def me_pop_profile_region_def logged_event_def)

lemma me_run_track:
  assumes "run_events me_next s es = Inr s'" and "spaces_ok (me_spaces s)"
  shows "run_events (track_event (me_timer s)) (me_spaces s) es = Inr (me_spaces s')"
  using assms
proof (induction es arbitrary: s)
  case (Cons e es)
  then obtain s1 where s1: "me_next s e = Inr s1" "run_events me_next s1 es = Inr s'"
    by (auto split: sum.splits)
  have "obind (track_event (me_timer s) (me_spaces s) e) (\<lambda>t.
    push_event (logged_event (me_timer s) t e) (s\<lparr>me_spaces := t\<rparr>)) = Inr s1"
    using s1(1) me_next_track [OF Cons.prems(2), of e] by simp
  then obtain t r where
      t: "track_event (me_timer s) (me_spaces s) e = Inr t" and s1': "s1 = s\<lparr>me_spaces := t, me_events := r\<rparr>"
    by (auto simp: obind_Inr push_event_def)
  have "spaces_ok t" using track_event_cases [OF Cons.prems(2) t] by blast
  with Cons.IH [OF s1(2)] t s1' show ?case by simp
qed simp

text \<open>The labels and names the memory events tool makes strings of are not null.\<close>

fun labelled :: "mem_event \<Rightarrow> bool" where
  "labelled (MAlloc h label p n now rss) = (label \<noteq> None)"
| "labelled (MDealloc h label p n now rss) = (label \<noteq> None)"
| "labelled (MPush name now) = (name \<noteq> None)"
| "labelled (MPop now) = True"

lemma logged_event_returns: "returns (logged_event tm t e) \<longleftrightarrow> labelled e"
  by (cases e) (auto simp: logged_event_def newEventRecord_def split: option.splits)

lemma me_run_returns:
  "spaces_ok (me_spaces s) \<Longrightarrow> returns (run_events me_next s es)
    \<longleftrightarrow> returns (run_events (track_event (me_timer s)) (me_spaces s) es) \<and> list_all labelled es"
proof (induction es arbitrary: s)
  case (Cons e es)
  show ?case
  proof (cases "track_event (me_timer s) (me_spaces s) e")
    case (Inl x)
    then show ?thesis by (simp add: me_next_track [OF Cons.prems])
  next
    case (Inr t)
    have ok: "spaces_ok t" using track_event_cases [OF Cons.prems Inr] by blast
    show ?thesis
    proof (cases "logged_event (me_timer s) t e")
      case (Inl x)
      with logged_event_returns [of "me_timer s" t e] Inr show ?thesis
        by (simp add: me_next_track [OF Cons.prems] push_event_def)
    next
      case r: (Inr r)
      with logged_event_returns [of "me_timer s" t e] Inr ok Cons.IH [of "s\<lparr>me_spaces := t, me_events := me_events s @ [r]\<rparr>"]
      show ?thesis by (simp add: me_next_track [OF Cons.prems] push_event_def)
    qed
  qed
qed simp

lemma usage_files_report:
  assumes "run_events (track_event tm) spaces_start es = Inr t" and "files = usage_files hostname pid t"
  shows "\<exists>names. distinct names \<and> set names = event_spaces es
    \<and> files = map (\<lambda>nm. (hostname @ ''-'' @ dec_int pid @ ''-'' @ nm @ ''.memspace_usage'',
         Txt (''# Space '' @ nm @ eol)
           # Txt (''# Time(s)  Size(MB)   HighWater(MB)   HighWater-Process(MB)'' @ eol)
           # concat (map2 usage_row (peaks 0 (history tm nm 0 es)) (history tm nm 0 es)))) names"
proof -
  note r = run_track_cases [OF spaces_start_facts(1) assms(1)]
  let ?n = "ms_num_spaces t"
  have ok: "spaces_ok t" and k: "known t = event_spaces es" using r by simp_all
  have len: "?n \<le> length (ms_space_name t)" using ok by (simp add: spaces_ok_def)
  have tr: "ms_track t ! i = history tm (ms_space_name t ! i) 0 es" if i: "i < ?n" for i
  proof -
    have "ms_space_name t ! i \<in> known t" using i len by (auto simp: known_def in_set_conv_nth)
    moreover have "find_space (ms_space_name t ! i) t = i"
      using find_space_known [OF ok i] ok i by (simp add: spaces_ok_def)
    ultimately show ?thesis using run_track_cases [OF spaces_start_facts(1) assms(1), of "ms_space_name t ! i"]
      by (auto simp: track_of_space_def)
  qed
  have names: "take ?n (ms_space_name t) = map (\<lambda>i. ms_space_name t ! i) [0..<?n]"
    using len by (intro nth_equalityI) simp_all
  show ?thesis
    by (rule exI [of _ "take ?n (ms_space_name t)"])
      (use ok k in \<open>simp add: spaces_ok_def known_def names assms(2) usage_files_def usage_file_def
        usage_rows_peaks tr\<close>)
qed

text \<open>The record an event is logged with, given the final table of names.\<close>

definition record_of :: "Timer \<Rightarrow> string list \<Rightarrow> mem_event \<Rightarrow> EventRecord \<Rightarrow> bool" where
  "record_of tm names e r = (case e of
     MAlloc h label p n now rss \<Rightarrow> er_operation r = MEMOP_ALLOCATE \<and> er_ptr r = p \<and> er_size r = n
       \<and> er_time r = timer_seconds now tm \<and> map_option cstr label = Some (er_name r)
       \<and> record_space names r = cstr (sh_name h)
   | MDealloc h label p n now rss \<Rightarrow> er_operation r = MEMOP_DEALLOCATE \<and> er_ptr r = p \<and> er_size r = n
       \<and> er_time r = timer_seconds now tm \<and> map_option cstr label = Some (er_name r)
       \<and> record_space names r = cstr (sh_name h)
   | MPush name now \<Rightarrow> er_operation r = MEMOP_PUSH_REGION \<and> er_time r = timer_seconds now tm
       \<and> map_option cstr name = Some (er_name r)
   | MPop now \<Rightarrow> er_operation r = MEMOP_POP_REGION \<and> er_time r = timer_seconds now tm \<and> er_name r = [])"

lemma names_stay:
  assumes "spaces_ok t" and "run_events (track_event tm) t es = Inr t'" and "i < ms_num_spaces t"
  shows "ms_space_name t' ! i = ms_space_name t ! i"
  using assms
proof (induction es arbitrary: t)
  case (Cons e es)
  then obtain t1 where t1: "track_event tm t e = Inr t1" "run_events (track_event tm) t1 es = Inr t'"
    by (auto split: sum.splits)
  have "ms_space_name t1 ! i = ms_space_name t ! i \<and> ms_num_spaces t \<le> ms_num_spaces t1"
    using t1(1) space_of_cases [OF Cons.prems(1)] Cons.prems(3)
    by (cases e) (fastforce simp: track_allocate_def track_deallocate_def obind_Inr)+
  with Cons.IH [OF _ t1(2)] track_event_cases [OF Cons.prems(1) t1(1)] Cons.prems(3) show ?case by simp
qed simp

lemma run_track_num:
  assumes "spaces_ok t" and "run_events (track_event tm) t es = Inr t'"
  shows "ms_num_spaces t \<le> ms_num_spaces t'"
proof -
  have "known t \<subseteq> known t'" "spaces_ok t'" using run_track_cases [OF assms] by simp_all
  then show ?thesis using card_mono [of "known t'" "known t"] card_known assms(1) by (simp add: known_def)
qed

lemma record_of_logged_event:
  assumes "spaces_ok t" and "track_event tm t e = Inr t1" and "logged_event tm t1 e = Inr r"
    and "\<And>i. i < ms_num_spaces t1 \<Longrightarrow> names ! i = ms_space_name t1 ! i"
  shows "record_of tm names e r"
proof -
  have "names ! find_space nm t1 = cstr nm" if "cstr nm \<in> event_space e" for nm
  proof -
    note c = track_event_cases [OF assms(1,2)]
    with that have "cstr nm \<in> known t1" by blast
    with c known_index [of t1] obtain i where i: "i < ms_num_spaces t1" "ms_space_name t1 ! i = cstr nm" by metis
    with c find_space_known have "find_space nm t1 = i" by blast
    with i assms(4) show ?thesis by simp
  qed
  with assms(3) show ?thesis
    by (cases e) (auto simp: logged_event_def newEventRecord_def record_of_def record_space_def cstr_def
        split: option.splits)
qed

lemma me_run_log:
  assumes "run_events me_next s es = Inr s'" and "spaces_ok (me_spaces s)"
    and "\<And>i. i < ms_num_spaces (me_spaces s') \<Longrightarrow> names ! i = ms_space_name (me_spaces s') ! i"
  shows "\<exists>rs. me_events s' = me_events s @ rs \<and> list_all2 (record_of (me_timer s) names) es rs"
  using assms(1,2)
proof (induction es arbitrary: s)
  case (Cons e es)
  then obtain s1 where s1: "me_next s e = Inr s1" "run_events me_next s1 es = Inr s'"
    by (auto split: sum.splits)
  have "obind (track_event (me_timer s) (me_spaces s) e) (\<lambda>t.
    push_event (logged_event (me_timer s) t e) (s\<lparr>me_spaces := t\<rparr>)) = Inr s1"
    using s1(1) me_next_track [OF Cons.prems(2), of e] by simp
  then obtain t r where t: "track_event (me_timer s) (me_spaces s) e = Inr t"
    and r: "logged_event (me_timer s) t e = Inr r" and s1': "s1 = s\<lparr>me_spaces := t, me_events := me_events s @ [r]\<rparr>"
    by (auto simp: obind_Inr push_event_def)
  have ok: "spaces_ok t" using track_event_cases [OF Cons.prems(2) t] by blast
  have "run_events (track_event (me_timer s)) t es = Inr (me_spaces s')"
    using me_run_track [OF s1(2)] s1' ok by simp
  from names_stay [OF ok this] run_track_num [OF ok this] assms(3)
  have "names ! i = ms_space_name t ! i" if "i < ms_num_spaces t" for i using that by simp
  from record_of_logged_event [OF Cons.prems(2) t r this] Cons.IH [OF s1(2)] s1' ok show ?case by auto
qed simp

lemma demo_events_run:
  "\<exists>s. run_events me_next (me_ready 0 0 0 0) [MAlloc \<lparr>sh_name = ''Host''\<rparr> (Some ''A'') 8 100 0 1, MPop 5] = Inr s"
  by (simp add: me_allocate_data_def me_track_allocate_def me_space_index_def me_push_back_def Let_def spaces_start_def
      me_pop_profile_region_def push_event_def newEventRecord_def)

section \<open>Properties\<close>

text \<open>
  C21. The memory usage tool works for as long as the program uses at most 16 memory spaces, and no
  longer: a run of callbacks returns exactly if the names of the spaces it is called with are at most
  16; on the first operation on a seventeenth space the tool writes past its arrays.
\<close>

theorem memory_usage_sixteen_spaces:
  "returns (run_events mu_next (mu_ready t0 t1) es) \<longleftrightarrow> card (event_spaces es) \<le> 16"
  by (rule mu_run_returns)

text \<open>
  C20. The files the memory usage tool writes are as specified: one for each space the program used,
  with a row for every allocation in it, and for every deallocation of no more than is in use, in
  order, that shows the time, the size in use after the operation, and the largest size so far.
\<close>

theorem memory_usage_report:
  assumes "run_events mu_next (mu_ready t0 t1) es = Inr s"
  shows "\<exists>names. distinct names \<and> set names = event_spaces es
    \<and> mu_finalize_library hostname pid s = map (\<lambda>nm.
        (hostname @ ''-'' @ dec_int pid @ ''-'' @ nm @ ''.memspace_usage'',
         Txt (''# Space '' @ nm @ eol)
           # Txt (''# Time(s)  Size(MB)   HighWater(MB)   HighWater-Process(MB)'' @ eol)
           # concat (map2 usage_row (peaks 0 (history t1 nm 0 es)) (history t1 nm 0 es)))) names"
  by (rule usage_files_report) (use assms in \<open>auto simp: mu_run_track obind_Inr mu_finalize_library_def\<close>)

theorem memory_usage_report_witness:
  "\<exists>s names. run_events mu_next (mu_ready 0 0) [MAlloc \<lparr>sh_name = ''Host''\<rparr> None 8 100 0 1,
      MDealloc \<lparr>sh_name = ''Host''\<rparr> None 8 100 0 1] = Inr s
    \<and> set names = {''Host''} \<and> length (mu_finalize_library ''h'' 1 s) = length names"
proof -
  let ?es = "[MAlloc \<lparr>sh_name = ''Host''\<rparr> None 8 100 0 1, MDealloc \<lparr>sh_name = ''Host''\<rparr> None 8 100 0 1]"
  have "returns (run_events mu_next (mu_ready 0 0) ?es)"
    by (simp add: mu_run_returns del: run_events.simps)
  then obtain s where s: "run_events mu_next (mu_ready 0 0) ?es = Inr s" by (auto simp: returns_iff)
  from memory_usage_report [OF this, of "''h''" 1] obtain names where "set names = event_spaces ?es"
    "length (mu_finalize_library ''h'' 1 s) = length names"
    by (elim exE conjE) (rule that, simp_all only: length_map)
  moreover have "event_spaces ?es = {''Host''}" by (simp add: cstr_def)
  ultimately show ?thesis using s by metis
qed

text \<open>
  C38. The two copies of the tracking code agree. Over the same callbacks from the same clock, the memory events tool
  returns exactly if the memory usage tool does and no label or region name is null; and then the usage files it writes,
  after its own event log, are those of the memory usage tool.
\<close>

theorem memory_tools_agree:
  "(returns (run_events me_next (me_ready loadSeq ver t0 t1) es)
      \<longleftrightarrow> returns (run_events mu_next (mu_ready t0' t1) es) \<and> list_all labelled es)
    \<and> (\<forall>s. run_events me_next (me_ready loadSeq ver t0 t1) es = Inr s \<longrightarrow>
        (\<exists>s'. run_events mu_next (mu_ready t0' t1) es = Inr s'
          \<and> tl (me_finalize_library hostname pid s) = mu_finalize_library hostname pid s'))"
proof (intro conjI allI impI)
  show "returns (run_events me_next (me_ready loadSeq ver t0 t1) es)
      \<longleftrightarrow> returns (run_events mu_next (mu_ready t0' t1) es) \<and> list_all labelled es"
    using me_run_returns [of "me_ready loadSeq ver t0 t1" es] by (auto simp: mu_run_track returns_iff obind_Inr)
  fix s assume "run_events me_next (me_ready loadSeq ver t0 t1) es = Inr s"
  then have "run_events (track_event t1) spaces_start es = Inr (me_spaces s)"
    using me_run_track by fastforce
  then show "\<exists>s'. run_events mu_next (mu_ready t0' t1) es = Inr s'
      \<and> tl (me_finalize_library hostname pid s) = mu_finalize_library hostname pid s'"
    by (auto simp: mu_run_track mu_finalize_library_def me_finalize_library_def me_copy)
qed

theorem memory_tools_agree_witness:
  "\<exists>s s'. run_events me_next (me_ready 0 0 0 0) [MAlloc \<lparr>sh_name = ''Host''\<rparr> (Some ''A'') 8 100 0 1, MPop 5] = Inr s
    \<and> run_events mu_next (mu_ready 3 0) [MAlloc \<lparr>sh_name = ''Host''\<rparr> (Some ''A'') 8 100 0 1, MPop 5] = Inr s'
    \<and> tl (me_finalize_library ''h'' 1 s) = mu_finalize_library ''h'' 1 s'"
proof -
  obtain s where s: "run_events me_next (me_ready 0 0 0 0)
      [MAlloc \<lparr>sh_name = ''Host''\<rparr> (Some ''A'') 8 100 0 1, MPop 5] = Inr s"
    using demo_events_run by blast
  with memory_tools_agree [of 0 0 0 0 "[MAlloc \<lparr>sh_name = ''Host''\<rparr> (Some ''A'') 8 100 0 1, MPop 5]" 3 "''h''" 1] show ?thesis by blast
qed

text \<open>
  The log of the memory events tool is complete: it holds one record per callback, in order, with
  its kind, pointer, size, time and label, and the space of an allocation or deallocation, looked up
  in the final table of names, is the one of the callback.
\<close>

theorem memory_events_logged:
  assumes "run_events me_next (me_ready loadSeq ver t0 t1) es = Inr s"
  shows "list_all2 (record_of t1 (ms_space_name (me_spaces s))) es (me_events s)"
  using me_run_log [OF assms, of "ms_space_name (me_spaces s)"] by simp

theorem memory_events_logged_witness:
  "\<exists>s. run_events me_next (me_ready 0 0 0 0) [MAlloc \<lparr>sh_name = ''Host''\<rparr> (Some ''A'') 8 100 0 1, MPop 5] = Inr s
    \<and> length (me_events s) = 2"
proof -
  obtain s where s: "run_events me_next (me_ready 0 0 0 0)
      [MAlloc \<lparr>sh_name = ''Host''\<rparr> (Some ''A'') 8 100 0 1, MPop 5] = Inr s"
    using demo_events_run by blast
  from list_all2_lengthD [OF memory_events_logged [OF this]] s show ?thesis by auto
qed

end
