(* ===== verification/Chrome_Tracing.thy ===== *)
theory Chrome_Tracing
  imports Double Contracts Interface
begin

text \<open>
  Chrome tracing, \<open>profiling/chrome-tracing/kp_chrome_tracing.cpp\<close>, a stack of
  open frames, and a file that gets one JSON object per frame when the frame is closed. Clock
  readings, in nanoseconds, are arguments; the file is kept as the tokens written to it.
\<close>

section \<open>Spaces, kinds and frames\<close>

datatype Space = SPACE_HOST | SPACE_CUDA

text \<open>\<open>handle.name[0]\<close>; any other letter aborts the program.\<close>

definition ct_get_space :: "SpaceHandle \<Rightarrow> Space outcome" where
  "ct_get_space h = (case sh_name h of
     [] \<Rightarrow> Inl Abort
   | c # cs \<Rightarrow> if c = CHR ''H'' then Inr SPACE_HOST else if c = CHR ''C'' then Inr SPACE_CUDA else Inl Abort)"

text \<open>The difference of two time points is converted to \<open>uint64_t\<close>.\<close>

definition now_diff :: "int \<Rightarrow> int \<Rightarrow> u64" where
  "now_diff b a = word_of_int (b - a)"

datatype CtKind = CT_FOR | CT_REDUCE | CT_SCAN | CT_REGION | CT_COPY

fun ct_kind_text :: "CtKind \<Rightarrow> string" where
  "ct_kind_text CT_FOR = ''[for]''"
| "ct_kind_text CT_REDUCE = ''[reduce]''"
| "ct_kind_text CT_SCAN = ''[scan]''"
| "ct_kind_text CT_REGION = ''[region]''"
| "ct_kind_text CT_COPY = ''[copy]''"

record CtNode =
  cn_name :: string
  cn_kind :: CtKind
  cn_rank :: int
  cn_total_runtime :: double
  cn_start_time :: int
  cn_base_time :: int

definition newCtNode :: "string \<Rightarrow> CtKind \<Rightarrow> int \<Rightarrow> int \<Rightarrow> int \<Rightarrow> CtNode" where
  "newCtNode name kind r b now = \<lparr>cn_name = name, cn_kind = kind, cn_rank = r,
     cn_total_runtime = d_zero, cn_start_time = now, cn_base_time = b\<rparr>"

definition ct_print :: "int \<Rightarrow> CtNode \<Rightarrow> token" where
  "ct_print now n = Txt (''{'' @ quot @ ''name'' @ quot @ '': '' @ quot @ cn_name n @ quot @ '', ''
     @ quot @ ''cat'' @ quot @ '': '' @ quot @ ct_kind_text (cn_kind n) @ quot @ '', ''
     @ quot @ ''ph'' @ quot @ '': '' @ quot @ ''X'' @ quot @ '', ''
     @ quot @ ''ts'' @ quot @ '': '' @ quot @ dec_nat (unat (now_diff (cn_start_time n) (cn_base_time n))) @ quot @ '', ''
     @ quot @ ''dur'' @ quot @ '': '' @ quot @ dec_nat (unat (now_diff now (cn_start_time n))) @ quot @ '', ''
     @ quot @ ''pid'' @ quot @ '': '' @ quot @ dec_int (cn_rank n) @ quot @ '', ''
     @ quot @ ''tid'' @ quot @ '': '' @ quot @ ''0'' @ quot @ '', ''
     @ quot @ ''args'' @ quot @ '': {'' @ quot @ ''dummy'' @ quot @ '': 1}}'' @ eol)"

section \<open>State\<close>

text \<open>The vector of frames is kept with its back first.\<close>

record ct_state =
  ct_filename :: string
  ct_outfile :: "token list"
  ct_stack :: "CtNode list"
  ct_base_time :: int
  ct_mpi_rank :: int
  ct_first :: bool
  ct_stderr :: "token list"

text \<open>
  \<open>snprintf\<close> keeps the first 255 characters of the file name. \<open>comm_rank\<close> is the rank \<open>MPI_Comm_rank\<close> gives,
  0 in a build without MPI; the name of the file has the rank the launcher sets in the environment.
\<close>

definition new_ct_state :: "int \<Rightarrow> string option \<Rightarrow> string \<Rightarrow> int \<Rightarrow> int \<Rightarrow> ct_state" where
  "new_ct_state comm_rank mpi_rank hostname pid now = \<lparr>
     ct_filename = take 255 (hostname @ ''-'' @ dec_int pid @ ''-''
       @ (case mpi_rank of None \<Rightarrow> ''0'' | Some r \<Rightarrow> r) @ ''.json''),
     ct_outfile = [Txt (''['' @ eol)], ct_stack = [], ct_base_time = now, ct_mpi_rank = comm_rank,
     ct_first = True, ct_stderr = []\<rparr>"

definition delete_ct_state :: "ct_state \<Rightarrow> ct_state" where
  "delete_ct_state s = s\<lparr>ct_outfile := ct_outfile s @ [Txt ('']'' @ eol)]\<rparr>"

definition ct_begin_frame :: "int \<Rightarrow> string option \<Rightarrow> CtKind \<Rightarrow> ct_state \<Rightarrow> ct_state outcome" where
  "ct_begin_frame now name kind s =
     (case name of None \<Rightarrow> Inl (Undefined ''std::string of a null pointer'')
      | Some n \<Rightarrow> Inr (s\<lparr>ct_stack := newCtNode n kind (ct_mpi_rank s) (ct_base_time s) now # ct_stack s\<rparr>))"

definition ct_end_frame :: "int \<Rightarrow> ct_state \<Rightarrow> ct_state" where
  "ct_end_frame now s =
     (case ct_stack s of
        [] \<Rightarrow> s\<lparr>ct_stderr := ct_stderr s @
          [Txt (''Attempting to end root stack frame before Kokkos::finalize()'' @ eol)]\<rparr>
      | n # st \<Rightarrow> s\<lparr>
          ct_outfile := ct_outfile s @ (if \<not> ct_first s then [Txt ('','' @ eol)] else []) @ [ct_print now n],
          ct_first := False, ct_stack := st\<rparr>)"

definition ct_begin_kernel :: "int \<Rightarrow> string option \<Rightarrow> CtKind \<Rightarrow> ct_state \<Rightarrow> (u64 \<times> ct_state) outcome" where
  "ct_begin_kernel now name kind s = obind (ct_begin_frame now name kind s) (\<lambda>s'. Inr (0, s'))"

definition space_letter :: "Space \<Rightarrow> string" where
  "space_letter sp = (if sp = SPACE_HOST then ''H'' else ''D'')"

definition ct_begin_deep_copy ::
  "int \<Rightarrow> Space \<Rightarrow> string option \<Rightarrow> Space \<Rightarrow> string option \<Rightarrow> u64 \<Rightarrow> ct_state \<Rightarrow> ct_state outcome" where
  "ct_begin_deep_copy now dst dst_name src src_name len s =
     (case (dst_name, src_name) of
        (Some d, Some c) \<Rightarrow> ct_begin_frame now (Some (d @ '' SPACE '' @ space_letter dst @ '' COPYFROM '' @ c
          @ '' SPACE '' @ space_letter src @ '' LENGTH '' @ dec_nat (unat len) @ '' '')) CT_COPY s
      | _ \<Rightarrow> Inl (Undefined ''std::string += of a null pointer''))"

section \<open>Callbacks\<close>

text \<open>\<open>global_state\<close> is null before the initialisation and after the finalisation.\<close>

type_synonym ct_global = "ct_state option"

definition ct_init_library :: "int \<Rightarrow> string option \<Rightarrow> string \<Rightarrow> int \<Rightarrow> int \<Rightarrow> ct_global \<Rightarrow> ct_global" where
  "ct_init_library comm_rank mpi_rank hostname pid now g = Some (new_ct_state comm_rank mpi_rank hostname pid now)"

text \<open>The file as it is left, if one was open, and the pointer.\<close>

definition ct_finalize_library :: "ct_global \<Rightarrow> ct_state option \<times> ct_global" where
  "ct_finalize_library g = (map_option delete_ct_state g, None)"

definition with_state :: "(ct_state \<Rightarrow> 'a outcome) \<Rightarrow> ct_global \<Rightarrow> 'a outcome" where
  "with_state f g = (case g of None \<Rightarrow> Inl (Undefined ''global_state is null'') | Some s \<Rightarrow> f s)"

fun ct_kind_of :: "pkind \<Rightarrow> CtKind" where
  "ct_kind_of ParFor = CT_FOR" | "ct_kind_of ParReduce = CT_REDUCE" | "ct_kind_of ParScan = CT_SCAN"

text \<open>The three begin callbacks and the three end callbacks differ in the kind only.\<close>

definition ct_begin_parallel :: "pkind \<Rightarrow> int \<Rightarrow> string option \<Rightarrow> u32 \<Rightarrow> ct_global \<Rightarrow> (u64 \<times> ct_state) outcome" where
  "ct_begin_parallel k now name devid = with_state (ct_begin_kernel now name (ct_kind_of k))"

definition ct_end_parallel :: "pkind \<Rightarrow> int \<Rightarrow> u64 \<Rightarrow> ct_global \<Rightarrow> ct_state outcome" where
  "ct_end_parallel k now kernid = with_state (\<lambda>s. Inr (ct_end_frame now s))"

definition ct_push_profile_region :: "int \<Rightarrow> string option \<Rightarrow> ct_global \<Rightarrow> ct_state outcome" where
  "ct_push_profile_region now name = with_state (ct_begin_frame now name CT_REGION)"

definition ct_pop_profile_region :: "int \<Rightarrow> ct_global \<Rightarrow> ct_state outcome" where
  "ct_pop_profile_region now = with_state (\<lambda>s. Inr (ct_end_frame now s))"

text \<open>The allocation callbacks do nothing.\<close>

definition ct_allocate_data :: "SpaceHandle \<Rightarrow> string option \<Rightarrow> u64 \<Rightarrow> u64 \<Rightarrow> ct_global \<Rightarrow> ct_global" where
  "ct_allocate_data h label p n g = g"

definition ct_deallocate_data :: "SpaceHandle \<Rightarrow> string option \<Rightarrow> u64 \<Rightarrow> u64 \<Rightarrow> ct_global \<Rightarrow> ct_global" where
  "ct_deallocate_data h label p n g = g"

definition ct_begin_copy ::
  "int \<Rightarrow> SpaceHandle \<Rightarrow> string option \<Rightarrow> SpaceHandle \<Rightarrow> string option \<Rightarrow> u64 \<Rightarrow> ct_global \<Rightarrow> ct_state outcome" where
  "ct_begin_copy now dst_handle dst_name src_handle src_name len g =
     obind (ct_get_space dst_handle) (\<lambda>dst_space.
     obind (ct_get_space src_handle) (\<lambda>src_space.
     with_state (ct_begin_deep_copy now dst_space dst_name src_space src_name len) g))"

definition ct_end_copy :: "int \<Rightarrow> ct_global \<Rightarrow> ct_state outcome" where
  "ct_end_copy now = with_state (\<lambda>s. Inr (ct_end_frame now s))"

section \<open>Runs\<close>

text \<open>The callbacks by what they do to the stack of frames.\<close>

datatype ct_open =
    OKernel pkind int "string option" u32
  | ORegion int "string option"
  | OCopy int SpaceHandle "string option" SpaceHandle "string option" u64

datatype ct_close = CKernel pkind int u64 | CRegion int | CCopy int

datatype ct_other = XAllocate SpaceHandle "string option" u64 u64 | XDeallocate SpaceHandle "string option" u64 u64

fun ct_opening :: "ct_state \<Rightarrow> ct_open \<Rightarrow> ct_state outcome" where
  "ct_opening s (OKernel k now name devid) = obind (ct_begin_parallel k now name devid (Some s)) (\<lambda>(i, s'). Inr s')"
| "ct_opening s (ORegion now name) = ct_push_profile_region now name (Some s)"
| "ct_opening s (OCopy now dst dn src sn n) = ct_begin_copy now dst dn src sn n (Some s)"

fun ct_closing :: "ct_state \<Rightarrow> ct_close \<Rightarrow> ct_state outcome" where
  "ct_closing s (CKernel k now i) = ct_end_parallel k now i (Some s)"
| "ct_closing s (CRegion now) = ct_pop_profile_region now (Some s)"
| "ct_closing s (CCopy now) = ct_end_copy now (Some s)"

fun ct_other_step :: "ct_state \<Rightarrow> ct_other \<Rightarrow> ct_state outcome" where
  "ct_other_step s (XAllocate h l p n) = Inr (the (ct_allocate_data h l p n (Some s)))"
| "ct_other_step s (XDeallocate h l p n) = Inr (the (ct_deallocate_data h l p n (Some s)))"

type_synonym ct_event = "(ct_open, ct_close, ct_other) bracket"

fun ct_next :: "ct_state \<Rightarrow> ct_event \<Rightarrow> ct_state outcome" where
  "ct_next s (Open a) = ct_opening s a"
| "ct_next s (Close b) = ct_closing s b"
| "ct_next s (Other c) = ct_other_step s c"

text \<open>When a frame is closed, and the name, kind and start of the frame an event opens.\<close>

fun close_time :: "ct_close \<Rightarrow> int" where
  "close_time (CKernel k now i) = now" | "close_time (CRegion now) = now" | "close_time (CCopy now) = now"

fun opened :: "ct_open \<Rightarrow> string \<times> CtKind \<times> int" where
  "opened (OKernel k now name devid) = (the name, ct_kind_of k, now)"
| "opened (ORegion now name) = (the name, CT_REGION, now)"
| "opened (OCopy now dst dn src sn n) =
     (the dn @ '' SPACE '' @ space_letter (projr (ct_get_space dst)) @ '' COPYFROM '' @ the sn @ '' SPACE ''
        @ space_letter (projr (ct_get_space src)) @ '' LENGTH '' @ dec_nat (unat n) @ '' '', CT_COPY, now)"

lemma ct_closing_eq: "ct_closing s b = Inr (ct_end_frame (close_time b) s)"
  by (cases b) (simp_all add: ct_end_parallel_def ct_pop_profile_region_def ct_end_copy_def with_state_def)

lemma ct_other_eq [simp]: "ct_other_step s c = Inr s"
  by (cases c) (simp_all add: ct_allocate_data_def ct_deallocate_data_def)

lemma ct_opening_eq:
  assumes "ct_opening s a = Inr s'"
  shows "s' = (case opened a of (name, kind, now) \<Rightarrow>
    s\<lparr>ct_stack := newCtNode name kind (ct_mpi_rank s) (ct_base_time s) now # ct_stack s\<rparr>)"
  using assms
  by (cases a) (auto simp: ct_begin_parallel_def ct_begin_kernel_def ct_push_profile_region_def ct_begin_copy_def
      ct_begin_deep_copy_def ct_begin_frame_def with_state_def obind_Inr split: option.splits)

interpretation ct: frame_stack ct_opening ct_closing ct_other_step ct_stack "\<lambda>s. True"
proof
  show "True \<and> (\<exists>f. ct_stack s' = f # ct_stack s)" if "ct_opening s a = Inr s'" for s a s'
    using ct_opening_eq [OF that] by (cases "opened a") auto
  show "True \<and> ct_stack s' = fs" if "ct_closing s b = Inr s'" "ct_stack s = f # fs" for s b s' f fs
    using that by (auto simp: ct_closing_eq ct_end_frame_def)
qed simp

lemma ct_next_step: "ct_next s e = ct.fs_step s e"
  by (cases e) simp_all

text \<open>
  The specification: the objects of the closed frames in the order they are closed, each with the
  name, kind and start it was opened with. A closing without an open frame adds nothing.
\<close>

fun traced :: "int \<Rightarrow> int \<Rightarrow> (string \<times> CtKind \<times> int) list \<Rightarrow> ct_event list \<Rightarrow> token list" where
  "traced rank base st [] = []"
| "traced rank base st (Open a # es) = traced rank base (opened a # st) es"
| "traced rank base [] (Close b # es) = traced rank base [] es"
| "traced rank base ((name, kind, now) # st) (Close b # es) =
     ct_print (close_time b) (newCtNode name kind rank base now) # traced rank base st es"
| "traced rank base st (Other c # es) = traced rank base st es"

fun commas :: "token list \<Rightarrow> token list" where
  "commas [] = []"
| "commas (r # rs) = Txt ('','' @ eol) # r # commas rs"

definition separated :: "token list \<Rightarrow> token list" where
  "separated rs = (case rs of [] \<Rightarrow> [] | r # rs \<Rightarrow> r # commas rs)"

definition ct_shape :: "int \<Rightarrow> int \<Rightarrow> (string \<times> CtKind \<times> int) list \<Rightarrow> CtNode list" where
  "ct_shape rank base st = map (\<lambda>(name, kind, now). newCtNode name kind rank base now) st"

lemma ct_run_traced:
  assumes "run_events ct_next s es = Inr s'" and "ct_stack s = ct_shape (ct_mpi_rank s) (ct_base_time s) st"
  shows "ct_outfile s' = ct_outfile s @
    (if ct_first s then separated (traced (ct_mpi_rank s) (ct_base_time s) st es) else commas (traced (ct_mpi_rank s) (ct_base_time s) st es))"
  using assms
proof (induction es arbitrary: s st)
  case Nil
  then show ?case by (simp add: separated_def)
next
  case (Cons e es)
  then obtain s1 where s1: "ct_next s e = Inr s1" "run_events ct_next s1 es = Inr s'"
    by (auto split: sum.splits)
  show ?case
  proof (cases e)
    case (Open a)
    obtain name kind now where o: "opened a = (name, kind, now)" by (metis prod_cases3)
    with ct_opening_eq [of s a s1] s1(1) Open Cons.prems(2) have
      "ct_stack s1 = ct_shape (ct_mpi_rank s1) (ct_base_time s1) (opened a # st)" "ct_mpi_rank s1 = ct_mpi_rank s" "ct_first s1 = ct_first s"
      "ct_outfile s1 = ct_outfile s" "ct_base_time s1 = ct_base_time s" by (simp_all add: ct_shape_def)
    with Cons.IH [OF s1(2)] Open show ?thesis by simp
  next
    case (Close b)
    with s1(1) have s1': "s1 = ct_end_frame (close_time b) s" by (simp add: ct_closing_eq)
    show ?thesis
    proof (cases st)
      case Nil
      with s1' Cons.prems(2) have "ct_stack s1 = ct_shape (ct_mpi_rank s1) (ct_base_time s1) []" "ct_mpi_rank s1 = ct_mpi_rank s"
        "ct_first s1 = ct_first s" "ct_outfile s1 = ct_outfile s" "ct_base_time s1 = ct_base_time s"
        by (simp_all add: ct_shape_def ct_end_frame_def)
      with Cons.IH [OF s1(2)] Close Nil show ?thesis by simp
    next
      case (Cons f st')
      obtain name kind now where f: "f = (name, kind, now)" by (metis prod_cases3)
      let ?r = "ct_print (close_time b) (newCtNode name kind (ct_mpi_rank s) (ct_base_time s) now)"
      from s1' Cons f Cons.prems(2) have n: "ct_stack s1 = ct_shape (ct_mpi_rank s1) (ct_base_time s1) st'" "ct_mpi_rank s1 = ct_mpi_rank s"
        "\<not> ct_first s1" "ct_base_time s1 = ct_base_time s"
        "ct_outfile s1 = ct_outfile s @ (if \<not> ct_first s then [Txt ('','' @ eol)] else []) @ [?r]"
        by (simp_all add: ct_shape_def ct_end_frame_def)
      from Cons.IH [OF s1(2) n(1)] n Close Cons f show ?thesis by (simp add: separated_def)
    qed
  next
    case (Other c)
    with s1 Cons.prems have "s1 = s" by simp
    with Cons.IH [OF s1(2)] Cons.prems(2) Other show ?thesis by simp
  qed
qed

fun opens :: "('a, 'b, 'c) bracket list \<Rightarrow> nat" where
  "opens [] = 0"
| "opens (Open a # es) = Suc (opens es)"
| "opens (Close b # es) = opens es"
| "opens (Other c # es) = opens es"

lemma opens_append [simp]: "opens (xs @ ys) = opens xs + opens ys"
  by (induction xs rule: opens.induct) simp_all

lemma traced_balanced:
  "balanced es \<Longrightarrow> \<exists>rs. length rs = opens es \<and> (\<forall>st rest. traced rank base st (es @ rest) = rs @ traced rank base st rest)"
proof (induction es rule: balanced.induct)
  case nil
  then show ?case by (intro exI [of _ "[]"]) simp
next
  case (other xs c)
  then show ?case by simp
next
  case (frame xs ys a b)
  then obtain rs us where rs: "length rs = opens xs" "\<And>st rest. traced rank base st (xs @ rest) = rs @ traced rank base st rest"
    and us: "length us = opens ys" "\<And>st rest. traced rank base st (ys @ rest) = us @ traced rank base st rest"
    by blast
  obtain name kind now where a: "opened a = (name, kind, now)" by (metis prod_cases3)
  let ?r = "ct_print (close_time b) (newCtNode name kind rank base now)"
  have "length (rs @ ?r # us) = opens (Open a # xs @ Close b # ys)"
    using rs(1) us(1) by simp
  moreover have "traced rank base st ((Open a # xs @ Close b # ys) @ rest) = (rs @ ?r # us) @ traced rank base st rest" for st rest
    using rs(2) us(2) by (simp add: a)
  ultimately show ?case by blast
qed

text \<open>
  C22. The trace is complete and well formed: after any run from the initialisation, the file consists
  of an opening bracket, the object of every frame closed so far, in the order of closing and each
  with the name, kind and start of its own opening and the rank, separated by commas, and, once finalised, a closing
  bracket; when every frame is closed by its own end there is exactly one object per frame opened.
\<close>

theorem chrome_trace_complete:
  assumes "ct_init_library comm_rank mpi_rank hostname pid t0 g = Some s0" and "run_events ct_next s0 es = Inr s"
  shows "(\<exists>f. ct_finalize_library (Some s) = (Some f, None) \<and> ct_outfile f =
      [Txt (''['' @ eol)] @ separated (traced comm_rank t0 [] es) @ [Txt ('']'' @ eol)])
    \<and> (balanced es \<longrightarrow> length (traced comm_rank t0 [] es) = opens es)"
proof -
  have s0: "ct_outfile s0 = [Txt (''['' @ eol)]" "ct_stack s0 = ct_shape (ct_mpi_rank s0) (ct_base_time s0) []" "ct_first s0"
    "ct_mpi_rank s0 = comm_rank" "ct_base_time s0 = t0"
    using assms(1) by (auto simp: ct_init_library_def new_ct_state_def ct_shape_def)
  have "length (traced comm_rank t0 [] es) = opens es" if b: "balanced es"
    using traced_balanced [OF b, of comm_rank t0] by (metis append_Nil2 traced.simps(1))
  with ct_run_traced [OF assms(2) s0(2)] s0 show ?thesis
    by (simp add: ct_finalize_library_def delete_ct_state_def)
qed

theorem chrome_trace_complete_witness:
  "\<exists>s. run_events ct_next (new_ct_state 0 None ''h'' 1 0)
      [Open (ORegion 5 (Some ''r'')), Open (OKernel ParFor 6 (Some ''k'') 0), Close (CKernel ParFor 8 0), Close (CRegion 9)] = Inr s
    \<and> length (ct_outfile s) = 4"
proof -
  let ?es = "[Open (ORegion 5 (Some ''r'')), Open (OKernel ParFor 6 (Some ''k'') 0), Close (CKernel ParFor 8 0), Close (CRegion 9)] :: ct_event list"
  have b: "balanced ?es" using balanced.frame [OF balanced_pair balanced.nil] by simp
  obtain s where s: "run_events ct_next (new_ct_state 0 None ''h'' 1 0) ?es = Inr s"
    by (simp add: ct_push_profile_region_def ct_begin_parallel_def ct_begin_kernel_def ct_begin_frame_def
        with_state_def ct_end_parallel_def ct_pop_profile_region_def)
  have "ct_init_library 0 None ''h'' 1 0 None = Some (new_ct_state 0 None ''h'' 1 0)" by (simp add: ct_init_library_def)
  from chrome_trace_complete [OF this s] b obtain f where f: "ct_finalize_library (Some s) = (Some f, None)"
    "ct_outfile f = [Txt (''['' @ eol)] @ separated (traced 0 0 [] ?es) @ [Txt ('']'' @ eol)]" by blast
  have "ct_outfile f = ct_outfile s @ [Txt ('']'' @ eol)]"
    using f(1) by (auto simp: ct_finalize_library_def delete_ct_state_def)
  with f(2) have "ct_outfile s = [Txt (''['' @ eol)] @ separated (traced 0 0 [] ?es)" by simp
  then have "length (ct_outfile s) = 4" by (simp add: separated_def)
  with s show ?thesis by blast
qed

text \<open>
  Frames are closed innermost first: after a balanced sequence of callbacks the frames that were
  open before are open again, and none else.
\<close>

theorem chrome_frames_balanced:
  assumes "balanced es" and "run_events ct_next s es = Inr s'"
  shows "ct_stack s' = ct_stack s"
  using ct.balanced_restores_kind [of ct_next "\<lambda>e. e", OF ct_next_step _ _ assms(2)] assms(1) by simp

theorem chrome_frames_balanced_witness:
  "\<exists>s. run_events ct_next (new_ct_state 0 None ''h'' 1 0)
      [Open (ORegion 5 (Some ''r'')), Close (CRegion 9)] = Inr s \<and> ct_stack s = []"
proof -
  obtain s where s: "run_events ct_next (new_ct_state 0 None ''h'' 1 0)
      [Open (ORegion 5 (Some ''r'')), Close (CRegion 9)] = Inr s"
    by (simp add: ct_push_profile_region_def ct_begin_frame_def with_state_def ct_pop_profile_region_def)
  from chrome_frames_balanced [OF balanced_pair this] s show ?thesis by (simp add: new_ct_state_def)
qed

end
