(* ===== verification/Kernel_Logger.thy ===== *)
theory Kernel_Logger
  imports Contracts Interface
begin

text \<open>
  The kernel logger, \<open>debugging/kernel-logger/kp_kernel_logger.cpp\<close>: it prints a line for every
  callback, with the stack of regions around a kernel or fence. A null pointer given for a name is
  undefined for \<open>printf\<close>, \<open>strstr\<close> and \<open>std::string\<close> alike.
\<close>

section \<open>State\<close>

text \<open>The vector of regions in its own order, the outermost first.\<close>

record logger_state =
  kl_regions :: "string list"
  kl_uniqID :: u64
  kl_stdout :: "token list"

definition logger_start :: logger_state where
  "logger_start = \<lparr>kl_regions = [], kl_uniqID = 0, kl_stdout = []\<rparr>"

definition kl_print :: "token list \<Rightarrow> logger_state \<Rightarrow> logger_state" where
  "kl_print ts s = s\<lparr>kl_stdout := kl_stdout s @ ts\<rparr>"

definition with_name :: "string option \<Rightarrow> (string \<Rightarrow> 'a outcome) \<Rightarrow> 'a outcome" where
  "with_name name f = (case name of None \<Rightarrow> Inl (Undefined ''null name'') | Some n \<Rightarrow> f n)"

section \<open>The region stack\<close>

definition kl_print_region_stack_indent :: "nat \<Rightarrow> logger_state \<Rightarrow> logger_state" where
  "kl_print_region_stack_indent level = kl_print [Txt (''KokkosP: '' @ concat (replicate level ''  ''))]"

text \<open>The loop over the regions; \<open>level\<close> is its counter.\<close>

fun print_regions :: "nat \<Rightarrow> string list \<Rightarrow> logger_state \<Rightarrow> nat \<times> logger_state" where
  "print_regions level [] s = (level, s)"
| "print_regions level (r # rs) s =
     print_regions (Suc level) rs (kl_print [Txt (r @ eol)] (kl_print_region_stack_indent level s))"

definition kl_print_region_stack :: "logger_state \<Rightarrow> nat \<times> logger_state" where
  "kl_print_region_stack s = print_regions 0 (kl_regions s) s"

section \<open>Callbacks\<close>

definition kl_init_library :: "int \<Rightarrow> u64 \<Rightarrow> logger_state \<Rightarrow> logger_state" where
  "kl_init_library loadSeq interfaceVer s =
     (kl_print [Txt (''KokkosP: Kernel Logger Library Initialized (sequence is '' @ dec_int loadSeq
        @ '', version: '' @ dec_nat (unat interfaceVer) @ '')'' @ eol)] s)\<lparr>kl_uniqID := 0\<rparr>"

definition kl_finalize_library :: "logger_state \<Rightarrow> logger_state" where
  "kl_finalize_library = kl_print [Txt (''KokkosP: Kokkos library finalization called.'' @ eol)]"

text \<open>What a begin callback prints: the device, as \<open>%d\<close> shows it, the regions and the name.\<close>

definition log_begin :: "string \<Rightarrow> string \<Rightarrow> u32 \<Rightarrow> logger_state \<Rightarrow> u64 \<times> logger_state" where
  "log_begin what name devID s =
     (let kID = kl_uniqID s;
          s1 = kl_print [Txt (''KokkosP: Executing '' @ what @ '' on device '' @ dec_int (sint devID)
             @ '' with unique execution identifier '' @ dec_nat (unat kID) @ eol)]
             (s\<lparr>kl_uniqID := kl_uniqID s + 1\<rparr>);
          (level, s2) = kl_print_region_stack s1;
          s3 = kl_print_region_stack_indent level s2
      in (kID, kl_print [Txt (''    '' @ name @ eol)] s3))"

fun kernel_word :: "pkind \<Rightarrow> string" where
  "kernel_word ParFor = ''parallel-for kernel''"
| "kernel_word ParReduce = ''parallel-reduce kernel''"
| "kernel_word ParScan = ''parallel-scan kernel''"

text \<open>The three begin callbacks are copies that print another word, the three end callbacks are equal.\<close>

definition kl_begin_parallel :: "pkind \<Rightarrow> string option \<Rightarrow> u32 \<Rightarrow> logger_state \<Rightarrow> (u64 \<times> logger_state) outcome" where
  "kl_begin_parallel k name devID s = with_name name (\<lambda>n. Inr (log_begin (kernel_word k) n devID s))"

definition kl_end_parallel :: "pkind \<Rightarrow> u64 \<Rightarrow> logger_state \<Rightarrow> logger_state" where
  "kl_end_parallel k kID = kl_print [Txt (''KokkosP: Execution of kernel '' @ dec_nat (unat kID) @ '' is completed.'' @ eol)]"

definition kl_begin_parallel_for :: "string option \<Rightarrow> u32 \<Rightarrow> logger_state \<Rightarrow> (u64 \<times> logger_state) outcome" where
  "kl_begin_parallel_for = kl_begin_parallel ParFor"

definition kl_end_parallel_for :: "u64 \<Rightarrow> logger_state \<Rightarrow> logger_state" where
  "kl_end_parallel_for = kl_end_parallel ParFor"

definition kl_begin_parallel_scan :: "string option \<Rightarrow> u32 \<Rightarrow> logger_state \<Rightarrow> (u64 \<times> logger_state) outcome" where
  "kl_begin_parallel_scan = kl_begin_parallel ParScan"

definition kl_end_parallel_scan :: "u64 \<Rightarrow> logger_state \<Rightarrow> logger_state" where
  "kl_end_parallel_scan = kl_end_parallel ParScan"

definition kl_begin_parallel_reduce :: "string option \<Rightarrow> u32 \<Rightarrow> logger_state \<Rightarrow> (u64 \<times> logger_state) outcome" where
  "kl_begin_parallel_reduce = kl_begin_parallel ParReduce"

definition kl_end_parallel_reduce :: "u64 \<Rightarrow> logger_state \<Rightarrow> logger_state" where
  "kl_end_parallel_reduce = kl_end_parallel ParReduce"

definition kl_begin_fence :: "string option \<Rightarrow> u32 \<Rightarrow> logger_state \<Rightarrow> (u64 \<times> logger_state) outcome" where
  "kl_begin_fence name devID s = with_name name (\<lambda>n.
     if strstr n ''Kokkos Profile Tool Fence'' then Inr (- 1, s) else Inr (log_begin ''fence'' n devID s))"

definition kl_end_fence :: "u64 \<Rightarrow> logger_state \<Rightarrow> logger_state" where
  "kl_end_fence kID s = (if kID \<noteq> - 1
     then kl_print [Txt (''KokkosP: Execution of fence '' @ dec_nat (unat kID) @ '' is completed.'' @ eol)] s else s)"

definition kl_push_profile_region :: "string option \<Rightarrow> logger_state \<Rightarrow> logger_state outcome" where
  "kl_push_profile_region regionName s = with_name regionName (\<lambda>n.
     Inr ((kl_print [Txt (''KokkosP: Entering profiling region: '' @ n @ eol)] s)\<lparr>kl_regions := kl_regions s @ [n]\<rparr>))"

definition kl_pop_profile_region :: "logger_state \<Rightarrow> logger_state" where
  "kl_pop_profile_region s = (if length (kl_regions s) > 0
     then (kl_print [Txt (''KokkosP: Exiting profiling region: '' @ last (kl_regions s) @ eol)] s)
       \<lparr>kl_regions := butlast (kl_regions s)\<rparr>
     else s)"

definition log_data :: "string \<Rightarrow> SpaceHandle \<Rightarrow> string \<Rightarrow> u64 \<Rightarrow> u64 \<Rightarrow> token list" where
  "log_data what handle name ptr n = [Txt (''KokkosP: '' @ what @ ''<'' @ sh_name handle @ ''> name: '' @ name
     @ '' pointer: ''), Ptr ptr, Txt ('' size: '' @ dec_nat (unat n) @ eol)]"

definition kl_allocate_data :: "SpaceHandle \<Rightarrow> string option \<Rightarrow> u64 \<Rightarrow> u64 \<Rightarrow> logger_state \<Rightarrow> logger_state outcome" where
  "kl_allocate_data handle name ptr n s = with_name name (\<lambda>nm. Inr (kl_print (log_data ''Allocate'' handle nm ptr n) s))"

definition kl_deallocate_data :: "SpaceHandle \<Rightarrow> string option \<Rightarrow> u64 \<Rightarrow> u64 \<Rightarrow> logger_state \<Rightarrow> logger_state outcome" where
  "kl_deallocate_data handle name ptr n s = with_name name (\<lambda>nm. Inr (kl_print (log_data ''Deallocate'' handle nm ptr n) s))"

definition kl_begin_deep_copy :: "SpaceHandle \<Rightarrow> string option \<Rightarrow> u64 \<Rightarrow> SpaceHandle \<Rightarrow> string option \<Rightarrow> u64 \<Rightarrow> u64 \<Rightarrow>
    logger_state \<Rightarrow> logger_state outcome" where
  "kl_begin_deep_copy dst_handle dst_name dst_ptr src_handle src_name src_ptr n s =
     with_name dst_name (\<lambda>d. with_name src_name (\<lambda>c. Inr (kl_print
       [Txt (''KokkosP: DeepCopy<'' @ sh_name dst_handle @ '','' @ sh_name src_handle @ ''> DST(name: '' @ d @ '' pointer: ''),
        Ptr dst_ptr, Txt ('') SRC(name: '' @ c @ '' pointer ''), Ptr src_ptr,
        Txt ('') Size: '' @ dec_nat (unat n) @ eol)] s)))"

section \<open>Events\<close>

datatype logger_event =
    LBegin pkind "string option" u32 | LEnd pkind u64
  | LBeginFence "string option" u32 | LEndFence u64
  | LPush "string option" | LPop
  | LAllocate SpaceHandle "string option" u64 u64 | LDeallocate SpaceHandle "string option" u64 u64
  | LCopy SpaceHandle "string option" u64 SpaceHandle "string option" u64 u64

text \<open>With the identifier a step takes from \<open>uniqID\<close>; a filtered fence takes none.\<close>

fun logger_step :: "logger_state \<Rightarrow> logger_event \<Rightarrow> (logger_state \<times> u64 option) outcome" where
  "logger_step s (LBegin k name d) = obind ((case k of ParFor \<Rightarrow> kl_begin_parallel_for
     | ParReduce \<Rightarrow> kl_begin_parallel_reduce | ParScan \<Rightarrow> kl_begin_parallel_scan) name d s) (\<lambda>(i, s'). Inr (s', Some i))"
| "logger_step s (LEnd k i) = Inr ((case k of ParFor \<Rightarrow> kl_end_parallel_for
     | ParReduce \<Rightarrow> kl_end_parallel_reduce | ParScan \<Rightarrow> kl_end_parallel_scan) i s, None)"
| "logger_step s (LBeginFence name d) = obind (kl_begin_fence name d s) (\<lambda>(i, s').
     Inr (s', if strstr (the name) ''Kokkos Profile Tool Fence'' then None else Some i))"
| "logger_step s (LEndFence i) = Inr (kl_end_fence i s, None)"
| "logger_step s (LPush name) = obind (kl_push_profile_region name s) (\<lambda>s'. Inr (s', None))"
| "logger_step s LPop = Inr (kl_pop_profile_region s, None)"
| "logger_step s (LAllocate h name p n) = obind (kl_allocate_data h name p n s) (\<lambda>s'. Inr (s', None))"
| "logger_step s (LDeallocate h name p n) = obind (kl_deallocate_data h name p n s) (\<lambda>s'. Inr (s', None))"
| "logger_step s (LCopy dh dn dp sh sn sp n) = obind (kl_begin_deep_copy dh dn dp sh sn sp n s) (\<lambda>s'. Inr (s', None))"

lemma logger_step_kernel [simp]:
  "logger_step s (LBegin k name d) = obind (kl_begin_parallel k name d s) (\<lambda>(i, s'). Inr (s', Some i))"
  "logger_step s (LEnd k i) = Inr (kl_end_parallel k i s, None)"
  by (cases k; simp add: kl_begin_parallel_for_def kl_begin_parallel_reduce_def kl_begin_parallel_scan_def
      kl_end_parallel_for_def kl_end_parallel_reduce_def kl_end_parallel_scan_def)+

declare logger_step.simps(1,2) [simp del]

definition logger_next :: "logger_state \<Rightarrow> logger_event \<Rightarrow> logger_state outcome" where
  "logger_next s e = obind (logger_step s e) (\<lambda>(s', i). Inr s')"

lemma kl_print_sel [simp]:
  "kl_regions (kl_print ts s) = kl_regions s" "kl_uniqID (kl_print ts s) = kl_uniqID s"
  "kl_stdout (kl_print ts s) = kl_stdout s @ ts"
  by (simp_all add: kl_print_def)

text \<open>The region lines: each region indented by its depth, then the indentation of the innermost.\<close>

definition region_lines :: "nat \<Rightarrow> string list \<Rightarrow> token list" where
  "region_lines level rs = concat (map2 (\<lambda>l r. [Txt (''KokkosP: '' @ concat (replicate l ''  '')), Txt (r @ eol)])
     [level..<level + length rs] rs)"

lemma print_regions_eq:
  "print_regions level rs s = (level + length rs, kl_print (region_lines level rs) s)"
proof (induction rs arbitrary: level s)
  case Nil
  then show ?case by (simp add: region_lines_def kl_print_def)
next
  case (Cons r rs)
  have "region_lines level (r # rs) =
    [Txt (''KokkosP: '' @ concat (replicate level ''  '')), Txt (r @ eol)] @ region_lines (Suc level) rs"
    by (simp add: region_lines_def upt_conv_Cons del: upt_Suc)
  with Cons show ?case by (simp add: kl_print_region_stack_indent_def kl_print_def)
qed

lemma log_begin_eq:
  "log_begin what name d s = (kl_uniqID s, kl_print
     ([Txt (''KokkosP: Executing '' @ what @ '' on device '' @ dec_int (sint d)
        @ '' with unique execution identifier '' @ dec_nat (unat (kl_uniqID s)) @ eol)]
      @ region_lines 0 (kl_regions s)
      @ [Txt (''KokkosP: '' @ concat (replicate (length (kl_regions s)) ''  '')), Txt (''    '' @ name @ eol)])
     (s\<lparr>kl_uniqID := kl_uniqID s + 1\<rparr>))"
  by (simp add: log_begin_def Let_def kl_print_region_stack_def print_regions_eq
      kl_print_region_stack_indent_def kl_print_def)

interpretation logger: id_source logger_step kl_uniqID
proof
  show "i = kl_uniqID s \<and> kl_uniqID s' = kl_uniqID s + 1" if "logger_step s e = Inr (s', Some i)" for s s' e i
    using that by (cases e) (auto simp: obind_Inr kl_begin_parallel_def kl_begin_fence_def with_name_def log_begin_eq
        split: option.splits if_splits)
  show "kl_uniqID s' = kl_uniqID s" if "logger_step s e = Inr (s', None)" for s s' e
    using that by (cases e) (auto simp: obind_Inr kl_begin_parallel_def kl_begin_fence_def with_name_def log_begin_eq
        kl_end_parallel_def kl_end_fence_def kl_push_profile_region_def kl_pop_profile_region_def kl_allocate_data_def
        kl_deallocate_data_def kl_begin_deep_copy_def split: option.splits if_splits)
qed

section \<open>Properties\<close>

text \<open>The regions open after a sequence of events; a pop without an open region does nothing.\<close>

fun open_regions :: "string list \<Rightarrow> logger_event list \<Rightarrow> string list" where
  "open_regions rs [] = rs"
| "open_regions rs (LPush name # es) = open_regions (rs @ [the name]) es"
| "open_regions rs (LPop # es) = open_regions (butlast rs) es"
| "open_regions rs (e # es) = open_regions rs es"

lemma logger_run_regions:
  "run_events logger_next s es = Inr s' \<Longrightarrow> kl_regions s' = open_regions (kl_regions s) es"
proof (induction es arbitrary: s)
  case (Cons e es)
  then obtain s1 where s1: "logger_next s e = Inr s1" "run_events logger_next s1 es = Inr s'"
    by (auto split: sum.splits)
  have "kl_regions s1 = open_regions (kl_regions s) [e]"
    using s1(1) by (cases e) (auto simp: logger_next_def obind_Inr kl_begin_parallel_def kl_begin_fence_def with_name_def
        log_begin_eq kl_end_parallel_def kl_end_fence_def kl_push_profile_region_def kl_pop_profile_region_def
        kl_allocate_data_def kl_deallocate_data_def kl_begin_deep_copy_def split: option.splits if_splits)
  with Cons.IH [OF s1(2)] show ?case by (cases e) simp_all
qed simp

text \<open>
  C39. A kernel is logged with all the regions around it: after any run from the initialisation, a
  begin callback prints the kernel's line, then one line per region open at that point, outermost first
  and each indented by its depth, and the kernel's name under the innermost; a fence whose name marks it
  as the tool's own prints nothing, has the reserved identifier, and its end prints nothing.
\<close>

theorem logger_shows_regions:
  assumes "run_events logger_next (kl_init_library q v logger_start) es = Inr s"
    and "kl_begin_parallel k (Some name) d s = Inr (i, s')"
  shows "kl_stdout s' = kl_stdout s
      @ [Txt (''KokkosP: Executing '' @ kernel_word k @ '' on device '' @ dec_int (sint d)
          @ '' with unique execution identifier '' @ dec_nat (unat i) @ eol)]
      @ region_lines 0 (open_regions [] es)
      @ [Txt (''KokkosP: '' @ concat (replicate (length (open_regions [] es)) ''  '')), Txt (''    '' @ name @ eol)]
    \<and> (strstr f ''Kokkos Profile Tool Fence'' \<longrightarrow> kl_begin_fence (Some f) d s = Inr (- 1, s) \<and> kl_end_fence (- 1) s = s)"
proof -
  have "kl_regions s = open_regions [] es"
    using logger_run_regions [OF assms(1)] by (simp add: kl_init_library_def logger_start_def)
  with assms(2) show ?thesis
    by (auto simp: kl_begin_parallel_def with_name_def log_begin_eq kl_begin_fence_def kl_end_fence_def)
qed

theorem logger_shows_regions_witness:
  "\<exists>s s'. run_events logger_next (kl_init_library 0 0 logger_start) [LPush (Some ''outer''), LPush (Some ''in''), LPop] = Inr s
    \<and> kl_begin_parallel ParScan (Some ''k'') 0 s = Inr (0, s')
    \<and> region_lines 0 [''outer''] = take 2 (drop (length (kl_stdout s) + 1) (kl_stdout s'))"
proof -
  let ?es = "[LPush (Some ''outer''), LPush (Some ''in''), LPop]"
  obtain s s' where s: "run_events logger_next (kl_init_library 0 0 logger_start) ?es = Inr s"
    "kl_begin_parallel ParScan (Some ''k'') 0 s = Inr (0, s')"
    by (simp add: logger_next_def kl_push_profile_region_def with_name_def kl_pop_profile_region_def
        kl_begin_parallel_def log_begin_eq kl_init_library_def logger_start_def)
  from logger_shows_regions [OF s] s show ?thesis by (auto simp: region_lines_def)
qed

lemma counting_reserved: "n < 2 ^ 64 \<Longrightarrow> (- 1 :: u64) \<notin> set (counting 0 n)"
proof
  assume n: "n < 2 ^ 64" and "(- 1 :: u64) \<in> set (counting 0 n)"
  then obtain k where "k < n" "(of_nat k :: u64) = - 1" by (auto simp: counting_def)
  moreover have "(- 1 :: u64) = of_nat (2 ^ 64 - 1)" by simp
  ultimately have "k = 2 ^ 64 - 1" using n of_nat_u64_inj [of k "2 ^ 64 - 1"] by simp
  with \<open>k < n\<close> n show False by simp
qed

text \<open>
  Identifiers are unique and never the reserved one: over a run in which fewer than \<open>2 ^ 64\<close>
  kernels and fences are logged, the identifiers given out count up from 0, are distinct, and none
  of them is the identifier of filtered fences, so that the end of a logged fence is always printed.
\<close>

theorem logger_identifiers:
  assumes "run_ids logger_step (kl_init_library q v logger_start) es = Inr (is, s)" and "length is < 2 ^ 64"
  shows "is = counting 0 (length is) \<and> distinct is \<and> (\<forall>i \<in> set is. i \<noteq> - 1 \<and> kl_end_fence i s \<noteq> s)"
proof -
  have c: "is = counting 0 (length is)"
    using logger.run_ids_counting [OF assms(1)] by (simp add: kl_init_library_def)
  with counting_reserved [OF assms(2)] have "- 1 \<notin> set is" by metis
  moreover have "distinct is" using c distinct_counting [of "length is" 0] assms(2) by simp
  moreover have "kl_print ts s \<noteq> s" if "ts \<noteq> []" for ts
    using that by (metis append_self_conv kl_print_sel(3))
  ultimately show ?thesis using c by (auto simp: kl_end_fence_def)
qed

theorem logger_identifiers_witness:
  "\<exists>is s. run_ids logger_step (kl_init_library 0 0 logger_start)
      [LBeginFence (Some ''a'') 0, LBeginFence (Some ''Kokkos Profile Tool Fence'') 0, LBegin ParFor (Some ''b'') 0] = Inr (is, s)
    \<and> is = [0, 1]"
proof -
  let ?es = "[LBeginFence (Some ''a'') 0, LBeginFence (Some ''Kokkos Profile Tool Fence'') 0, LBegin ParFor (Some ''b'') 0]"
  obtain s where s: "run_ids logger_step (kl_init_library 0 0 logger_start) ?es = Inr ([0, 1], s)"
    by (simp add: kl_begin_fence_def kl_begin_parallel_def with_name_def log_begin_eq kl_init_library_def)
  from logger_identifiers [OF this] have "[0, 1] = counting 0 (length [0, 1 :: u64])" by simp
  with s show ?thesis by blast
qed

end
