(* ===== verification/Energy_Daemon.thy ===== *)
theory Energy_Daemon
  imports Prelude
begin

text \<open>
  The daemon of the energy profiler, \<open>profiling/energy-profiler/daemon.hpp\<close> and \<open>daemon.cpp\<close>: a thread
  that calls a function at an interval until it is told to stop. The caller of \<open>start\<close> and \<open>stop\<close>
  and the thread run concurrently, so the model is a step relation over their interleavings. The
  function is a parameter on a world; the clock is part of the configuration, and the interval a number of its
  units: \<open>daemon.hpp\<close> writes \<open>std::chrono::duration\<close> without its arguments, which a compiler rejects.

  \<open>running_\<close> is a plain \<open>bool\<close>. The interleavings are the sequentially consistent executions, which C++ gives
  a program as its meaning only if none of them has a data race: two accesses to \<open>running_\<close>, one of them a write,
  that the creation and the join of the thread do not order. So the state records the accesses, and
  \<open>racy\<close> says of an execution whether it has a race.
\<close>

section \<open>State\<close>

text \<open>Where the thread is in the loop of \<open>run\<close>; \<open>next_run\<close> is its local variable.\<close>

datatype worker = Testing | Calling int | Sleeping int | Finished

text \<open>The accesses to \<open>running_\<close>, and what orders those of the caller and those of the thread.\<close>

datatype access = Caller_read | Start_write | Stop_write | Worker_read | Thread_created | Thread_joined

text \<open>
  \<open>dm_thread\<close> is the thread object, \<open>None\<close> when it is not joinable; \<open>dm_joining\<close> says that the caller
  is inside \<open>stop\<close>, in \<open>join\<close>; \<open>dm_calls\<close> counts the calls of the function; \<open>dm_log\<close> lists the accesses.
\<close>

record 'w daemon =
  dm_interval :: int
  dm_running :: bool
  dm_thread :: "worker option"
  dm_joining :: bool
  dm_calls :: nat
  dm_log :: "access list"
  dm_world :: 'w

definition new_daemon :: "int \<Rightarrow> 'w \<Rightarrow> 'w daemon" where
  "new_daemon interval w = \<lparr>dm_interval = interval, dm_running = False, dm_thread = None,
     dm_joining = False, dm_calls = 0, dm_log = [], dm_world = w\<rparr>"

definition log_access :: "access list \<Rightarrow> 'w daemon \<Rightarrow> 'w daemon" where
  "log_access as d = d\<lparr>dm_log := dm_log d @ as\<rparr>"

lemma log_access_sel [simp]:
  "dm_interval (log_access as d) = dm_interval d" "dm_running (log_access as d) = dm_running d"
  "dm_thread (log_access as d) = dm_thread d" "dm_joining (log_access as d) = dm_joining d"
  "dm_calls (log_access as d) = dm_calls d" "dm_world (log_access as d) = dm_world d"
  "dm_log (log_access as d) = dm_log d @ as"
  by (simp_all add: log_access_def)

definition is_running :: "'w daemon \<Rightarrow> bool \<times> 'w daemon" where
  "is_running d = (dm_running d, log_access [Caller_read] d)"

text \<open>Assigning a new thread to an object that is joinable terminates the program.\<close>

definition daemon_start :: "'w daemon \<Rightarrow> 'w daemon outcome" where
  "daemon_start d =
     (if \<not> dm_running d
      then if dm_thread d = None
        then Inr (log_access [Caller_read, Start_write, Thread_created] (d\<lparr>dm_running := True, dm_thread := Some Testing\<rparr>))
        else Inl Abort
      else Inr (log_access [Caller_read] d))"

definition daemon_stop :: "'w daemon \<Rightarrow> 'w daemon" where
  "daemon_stop d =
     (if dm_running d then log_access [Caller_read, Stop_write] (d\<lparr>dm_running := False, dm_joining := True\<rparr>)
      else log_access [Caller_read] d)"

text \<open>The return of \<open>join\<close>, and the three places of the thread's loop.\<close>

definition daemon_join :: "'w daemon \<Rightarrow> 'w daemon" where
  "daemon_join d = log_access [Thread_joined] (d\<lparr>dm_thread := None, dm_joining := False\<rparr>)"

definition run_test :: "int \<Rightarrow> 'w daemon \<Rightarrow> 'w daemon" where
  "run_test now d = log_access [Worker_read]
     (d\<lparr>dm_thread := Some (if dm_running d then Calling (now + dm_interval d) else Finished)\<rparr>)"

definition run_call :: "('w \<Rightarrow> 'w) \<Rightarrow> int \<Rightarrow> 'w daemon \<Rightarrow> 'w daemon" where
  "run_call func next_run d = d\<lparr>dm_world := func (dm_world d), dm_calls := dm_calls d + 1,
     dm_thread := Some (Sleeping next_run)\<rparr>"

definition run_wake :: "'w daemon \<Rightarrow> 'w daemon" where
  "run_wake d = d\<lparr>dm_thread := Some Testing\<rparr>"

lemmas daemon_defs = is_running_def daemon_start_def daemon_stop_def daemon_join_def run_test_def run_call_def run_wake_def

section \<open>Steps\<close>

type_synonym 'w dm_conf = "int \<times> 'w daemon"

inductive dm_step :: "('w \<Rightarrow> 'w) \<Rightarrow> 'w dm_conf \<Rightarrow> 'w dm_conf \<Rightarrow> bool" for func where
  start: "\<not> dm_joining d \<Longrightarrow> daemon_start d = Inr d' \<Longrightarrow> dm_step func (now, d) (now, d')"
| stop: "\<not> dm_joining d \<Longrightarrow> dm_step func (now, d) (now, daemon_stop d)"
| query: "\<not> dm_joining d \<Longrightarrow> dm_step func (now, d) (now, snd (is_running d))"
| join: "dm_joining d \<Longrightarrow> dm_thread d = Some Finished \<Longrightarrow> dm_step func (now, d) (now, daemon_join d)"
| test: "dm_thread d = Some Testing \<Longrightarrow> dm_step func (now, d) (now, run_test now d)"
| call: "dm_thread d = Some (Calling n) \<Longrightarrow> dm_step func (now, d) (now, run_call func n d)"
| wake: "dm_thread d = Some (Sleeping n) \<Longrightarrow> n \<le> now \<Longrightarrow> dm_step func (now, d) (now, run_wake d)"
| tick: "now < now' \<Longrightarrow> dm_step func (now, d) (now', d)"

inductive_cases dm_stepE: "dm_step func (now, d) (now', d')"

section \<open>Invariant\<close>

definition dm_ok :: "'w daemon \<Rightarrow> bool" where
  "dm_ok d = (if dm_running d then \<not> dm_joining d \<and> dm_thread d \<noteq> None \<and> dm_thread d \<noteq> Some Finished
     else dm_joining d \<longleftrightarrow> dm_thread d \<noteq> None)"

lemma dm_ok_step:
  assumes "dm_step func (now, d) (now', d')" and "dm_ok d"
  shows "dm_ok d'"
  using assms by (elim dm_stepE) (auto simp: dm_ok_def daemon_defs split: if_splits)

lemma dm_ok_reachable:
  assumes "(dm_step func)\<^sup>*\<^sup>* c c'" and "dm_ok (snd c)"
  shows "dm_ok (snd c')"
  using assms by (induction rule: rtranclp_induct) (auto intro: dm_ok_step)

lemma dm_ok_new: "dm_ok (new_daemon interval w)"
  by (simp add: dm_ok_def new_daemon_def)

section \<open>Stopping\<close>

text \<open>The steps the thread has left once it is told to stop, and the calls of the function among them.\<close>

fun work :: "worker option \<Rightarrow> nat" where
  "work None = 0" | "work (Some Finished) = 1" | "work (Some Testing) = 2"
| "work (Some (Sleeping n)) = 3" | "work (Some (Calling n)) = 4"

fun calls_left :: "worker option \<Rightarrow> nat" where
  "calls_left (Some (Calling n)) = 1" | "calls_left (Some Testing) = 0" | "calls_left (Some (Sleeping n)) = 0"
| "calls_left (Some Finished) = 0" | "calls_left None = 0"

lemma joining_step:
  assumes "dm_step func (now, d) (now', d')" and "dm_ok d" and "dm_joining d"
  shows "d' = d \<and> now < now' \<or> work (dm_thread d') < work (dm_thread d) \<and> now' = now
    \<and> dm_calls d' + calls_left (dm_thread d') = dm_calls d + calls_left (dm_thread d)"
  using assms by (elim dm_stepE) (auto simp: dm_ok_def daemon_defs split: if_splits)

lemma stop_completes:
  assumes "dm_joining d" and "dm_ok d"
  shows "\<exists>now' d'. (dm_step func)\<^sup>*\<^sup>* (now, d) (now', d') \<and> \<not> dm_joining d' \<and> dm_thread d' = None \<and> \<not> dm_running d'
    \<and> dm_calls d' = dm_calls d + calls_left (dm_thread d)"
  using assms
proof (induction "work (dm_thread d)" arbitrary: now d rule: less_induct)
  case less
  have next_step: ?case if step: "dm_step func (now, d) (now', d1)" and ne: "work (dm_thread d1) < work (dm_thread d)"
      and j: "dm_joining d1" and c: "dm_calls d1 + calls_left (dm_thread d1) = dm_calls d + calls_left (dm_thread d)"
    for now' d1
  proof -
    have "dm_ok d1" using dm_ok_step [OF step less.prems(2)] .
    from less.hyps [OF ne j this, of now'] step c show ?thesis
      by (metis converse_rtranclp_into_rtranclp)
  qed
  have r: "\<not> dm_running d" using less.prems by (auto simp: dm_ok_def)
  from less.prems obtain w where w: "dm_thread d = Some w" by (auto simp: dm_ok_def split: if_splits)
  show ?case
  proof (cases w)
    case Testing
    have "dm_step func (now, d) (now, run_test now d)" using w Testing by (intro dm_step.test) simp
    then show ?thesis by (rule next_step) (use less.prems r w Testing in \<open>simp_all add: run_test_def\<close>)
  next
    case (Calling n)
    have "dm_step func (now, d) (now, run_call func n d)" using w Calling by (intro dm_step.call) simp
    then show ?thesis by (rule next_step) (use less.prems r w Calling in \<open>simp_all add: run_call_def\<close>)
  next
    case (Sleeping n)
    show ?thesis
    proof (cases "n \<le> now")
      case True
      have "dm_step func (now, d) (now, run_wake d)" using w Sleeping True by (intro dm_step.wake) simp_all
      then show ?thesis by (rule next_step) (use less.prems r w Sleeping in \<open>simp_all add: run_wake_def\<close>)
    next
      case False
      have tick: "dm_step func (now, d) (n, d)" using False by (intro dm_step.tick) simp
      have wake: "dm_step func (n, d) (n, run_wake d)" by (rule dm_step.wake [OF _ order_refl]) (simp add: w Sleeping)
      have ok: "dm_ok (run_wake d)" using dm_ok_step [OF wake less.prems(2)] .
      have "work (dm_thread (run_wake d)) < work (dm_thread d)" "dm_joining (run_wake d)"
        using w Sleeping less.prems by (simp_all add: run_wake_def)
      from less.hyps [OF this ok, of n] tick wake w Sleeping show ?thesis
        by (simp add: run_wake_def) (metis converse_rtranclp_into_rtranclp)
    qed
  next
    case Finished
    have "dm_step func (now, d) (now, daemon_join d)" using w Finished less.prems by (intro dm_step.join) simp_all
    then show ?thesis using w Finished r by (intro exI [of _ now] exI [of _ "daemon_join d"]) (auto simp: daemon_join_def)
  qed
qed

text \<open>
  In every execution the thread is joinable exactly while it is running or being joined, so that a start
  never replaces a joinable thread, which would terminate the program.
\<close>

lemma daemon_start_never_aborts:
  assumes "(dm_step func)\<^sup>*\<^sup>* (t0, new_daemon interval w) (now, d)"
  shows "(dm_thread d \<noteq> None \<longleftrightarrow> dm_running d \<or> dm_joining d) \<and> (\<not> dm_joining d \<longrightarrow> returns (daemon_start d))"
  using dm_ok_reachable [OF assms] dm_ok_new [of interval w]
  by (auto simp: dm_ok_def daemon_start_def split: if_splits)

text \<open>
  What the executions do, which is what the program would do if \<open>running_\<close> were atomic: whenever \<open>stop\<close> waits
  for the thread, the thread can get to its end and \<open>stop\<close> return, with no thread left and the function called
  at most once more; on the way every step lets time pass or brings the thread closer to its
  end, so it takes at most four.
\<close>

lemma sc_stop_returns:
  assumes "(dm_step func)\<^sup>*\<^sup>* (t0, new_daemon interval w) (now, d)" and "dm_joining d"
  shows "(\<exists>now' d'. (dm_step func)\<^sup>*\<^sup>* (now, d) (now', d') \<and> \<not> dm_joining d' \<and> dm_thread d' = None
      \<and> \<not> dm_running d' \<and> dm_calls d' \<le> dm_calls d + 1)
    \<and> work (dm_thread d) \<le> 4
    \<and> (\<forall>now' d'. dm_step func (now, d) (now', d') \<longrightarrow> d' = d \<and> now < now'
        \<or> work (dm_thread d') < work (dm_thread d))"
proof -
  have ok: "dm_ok d" using dm_ok_reachable [OF assms(1)] dm_ok_new [of interval w] by simp
  have "calls_left x \<le> 1" "work x \<le> 4" for x
    by (cases x rule: calls_left.cases; simp)+
  with stop_completes [OF assms(2) ok, of func now] joining_step [OF _ ok assms(2)] show ?thesis
    by (metis add_left_mono)
qed

section \<open>The race\<close>

fun by_caller :: "access \<Rightarrow> bool" where
  "by_caller Worker_read = False"
| "by_caller a = True"

text \<open>Two accesses conflict if one is the caller's write and the other the thread's read.\<close>

definition conflict :: "access \<Rightarrow> access \<Rightarrow> bool" where
  "conflict a b = (a \<in> {Start_write, Stop_write} \<and> b = Worker_read \<or> a = Worker_read \<and> b \<in> {Start_write, Stop_write})"

text \<open>
  What the caller does before it creates the thread happens before what the thread does, and that before
  what the caller does after the join; nothing else orders the two.
\<close>

definition ordered :: "access list \<Rightarrow> nat \<Rightarrow> nat \<Rightarrow> bool" where
  "ordered as i j = (\<exists>k \<in> {i<..<j}. as ! k = (if by_caller (as ! i) then Thread_created else Thread_joined))"

definition racy :: "access list \<Rightarrow> bool" where
  "racy as = (\<exists>j < length as. \<exists>i < j. conflict (as ! i) (as ! j) \<and> \<not> ordered as i j)"

lemma racy_append: "racy as \<Longrightarrow> racy (as @ bs)"
proof -
  assume "racy as"
  then obtain i j where ij: "j < length as" "i < j" "conflict (as ! i) (as ! j)" "\<not> ordered as i j"
    by (auto simp: racy_def)
  then have "\<not> ordered (as @ bs) i j" by (auto simp: ordered_def nth_append)
  with ij show "racy (as @ bs)" unfolding racy_def by (intro exI [of _ j] conjI exI [of _ i]) (auto simp: nth_append)
qed

lemma racy_read:
  assumes "as = bs @ Stop_write # cs" and "Thread_created \<notin> set cs"
  shows "racy (as @ [Worker_read])"
proof -
  let ?as = "as @ [Worker_read]"
  have "?as ! length bs = Stop_write" "?as ! length as = Worker_read" using assms(1) by (simp_all add: nth_append)
  moreover have "?as ! k \<noteq> Thread_created" if "length bs < k" "k < length as" for k
  proof -
    have "as ! k \<in> set cs" using that assms(1) by (auto simp: nth_append nth_Cons split: nat.split)
    with that assms(2) show ?thesis by (auto simp: nth_append)
  qed
  ultimately show ?thesis using assms(1) unfolding racy_def
    by (intro exI [of _ "length as"] conjI exI [of _ "length bs"]) (auto simp: conflict_def ordered_def)
qed

text \<open>Once the flag is written by \<open>stop\<close>, the thread cannot get past its next test without a race.\<close>

definition stop_raced :: "'w daemon \<Rightarrow> bool" where
  "stop_raced d \<longleftrightarrow>
     (dm_thread d = Some Finished \<or> Thread_joined \<in> set (dm_log d) \<longrightarrow> racy (dm_log d))
     \<and> (\<not> dm_running d \<and> dm_thread d \<noteq> None \<longrightarrow>
         (\<exists>bs cs. dm_log d = bs @ Stop_write # cs \<and> Thread_created \<notin> set cs))"

lemma stop_raced_new: "stop_raced (new_daemon interval w)"
  by (simp add: stop_raced_def new_daemon_def)

lemma log_grows: "dm_step func (now, d) (now', d') \<Longrightarrow> \<exists>as. dm_log d' = dm_log d @ as"
  by (elim dm_stepE) (auto simp: daemon_defs split: if_splits)

lemma stop_raced_step:
  assumes "dm_step func (now, d) (now', d')" and "stop_raced d" and "dm_ok d"
  shows "stop_raced d'"
proof -
  have ext: "\<exists>bs' cs'. bs @ Stop_write # cs @ as = bs' @ Stop_write # cs' \<and> Thread_created \<notin> set cs'"
    if "Thread_created \<notin> set cs" "Thread_created \<notin> set as" for bs cs as
    using that by (intro exI [of _ bs] exI [of _ "cs @ as"]) simp
  have stopped: "\<exists>bs cs. dm_log d @ [Caller_read, Stop_write] = bs @ Stop_write # cs \<and> Thread_created \<notin> set cs"
    by (intro exI [of _ "dm_log d @ [Caller_read]"] exI [of _ "[]"]) simp
  have test: "racy (dm_log d @ [Worker_read])" if "dm_log d = bs @ Stop_write # cs" "Thread_created \<notin> set cs" for bs cs
    using that racy_read by blast
  show ?thesis using assms ext [of _ "[Worker_read]"]
    by (elim dm_stepE) (auto simp: stop_raced_def dm_ok_def daemon_defs intro: racy_append test stopped split: if_splits)
qed

lemma stop_raced_reachable:
  assumes "(dm_step func)\<^sup>*\<^sup>* c c'" and "stop_raced (snd c)" and "dm_ok (snd c)"
  shows "stop_raced (snd c') \<and> dm_ok (snd c')"
  using assms by (induction rule: rtranclp_induct) (auto intro: stop_raced_step dm_ok_step)

text \<open>As long as \<open>stop\<close> has not written, the only write comes before the thread.\<close>

definition quiet :: "'w daemon \<Rightarrow> bool" where
  "quiet d \<longleftrightarrow> (Stop_write \<notin> set (dm_log d) \<longrightarrow>
     (if dm_running d
      then \<exists>bs cs. dm_log d = bs @ Start_write # Thread_created # cs \<and> set bs \<subseteq> {Caller_read}
        \<and> set cs \<subseteq> {Caller_read, Worker_read}
      else set (dm_log d) \<subseteq> {Caller_read} \<and> dm_thread d = None))"

lemma quiet_running:
  assumes "dm_log d = bs @ Start_write # Thread_created # cs" "set bs \<subseteq> {Caller_read}" "set cs \<subseteq> {Caller_read, Worker_read}"
    and "dm_running d'" "dm_log d' = dm_log d @ as" "set as \<subseteq> {Caller_read, Worker_read}"
  shows "quiet d'"
  unfolding quiet_def using assms by (intro impI) (simp, intro exI [of _ bs] exI [of _ "cs @ as"], simp)

lemma quiet_step:
  assumes step: "dm_step func (now, d) (now', d')" and "quiet d" and "dm_ok d"
  shows "quiet d'"
proof (cases "Stop_write \<in> set (dm_log d')")
  case True
  then show ?thesis by (simp add: quiet_def)
next
  case False
  with log_grows [OF step] have n: "Stop_write \<notin> set (dm_log d)" by auto
  show ?thesis
  proof (cases "dm_running d")
    case running: True
    with n assms(2) obtain bs cs where l: "dm_log d = bs @ Start_write # Thread_created # cs" "set bs \<subseteq> {Caller_read}"
      "set cs \<subseteq> {Caller_read, Worker_read}" by (auto simp: quiet_def)
    note q = quiet_running [OF l]
    have r: "quiet (log_access [Caller_read] d)" by (rule q [where as = "[Caller_read]"]) (use running in simp_all)
    show ?thesis using step running False assms(3) r
      by (cases rule: dm_stepE)
        (auto simp: daemon_start_def daemon_stop_def is_running_def run_test_def run_call_def run_wake_def dm_ok_def
          intro: q [where as = "[Caller_read]"] q [where as = "[Worker_read]"] q [where as = "[]"])
  next
    case stopped: False
    with n assms(2) have l: "set (dm_log d) \<subseteq> {Caller_read}" "dm_thread d = None" by (auto simp: quiet_def)
    have s: "quiet (log_access [Caller_read, Start_write, Thread_created] (d\<lparr>dm_running := True, dm_thread := Some Testing\<rparr>))"
      unfolding quiet_def using l
      by (intro impI) (simp, intro exI [of _ "dm_log d @ [Caller_read]"] exI [of _ "[]"], auto)
    have r: "quiet (log_access [Caller_read] d)" using l stopped by (simp add: quiet_def)
    show ?thesis using step stopped assms(2) l(2) assms(3) s r
      by (cases rule: dm_stepE) (auto simp: daemon_start_def daemon_stop_def is_running_def dm_ok_def)
  qed
qed

lemma quiet_reachable:
  assumes "(dm_step func)\<^sup>*\<^sup>* c c'" and "quiet (snd c)" and "dm_ok (snd c)"
  shows "quiet (snd c') \<and> dm_ok (snd c')"
  using assms by (induction rule: rtranclp_induct) (auto intro: quiet_step dm_ok_step)

lemma quiet_not_racy:
  assumes "quiet d" and "Stop_write \<notin> set (dm_log d)"
  shows "\<not> racy (dm_log d)"
proof (cases "dm_running d")
  case True
  with assms obtain bs cs where l: "dm_log d = bs @ Start_write # Thread_created # cs" "set bs \<subseteq> {Caller_read}"
    "set cs \<subseteq> {Caller_read, Worker_read}" by (auto simp: quiet_def)
  have at: "dm_log d ! k = (if k < length bs then Caller_read else if k = length bs then Start_write
      else if k = length bs + 1 then Thread_created else cs ! (k - length bs - 2))" for k
  proof -
    have "bs ! k = Caller_read" if "k < length bs" using that l(2) nth_mem by blast
    then show ?thesis by (auto simp: l(1) nth_append nth_Cons' numeral_2_eq_2)
  qed
  have cs: "cs ! (k - length bs - 2) \<in> {Caller_read, Worker_read}" if "length bs + 1 < k" "k < length (dm_log d)" for k
  proof -
    have "k - length bs - 2 < length cs" using that l(1) by simp
    with l(3) nth_mem show ?thesis by blast
  qed
  have "ordered (dm_log d) i j" if ij: "j < length (dm_log d)" "i < j" "conflict (dm_log d ! i) (dm_log d ! j)" for i j
  proof -
    have "i = length bs" "length bs + 1 < j"
      using ij at [of i] at [of j] cs [of i] cs [of j] by (auto simp: conflict_def split: if_splits)
    then show ?thesis using at [of "length bs + 1"] at [of "length bs"] ij
      by (auto simp: ordered_def intro!: bexI [of _ "length bs + 1"])
  qed
  then show ?thesis by (auto simp: racy_def)
next
  case False
  with assms have "set (dm_log d) \<subseteq> {Caller_read}" by (simp add: quiet_def)
  then have "dm_log d ! k = Caller_read" if "k < length (dm_log d)" for k using that nth_mem by blast
  then show ?thesis by (auto simp: racy_def conflict_def)
qed

text \<open>
  C24. The daemon cannot be stopped without a data race, and only stopping it makes one. In every execution
  in which a call of \<open>stop\<close> has joined the thread, or the thread has seen that it is to stop, the write of
  \<open>running_\<close> in \<open>stop\<close> and a read of it in the thread are ordered by nothing, which C++ leaves undefined; an
  execution in which no \<open>stop\<close> has written has no race.
\<close>

theorem daemon_stop_races:
  assumes "(dm_step func)\<^sup>*\<^sup>* (t0, new_daemon interval w) (now, d)"
  shows "(Thread_joined \<in> set (dm_log d) \<or> dm_thread d = Some Finished \<longrightarrow> racy (dm_log d))
    \<and> (Stop_write \<notin> set (dm_log d) \<longrightarrow> \<not> racy (dm_log d))"
  using stop_raced_reachable [OF assms] quiet_reachable [OF assms] quiet_not_racy [of d]
    dm_ok_new [of interval w] stop_raced_new [of interval w]
  by (auto simp: stop_raced_def quiet_def new_daemon_def)

text \<open>A start, the thread's first test, and a stop that returns after the thread's second test.\<close>

definition stopped_daemon :: "nat daemon" where
  "stopped_daemon = \<lparr>dm_interval = 5, dm_running = False, dm_thread = None, dm_joining = False, dm_calls = 1,
     dm_log = [Caller_read, Start_write, Thread_created, Worker_read, Caller_read, Stop_write, Worker_read, Thread_joined],
     dm_world = 1\<rparr>"

lemma stopped_daemon_reached: "(dm_step Suc)\<^sup>*\<^sup>* (0, new_daemon 5 0) (5, stopped_daemon)"
proof -
  let ?d1 = "log_access [Caller_read, Start_write, Thread_created] ((new_daemon 5 0)\<lparr>dm_running := True, dm_thread := Some Testing\<rparr>)"
  let ?d2 = "run_test 0 ?d1"
  let ?d3 = "run_call Suc 5 ?d2"
  let ?d4 = "daemon_stop ?d3"
  let ?d5 = "run_wake ?d4"
  let ?d6 = "run_test 5 ?d5"
  note r = rtranclp.rtrancl_into_rtrancl
  note sel = new_daemon_def log_access_def run_test_def run_call_def daemon_stop_def run_wake_def
  have 1: "(dm_step Suc)\<^sup>*\<^sup>* (0, new_daemon 5 0) (0, ?d1)"
    by (rule r [OF rtranclp.rtrancl_refl], rule dm_step.start) (simp_all add: new_daemon_def daemon_start_def)
  have 2: "(dm_step Suc)\<^sup>*\<^sup>* (0, new_daemon 5 0) (0, ?d2)"
    by (rule r [OF 1], rule dm_step.test) (simp add: sel)
  have 3: "(dm_step Suc)\<^sup>*\<^sup>* (0, new_daemon 5 0) (0, ?d3)"
    by (rule r [OF 2], rule dm_step.call) (simp add: sel)
  have 4: "(dm_step Suc)\<^sup>*\<^sup>* (0, new_daemon 5 0) (0, ?d4)"
    by (rule r [OF 3], rule dm_step.stop) (simp add: sel)
  have 5: "(dm_step Suc)\<^sup>*\<^sup>* (0, new_daemon 5 0) (5, ?d4)"
    by (rule r [OF 4], rule dm_step.tick) simp
  have 6: "(dm_step Suc)\<^sup>*\<^sup>* (0, new_daemon 5 0) (5, ?d5)"
    by (rule r [OF 5], rule dm_step.wake [where n = 5]) (simp_all add: sel)
  have 7: "(dm_step Suc)\<^sup>*\<^sup>* (0, new_daemon 5 0) (5, ?d6)"
    by (rule r [OF 6], rule dm_step.test) (simp add: sel)
  have "(dm_step Suc)\<^sup>*\<^sup>* (0, new_daemon 5 0) (5, daemon_join ?d6)"
    by (rule r [OF 7], rule dm_step.join) (simp_all add: sel)
  moreover have "daemon_join ?d6 = stopped_daemon" by (simp add: sel daemon_join_def stopped_daemon_def)
  ultimately show ?thesis by simp
qed

theorem daemon_stop_races_witness:
  "(dm_step Suc)\<^sup>*\<^sup>* (0, new_daemon 5 0) (5, stopped_daemon) \<and> racy (dm_log stopped_daemon)"
  using daemon_stop_races [OF stopped_daemon_reached] stopped_daemon_reached
  by (auto simp: stopped_daemon_def)

end
