(* ===== verification/Papi_Connector.thy ===== *)
theory Papi_Connector
  imports Interface
begin

text \<open>
  The PAPI connector, \<open>profiling/papi-connector/kp_papi_connector.cpp\<close> and
  \<open>kp_papi_connector_domain.h\<close>. PAPI's high-level functions are calls to a library: the model keeps
  the list of calls made. What PAPI takes the open regions to be is \<open>papi_open\<close>.
\<close>

section \<open>State\<close>

datatype papi_call = Region_begin string | Region_end string | Hl_read string

text \<open>A \<open>std::stack\<close> is a list with its top first.\<close>

record papi_state =
  parallel_for_name :: "string list"
  parallel_reduce_name :: "string list"
  parallel_scan_name :: "string list"
  region_name :: "string list"
  profile_section :: "u32 \<rightharpoonup> string"
  papi_calls :: "papi_call list"
  papi_stdout :: "token list"

definition papi_initial :: papi_state where
  "papi_initial = \<lparr>parallel_for_name = [], parallel_reduce_name = [], parallel_scan_name = [], region_name = [],
     profile_section = Map.empty, papi_calls = [], papi_stdout = []\<rparr>"

definition papi_call :: "papi_call \<Rightarrow> papi_state \<Rightarrow> papi_state" where
  "papi_call c s = s\<lparr>papi_calls := papi_calls s @ [c]\<rparr>"

definition papi_printf :: "string \<Rightarrow> papi_state \<Rightarrow> papi_state" where
  "papi_printf t s = s\<lparr>papi_stdout := papi_stdout s @ [Txt (t @ eol)]\<rparr>"

lemmas papi_out_defs = papi_call_def papi_printf_def

definition papi_rule :: string where
  "papi_rule = ''-----------------------------------------------------------''"

section \<open>Callbacks\<close>

definition papi_init_library :: "int \<Rightarrow> u64 \<Rightarrow> papi_state \<Rightarrow> papi_state" where
  "papi_init_library loadSeq interfaceVer s =
     papi_printf papi_rule (papi_printf (''KokkosP: PAPI Connector (sequence is '' @ dec_int loadSeq
       @ '', version: '' @ dec_nat (unat interfaceVer) @ '')'') (papi_printf papi_rule s))"

definition papi_finalize_library :: "papi_state \<Rightarrow> papi_state" where
  "papi_finalize_library s = papi_printf papi_rule
     (papi_printf ''KokkosP: Finalization of PAPI Connector. Complete.'' (papi_printf papi_rule s))"

text \<open>\<open>stream << name\<close> reads the string the pointer is to.\<close>

definition name_to_stream :: "string \<Rightarrow> string option \<Rightarrow> string outcome" where
  "name_to_stream prefix name = (case name of
     None \<Rightarrow> Inl (Undefined ''stream insertion of a null pointer'') | Some n \<Rightarrow> Inr (prefix @ n))"

definition papi_begin_parallel_for :: "string option \<Rightarrow> u32 \<Rightarrow> papi_state \<Rightarrow> papi_state outcome" where
  "papi_begin_parallel_for name devid s = obind (name_to_stream ''kokkosp_parallel_for:'' name) (\<lambda>ss.
     Inr (papi_call (Region_begin ss) (s\<lparr>parallel_for_name := ss # parallel_for_name s\<rparr>)))"

definition papi_end_parallel_for :: "u64 \<Rightarrow> papi_state \<Rightarrow> papi_state" where
  "papi_end_parallel_for kernid s = (case parallel_for_name s of
     t # ts \<Rightarrow> (papi_call (Region_end t) s)\<lparr>parallel_for_name := ts\<rparr>
   | [] \<Rightarrow> papi_printf ''Begin callback of parallel_for does not exist!'' s)"

definition papi_begin_parallel_reduce :: "string option \<Rightarrow> u32 \<Rightarrow> papi_state \<Rightarrow> papi_state outcome" where
  "papi_begin_parallel_reduce name devid s = obind (name_to_stream ''kokkosp_parallel_reduce:'' name) (\<lambda>ss.
     Inr (papi_call (Region_begin ss) (s\<lparr>parallel_reduce_name := ss # parallel_reduce_name s\<rparr>)))"

definition papi_end_parallel_reduce :: "u64 \<Rightarrow> papi_state \<Rightarrow> papi_state" where
  "papi_end_parallel_reduce kernid s = (case parallel_reduce_name s of
     t # ts \<Rightarrow> (papi_call (Region_end t) s)\<lparr>parallel_reduce_name := ts\<rparr>
   | [] \<Rightarrow> papi_printf ''Begin callback of parallel_reduce does not exist!'' s)"

definition papi_begin_parallel_scan :: "string option \<Rightarrow> u32 \<Rightarrow> papi_state \<Rightarrow> papi_state outcome" where
  "papi_begin_parallel_scan name devid s = obind (name_to_stream ''kokkosp_parallel_scan:'' name) (\<lambda>ss.
     Inr (papi_call (Region_begin ss) (s\<lparr>parallel_scan_name := ss # parallel_scan_name s\<rparr>)))"

definition papi_end_parallel_scan :: "u64 \<Rightarrow> papi_state \<Rightarrow> papi_state" where
  "papi_end_parallel_scan kernid s = (case parallel_scan_name s of
     t # ts \<Rightarrow> (papi_call (Region_end t) s)\<lparr>parallel_scan_name := ts\<rparr>
   | [] \<Rightarrow> papi_printf ''Begin callback of parallel_scan does not exist!'' s)"

definition papi_push_profile_region :: "string option \<Rightarrow> papi_state \<Rightarrow> papi_state outcome" where
  "papi_push_profile_region name s = obind (name_to_stream ''kokkosp_profile_region:'' name) (\<lambda>ss.
     Inr (papi_call (Region_begin ss) (s\<lparr>region_name := ss # region_name s\<rparr>)))"

definition papi_profile_event :: "string option \<Rightarrow> papi_state \<Rightarrow> papi_state" where
  "papi_profile_event name s = (case region_name s of t # ts \<Rightarrow> papi_call (Hl_read t) s | [] \<Rightarrow> s)"

definition papi_pop_profile_region :: "papi_state \<Rightarrow> papi_state" where
  "papi_pop_profile_region s = (case region_name s of
     t # ts \<Rightarrow> (papi_call (Region_end t) s)\<lparr>region_name := ts\<rparr>
   | [] \<Rightarrow> papi_printf ''Region does not exist!'' s)"

definition papi_begin_deep_copy ::
  "SpaceHandle \<Rightarrow> string option \<Rightarrow> u64 \<Rightarrow> SpaceHandle \<Rightarrow> string option \<Rightarrow> u64 \<Rightarrow> u64 \<Rightarrow> papi_state \<Rightarrow> papi_state" where
  "papi_begin_deep_copy dst_handle dst_name dst_ptr src_handle src_name src_ptr n =
     papi_call (Region_begin ''kokkosp_deep_copy'')"

definition papi_end_deep_copy :: "papi_state \<Rightarrow> papi_state" where
  "papi_end_deep_copy = papi_call (Region_end ''kokkosp_deep_copy'')"

text \<open>
  The section's identifier is read from \<open>*sec_id\<close>: whatever value the caller's variable has.
  \<open>insert\<close> keeps an entry that is there.
\<close>

definition papi_create_profile_section :: "string option \<Rightarrow> u32 \<Rightarrow> papi_state \<Rightarrow> papi_state outcome" where
  "papi_create_profile_section name sec_id s = (case name of
     None \<Rightarrow> Inl (Undefined ''std::string of a null pointer'')
   | Some n \<Rightarrow> Inr (if profile_section s sec_id = None
       then s\<lparr>profile_section := (profile_section s)(sec_id \<mapsto> n)\<rparr> else s))"

definition papi_destroy_profile_section :: "u32 \<Rightarrow> papi_state \<Rightarrow> papi_state" where
  "papi_destroy_profile_section sec_id s = s\<lparr>profile_section := (profile_section s)(sec_id := None)\<rparr>"

definition section_text :: "string \<Rightarrow> u32 \<Rightarrow> string" where
  "section_text l sec_id = l @ '':'' @ dec_nat (unat sec_id)"

definition papi_start_profile_section :: "u32 \<Rightarrow> papi_state \<Rightarrow> papi_state" where
  "papi_start_profile_section sec_id s = (case profile_section s sec_id of
     Some l \<Rightarrow> (let ss = section_text l sec_id in
       papi_call (Region_begin ss) (s\<lparr>region_name := ss # region_name s\<rparr>))
   | None \<Rightarrow> s)"

definition papi_stop_profile_section :: "u32 \<Rightarrow> papi_state \<Rightarrow> papi_state" where
  "papi_stop_profile_section sec_id s = (case profile_section s sec_id of
     Some l \<Rightarrow> (let ss = section_text l sec_id in
       papi_call (Region_end ss) (s\<lparr>region_name := ss # region_name s\<rparr>))
   | None \<Rightarrow> s)"

section \<open>Runs\<close>

datatype papi_kind = PK_kernel pkind | PK_region | PK_copy

datatype papi_event =
    PBegin pkind "string option" u32 | PEnd pkind u64
  | PPush "string option" | PPop | PEvent "string option"
  | PCopy SpaceHandle "string option" u64 SpaceHandle "string option" u64 u64 | PEndCopy
  | PCreate "string option" u32 | PDestroy u32 | PStart u32 | PStop u32

fun papi_begin_parallel :: "pkind \<Rightarrow> string option \<Rightarrow> u32 \<Rightarrow> papi_state \<Rightarrow> papi_state outcome" where
  "papi_begin_parallel ParFor = papi_begin_parallel_for"
| "papi_begin_parallel ParReduce = papi_begin_parallel_reduce"
| "papi_begin_parallel ParScan = papi_begin_parallel_scan"

fun papi_end_parallel :: "pkind \<Rightarrow> u64 \<Rightarrow> papi_state \<Rightarrow> papi_state" where
  "papi_end_parallel ParFor = papi_end_parallel_for"
| "papi_end_parallel ParReduce = papi_end_parallel_reduce"
| "papi_end_parallel ParScan = papi_end_parallel_scan"

fun papi_next :: "papi_state \<Rightarrow> papi_event \<Rightarrow> papi_state outcome" where
  "papi_next s (PBegin k name devid) = papi_begin_parallel k name devid s"
| "papi_next s (PEnd k i) = Inr (papi_end_parallel k i s)"
| "papi_next s (PPush name) = papi_push_profile_region name s"
| "papi_next s PPop = Inr (papi_pop_profile_region s)"
| "papi_next s (PEvent name) = Inr (papi_profile_event name s)"
| "papi_next s (PCopy dh dn dp sh sn sp n) = Inr (papi_begin_deep_copy dh dn dp sh sn sp n s)"
| "papi_next s PEndCopy = Inr (papi_end_deep_copy s)"
| "papi_next s (PCreate name i) = papi_create_profile_section name i s"
| "papi_next s (PDestroy i) = Inr (papi_destroy_profile_section i s)"
| "papi_next s (PStart i) = Inr (papi_start_profile_section i s)"
| "papi_next s (PStop i) = Inr (papi_stop_profile_section i s)"

text \<open>
  PAPI's view: the open regions, innermost first, or \<open>None\<close> once a region is ended that is not the
  innermost open one.
\<close>

fun papi_open :: "papi_call list \<Rightarrow> string list \<Rightarrow> string list option" where
  "papi_open [] ns = Some ns"
| "papi_open (Region_begin n # cs) ns = papi_open cs (n # ns)"
| "papi_open (Region_end n # cs) (m # ns) = (if n = m then papi_open cs ns else None)"
| "papi_open (Region_end n # cs) [] = None"
| "papi_open (Hl_read n # cs) ns = papi_open cs ns"

lemma papi_open_append: "papi_open (xs @ ys) ns = (case papi_open xs ns of None \<Rightarrow> None | Some ms \<Rightarrow> papi_open ys ms)"
  by (induction xs ns rule: papi_open.induct) simp_all

text \<open>
  The program's view: its open kernels, regions and deep copies, innermost first, each with the name
  PAPI should know it by; \<open>None\<close> where a callback has no name, where an end is not that of the
  innermost one, or where a section is started or stopped.
\<close>

fun kernel_prefix :: "pkind \<Rightarrow> string" where
  "kernel_prefix ParFor = ''kokkosp_parallel_for:''"
| "kernel_prefix ParReduce = ''kokkosp_parallel_reduce:''"
| "kernel_prefix ParScan = ''kokkosp_parallel_scan:''"

fun close_frame :: "papi_kind \<Rightarrow> (papi_kind \<times> string) list \<Rightarrow> (papi_kind \<times> string) list option" where
  "close_frame k ((k', n) # fs) = (if k' = k then Some fs else None)"
| "close_frame k [] = None"

fun nested_step :: "(papi_kind \<times> string) list \<Rightarrow> papi_event \<Rightarrow> (papi_kind \<times> string) list option" where
  "nested_step fs (PBegin k (Some n) d) = Some ((PK_kernel k, kernel_prefix k @ n) # fs)"
| "nested_step fs (PEnd k i) = close_frame (PK_kernel k) fs"
| "nested_step fs (PPush (Some n)) = Some ((PK_region, ''kokkosp_profile_region:'' @ n) # fs)"
| "nested_step fs PPop = close_frame PK_region fs"
| "nested_step fs (PCopy dh dn dp sh sn sp n) = Some ((PK_copy, ''kokkosp_deep_copy'') # fs)"
| "nested_step fs PEndCopy = close_frame PK_copy fs"
| "nested_step fs (PEvent n) = Some fs"
| "nested_step fs (PCreate (Some n) i) = Some fs"
| "nested_step fs (PDestroy i) = Some fs"
| "nested_step fs _ = None"

fun nested :: "(papi_kind \<times> string) list \<Rightarrow> papi_event list \<Rightarrow> (papi_kind \<times> string) list option" where
  "nested fs [] = Some fs"
| "nested fs (e # es) = (case nested_step fs e of None \<Rightarrow> None | Some fs' \<Rightarrow> nested fs' es)"

definition of_kind :: "papi_kind \<Rightarrow> (papi_kind \<times> string) list \<Rightarrow> string list" where
  "of_kind k fs = map snd (filter (\<lambda>f. fst f = k) fs)"

lemma of_kind_simps [simp]:
  "of_kind k [] = []" "of_kind k ((k', n) # fs) = (if k' = k then n # of_kind k fs else of_kind k fs)"
  by (simp_all add: of_kind_def)

text \<open>The four stacks are the program's open frames by kind, and PAPI has the same frames open.\<close>

definition papi_sim :: "(papi_kind \<times> string) list \<Rightarrow> papi_state \<Rightarrow> bool" where
  "papi_sim fs s \<longleftrightarrow>
     parallel_for_name s = of_kind (PK_kernel ParFor) fs \<and> parallel_reduce_name s = of_kind (PK_kernel ParReduce) fs \<and>
     parallel_scan_name s = of_kind (PK_kernel ParScan) fs \<and> region_name s = of_kind PK_region fs \<and>
     papi_open (papi_calls s) [] = Some (map snd fs) \<and>
     (\<forall>f \<in> set fs. fst f = PK_copy \<longrightarrow> snd f = ''kokkosp_deep_copy'')"

lemmas papi_handler_defs = papi_begin_parallel_for_def papi_begin_parallel_reduce_def papi_begin_parallel_scan_def
  papi_end_parallel_for_def papi_end_parallel_reduce_def papi_end_parallel_scan_def papi_push_profile_region_def
  papi_pop_profile_region_def papi_profile_event_def papi_begin_deep_copy_def papi_end_deep_copy_def
  papi_create_profile_section_def papi_destroy_profile_section_def name_to_stream_def

lemma close_frame_Some: "close_frame k fs = Some fs' \<longleftrightarrow> (\<exists>n. fs = (k, n) # fs')"
  by (cases fs) (auto split: if_splits)

lemma papi_sim_step:
  assumes "papi_sim fs s" and "nested_step fs e = Some fs'"
  obtains s' where "papi_next s e = Inr s'" and "papi_sim fs' s'" and "papi_stdout s' = papi_stdout s"
proof -
  have "\<exists>s'. papi_next s e = Inr s' \<and> papi_sim fs' s' \<and> papi_stdout s' = papi_stdout s"
  proof (cases "(fs, e)" rule: nested_step.cases)
    case (1 fs0 k n d)
    with assms show ?thesis
      by (cases k) (auto simp: papi_sim_def papi_handler_defs papi_out_defs papi_open_append)
  next
    case (2 fs0 k i)
    with assms show ?thesis
      by (cases k) (auto simp: papi_sim_def papi_handler_defs papi_out_defs papi_open_append close_frame_Some)
  qed (use assms in \<open>auto simp: papi_sim_def papi_handler_defs papi_out_defs papi_open_append close_frame_Some
        split: list.splits\<close>)
  with that show ?thesis by blast
qed

lemma papi_sim_run:
  "papi_sim fs s \<Longrightarrow> nested fs es = Some fs' \<Longrightarrow>
    \<exists>s'. run_events papi_next s es = Inr s' \<and> papi_sim fs' s' \<and> papi_stdout s' = papi_stdout s"
proof (induction es arbitrary: fs s)
  case (Cons e es)
  from Cons.prems(2) obtain fs1 where 1: "nested_step fs e = Some fs1" and 2: "nested fs1 es = Some fs'"
    by (auto split: option.splits)
  obtain s1 where "papi_next s e = Inr s1" "papi_sim fs1 s1" "papi_stdout s1 = papi_stdout s"
    using papi_sim_step [OF Cons.prems(1) 1] by blast
  with Cons.IH [OF _ 2, of s1] show ?case by simp
qed simp

text \<open>Starting a section opens a PAPI region and stopping it closes that region, but both push its name.\<close>

lemma papi_section_run:
  assumes "profile_section s i = Some l" and "papi_open (papi_calls s) [] = Some ns"
  shows "\<exists>s'. run_events papi_next s [PStart i, PStop i] = Inr s' \<and> papi_open (papi_calls s') [] = Some ns
    \<and> region_name s' = section_text l i # section_text l i # region_name s"
  using assms by (simp add: papi_start_profile_section_def papi_stop_profile_section_def papi_out_defs papi_open_append Let_def)

text \<open>
  C27. Callbacks that nest (each end closes the kernel, region or deep copy opened last, of its kind,
  and no section is started) become PAPI regions that nest. Every run of them returns, no end is without
  its begin, and PAPI is never told to end a region other than the innermost open one. Afterwards the regions
  PAPI has open are what is still open in the program, in that order, and each of the four stacks holds the names of
  what is open of its kind. From there a section that is started and stopped leaves PAPI's regions as they were, but two
  names too many on the stack of regions.
\<close>

theorem papi_regions_nest:
  assumes "nested [] es = Some fs"
  shows "\<exists>s. run_events papi_next papi_initial es = Inr s \<and> papi_stdout s = []
    \<and> papi_open (papi_calls s) [] = Some (map snd fs)
    \<and> parallel_for_name s = of_kind (PK_kernel ParFor) fs \<and> parallel_reduce_name s = of_kind (PK_kernel ParReduce) fs
    \<and> parallel_scan_name s = of_kind (PK_kernel ParScan) fs \<and> region_name s = of_kind PK_region fs
    \<and> (\<forall>i l. profile_section s i = Some l \<longrightarrow>
        (\<exists>s'. run_events papi_next s [PStart i, PStop i] = Inr s' \<and> papi_open (papi_calls s') [] = Some (map snd fs)
          \<and> region_name s' = section_text l i # section_text l i # region_name s))"
proof -
  from papi_sim_run [of "[]" papi_initial, OF _ assms] obtain s where
    "run_events papi_next papi_initial es = Inr s" "papi_sim fs s" "papi_stdout s = []"
    by (auto simp: papi_sim_def papi_initial_def)
  then show ?thesis using papi_section_run [of s] by (intro exI [of _ s]) (simp add: papi_sim_def)
qed

theorem papi_regions_nest_witness:
  "\<exists>s. run_events papi_next papi_initial
      [PCreate (Some ''sec'') 3, PPush (Some ''r''), PBegin ParFor (Some ''k'') 0, PEnd ParFor 0, PEvent None,
       PBegin ParScan (Some ''s'') 0] = Inr s
    \<and> papi_open (papi_calls s) [] = Some [''kokkosp_parallel_scan:s'', ''kokkosp_profile_region:r''] \<and> papi_stdout s = []
    \<and> region_name s = [''kokkosp_profile_region:r''] \<and> parallel_for_name s = []"
proof -
  let ?es = "[PCreate (Some ''sec'') 3, PPush (Some ''r''), PBegin ParFor (Some ''k'') 0, PEnd ParFor 0, PEvent None,
       PBegin ParScan (Some ''s'') 0]"
  have "nested [] ?es = Some [(PK_kernel ParScan, ''kokkosp_parallel_scan:s''), (PK_region, ''kokkosp_profile_region:r'')]"
    by simp
  from papi_regions_nest [OF this] show ?thesis by auto
qed

text \<open>
  Stopping a section pushes its name once more where it should take it off: after a region is
  pushed and a section started and stopped in it, the pop of the region ends the section a second time, the
  region is never ended, and two names too many are left on the stack.
\<close>

theorem papi_stop_section_pushes:
  assumes "profile_section s i = Some l"
  shows "\<exists>s'. run_events papi_next s [PPush (Some r), PStart i, PStop i, PPop] = Inr s'
    \<and> papi_calls s' = papi_calls s @ [Region_begin (''kokkosp_profile_region:'' @ r),
        Region_begin (section_text l i), Region_end (section_text l i), Region_end (section_text l i)]
    \<and> region_name s' = section_text l i # (''kokkosp_profile_region:'' @ r) # region_name s"
  using assms
  by (simp add: papi_handler_defs papi_start_profile_section_def papi_stop_profile_section_def papi_out_defs Let_def)

theorem papi_stop_section_pushes_witness:
  "\<exists>s'. run_events papi_next (papi_initial\<lparr>profile_section := [3 \<mapsto> ''sec'']\<rparr>) [PPush (Some ''r''), PStart 3, PStop 3, PPop] = Inr s'
    \<and> region_name s' = [''sec:3'', ''kokkosp_profile_region:r'']"
proof -
  let ?s = "papi_initial\<lparr>profile_section := [3 \<mapsto> ''sec'']\<rparr>"
  have l: "section_text ''sec'' 3 = ''sec:3''" by code_simp
  have "profile_section ?s 3 = Some ''sec''" by simp
  from papi_stop_section_pushes [OF this, of "''r''"] l obtain s' where
    "run_events papi_next ?s [PPush (Some ''r''), PStart 3, PStop 3, PPop] = Inr s'"
    "region_name s' = ''sec:3'' # ''kokkosp_profile_region:r'' # region_name ?s" by auto
  then show ?thesis by (intro exI [of _ s'] conjI) (simp_all add: papi_initial_def)
qed

text \<open>
  Two sections created with the same value in the caller's variable are one section: the second
  name is dropped.
\<close>

lemma papi_section_keeps_first:
  "run_events papi_next s [PCreate (Some a) i, PCreate (Some b) i] = run_events papi_next s [PCreate (Some a) i]"
  by (auto simp: papi_create_profile_section_def)

end
