(* ===== verification/Range_Connectors.thy ===== *)
theory Range_Connectors
  imports Contracts Interface
begin

text \<open>
  The NVTX and ROCTX connectors, \<open>profiling/nvtx-connector/kp_nvtx_connector.cpp\<close> and
  \<open>profiling/roctx-connector/kp_roctx_connector.cpp\<close>: callbacks become ranges of a vendor's library. The
  library is known by the calls made to it, which the model keeps as a list; the identifier it returns
  for a range that is started is an argument of the callback.
\<close>

section \<open>State\<close>

datatype range_call =
    Range_push "string option" | Range_pop
  | Range_start "string option" u64 | Range_stop u64
  | Mark "string option" | Name_thread string

text \<open>A section's label and the identifier of the range it started last.\<close>

record Section =
  sec_label :: string
  sec_range :: u64

record range_state =
  tool_globfences :: bool
  kokkosp_sections :: "Section list"
  range_calls :: "range_call list"
  range_stdout :: "token list"


definition range_call :: "range_call \<Rightarrow> range_state \<Rightarrow> range_state" where
  "range_call c s = s\<lparr>range_calls := range_calls s @ [c]\<rparr>"

definition range_print :: "string list \<Rightarrow> range_state \<Rightarrow> range_state" where
  "range_print ls s = s\<lparr>range_stdout := range_stdout s @ map (\<lambda>l. Txt (l @ eol)) ls\<rparr>"

definition rule_line :: string where
  "rule_line = ''-----------------------------------------------------------''"

definition max_id :: u64 where "max_id = - 1"

section \<open>NVTX\<close>

definition nvtx_request_tool_settings :: "range_state \<Rightarrow> ToolSettings \<Rightarrow> ToolSettings" where
  "nvtx_request_tool_settings s settings =
     (let settings = settings\<lparr>requires_global_fencing := True\<rparr> in
      if tool_globfences s then settings\<lparr>requires_global_fencing := True\<rparr>
      else settings\<lparr>requires_global_fencing := False\<rparr>)"

text \<open>\<open>env\<close> is the value of \<open>KOKKOS_TOOLS_GLOBALFENCES\<close>.\<close>

definition nvtx_init_library :: "string option \<Rightarrow> int \<Rightarrow> u64 \<Rightarrow> range_state \<Rightarrow> range_state" where
  "nvtx_init_library env loadSeq interfaceVer s =
     (let s = range_print [rule_line, ''KokkosP: NVTX Analyzer Connector (sequence is '' @ dec_int loadSeq
        @ '', version: '' @ dec_nat (unat interfaceVer) @ '')'', rule_line] s
      in case env of None \<Rightarrow> s
         | Some v \<Rightarrow> range_call (Mark (Some ''Kokkos::Initialization Complete''))
             (range_call (Name_thread ''Application Main Thread'') (s\<lparr>tool_globfences := (atoi v \<noteq> 0)\<rparr>)))"

definition nvtx_finalize_library :: "range_state \<Rightarrow> range_state" where
  "nvtx_finalize_library s = range_call (Mark (Some ''Kokkos::Finalization Complete''))
     (range_print [rule_line, ''KokkosP: Finalization of NVTX Connector. Complete.'', rule_line] s)"

text \<open>The begin callbacks of the three kinds of kernel have the same body, and so do the end callbacks.\<close>

definition nvtx_begin_parallel :: "pkind \<Rightarrow> string option \<Rightarrow> u32 \<Rightarrow> range_state \<Rightarrow> range_state" where
  "nvtx_begin_parallel k name devID = range_call (Range_push name)"

definition nvtx_end_parallel :: "pkind \<Rightarrow> u64 \<Rightarrow> range_state \<Rightarrow> range_state" where
  "nvtx_end_parallel k kID = range_call Range_pop"

definition nvtx_push_profile_region :: "string option \<Rightarrow> range_state \<Rightarrow> range_state" where
  "nvtx_push_profile_region name = range_call (Range_push name)"

definition nvtx_pop_profile_region :: "range_state \<Rightarrow> range_state" where
  "nvtx_pop_profile_region = range_call Range_pop"

definition nvtx_create_profile_section :: "string option \<Rightarrow> range_state \<Rightarrow> (u32 \<times> range_state) outcome" where
  "nvtx_create_profile_section name s = (case name of
     None \<Rightarrow> Inl (Undefined ''std::string of a null pointer'')
   | Some n \<Rightarrow> Inr (of_nat (length (kokkosp_sections s)),
       s\<lparr>kokkosp_sections := kokkosp_sections s @ [\<lparr>sec_label = n, sec_range = max_id\<rparr>]\<rparr>))"

text \<open>The vector is indexed without a check.\<close>

definition nvtx_start_profile_section :: "u32 \<Rightarrow> u64 \<Rightarrow> range_state \<Rightarrow> range_state outcome" where
  "nvtx_start_profile_section sID rid s =
     (if unat sID < length (kokkosp_sections s) then
        (let section = kokkosp_sections s ! unat sID in
         Inr ((range_call (Range_start (Some (sec_label section)) rid) s)\<lparr>kokkosp_sections :=
           (kokkosp_sections s)[unat sID := section\<lparr>sec_range := rid\<rparr>]\<rparr>))
      else Inl (Undefined ''index past the vector of sections''))"

definition nvtx_stop_profile_section :: "u32 \<Rightarrow> range_state \<Rightarrow> range_state outcome" where
  "nvtx_stop_profile_section sID s =
     (if unat sID < length (kokkosp_sections s) then
        Inr (range_call (Range_stop (sec_range (kokkosp_sections s ! unat sID))) s)
      else Inl (Undefined ''index past the vector of sections''))"

definition nvtx_profile_event :: "string option \<Rightarrow> range_state \<Rightarrow> range_state" where
  "nvtx_profile_event name = range_call (Mark name)"

definition tool_fence :: string where "tool_fence = ''Kokkos Profile Tool Fence''"

text \<open>The value left in \<open>*handle\<close> and the state.\<close>

definition nvtx_begin_fence :: "string option \<Rightarrow> u32 \<Rightarrow> u64 \<Rightarrow> range_state \<Rightarrow> (u64 \<times> range_state) outcome" where
  "nvtx_begin_fence name devID rid s = (case name of
     None \<Rightarrow> Inl (Undefined ''strstr of a null pointer'')
   | Some n \<Rightarrow> Inr (if strstr n tool_fence then (max_id, s) else (rid, range_call (Range_start (Some n) rid) s)))"

definition nvtx_end_fence :: "u64 \<Rightarrow> range_state \<Rightarrow> range_state" where
  "nvtx_end_fence handle s = (if handle \<noteq> max_id then range_call (Range_stop handle) s else s)"

section \<open>ROCTX\<close>

definition roctx_request_tool_settings :: "range_state \<Rightarrow> ToolSettings \<Rightarrow> ToolSettings" where
  "roctx_request_tool_settings s settings =
     (if tool_globfences s then settings\<lparr>requires_global_fencing := True\<rparr>
      else settings\<lparr>requires_global_fencing := False\<rparr>)"

definition roctx_init_library :: "string option \<Rightarrow> int \<Rightarrow> u64 \<Rightarrow> range_state \<Rightarrow> range_state" where
  "roctx_init_library env loadSeq interfaceVer s =
     (let s = (case env of None \<Rightarrow> s | Some v \<Rightarrow> s\<lparr>tool_globfences := (atoi v \<noteq> 0)\<rparr>) in
      range_call (Mark (Some ''Kokkos::Initialization Complete''))
        (range_print [rule_line, ''KokkosP: ROC Tracer Connector (sequence is '' @ dec_int loadSeq
           @ '', version: '' @ dec_nat (unat interfaceVer) @ '')'', rule_line] s))"

definition roctx_finalize_library :: "range_state \<Rightarrow> range_state" where
  "roctx_finalize_library s = range_call (Mark (Some ''Kokkos::Finalization Complete''))
     (range_print ['''', rule_line, ''KokkosP: Finalization of ROC Tracer Connector. Complete.'', rule_line] s)"












section \<open>Runs\<close>

text \<open>
  The callbacks by what they do to the library's stack of ranges. The last argument of a start is the
  identifier the library returns.
\<close>

datatype range_open = OpKernel pkind "string option" u32 | OpRegion "string option"

datatype range_close = ClKernel pkind u64 | ClRegion

datatype range_other =
    XCreate "string option" | XStart u32 u64 | XStop u32 | XMark "string option"
  | XFence "string option" u32 u64 | XEndFence u64

type_synonym range_event = "(range_open, range_close, range_other) bracket"

fun nvtx_opening :: "range_state \<Rightarrow> range_open \<Rightarrow> range_state outcome" where
  "nvtx_opening s (OpKernel k name devID) = Inr (nvtx_begin_parallel k name devID s)"
| "nvtx_opening s (OpRegion name) = Inr (nvtx_push_profile_region name s)"

fun nvtx_closing :: "range_state \<Rightarrow> range_close \<Rightarrow> range_state outcome" where
  "nvtx_closing s (ClKernel k kID) = Inr (nvtx_end_parallel k kID s)"
| "nvtx_closing s ClRegion = Inr (nvtx_pop_profile_region s)"

fun nvtx_other :: "range_state \<Rightarrow> range_other \<Rightarrow> range_state outcome" where
  "nvtx_other s (XCreate name) = obind (nvtx_create_profile_section name s) (\<lambda>(i, s'). Inr s')"
| "nvtx_other s (XStart i rid) = nvtx_start_profile_section i rid s"
| "nvtx_other s (XStop i) = nvtx_stop_profile_section i s"
| "nvtx_other s (XMark name) = Inr (nvtx_profile_event name s)"
| "nvtx_other s (XFence name devID rid) = obind (nvtx_begin_fence name devID rid s) (\<lambda>(h, s'). Inr s')"
| "nvtx_other s (XEndFence h) = Inr (nvtx_end_fence h s)"

fun nvtx_next :: "range_state \<Rightarrow> range_event \<Rightarrow> range_state outcome" where
  "nvtx_next s (Open a) = nvtx_opening s a"
| "nvtx_next s (Close b) = nvtx_closing s b"
| "nvtx_next s (Other c) = nvtx_other s c"



lemmas nvtx_defs = nvtx_begin_parallel_def nvtx_end_parallel_def nvtx_push_profile_region_def nvtx_pop_profile_region_def
  nvtx_create_profile_section_def nvtx_start_profile_section_def nvtx_stop_profile_section_def nvtx_profile_event_def
  nvtx_begin_fence_def nvtx_end_fence_def


section \<open>Open ranges\<close>

text \<open>The library's stack of ranges, innermost first; a pop of the empty stack is an error it reports.\<close>

fun open_ranges :: "range_call list \<Rightarrow> string option list \<Rightarrow> string option list" where
  "open_ranges [] ns = ns"
| "open_ranges (Range_push n # cs) ns = open_ranges cs (n # ns)"
| "open_ranges (Range_pop # cs) ns = open_ranges cs (tl ns)"
| "open_ranges (_ # cs) ns = open_ranges cs ns"

lemma open_ranges_append [simp]: "open_ranges (xs @ ys) ns = open_ranges ys (open_ranges xs ns)"
  by (induction xs ns rule: open_ranges.induct) simp_all

definition nvtx_frames :: "range_state \<Rightarrow> string option list" where
  "nvtx_frames s = open_ranges (range_calls s) []"

interpretation nv: frame_stack nvtx_opening nvtx_closing nvtx_other nvtx_frames "\<lambda>s. True"
proof
  show "True \<and> (\<exists>f. nvtx_frames s' = f # nvtx_frames s)" if "nvtx_opening s a = Inr s'" for s a s'
    using that by (cases a) (auto simp: nvtx_defs range_call_def nvtx_frames_def)
  show "True \<and> nvtx_frames s' = fs" if "nvtx_closing s b = Inr s'" "nvtx_frames s = f # fs" for s b s' f fs
    using that by (cases b) (auto simp: nvtx_defs range_call_def nvtx_frames_def)
  show "True \<and> nvtx_frames s' = nvtx_frames s" if "nvtx_other s c = Inr s'" for s c s'
    using that
    by (cases c) (auto simp: nvtx_defs range_call_def nvtx_frames_def Let_def obind_Inr split: if_splits option.splits)
qed

lemma nvtx_next_step: "nvtx_next s e = nv.fs_step s e"
  by (cases e) simp_all

text \<open>Callbacks that balance leave the library with the ranges that were open before.\<close>

lemma nvtx_ranges_balanced:
  "balanced es \<Longrightarrow> run_events nvtx_next s es = Inr s' \<Longrightarrow> nvtx_frames s' = nvtx_frames s"
  using nv.balanced_restores_kind [of nvtx_next "\<lambda>e. e", OF nvtx_next_step] by simp

section \<open>NVTX is ROCTX without the fences of the tools\<close>


fun unnamed_fence :: "range_event \<Rightarrow> bool" where
  "unnamed_fence (Other (XFence None devID rid)) = True"
| "unnamed_fence _ = False"

lemma unnamed_fence_XFence [simp]: "unnamed_fence (Other (XFence name devID rid)) \<longleftrightarrow> name = None"
  by (cases name) simp_all




section \<open>Sections\<close>









end
