(* ===== verification/Domain_Connectors.thy ===== *)
theory Domain_Connectors
  imports Contracts Interface
begin

text \<open>
  The connectors that give every kernel name a domain of its own: NVTX focused
  (\<open>profiling/nvtx-focused-connector\<close>), VTune (\<open>profiling/vtune-connector\<close>) and VTune focused
  (\<open>profiling/vtune-focused-connector\<close>). The vendor's library is known by the calls made to it; the
  handles it returns are arguments of the callbacks, 0 for a null pointer.
\<close>

section \<open>State\<close>

datatype KernelExecutionType = PARALLEL_FOR | PARALLEL_REDUCE | PARALLEL_SCAN

fun execution_type :: "pkind \<Rightarrow> KernelExecutionType" where
  "execution_type ParFor = PARALLEL_FOR" | "execution_type ParReduce = PARALLEL_REDUCE"
| "execution_type ParScan = PARALLEL_SCAN"

datatype domain_call =
    DName_thread string | DMark string
  | DDomain_create string u64 | DRange_start u64 string u64 | DRange_end u64 u64
  | DProfiler_start | DProfiler_stop
  | DString_handle_create string | DFlags u64 int
  | DFrame_begin u64 | DFrame_end u64
  | DPause | DResume | DDetach
  | DEvent_create string | DEvent_start string

text \<open>
  The static variables, for a class \<open>'i\<close> of info objects. The objects are kept in the order they were
  made (none is deleted); a pointer to one is its position. Only the NVTX connector has \<open>tool_globfences\<close>.
\<close>

record 'i domain_state =
  ds_objects :: "'i list"
  domain_map :: "string \<rightharpoonup> nat"
  currentKernel :: "nat option"
  nextKernelID :: u64
  ds_globfences :: bool
  ds_calls :: "domain_call list"
  ds_stdout :: "token list"

definition domain_initial :: "'i domain_state" where
  "domain_initial = \<lparr>ds_objects = [], domain_map = Map.empty, currentKernel = None, nextKernelID = 0,
     ds_globfences = False, ds_calls = [], ds_stdout = []\<rparr>"

definition ds_emit :: "domain_call list \<Rightarrow> 'i domain_state \<Rightarrow> 'i domain_state" where
  "ds_emit cs s = s\<lparr>ds_calls := ds_calls s @ cs\<rparr>"

definition ds_print :: "string list \<Rightarrow> 'i domain_state \<Rightarrow> 'i domain_state" where
  "ds_print ls s = s\<lparr>ds_stdout := ds_stdout s @ map (\<lambda>l. Txt (l @ eol)) ls\<rparr>"

definition ds_rule :: string where
  "ds_rule = ''-----------------------------------------------------------''"

text \<open>The name of the domain, as the constructors of all three classes build it.\<close>

fun domain_name :: "KernelExecutionType \<Rightarrow> string \<Rightarrow> string" where
  "domain_name PARALLEL_FOR kName = ''ParallelFor.'' @ kName"
| "domain_name PARALLEL_REDUCE kName = ''ParallelReduce.'' @ kName"
| "domain_name PARALLEL_SCAN kName = ''ParallelScan.'' @ kName"

text \<open>
  The object for a name: the one the map has, or a new one, made by the constructor and put into the
  map. \<open>currentKernel\<close> points to it afterwards.
\<close>

definition find_info ::
  "(string \<Rightarrow> KernelExecutionType \<Rightarrow> 'i domain_state \<Rightarrow> ('i \<times> 'i domain_state) outcome) \<Rightarrow>
   string option \<Rightarrow> KernelExecutionType \<Rightarrow> 'i domain_state \<Rightarrow> 'i domain_state outcome" where
  "find_info construct name kType s = (case name of
     None \<Rightarrow> Inl (Undefined ''std::string of a null pointer'')
   | Some nameStr \<Rightarrow> (case domain_map s nameStr of
       Some p \<Rightarrow> Inr (s\<lparr>currentKernel := Some p\<rparr>)
     | None \<Rightarrow> obind (construct nameStr kType (s\<lparr>currentKernel := None\<rparr>)) (\<lambda>(i, s').
         Inr (s'\<lparr>ds_objects := ds_objects s' @ [i], currentKernel := Some (length (ds_objects s')),
           domain_map := (domain_map s')(nameStr \<mapsto> length (ds_objects s'))\<rparr>))))"

text \<open>An access through \<open>currentKernel\<close>.\<close>

definition current_object :: "'i domain_state \<Rightarrow> (nat \<Rightarrow> 'i \<Rightarrow> 'a outcome) \<Rightarrow> 'a outcome" where
  "current_object s f = (case currentKernel s of
     Some p \<Rightarrow> (if p < length (ds_objects s) then f p (ds_objects s ! p) else Inl (Undefined ''no such object''))
   | None \<Rightarrow> Inl (Undefined ''currentKernel is null''))"

section \<open>NVTX focused\<close>

record NVTXInfo =
  ni_domainNameHandle :: string
  ni_currentRange :: u64
  ni_domain :: u64

type_synonym nvtxf_state = "NVTXInfo domain_state"

definition newNVTXInfo :: "u64 \<Rightarrow> string \<Rightarrow> KernelExecutionType \<Rightarrow> nvtxf_state \<Rightarrow> (NVTXInfo \<times> nvtxf_state) outcome" where
  "newNVTXInfo h kName kernelType s = Inr (\<lparr>ni_domainNameHandle = kName, ni_currentRange = 0, ni_domain = h\<rparr>,
     ds_emit [DDomain_create (domain_name kernelType kName) h] s)"

definition startRange :: "u64 \<Rightarrow> nvtxf_state \<Rightarrow> nvtxf_state outcome" where
  "startRange rid s = current_object s (\<lambda>p i. Inr (ds_emit [DRange_start (ni_domain i) ''my range'' rid]
     (s\<lparr>ds_objects := (ds_objects s)[p := i\<lparr>ni_currentRange := rid\<rparr>]\<rparr>)))"

definition endRange :: "nvtxf_state \<Rightarrow> nvtxf_state outcome" where
  "endRange s = current_object s (\<lambda>p i. Inr (ds_emit [DRange_end (ni_domain i) (ni_currentRange i)] s))"

definition nvtxf_request_tool_settings :: "nvtxf_state \<Rightarrow> ToolSettings \<Rightarrow> ToolSettings" where
  "nvtxf_request_tool_settings s settings =
     (let settings = settings\<lparr>requires_global_fencing := True\<rparr> in
      if ds_globfences s then settings\<lparr>requires_global_fencing := True\<rparr>
      else settings\<lparr>requires_global_fencing := False\<rparr>)"

definition nvtxf_init_library :: "string option \<Rightarrow> int \<Rightarrow> u64 \<Rightarrow> nvtxf_state \<Rightarrow> nvtxf_state" where
  "nvtxf_init_library env loadSeq interfaceVer s =
     (let s = ds_print [ds_rule, ''KokkosP: NVTX Analyzer Focused Connector (sequence is '' @ dec_int loadSeq
        @ '', version: '' @ dec_nat (unat interfaceVer) @ '')'', ds_rule] s;
          s = (case env of Some v \<Rightarrow> s\<lparr>ds_globfences := (atoi v \<noteq> 0)\<rparr> | None \<Rightarrow> s\<lparr>ds_globfences := True\<rparr>)
      in (ds_emit [DName_thread ''Application Main Thread'', DMark ''Kokkos::Initialization Complete''] s)
           \<lparr>nextKernelID := 0\<rparr>)"

definition nvtxf_getFocusedConnectorInfo ::
  "u64 \<Rightarrow> string option \<Rightarrow> KernelExecutionType \<Rightarrow> nvtxf_state \<Rightarrow> nvtxf_state outcome" where
  "nvtxf_getFocusedConnectorInfo h = find_info (newNVTXInfo h)"

definition nvtxf_ExecuteStart :: "u64 \<Rightarrow> nvtxf_state \<Rightarrow> nvtxf_state outcome" where
  "nvtxf_ExecuteStart rid s = startRange rid (ds_emit [DProfiler_start] s)"

definition nvtxf_ExecuteEnd :: "nvtxf_state \<Rightarrow> nvtxf_state outcome" where
  "nvtxf_ExecuteEnd s = obind (endRange s) (\<lambda>s. Inr ((ds_emit [DProfiler_stop] s)\<lparr>currentKernel := None\<rparr>))"

definition nvtxf_finalize_library :: "nvtxf_state \<Rightarrow> nvtxf_state" where
  "nvtxf_finalize_library = ds_print [ds_rule,
     ''KokkosP: Finalization of NVTX Analyzer Focused Connector. Complete.'', ds_rule]"

text \<open>
  The begin callbacks differ in the execution type, the end callbacks are the same. \<open>h\<close> is the handle
  of the domain if one is created, \<open>rid\<close> that of the range.
\<close>

definition nvtxf_begin_parallel ::
  "pkind \<Rightarrow> u64 \<Rightarrow> u64 \<Rightarrow> string option \<Rightarrow> u32 \<Rightarrow> nvtxf_state \<Rightarrow> (u64 \<times> nvtxf_state) outcome" where
  "nvtxf_begin_parallel k h rid name devID s =
     (let kID = nextKernelID s; s = s\<lparr>nextKernelID := nextKernelID s + 1\<rparr> in
      obind (nvtxf_getFocusedConnectorInfo h name (execution_type k) s) (\<lambda>s.
      obind (nvtxf_ExecuteStart rid s) (\<lambda>s. Inr (kID, s))))"

definition nvtxf_end_parallel :: "pkind \<Rightarrow> u64 \<Rightarrow> nvtxf_state \<Rightarrow> nvtxf_state outcome" where
  "nvtxf_end_parallel k kID = nvtxf_ExecuteEnd"

section \<open>VTune and VTune focused\<close>

record VTuneInfo =
  vi_domain :: u64
  vi_domainNameHandle :: u64

type_synonym vtune_state = "VTuneInfo domain_state"

text \<open>\<open>domain->flags\<close> is set through the pointer the library returned.\<close>

definition newVTuneInfo ::
  "u64 \<Rightarrow> u64 \<Rightarrow> string \<Rightarrow> KernelExecutionType \<Rightarrow> vtune_state \<Rightarrow> (VTuneInfo \<times> vtune_state) outcome" where
  "newVTuneInfo h sh kName kernelType s =
     (let s = ds_emit [DDomain_create (domain_name kernelType kName) h,
        DString_handle_create (domain_name kernelType kName)] s in
      if h = 0 then Inl (Undefined ''the domain is null'')
      else Inr (\<lparr>vi_domain = h, vi_domainNameHandle = sh\<rparr>, ds_emit [DFlags h 1] s))"

definition vtune_init_library :: "int \<Rightarrow> u64 \<Rightarrow> vtune_state \<Rightarrow> vtune_state" where
  "vtune_init_library loadSeq interfaceVer s =
     ds_emit [DEvent_create ''Kokkos Initialization Complete'', DEvent_start ''Kokkos Initialization Complete'']
       ((ds_print [ds_rule, ''KokkosP: VTune Analyzer Connector (sequence is '' @ dec_int loadSeq
          @ '', version: '' @ dec_nat (unat interfaceVer) @ '')'', ds_rule] s)\<lparr>nextKernelID := 0\<rparr>)"

definition vtune_finalize_library :: "vtune_state \<Rightarrow> vtune_state" where
  "vtune_finalize_library s =
     ds_emit [DEvent_create ''Kokkos Finalize Complete'', DEvent_start ''Kokkos Finalize Complete'']
       (ds_print [ds_rule, ''KokkosP: Finalization of VTune Connector. Complete.'', ds_rule] s)"

definition frame_begin :: "vtune_state \<Rightarrow> vtune_state outcome" where
  "frame_begin s = current_object s (\<lambda>p i. Inr (ds_emit [DFrame_begin (vi_domain i)] s))"

definition frame_end :: "vtune_state \<Rightarrow> vtune_state outcome" where
  "frame_end s = current_object s (\<lambda>p i. Inr (ds_emit [DFrame_end (vi_domain i)] s))"

definition vtune_begin_parallel ::
  "pkind \<Rightarrow> u64 \<Rightarrow> u64 \<Rightarrow> string option \<Rightarrow> u32 \<Rightarrow> vtune_state \<Rightarrow> (u64 \<times> vtune_state) outcome" where
  "vtune_begin_parallel k h sh name devID s =
     (let kID = nextKernelID s; s = s\<lparr>nextKernelID := nextKernelID s + 1\<rparr> in
      obind (find_info (newVTuneInfo h sh) name (execution_type k) s) (\<lambda>s.
      obind (frame_begin s) (\<lambda>s. Inr (kID, s))))"

definition vtune_end_parallel :: "pkind \<Rightarrow> u64 \<Rightarrow> vtune_state \<Rightarrow> vtune_state outcome" where
  "vtune_end_parallel k kID s = obind (frame_end s) (\<lambda>s. Inr (s\<lparr>currentKernel := None\<rparr>))"

definition vtunef_init_library :: "int \<Rightarrow> u64 \<Rightarrow> vtune_state \<Rightarrow> vtune_state" where
  "vtunef_init_library loadSeq interfaceVer s =
     ds_emit [DPause]
       ((ds_print [ds_rule, ''KokkosP: VTune Analyzer Connector (sequence is '' @ dec_int loadSeq
          @ '', version: '' @ dec_nat (unat interfaceVer) @ '')'', ds_rule] s)\<lparr>nextKernelID := 0\<rparr>)"

definition newVTuneFocusedInfo ::
  "u64 \<Rightarrow> u64 \<Rightarrow> string \<Rightarrow> KernelExecutionType \<Rightarrow> vtune_state \<Rightarrow> (VTuneInfo \<times> vtune_state) outcome" where
  "newVTuneFocusedInfo h sh kName kernelType s =
     (let s = ds_emit [DDomain_create (domain_name kernelType kName) h,
        DString_handle_create (domain_name kernelType kName)] s in
      if h = 0 then Inl (Undefined ''the domain is null'')
      else Inr (\<lparr>vi_domain = h, vi_domainNameHandle = sh\<rparr>, ds_emit [DFlags h 1] s))"

definition vtunef_getFocusedConnectorInfo ::
  "u64 \<Rightarrow> u64 \<Rightarrow> string option \<Rightarrow> KernelExecutionType \<Rightarrow> vtune_state \<Rightarrow> vtune_state outcome" where
  "vtunef_getFocusedConnectorInfo h sh = find_info (newVTuneFocusedInfo h sh)"

definition vtunef_ExecuteStart :: "vtune_state \<Rightarrow> vtune_state outcome" where
  "vtunef_ExecuteStart s = frame_begin (ds_emit [DResume] s)"

definition vtunef_ExecuteEnd :: "vtune_state \<Rightarrow> vtune_state outcome" where
  "vtunef_ExecuteEnd s = obind (frame_end s) (\<lambda>s. Inr ((ds_emit [DPause] s)\<lparr>currentKernel := None\<rparr>))"

definition vtunef_finalize_library :: "vtune_state \<Rightarrow> vtune_state" where
  "vtunef_finalize_library s = ds_emit [DDetach]
     (ds_print [ds_rule, ''KokkosP: Finalization of VTune Connector. Complete.'', ds_rule] s)"

definition vtunef_begin_parallel ::
  "pkind \<Rightarrow> u64 \<Rightarrow> u64 \<Rightarrow> string option \<Rightarrow> u32 \<Rightarrow> vtune_state \<Rightarrow> (u64 \<times> vtune_state) outcome" where
  "vtunef_begin_parallel k h sh name devID s =
     (let kID = nextKernelID s; s = s\<lparr>nextKernelID := nextKernelID s + 1\<rparr> in
      obind (vtunef_getFocusedConnectorInfo h sh name (execution_type k) s) (\<lambda>s.
      obind (vtunef_ExecuteStart s) (\<lambda>s. Inr (kID, s))))"

definition vtunef_end_parallel :: "pkind \<Rightarrow> u64 \<Rightarrow> vtune_state \<Rightarrow> vtune_state outcome" where
  "vtunef_end_parallel k kID = vtunef_ExecuteEnd"

section \<open>What the connectors have in common\<close>

text \<open>The map and the pointer lead to objects that exist.\<close>

definition ds_ok :: "'i domain_state \<Rightarrow> bool" where
  "ds_ok s \<longleftrightarrow> (\<forall>n p. domain_map s n = Some p \<longrightarrow> p < length (ds_objects s)) \<and>
     (\<forall>p. currentKernel s = Some p \<longrightarrow> p < length (ds_objects s))"

text \<open>The domain each name has.\<close>

definition domains :: "('i \<Rightarrow> u64) \<Rightarrow> 'i domain_state \<Rightarrow> string \<rightharpoonup> u64" where
  "domains f s n = map_option (\<lambda>p. f (ds_objects s ! p)) (domain_map s n)"

definition domain_for :: "(string \<rightharpoonup> u64) \<Rightarrow> string \<Rightarrow> u64 \<Rightarrow> u64" where
  "domain_for m n h = (case m n of None \<Rightarrow> h | Some d \<Rightarrow> d)"

datatype kernel_event = KBegin pkind u64 u64 "string option" u32 | KEnd pkind u64

text \<open>Each end comes right after a begin.\<close>

fun paired :: "bool \<Rightarrow> kernel_event list \<Rightarrow> bool" where
  "paired r [] = True"
| "paired r (KBegin k h x n d # es) = paired True es"
| "paired r (KEnd k i # es) = (r \<and> paired False es)"

fun named_begin :: "(u64 \<Rightarrow> bool) \<Rightarrow> kernel_event \<Rightarrow> bool" where
  "named_begin good (KBegin k h x n d) = (n \<noteq> None \<and> good h)"
| "named_begin good (KEnd k i) = True"

text \<open>
  Kernels run one after the other, as (kind, name, handle of a new domain, second handle, device, identifier), and
  the calls they make: the domain of a name is created, with what that takes (\<open>prep\<close>), under the kind its
  first kernel has.
\<close>

type_synonym kernel_run = "pkind \<times> string \<times> u64 \<times> u64 \<times> u32 \<times> u64"

fun kernel_calls ::
  "(string \<Rightarrow> u64 \<Rightarrow> domain_call list) \<Rightarrow> (u64 \<Rightarrow> u64 \<Rightarrow> domain_call list) \<Rightarrow> (string \<rightharpoonup> u64) \<Rightarrow> kernel_run list \<Rightarrow>
    domain_call list" where
  "kernel_calls prep body m [] = []"
| "kernel_calls prep body m ((k, n, h, x, dev, i) # ks) =
     (if m n = None then prep (domain_name (execution_type k) n) h else []) @ body (domain_for m n h) x
       @ kernel_calls prep body (m(n \<mapsto> domain_for m n h)) ks"

fun kernel_events :: "kernel_run \<Rightarrow> kernel_event list" where
  "kernel_events (k, n, h, x, dev, i) = [KBegin k h x (Some n) dev, KEnd k i]"

fun new_handle :: "kernel_run \<Rightarrow> u64" where
  "new_handle (k, n, h, x, dev, i) = h"

text \<open>
  The contract: a begin creates the domain if the name has none, makes the calls of \<open>enter\<close>, leaves
  \<open>currentKernel\<close> on the name's object and hands out the next identifier; an end makes the calls of
  \<open>leave\<close> and clears the pointer, or reads through it when it is null.
\<close>

locale domain_tool =
  fixes begin_kernel :: "pkind \<Rightarrow> u64 \<Rightarrow> u64 \<Rightarrow> string option \<Rightarrow> u32 \<Rightarrow> 'i domain_state \<Rightarrow> (u64 \<times> 'i domain_state) outcome"
    and end_kernel :: "pkind \<Rightarrow> u64 \<Rightarrow> 'i domain_state \<Rightarrow> 'i domain_state outcome"
    and dom_of :: "'i \<Rightarrow> u64"
    and good :: "u64 \<Rightarrow> bool"
    and prep :: "string \<Rightarrow> u64 \<Rightarrow> domain_call list"
    and enter :: "u64 \<Rightarrow> u64 \<Rightarrow> domain_call list"
    and leave :: "u64 \<Rightarrow> u64 \<Rightarrow> domain_call list"
    and leave_object :: "'i \<Rightarrow> domain_call list"
  assumes begin_law: "ds_ok s \<Longrightarrow> good h \<Longrightarrow> \<exists>s' p. begin_kernel k h x (Some n) dev s = Inr (nextKernelID s, s')
      \<and> ds_ok s' \<and> nextKernelID s' = nextKernelID s + 1 \<and> currentKernel s' = Some p
      \<and> leave_object (ds_objects s' ! p) = leave (domain_for (domains dom_of s) n h) x
      \<and> domains dom_of s' = (domains dom_of s)(n \<mapsto> domain_for (domains dom_of s) n h)
      \<and> ds_calls s' = ds_calls s @ (if domains dom_of s n = None then prep (domain_name (execution_type k) n) h else [])
          @ enter (domain_for (domains dom_of s) n h) x"
    and end_law: "ds_ok s \<Longrightarrow> currentKernel s = Some p \<Longrightarrow> \<exists>s'. end_kernel k i s = Inr s' \<and> ds_ok s'
      \<and> nextKernelID s' = nextKernelID s \<and> currentKernel s' = None \<and> domains dom_of s' = domains dom_of s
      \<and> ds_calls s' = ds_calls s @ leave_object (ds_objects s ! p)"
    and end_null: "currentKernel s = None \<Longrightarrow> end_kernel k i s = Inl (Undefined ''currentKernel is null'')"
begin

fun dt_step :: "'i domain_state \<Rightarrow> kernel_event \<Rightarrow> 'i domain_state outcome" where
  "dt_step s (KBegin k h x n dev) = obind (begin_kernel k h x n dev s) (\<lambda>(i, s'). Inr s')"
| "dt_step s (KEnd k i) = end_kernel k i s"

lemma returns_iff_paired:
  "ds_ok s \<Longrightarrow> \<forall>e \<in> set es. named_begin good e \<Longrightarrow>
    returns (run_events dt_step s es) \<longleftrightarrow> paired (currentKernel s \<noteq> None) es"
proof (induction es arbitrary: s)
  case (Cons e es)
  show ?case
  proof (cases e)
    case (KBegin k h x n dev)
    with Cons.prems obtain m where n: "n = Some m" and h: "good h" by auto
    from begin_law [OF Cons.prems(1) h] obtain s' p where
      "begin_kernel k h x (Some m) dev s = Inr (nextKernelID s, s')" "ds_ok s'" "currentKernel s' = Some p" by blast
    with Cons.IH [of s'] Cons.prems(2) KBegin n show ?thesis by simp
  next
    case (KEnd k i)
    show ?thesis
    proof (cases "currentKernel s")
      case None
      with end_null KEnd show ?thesis by simp
    next
      case (Some p)
      from end_law [OF Cons.prems(1) Some] obtain s' where
        "end_kernel k i s = Inr s'" "ds_ok s'" "currentKernel s' = None" by blast
      with Cons.IH [of s'] Cons.prems(2) KEnd Some show ?thesis by simp
    qed
  qed
qed simp

lemma kernel_law:
  assumes "ds_ok s" and "good h"
  shows "\<exists>s'. run_events dt_step s (kernel_events (k, n, h, x, dev, i)) = Inr s' \<and> ds_ok s'
    \<and> nextKernelID s' = nextKernelID s + 1 \<and> currentKernel s' = None
    \<and> domains dom_of s' = (domains dom_of s)(n \<mapsto> domain_for (domains dom_of s) n h)
    \<and> ds_calls s' = ds_calls s @ (if domains dom_of s n = None then prep (domain_name (execution_type k) n) h else [])
        @ enter (domain_for (domains dom_of s) n h) x @ leave (domain_for (domains dom_of s) n h) x"
proof -
  from begin_law [OF assms] obtain s1 p where s1: "begin_kernel k h x (Some n) dev s = Inr (nextKernelID s, s1)"
    and ok: "ds_ok s1" and p: "currentKernel s1 = Some p" and r: "nextKernelID s1 = nextKernelID s + 1"
      "leave_object (ds_objects s1 ! p) = leave (domain_for (domains dom_of s) n h) x"
      "domains dom_of s1 = (domains dom_of s)(n \<mapsto> domain_for (domains dom_of s) n h)"
      "ds_calls s1 = ds_calls s @ (if domains dom_of s n = None then prep (domain_name (execution_type k) n) h else [])
          @ enter (domain_for (domains dom_of s) n h) x" by blast
  from end_law [OF ok p, of k i] obtain s2 where "end_kernel k i s1 = Inr s2" "ds_ok s2" "currentKernel s2 = None"
    "nextKernelID s2 = nextKernelID s1" "domains dom_of s2 = domains dom_of s1"
    "ds_calls s2 = ds_calls s1 @ leave_object (ds_objects s1 ! p)" by blast
  with s1 r show ?thesis by (intro exI [of _ s2]) simp
qed

lemma kernels_calls:
  "ds_ok s \<Longrightarrow> \<forall>c \<in> set ks. good (new_handle c) \<Longrightarrow>
    \<exists>s'. run_events dt_step s (concat (map kernel_events ks)) = Inr s'
      \<and> nextKernelID s' = nextKernelID s + of_nat (length ks)
      \<and> ds_calls s' = ds_calls s @ kernel_calls prep (\<lambda>d x. enter d x @ leave d x) (domains dom_of s) ks"
proof (induction ks arbitrary: s)
  case (Cons c ks)
  obtain k n h x dev i where c: "c = (k, n, h, x, dev, i)" by (cases c)
  with Cons.prems have h: "good h" by auto
  from kernel_law [OF Cons.prems(1) h, of k n x dev i] obtain s1 where
    s1: "run_events dt_step s (kernel_events c) = Inr s1" and ok: "ds_ok s1"
    and r: "nextKernelID s1 = nextKernelID s + 1"
      "domains dom_of s1 = (domains dom_of s)(n \<mapsto> domain_for (domains dom_of s) n h)"
      "ds_calls s1 = ds_calls s @ (if domains dom_of s n = None then prep (domain_name (execution_type k) n) h else [])
        @ enter (domain_for (domains dom_of s) n h) x @ leave (domain_for (domains dom_of s) n h) x"
    unfolding c by blast
  from Cons.prems(2) have "\<forall>c \<in> set ks. good (new_handle c)" by simp
  from Cons.IH [OF ok this] obtain s' where s': "run_events dt_step s1 (concat (map kernel_events ks)) = Inr s'"
    "nextKernelID s' = nextKernelID s1 + of_nat (length ks)"
    "ds_calls s' = ds_calls s1 @ kernel_calls prep (\<lambda>d x. enter d x @ leave d x) (domains dom_of s1) ks" by blast
  have "run_events dt_step s (concat (map kernel_events (c # ks))) = Inr s'"
    using s1 s'(1) by (simp add: run_events_append)
  with s'(2,3) r c show ?case by auto
qed simp

end

lemma ds_simps [simp]:
  "ds_calls (ds_emit cs s) = ds_calls s @ cs" "ds_objects (ds_emit cs s) = ds_objects s"
  "domain_map (ds_emit cs s) = domain_map s" "currentKernel (ds_emit cs s) = currentKernel s"
  "nextKernelID (ds_emit cs s) = nextKernelID s"
  by (simp_all add: ds_emit_def)

lemmas ds_step_defs = find_info_def current_object_def ds_ok_def domains_def domain_for_def Let_def

lemmas nvtxf_defs = nvtxf_begin_parallel_def nvtxf_end_parallel_def nvtxf_getFocusedConnectorInfo_def
  nvtxf_ExecuteStart_def nvtxf_ExecuteEnd_def startRange_def endRange_def newNVTXInfo_def

lemmas vtune_defs = vtune_begin_parallel_def vtune_end_parallel_def vtunef_begin_parallel_def vtunef_end_parallel_def
  vtunef_getFocusedConnectorInfo_def vtunef_ExecuteStart_def vtunef_ExecuteEnd_def newVTuneInfo_def newVTuneFocusedInfo_def
  frame_begin_def frame_end_def

definition nvtxf_prep :: "string \<Rightarrow> u64 \<Rightarrow> domain_call list" where
  "nvtxf_prep n h = [DDomain_create n h]"

definition nvtxf_enter :: "u64 \<Rightarrow> u64 \<Rightarrow> domain_call list" where
  "nvtxf_enter d x = [DProfiler_start, DRange_start d ''my range'' x]"

definition nvtxf_leave :: "u64 \<Rightarrow> u64 \<Rightarrow> domain_call list" where
  "nvtxf_leave d x = [DRange_end d x, DProfiler_stop]"

definition vtune_prep :: "string \<Rightarrow> u64 \<Rightarrow> domain_call list" where
  "vtune_prep n h = [DDomain_create n h, DString_handle_create n, DFlags h 1]"

definition vtune_enter :: "u64 \<Rightarrow> u64 \<Rightarrow> domain_call list" where
  "vtune_enter d x = [DFrame_begin d]"

definition vtune_leave :: "u64 \<Rightarrow> u64 \<Rightarrow> domain_call list" where
  "vtune_leave d x = [DFrame_end d]"

definition vtunef_enter :: "u64 \<Rightarrow> u64 \<Rightarrow> domain_call list" where
  "vtunef_enter d x = [DResume, DFrame_begin d]"

definition vtunef_leave :: "u64 \<Rightarrow> u64 \<Rightarrow> domain_call list" where
  "vtunef_leave d x = [DFrame_end d, DPause]"

lemmas trace_defs = nvtxf_prep_def nvtxf_enter_def nvtxf_leave_def vtune_prep_def vtune_enter_def vtune_leave_def
  vtunef_enter_def vtunef_leave_def

interpretation nf: domain_tool nvtxf_begin_parallel nvtxf_end_parallel ni_domain "\<lambda>h. True"
  nvtxf_prep nvtxf_enter nvtxf_leave "\<lambda>i. nvtxf_leave (ni_domain i) (ni_currentRange i)"
proof
  fix s :: nvtxf_state and h x :: u64 and k n dev
  assume ok: "ds_ok s"
  show "\<exists>s' p. nvtxf_begin_parallel k h x (Some n) dev s = Inr (nextKernelID s, s')
      \<and> ds_ok s' \<and> nextKernelID s' = nextKernelID s + 1 \<and> currentKernel s' = Some p
      \<and> nvtxf_leave (ni_domain (ds_objects s' ! p)) (ni_currentRange (ds_objects s' ! p))
          = nvtxf_leave (domain_for (domains ni_domain s) n h) x
      \<and> domains ni_domain s' = (domains ni_domain s)(n \<mapsto> domain_for (domains ni_domain s) n h)
      \<and> ds_calls s' = ds_calls s
          @ (if domains ni_domain s n = None then nvtxf_prep (domain_name (execution_type k) n) h else [])
          @ nvtxf_enter (domain_for (domains ni_domain s) n h) x"
  proof (cases "domain_map s n")
    case None
    with ok show ?thesis
      by (auto simp: nvtxf_defs ds_step_defs trace_defs fun_eq_iff nth_append less_Suc_eq nth_list_update
          intro!: option.map_cong)
  next
    case (Some p)
    with ok have "p < length (ds_objects s)" by (auto simp: ds_ok_def)
    with ok Some show ?thesis
      by (auto simp: nvtxf_defs ds_step_defs trace_defs fun_eq_iff nth_list_update
          intro!: option.map_cong)
  qed
next
  fix s :: nvtxf_state and p k i
  assume ok: "ds_ok s" and p: "currentKernel s = Some p"
  then have "p < length (ds_objects s)" by (auto simp: ds_ok_def)
  with ok p show "\<exists>s'. nvtxf_end_parallel k i s = Inr s' \<and> ds_ok s'
      \<and> nextKernelID s' = nextKernelID s \<and> currentKernel s' = None \<and> domains ni_domain s' = domains ni_domain s
      \<and> ds_calls s' = ds_calls s @ nvtxf_leave (ni_domain (ds_objects s ! p)) (ni_currentRange (ds_objects s ! p))"
    by (auto simp: nvtxf_defs ds_step_defs trace_defs fun_eq_iff)
qed (simp add: nvtxf_defs current_object_def)

interpretation vt: domain_tool vtune_begin_parallel vtune_end_parallel vi_domain "\<lambda>h. h \<noteq> 0"
  vtune_prep vtune_enter vtune_leave "\<lambda>i. vtune_leave (vi_domain i) 0"
proof
  fix s :: vtune_state and h x :: u64 and k n dev
  assume ok: "ds_ok s" and h: "h \<noteq> 0"
  show "\<exists>s' p. vtune_begin_parallel k h x (Some n) dev s = Inr (nextKernelID s, s')
      \<and> ds_ok s' \<and> nextKernelID s' = nextKernelID s + 1 \<and> currentKernel s' = Some p
      \<and> vtune_leave (vi_domain (ds_objects s' ! p)) 0 = vtune_leave (domain_for (domains vi_domain s) n h) x
      \<and> domains vi_domain s' = (domains vi_domain s)(n \<mapsto> domain_for (domains vi_domain s) n h)
      \<and> ds_calls s' = ds_calls s
          @ (if domains vi_domain s n = None then vtune_prep (domain_name (execution_type k) n) h else [])
          @ vtune_enter (domain_for (domains vi_domain s) n h) x"
  proof (cases "domain_map s n")
    case None
    with ok h show ?thesis
      by (auto simp: vtune_defs ds_step_defs trace_defs fun_eq_iff nth_append less_Suc_eq
          intro!: option.map_cong)
  next
    case (Some p)
    with ok have "p < length (ds_objects s)" by (auto simp: ds_ok_def)
    with ok Some show ?thesis by (auto simp: vtune_defs ds_step_defs trace_defs fun_eq_iff)
  qed
next
  fix s :: vtune_state and p k i
  assume ok: "ds_ok s" and p: "currentKernel s = Some p"
  then have "p < length (ds_objects s)" by (auto simp: ds_ok_def)
  with ok p show "\<exists>s'. vtune_end_parallel k i s = Inr s' \<and> ds_ok s'
      \<and> nextKernelID s' = nextKernelID s \<and> currentKernel s' = None \<and> domains vi_domain s' = domains vi_domain s
      \<and> ds_calls s' = ds_calls s @ vtune_leave (vi_domain (ds_objects s ! p)) 0"
    by (auto simp: vtune_defs ds_step_defs trace_defs fun_eq_iff)
qed (simp add: vtune_defs current_object_def)

interpretation vf: domain_tool vtunef_begin_parallel vtunef_end_parallel vi_domain "\<lambda>h. h \<noteq> 0"
  vtune_prep vtunef_enter vtunef_leave "\<lambda>i. vtunef_leave (vi_domain i) 0"
proof
  fix s :: vtune_state and h x :: u64 and k n dev
  assume ok: "ds_ok s" and h: "h \<noteq> 0"
  show "\<exists>s' p. vtunef_begin_parallel k h x (Some n) dev s = Inr (nextKernelID s, s')
      \<and> ds_ok s' \<and> nextKernelID s' = nextKernelID s + 1 \<and> currentKernel s' = Some p
      \<and> vtunef_leave (vi_domain (ds_objects s' ! p)) 0 = vtunef_leave (domain_for (domains vi_domain s) n h) x
      \<and> domains vi_domain s' = (domains vi_domain s)(n \<mapsto> domain_for (domains vi_domain s) n h)
      \<and> ds_calls s' = ds_calls s
          @ (if domains vi_domain s n = None then vtune_prep (domain_name (execution_type k) n) h else [])
          @ vtunef_enter (domain_for (domains vi_domain s) n h) x"
  proof (cases "domain_map s n")
    case None
    with ok h show ?thesis
      by (auto simp: vtune_defs ds_step_defs trace_defs fun_eq_iff nth_append less_Suc_eq
          intro!: option.map_cong)
  next
    case (Some p)
    with ok have "p < length (ds_objects s)" by (auto simp: ds_ok_def)
    with ok Some show ?thesis by (auto simp: vtune_defs ds_step_defs trace_defs fun_eq_iff)
  qed
next
  fix s :: vtune_state and p k i
  assume ok: "ds_ok s" and p: "currentKernel s = Some p"
  then have "p < length (ds_objects s)" by (auto simp: ds_ok_def)
  with ok p show "\<exists>s'. vtunef_end_parallel k i s = Inr s' \<and> ds_ok s'
      \<and> nextKernelID s' = nextKernelID s \<and> currentKernel s' = None \<and> domains vi_domain s' = domains vi_domain s
      \<and> ds_calls s' = ds_calls s @ vtunef_leave (vi_domain (ds_objects s ! p)) 0"
    by (auto simp: vtune_defs ds_step_defs trace_defs fun_eq_iff)
qed (simp add: vtune_defs current_object_def)

section \<open>Runs\<close>

fun nvtxf_next :: "nvtxf_state \<Rightarrow> kernel_event \<Rightarrow> nvtxf_state outcome" where
  "nvtxf_next s (KBegin k h rid name devID) = obind (nvtxf_begin_parallel k h rid name devID s) (\<lambda>(i, s'). Inr s')"
| "nvtxf_next s (KEnd k kID) = nvtxf_end_parallel k kID s"

fun vtune_next :: "vtune_state \<Rightarrow> kernel_event \<Rightarrow> vtune_state outcome" where
  "vtune_next s (KBegin k h sh name devID) = obind (vtune_begin_parallel k h sh name devID s) (\<lambda>(i, s'). Inr s')"
| "vtune_next s (KEnd k kID) = vtune_end_parallel k kID s"

fun vtunef_next :: "vtune_state \<Rightarrow> kernel_event \<Rightarrow> vtune_state outcome" where
  "vtunef_next s (KBegin k h sh name devID) = obind (vtunef_begin_parallel k h sh name devID s) (\<lambda>(i, s'). Inr s')"
| "vtunef_next s (KEnd k kID) = vtunef_end_parallel k kID s"

lemma next_steps: "nvtxf_next = nf.dt_step" "vtune_next = vt.dt_step" "vtunef_next = vf.dt_step"
proof -
  have "nvtxf_next s e = nf.dt_step s e" for s e by (cases e) simp_all
  then show "nvtxf_next = nf.dt_step" by blast
  have "vtune_next s e = vt.dt_step s e" for s e by (cases e) simp_all
  then show "vtune_next = vt.dt_step" by blast
  have "vtunef_next s e = vf.dt_step s e" for s e by (cases e) simp_all
  then show "vtunef_next = vf.dt_step" by blast
qed

lemma domain_initial_ok: "ds_ok domain_initial" "currentKernel domain_initial = None"
    "nextKernelID domain_initial = 0" "ds_calls domain_initial = []" "domains f domain_initial = Map.empty"
  by (simp_all add: ds_ok_def domain_initial_def domains_def fun_eq_iff)

text \<open>
  C25. The NVTX focused, the VTune and the VTune focused connector keep one kernel at a time: a run of
  named kernels (whose domains the library can create) returns exactly when every end comes directly after
  a begin. The second end of two nested or overlapping kernels reads through a null pointer, and so
  does an end without a begin.
\<close>

theorem domain_tools_return_iff_paired:
  assumes "\<forall>e \<in> set es. named_begin (\<lambda>h. h \<noteq> 0) e"
  shows "(returns (run_events nvtxf_next domain_initial es) \<longleftrightarrow> paired False es)
    \<and> (returns (run_events vtune_next domain_initial es) \<longleftrightarrow> paired False es)
    \<and> (returns (run_events vtunef_next domain_initial es) \<longleftrightarrow> paired False es)"
proof -
  have "named_begin (\<lambda>h. h \<noteq> 0) e \<Longrightarrow> named_begin (\<lambda>h. True) e" for e by (cases e) simp_all
  with assms have "\<forall>e \<in> set es. named_begin (\<lambda>h. True) e" by blast
  from nf.returns_iff_paired [OF domain_initial_ok(1) this]
    vt.returns_iff_paired [OF domain_initial_ok(1) assms] vf.returns_iff_paired [OF domain_initial_ok(1) assms]
  show ?thesis by (simp add: next_steps domain_initial_ok)
qed

theorem domain_tools_return_iff_paired_witness:
  "\<not> returns (run_events nvtxf_next domain_initial
      [KBegin ParFor 1 2 (Some ''outer'') 0, KBegin ParFor 3 4 (Some ''inner'') 0, KEnd ParFor 1, KEnd ParFor 0])"
  by (subst domain_tools_return_iff_paired [THEN conjunct1]) simp_all

text \<open>
  C28. Kernels run one after the other: each connector makes the calls specified by \<open>kernel_calls\<close>, with
  the range or frame of every kernel opened and closed once in the domain of the kernel's name (and
  profiling switched on just around it by the focused ones), and numbers the kernels from 0. A name's domain is created once, and named
  after the kind its first kernel had: a kernel of another kind with that name is shown under the first one.
\<close>

theorem domain_tools_calls:
  assumes "\<forall>c \<in> set ks. new_handle c \<noteq> 0"
  shows "(\<exists>s. run_events nvtxf_next domain_initial (concat (map kernel_events ks)) = Inr s
      \<and> nextKernelID s = of_nat (length ks) \<and> ds_calls s = kernel_calls (\<lambda>n h. [DDomain_create n h])
        (\<lambda>d rid. [DProfiler_start, DRange_start d ''my range'' rid, DRange_end d rid, DProfiler_stop]) Map.empty ks)
    \<and> (\<exists>s. run_events vtune_next domain_initial (concat (map kernel_events ks)) = Inr s
      \<and> nextKernelID s = of_nat (length ks) \<and> ds_calls s = kernel_calls
        (\<lambda>n h. [DDomain_create n h, DString_handle_create n, DFlags h 1])
        (\<lambda>d sh. [DFrame_begin d, DFrame_end d]) Map.empty ks)
    \<and> (\<exists>s. run_events vtunef_next domain_initial (concat (map kernel_events ks)) = Inr s
      \<and> nextKernelID s = of_nat (length ks) \<and> ds_calls s = kernel_calls
        (\<lambda>n h. [DDomain_create n h, DString_handle_create n, DFlags h 1])
        (\<lambda>d sh. [DResume, DFrame_begin d, DFrame_end d, DPause]) Map.empty ks)"
proof -
  have "nvtxf_prep = (\<lambda>n h. [DDomain_create n h])"
    and "vtune_prep = (\<lambda>n h. [DDomain_create n h, DString_handle_create n, DFlags h 1])"
    by (simp_all add: trace_defs fun_eq_iff)
  then show ?thesis
    using nf.kernels_calls [OF domain_initial_ok(1), of ks] vt.kernels_calls [OF domain_initial_ok(1) assms]
      vf.kernels_calls [OF domain_initial_ok(1) assms]
    by (simp add: next_steps domain_initial_ok trace_defs)
qed

theorem domain_tools_calls_witness:
  "\<exists>s. run_events vtune_next domain_initial (concat (map kernel_events
      [(ParFor, ''k'', 5, 0, 0, 0), (ParReduce, ''k'', 6, 0, 0, 1)])) = Inr s
    \<and> ds_calls s = [DDomain_create ''ParallelFor.k'' 5, DString_handle_create ''ParallelFor.k'', DFlags 5 1,
        DFrame_begin 5, DFrame_end 5, DFrame_begin 5, DFrame_end 5]"
proof -
  let ?ks = "[(ParFor, ''k'', 5, 0, 0, 0), (ParReduce, ''k'', 6, 0, 0, 1)] :: kernel_run list"
  have "\<forall>c \<in> set ?ks. new_handle c \<noteq> 0" by simp
  from domain_tools_calls [OF this, THEN conjunct2, THEN conjunct1] obtain s where
    s: "run_events vtune_next domain_initial (concat (map kernel_events ?ks)) = Inr s" and
    c: "ds_calls s = kernel_calls (\<lambda>n h. [DDomain_create n h, DString_handle_create n, DFlags h 1])
        (\<lambda>d sh. [DFrame_begin d, DFrame_end d]) Map.empty ?ks" by blast
  from c have "ds_calls s = [DDomain_create ''ParallelFor.k'' 5, DString_handle_create ''ParallelFor.k'', DFlags 5 1,
        DFrame_begin 5, DFrame_end 5, DFrame_begin 5, DFrame_end 5]" by (simp add: domain_for_def)
  with s show ?thesis by blast
qed

end
