(* ===== verification/Systemtap_Connector.thy ===== *)
theory Systemtap_Connector
  imports Contracts Interface
begin

text \<open>
  The SystemTap connector, \<open>profiling/systemtap-connector/kp_systemtap_connector.cpp\<close>: every callback
  fires a probe if somebody listens to it. Who listens is asked of the generated header \<open>probes.h\<close>: the
  argument \<open>enabled\<close>, as it is at the time of the callback. The probes fired are kept as a list; a
  probe that is given a pointer is kept with the value there.
\<close>

datatype probe_name =
    BEGIN_PARALLEL pkind | END_PARALLEL pkind | INIT_LIBRARY | FINALIZE_LIBRARY
  | PUSH_PROFILE_REGION | POP_PROFILE_REGION | ALLOCATE_DATA | DEALLOCATE_DATA
  | BEGIN_DEEP_COPY | END_DEEP_COPY | CREATE_PROFILE_SECTION | START_PROFILE_SECTION
  | STOP_PROFILE_SECTION | DESTROY_PROFILE_SECTION | PROFILE_EVENT

datatype probe_arg = AInt int | AWord32 u32 | AWord64 u64 | AName "string option" | ASpace SpaceHandle

type_synonym probe = "probe_name \<times> probe_arg list"

record stap_state =
  next_kernid :: u64
  next_sec_id :: u32
  fired :: "probe list"

definition stap_initial :: stap_state where
  "stap_initial = \<lparr>next_kernid = 0, next_sec_id = 0, fired = []\<rparr>"

definition fire_if :: "bool \<Rightarrow> probe_name \<Rightarrow> probe_arg list \<Rightarrow> stap_state \<Rightarrow> stap_state" where
  "fire_if b p as s = (if b then s\<lparr>fired := fired s @ [(p, as)]\<rparr> else s)"

section \<open>Callbacks\<close>

definition st_begin_parallel_for ::
  "(probe_name \<Rightarrow> bool) \<Rightarrow> string option \<Rightarrow> u32 \<Rightarrow> stap_state \<Rightarrow> u64 \<times> stap_state" where
  "st_begin_parallel_for enabled name devid s =
     (let kernid = next_kernid s; s = s\<lparr>next_kernid := next_kernid s + 1\<rparr> in
      (kernid, fire_if (enabled (END_PARALLEL ParFor)) (BEGIN_PARALLEL ParFor)
         [AName name, AWord32 devid, AWord64 kernid] s))"

definition st_begin_parallel_scan ::
  "(probe_name \<Rightarrow> bool) \<Rightarrow> string option \<Rightarrow> u32 \<Rightarrow> stap_state \<Rightarrow> u64 \<times> stap_state" where
  "st_begin_parallel_scan enabled name devid s =
     (let kernid = next_kernid s; s = s\<lparr>next_kernid := next_kernid s + 1\<rparr> in
      (kernid, fire_if (enabled (BEGIN_PARALLEL ParScan)) (BEGIN_PARALLEL ParScan)
         [AName name, AWord32 devid, AWord64 kernid] s))"

definition st_begin_parallel_reduce ::
  "(probe_name \<Rightarrow> bool) \<Rightarrow> string option \<Rightarrow> u32 \<Rightarrow> stap_state \<Rightarrow> u64 \<times> stap_state" where
  "st_begin_parallel_reduce enabled name devid s =
     (let kernid = next_kernid s; s = s\<lparr>next_kernid := next_kernid s + 1\<rparr> in
      (kernid, fire_if (enabled (BEGIN_PARALLEL ParReduce)) (BEGIN_PARALLEL ParReduce)
         [AName name, AWord32 devid, AWord64 kernid] s))"

definition st_end_parallel_scan :: "(probe_name \<Rightarrow> bool) \<Rightarrow> u64 \<Rightarrow> stap_state \<Rightarrow> stap_state" where
  "st_end_parallel_scan enabled kernid = fire_if (enabled (END_PARALLEL ParScan)) (END_PARALLEL ParScan) [AWord64 kernid]"

definition st_end_parallel_for :: "(probe_name \<Rightarrow> bool) \<Rightarrow> u64 \<Rightarrow> stap_state \<Rightarrow> stap_state" where
  "st_end_parallel_for enabled kernid = fire_if (enabled (END_PARALLEL ParFor)) (END_PARALLEL ParFor) [AWord64 kernid]"

definition st_end_parallel_reduce :: "(probe_name \<Rightarrow> bool) \<Rightarrow> u64 \<Rightarrow> stap_state \<Rightarrow> stap_state" where
  "st_end_parallel_reduce enabled kernid =
     fire_if (enabled (END_PARALLEL ParReduce)) (END_PARALLEL ParReduce) [AWord64 kernid]"

definition st_init_library :: "(probe_name \<Rightarrow> bool) \<Rightarrow> int \<Rightarrow> u64 \<Rightarrow> u32 \<Rightarrow> u64 \<Rightarrow> stap_state \<Rightarrow> stap_state" where
  "st_init_library enabled loadseq version ndevinfos deviceinfos = fire_if (enabled INIT_LIBRARY) INIT_LIBRARY
     [AInt loadseq, AWord64 version, AWord32 ndevinfos, AWord64 deviceinfos]"

definition st_finalize_library :: "(probe_name \<Rightarrow> bool) \<Rightarrow> stap_state \<Rightarrow> stap_state" where
  "st_finalize_library enabled = fire_if (enabled FINALIZE_LIBRARY) FINALIZE_LIBRARY []"

definition st_push_profile_region :: "(probe_name \<Rightarrow> bool) \<Rightarrow> string option \<Rightarrow> stap_state \<Rightarrow> stap_state" where
  "st_push_profile_region enabled name = fire_if (enabled PUSH_PROFILE_REGION) PUSH_PROFILE_REGION [AName name]"

definition st_pop_profile_region :: "(probe_name \<Rightarrow> bool) \<Rightarrow> stap_state \<Rightarrow> stap_state" where
  "st_pop_profile_region enabled = fire_if (enabled POP_PROFILE_REGION) POP_PROFILE_REGION []"

definition st_allocate_data ::
  "(probe_name \<Rightarrow> bool) \<Rightarrow> SpaceHandle \<Rightarrow> string option \<Rightarrow> u64 \<Rightarrow> u64 \<Rightarrow> stap_state \<Rightarrow> stap_state" where
  "st_allocate_data enabled h name ptr n = fire_if (enabled ALLOCATE_DATA) ALLOCATE_DATA
     [ASpace h, AName name, AWord64 ptr, AWord64 n]"

definition st_deallocate_data ::
  "(probe_name \<Rightarrow> bool) \<Rightarrow> SpaceHandle \<Rightarrow> string option \<Rightarrow> u64 \<Rightarrow> u64 \<Rightarrow> stap_state \<Rightarrow> stap_state" where
  "st_deallocate_data enabled h name ptr n = fire_if (enabled DEALLOCATE_DATA) DEALLOCATE_DATA
     [ASpace h, AName name, AWord64 ptr, AWord64 n]"

definition st_begin_deep_copy :: "(probe_name \<Rightarrow> bool) \<Rightarrow> SpaceHandle \<Rightarrow> string option \<Rightarrow> u64 \<Rightarrow> SpaceHandle \<Rightarrow>
  string option \<Rightarrow> u64 \<Rightarrow> u64 \<Rightarrow> stap_state \<Rightarrow> stap_state" where
  "st_begin_deep_copy enabled dh dn dp sh sn sp n = fire_if (enabled BEGIN_DEEP_COPY) BEGIN_DEEP_COPY
     [ASpace dh, AName dn, AWord64 dp, ASpace sh, AName sn, AWord64 sp, AWord64 n]"

definition st_end_deep_copy :: "(probe_name \<Rightarrow> bool) \<Rightarrow> stap_state \<Rightarrow> stap_state" where
  "st_end_deep_copy enabled = fire_if (enabled END_DEEP_COPY) END_DEEP_COPY []"

definition st_create_profile_section :: "(probe_name \<Rightarrow> bool) \<Rightarrow> string option \<Rightarrow> stap_state \<Rightarrow> u32 \<times> stap_state" where
  "st_create_profile_section enabled name s =
     (let sec_id = next_sec_id s; s = s\<lparr>next_sec_id := next_sec_id s + 1\<rparr> in
      (sec_id, fire_if (enabled CREATE_PROFILE_SECTION) CREATE_PROFILE_SECTION [AName name, AWord32 sec_id] s))"

definition st_start_profile_section :: "(probe_name \<Rightarrow> bool) \<Rightarrow> u32 \<Rightarrow> stap_state \<Rightarrow> stap_state" where
  "st_start_profile_section enabled i = fire_if (enabled START_PROFILE_SECTION) START_PROFILE_SECTION [AWord32 i]"

definition st_stop_profile_section :: "(probe_name \<Rightarrow> bool) \<Rightarrow> u32 \<Rightarrow> stap_state \<Rightarrow> stap_state" where
  "st_stop_profile_section enabled i = fire_if (enabled STOP_PROFILE_SECTION) STOP_PROFILE_SECTION [AWord32 i]"

definition st_destroy_profile_section :: "(probe_name \<Rightarrow> bool) \<Rightarrow> u32 \<Rightarrow> stap_state \<Rightarrow> stap_state" where
  "st_destroy_profile_section enabled i = fire_if (enabled DESTROY_PROFILE_SECTION) DESTROY_PROFILE_SECTION [AWord32 i]"

definition st_profile_event :: "(probe_name \<Rightarrow> bool) \<Rightarrow> string option \<Rightarrow> stap_state \<Rightarrow> stap_state" where
  "st_profile_event enabled name = fire_if (enabled PROFILE_EVENT) PROFILE_EVENT [AName name]"

section \<open>Runs\<close>

datatype stap_event =
    TInit int u64 u32 u64 | TFinalize
  | TBegin pkind "string option" u32 | TEnd pkind u64
  | TPush "string option" | TPop
  | TAllocate SpaceHandle "string option" u64 u64 | TDeallocate SpaceHandle "string option" u64 u64
  | TCopy SpaceHandle "string option" u64 SpaceHandle "string option" u64 u64 | TEndCopy
  | TCreate "string option" | TStart u32 | TStop u32 | TDestroy u32 | TEvent "string option"

fun st_begin_parallel :: "(probe_name \<Rightarrow> bool) \<Rightarrow> pkind \<Rightarrow> string option \<Rightarrow> u32 \<Rightarrow> stap_state \<Rightarrow> u64 \<times> stap_state" where
  "st_begin_parallel enabled ParFor = st_begin_parallel_for enabled"
| "st_begin_parallel enabled ParReduce = st_begin_parallel_reduce enabled"
| "st_begin_parallel enabled ParScan = st_begin_parallel_scan enabled"

fun st_end_parallel :: "(probe_name \<Rightarrow> bool) \<Rightarrow> pkind \<Rightarrow> u64 \<Rightarrow> stap_state \<Rightarrow> stap_state" where
  "st_end_parallel enabled ParFor = st_end_parallel_for enabled"
| "st_end_parallel enabled ParReduce = st_end_parallel_reduce enabled"
| "st_end_parallel enabled ParScan = st_end_parallel_scan enabled"

text \<open>A step: who listens, the callback, and the kernel identifier it hands out, if any.\<close>

fun st_next :: "stap_state \<Rightarrow> (probe_name \<Rightarrow> bool) \<times> stap_event \<Rightarrow> (stap_state \<times> u64 option) outcome" where
  "st_next s (en, TInit q v n p) = Inr (st_init_library en q v n p s, None)"
| "st_next s (en, TFinalize) = Inr (st_finalize_library en s, None)"
| "st_next s (en, TBegin k name devid) = (case st_begin_parallel en k name devid s of (i, s') \<Rightarrow> Inr (s', Some i))"
| "st_next s (en, TEnd k i) = Inr (st_end_parallel en k i s, None)"
| "st_next s (en, TPush name) = Inr (st_push_profile_region en name s, None)"
| "st_next s (en, TPop) = Inr (st_pop_profile_region en s, None)"
| "st_next s (en, TAllocate h l p n) = Inr (st_allocate_data en h l p n s, None)"
| "st_next s (en, TDeallocate h l p n) = Inr (st_deallocate_data en h l p n s, None)"
| "st_next s (en, TCopy dh dn dp sh sn sp n) = Inr (st_begin_deep_copy en dh dn dp sh sn sp n s, None)"
| "st_next s (en, TEndCopy) = Inr (st_end_deep_copy en s, None)"
| "st_next s (en, TCreate name) = (case st_create_profile_section en name s of (i, s') \<Rightarrow> Inr (s', None))"
| "st_next s (en, TStart i) = Inr (st_start_profile_section en i s, None)"
| "st_next s (en, TStop i) = Inr (st_stop_profile_section en i s, None)"
| "st_next s (en, TDestroy i) = Inr (st_destroy_profile_section en i s, None)"
| "st_next s (en, TEvent name) = Inr (st_profile_event en name s, None)"

lemmas stap_defs = st_init_library_def st_finalize_library_def st_begin_parallel_for_def st_begin_parallel_reduce_def
  st_begin_parallel_scan_def st_end_parallel_for_def st_end_parallel_reduce_def st_end_parallel_scan_def
  st_push_profile_region_def st_pop_profile_region_def st_allocate_data_def st_deallocate_data_def
  st_begin_deep_copy_def st_end_deep_copy_def st_create_profile_section_def st_start_profile_section_def
  st_stop_profile_section_def st_destroy_profile_section_def st_profile_event_def fire_if_def Let_def

interpretation st: id_source st_next next_kernid
proof
  fix s e s' i
  assume "st_next s e = Inr (s', Some i)"
  then show "i = next_kernid s \<and> next_kernid s' = next_kernid s + 1"
  proof (induction s e rule: st_next.induct)
    case (3 s en k name devid)
    then show ?case by (cases k) (auto simp: stap_defs split: if_splits)
  qed (auto simp: stap_defs split: if_splits)
next
  fix s e s'
  assume "st_next s e = Inr (s', None)"
  then show "next_kernid s' = next_kernid s"
  proof (induction s e rule: st_next.induct)
    case (4 s en k i)
    then show ?case by (cases k) (auto simp: stap_defs split: if_splits)
  qed (auto simp: stap_defs split: if_splits prod.splits)
qed

text \<open>The probe of a callback, given the kernel and the section identifier that come next.\<close>

fun probe_of :: "u64 \<Rightarrow> u32 \<Rightarrow> stap_event \<Rightarrow> probe" where
  "probe_of k c (TInit q v n p) = (INIT_LIBRARY, [AInt q, AWord64 v, AWord32 n, AWord64 p])"
| "probe_of k c TFinalize = (FINALIZE_LIBRARY, [])"
| "probe_of k c (TBegin kd name devid) = (BEGIN_PARALLEL kd, [AName name, AWord32 devid, AWord64 k])"
| "probe_of k c (TEnd kd i) = (END_PARALLEL kd, [AWord64 i])"
| "probe_of k c (TPush name) = (PUSH_PROFILE_REGION, [AName name])"
| "probe_of k c TPop = (POP_PROFILE_REGION, [])"
| "probe_of k c (TAllocate h l p n) = (ALLOCATE_DATA, [ASpace h, AName l, AWord64 p, AWord64 n])"
| "probe_of k c (TDeallocate h l p n) = (DEALLOCATE_DATA, [ASpace h, AName l, AWord64 p, AWord64 n])"
| "probe_of k c (TCopy dh dn dp sh sn sp n) =
     (BEGIN_DEEP_COPY, [ASpace dh, AName dn, AWord64 dp, ASpace sh, AName sn, AWord64 sp, AWord64 n])"
| "probe_of k c TEndCopy = (END_DEEP_COPY, [])"
| "probe_of k c (TCreate name) = (CREATE_PROFILE_SECTION, [AName name, AWord32 c])"
| "probe_of k c (TStart i) = (START_PROFILE_SECTION, [AWord32 i])"
| "probe_of k c (TStop i) = (STOP_PROFILE_SECTION, [AWord32 i])"
| "probe_of k c (TDestroy i) = (DESTROY_PROFILE_SECTION, [AWord32 i])"
| "probe_of k c (TEvent name) = (PROFILE_EVENT, [AName name])"

definition is_begin :: "stap_event \<Rightarrow> bool" where
  "is_begin e = (case e of TBegin k n d \<Rightarrow> True | _ \<Rightarrow> False)"

definition is_create :: "stap_event \<Rightarrow> bool" where
  "is_create e = (case e of TCreate n \<Rightarrow> True | _ \<Rightarrow> False)"

fun all_probes :: "u64 \<Rightarrow> u32 \<Rightarrow> stap_event list \<Rightarrow> probe list" where
  "all_probes k c [] = []"
| "all_probes k c (e # es) = probe_of k c e #
     all_probes (if is_begin e then k + 1 else k) (if is_create e then c + 1 else c) es"

text \<open>The probe whose listeners decide whether a probe fires.\<close>

definition guard_of :: "probe_name \<Rightarrow> probe_name" where
  "guard_of p = (if p = BEGIN_PARALLEL ParFor then END_PARALLEL ParFor else p)"

definition st_event :: "(probe_name \<Rightarrow> bool) \<Rightarrow> stap_state \<Rightarrow> stap_event \<Rightarrow> stap_state outcome" where
  "st_event en s e = obind (st_next s (en, e)) (\<lambda>(s', i). Inr s')"

lemma st_event_law:
  "st_event en s e = Inr \<lparr>next_kernid = (if is_begin e then next_kernid s + 1 else next_kernid s),
     next_sec_id = (if is_create e then next_sec_id s + 1 else next_sec_id s),
     fired = fired s @ filter (\<lambda>p. en (guard_of (fst p))) [probe_of (next_kernid s) (next_sec_id s) e]\<rparr>"
proof (cases e)
  case (TBegin k name devid)
  then show ?thesis by (cases k) (simp_all add: st_event_def stap_defs guard_of_def is_begin_def is_create_def)
next
  case (TEnd k i)
  then show ?thesis by (cases k) (simp_all add: st_event_def stap_defs guard_of_def is_begin_def is_create_def)
qed (simp_all add: st_event_def stap_defs guard_of_def is_begin_def is_create_def)

text \<open>
  C29. What a listener sees: while the same probes are listened to, a run returns and fires exactly the
  probe of each callback, in order and with the identifiers counted up from 0, that is listened to, but for
  the begin of a parallel for, which fires when the end of one is listened to. A listener to the begins
  of parallel for alone sees none of them, and a listener to the ends alone makes all the begins fire.
\<close>

theorem systemtap_probes_fired:
  "(\<exists>s. run_events (st_event en) stap_initial es = Inr s
     \<and> fired s = filter (\<lambda>p. en (guard_of (fst p))) (all_probes 0 0 es))
   \<and> (en = (\<lambda>p. p = BEGIN_PARALLEL ParFor) \<longrightarrow> filter (\<lambda>p. en (guard_of (fst p))) (all_probes 0 0 es) = [])"
proof -
  have "\<exists>s'. run_events (st_event en) s es = Inr s' \<and> fired s' = fired s
      @ filter (\<lambda>p. en (guard_of (fst p))) (all_probes (next_kernid s) (next_sec_id s) es)" for s
  proof (induction es arbitrary: s)
    case (Cons e es)
    obtain s1 where s1: "st_event en s e = Inr s1"
      and n: "next_kernid s1 = (if is_begin e then next_kernid s + 1 else next_kernid s)"
        "next_sec_id s1 = (if is_create e then next_sec_id s + 1 else next_sec_id s)"
      and f: "fired s1 = fired s @ filter (\<lambda>p. en (guard_of (fst p))) [probe_of (next_kernid s) (next_sec_id s) e]"
      by (rule that [OF st_event_law]) simp_all
    from Cons.IH [of s1] obtain s' where "run_events (st_event en) s1 es = Inr s'"
      "fired s' = fired s1 @ filter (\<lambda>p. en (guard_of (fst p))) (all_probes (next_kernid s1) (next_sec_id s1) es)" by blast
    with s1 f n show ?case by auto
  qed simp
  from this [of stap_initial] show ?thesis
    by (simp add: stap_initial_def guard_of_def filter_empty_conv)
qed

theorem systemtap_probes_fired_witness:
  "\<exists>s. run_events (st_event (\<lambda>p. p = BEGIN_PARALLEL ParFor)) stap_initial [TBegin ParFor (Some ''k'') 0, TEnd ParFor 0] = Inr s
    \<and> fired s = []"
  using systemtap_probes_fired [of "\<lambda>p. p = BEGIN_PARALLEL ParFor" "[TBegin ParFor (Some ''k'') 0, TEnd ParFor 0]"]
  by metis

text \<open>The kernel identifiers of a run are consecutive, hence distinct until the counter wraps.\<close>

lemma systemtap_identifiers:
  "run_ids st_next s es = Inr (is, s') \<Longrightarrow> length is \<le> 2 ^ 64 \<Longrightarrow> distinct is"
  by (rule st.run_ids_distinct)

end
