(* ===== verification/Variorum_Connector.thy ===== *)
theory Variorum_Connector
  imports Double Interface
begin

text \<open>
  The Variorum connector, \<open>profiling/variorum-connector/variorum-connector.cpp\<close>: power and time are read
  when a kernel begins and when it ends, and an energy estimate is written to a file. Variorum and the JSON
  library are parameters: what the call for the power returns is an argument, and the functions of the
  JSON library the code calls are a record over its type of values (\<open>None\<close> is a null pointer).
\<close>

record 'j jansson =
  json_loads :: "string \<Rightarrow> 'j option"
  json_error_text :: "string \<Rightarrow> string"
  json_object_foreach :: "'j option \<Rightarrow> (string \<times> 'j) list"
  json_is_object :: "'j option \<Rightarrow> bool"
  json_object_get :: "'j option \<Rightarrow> string \<Rightarrow> 'j option"
  json_integer_value :: "'j option \<Rightarrow> int"
  json_is_number :: "'j option \<Rightarrow> bool"
  json_number_value :: "'j option \<Rightarrow> double"

section \<open>State\<close>

text \<open>The two-element arrays are pairs; files are the tokens written to them, by name.\<close>

record variorum_state =
  global_power :: "double \<times> double"
  global_time :: "int \<times> int"
  global_device_id :: u32
  global_instance_id :: u32
  global_filename :: string
  global_kernel_name :: string
  global_device_type :: string
  vc_files :: "string \<rightharpoonup> token list"
  vc_stderr :: "token list"

definition variorum_initial :: "(string \<rightharpoonup> token list) \<Rightarrow> variorum_state" where
  "variorum_initial fs = \<lparr>global_power = (d_zero, d_zero), global_time = (0, 0), global_device_id = - 1,
     global_instance_id = - 1, global_filename = [], global_kernel_name = [], global_device_type = [],
     vc_files = fs, vc_stderr = []\<rparr>"

definition vc_cerr :: "string \<Rightarrow> variorum_state \<Rightarrow> variorum_state" where
  "vc_cerr t s = s\<lparr>vc_stderr := vc_stderr s @ [Txt (t @ eol)]\<rparr>"

section \<open>The output file\<close>

text \<open>The name, from the value of the environment variable, and the message if there is none.\<close>

definition get_file_name :: "string option \<Rightarrow> string \<Rightarrow> variorum_state \<Rightarrow> string \<times> variorum_state" where
  "get_file_name env env_var_name s = (case env of
     None \<Rightarrow> (''variorumoutput.txt'', vc_cerr (''Couldn't parse '' @ env_var_name
       @ '' environment variable! Printing to variorumoutput.txt'') s)
   | Some f \<Rightarrow> (f, s))"

text \<open>
  A file that can be read is truncated, any other is created by opening it for appending. Opening a
  file succeeds unless its name is empty; what is written to a stream that did not open is lost.
\<close>

definition create_file :: "string option \<Rightarrow> variorum_state \<Rightarrow> variorum_state" where
  "create_file env s =
     (case get_file_name env ''KOKKOS_TOOLS_VARIORUM_OUTPUT_FILE'' s of (f, s) \<Rightarrow>
        let s = s\<lparr>global_filename := f\<rparr> in if f = [] then s else s\<lparr>vc_files := (vc_files s)(f \<mapsto> [])\<rparr>)"

definition append_file :: "token list \<Rightarrow> variorum_state \<Rightarrow> variorum_state" where
  "append_file ts s = (if global_filename s = [] then s else s\<lparr>vc_files := (vc_files s)(global_filename s \<mapsto>
     (case vc_files s (global_filename s) of None \<Rightarrow> [] | Some old \<Rightarrow> old) @ ts)\<rparr>)"

section \<open>A reading\<close>

text \<open>
  The loop over the members of the root: the first member that is an object and has an object under
  \<open>socket_0\<close>, with that object and the member's \<open>timestamp\<close>.
\<close>

fun find_socket :: "'j jansson \<Rightarrow> (string \<times> 'j) list \<Rightarrow> ('j option \<times> 'j option)" where
  "find_socket J [] = (None, None)"
| "find_socket J ((key, v) # ms) =
     (let so = json_object_get J (Some v) ''socket_0'' in
      if json_is_object J (Some v) \<and> so \<noteq> None \<and> json_is_object J so
      then (so, json_object_get J (Some v) ''timestamp'') else find_socket J ms)"

definition store_time :: "int \<Rightarrow> variorum_state \<Rightarrow> variorum_state" where
  "store_time t s = (case global_time s of (t0, t1) \<Rightarrow>
     s\<lparr>global_time := (if t0 = 0 then (t, t1) else (t0, t))\<rparr>)"

definition store_power :: "double \<Rightarrow> variorum_state \<Rightarrow> variorum_state" where
  "store_power p s = (case global_power s of (p0, p1) \<Rightarrow>
     s\<lparr>global_power := (if deq p0 d_zero then (p, p1) else (p0, p))\<rparr>)"

text \<open>Conversion of a \<open>double\<close> to \<open>int\<close>: towards zero, undefined when the result does not fit.\<close>

definition d_to_int :: "double \<Rightarrow> int outcome" where
  "d_to_int d = (let q = s_units d / scale; i = (if 0 \<le> q then \<lfloor>q\<rfloor> else \<lceil>q\<rceil>) in
     if d_nan d \<or> d_inf d \<or> i < - (2 ^ 31) \<or> 2 ^ 31 \<le> i
     then Inl (Undefined ''conversion to int out of range'') else Inr i)"

text \<open>Division of an \<open>int\<close> by two, towards zero.\<close>

definition half :: "int \<Rightarrow> int" where
  "half i = (if i < 0 then - ((- i) div 2) else i div 2)"

definition energy_of :: "int \<Rightarrow> int \<Rightarrow> int \<Rightarrow> double" where
  "energy_of average_power t0 t1 = dmul (d_of_int (half average_power)) (dmul (d_of_int (t1 - t0)) (d_of_rat (1 / 1000)))"

definition energy_line :: "variorum_state \<Rightarrow> double \<Rightarrow> token list" where
  "energy_line s energy = [Txt (''name: '' @ quot @ global_kernel_name s @ quot @ '', Device ID: ''
     @ dec_nat (unat (global_device_id s)) @ '', Instance ID: '' @ dec_nat (unat (global_instance_id s))
     @ '', DeviceType: '' @ global_device_type s @ '', Energy Estimate: ''), Num ''<<'' energy, Txt ('' J'' @ eol)]"

definition report_energy :: "variorum_state \<Rightarrow> variorum_state outcome" where
  "report_energy s = (case global_power s of (p0, p1) \<Rightarrow>
     if \<not> deq p0 d_zero \<and> \<not> deq p1 d_zero then
       obind (d_to_int (dadd p1 p0)) (\<lambda>average_power.
       let energy = energy_of average_power (fst (global_time s)) (snd (global_time s)) in
       Inr ((append_file (energy_line s energy) s)\<lparr>global_time := (0, 0), global_power := (d_zero, d_zero)\<rparr>))
     else Inr s)"

text \<open>The time and the power are read from the JSON text; what is missing is reported and left out.\<close>

definition take_reading :: "'j jansson \<Rightarrow> string \<Rightarrow> variorum_state \<Rightarrow> variorum_state" where
  "take_reading J text s =
     (let root = json_loads J text;
          s = (if root = None then vc_cerr (''Error parsing JSON: '' @ json_error_text J text) s else s);
          (socket_0, timestamp_value) = find_socket J (json_object_foreach J root);
          s = (if socket_0 \<noteq> None then store_time (json_integer_value J timestamp_value) s else s);
          s = (if socket_0 = None \<or> timestamp_value = None
               then vc_cerr ''Failed to find 'socket_0' object or 'timestamp'.'' s else s);
          power_gpu_watts = json_object_get J socket_0 ''power_gpu_watts'';
          s = (if \<not> json_is_object J power_gpu_watts
               then vc_cerr ''Expected 'power_gpu_watts' to be an object.'' s else s);
          gpu_key = ''GPU_'' @ dec_nat (unat (global_device_id s));
          power_value = json_object_get J power_gpu_watts gpu_key
      in if json_is_number J power_value then store_power (json_number_value J power_value) s
         else vc_cerr (''Error: GPU key '' @ gpu_key @ '' not found or not a number'') s)"

text \<open>\<open>variorum_call\<close>, given what \<open>variorum_get_power_json\<close> returns and leaves in its argument.\<close>

definition variorum_call :: "'j jansson \<Rightarrow> int \<times> string \<Rightarrow> variorum_state \<Rightarrow> variorum_state outcome" where
  "variorum_call J r s = (case r of (variorum_error, text) \<Rightarrow>
     if variorum_error \<noteq> 0 then Inl Abort else report_energy (take_reading J text s))"

section \<open>Callbacks\<close>

definition vc_init_library :: "string option \<Rightarrow> int \<Rightarrow> u64 \<Rightarrow> variorum_state \<Rightarrow> variorum_state" where
  "vc_init_library env loadSeq interfaceVer s = create_file env s"

fun device_type_to_string :: "DeviceType \<Rightarrow> string" where
  "device_type_to_string Serial = ''SERIAL''"
| "device_type_to_string OpenMP = ''OPENMP''"
| "device_type_to_string Cuda = ''CUDA''"
| "device_type_to_string HIP = ''HIP''"
| "device_type_to_string OpenMPTarget = ''OPENMPTARGET''"
| "device_type_to_string HPX = ''HPX''"
| "device_type_to_string Threads = ''THREADS''"
| "device_type_to_string SYCL = ''SYCL''"
| "device_type_to_string OpenACC = ''OPENACC''"
| "device_type_to_string Unknown = ''UNKOWN''"

text \<open>The begin callbacks of the three kinds have one body, and so do the end callbacks.\<close>

definition set_kernel :: "string \<Rightarrow> u32 \<Rightarrow> variorum_state \<Rightarrow> variorum_state" where
  "set_kernel n devID s = (let result = identifier_from_devid devID in
     s\<lparr>global_kernel_name := n, global_instance_id := esi_instance_id result,
       global_device_type := device_type_to_string (esi_type result), global_device_id := esi_device_id result\<rparr>)"

definition vc_begin_parallel ::
  "'j jansson \<Rightarrow> pkind \<Rightarrow> int \<times> string \<Rightarrow> string option \<Rightarrow> u32 \<Rightarrow> variorum_state \<Rightarrow> variorum_state outcome" where
  "vc_begin_parallel J k r name devID s = (case name of
     None \<Rightarrow> Inl (Undefined ''assignment of a null pointer to a string'')
   | Some n \<Rightarrow> variorum_call J r (set_kernel n devID s))"

definition vc_end_parallel :: "'j jansson \<Rightarrow> pkind \<Rightarrow> int \<times> string \<Rightarrow> u64 \<Rightarrow> variorum_state \<Rightarrow> variorum_state outcome" where
  "vc_end_parallel J k r kID = variorum_call J r"

datatype variorum_event =
    VBegin pkind "int \<times> string" "string option" u32 | VEnd pkind "int \<times> string" u64

fun vc_next :: "'j jansson \<Rightarrow> variorum_state \<Rightarrow> variorum_event \<Rightarrow> variorum_state outcome" where
  "vc_next J s (VBegin k r name devID) = vc_begin_parallel J k r name devID s"
| "vc_next J s (VEnd k r kID) = vc_end_parallel J k r kID s"

section \<open>Good readings\<close>

text \<open>
  A reading that has what the code looks for: time \<open>t\<close> and power \<open>p\<close> of device \<open>d\<close>, neither of them 0.
\<close>

definition good_reading :: "'j jansson \<Rightarrow> u32 \<Rightarrow> int \<times> string \<Rightarrow> int \<Rightarrow> double \<Rightarrow> bool" where
  "good_reading J d r t p \<longleftrightarrow> fst r = 0 \<and> t \<noteq> 0 \<and> \<not> deq p d_zero \<and> (\<exists>root so ts gpus v.
     json_loads J (snd r) = Some root \<and> find_socket J (json_object_foreach J (Some root)) = (Some so, Some ts) \<and>
     json_integer_value J (Some ts) = t \<and> json_object_get J (Some so) ''power_gpu_watts'' = gpus \<and>
     json_is_object J gpus \<and> json_object_get J gpus (''GPU_'' @ dec_nat (unat d)) = v \<and>
     json_is_number J v \<and> json_number_value J v = p)"

lemma good_reading_call:
  assumes "good_reading J (global_device_id s) r t p"
  shows "variorum_call J r s = report_energy (store_power p (store_time t s))"
proof -
  have "global_device_id (store_time t s) = global_device_id s"
    by (simp add: store_time_def split: prod.splits)
  with assms show ?thesis
    by (cases r) (auto simp: good_reading_def variorum_call_def take_reading_def Let_def)
qed

text \<open>No reading is pending.\<close>

definition cleared :: "variorum_state \<Rightarrow> bool" where
  "cleared s \<longleftrightarrow> global_power s = (d_zero, d_zero) \<and> global_time s = (0, 0)"

lemma deq_zero [simp]: "deq d_zero d_zero"
  by (simp add: deq_def)

text \<open>Two good readings one after the other: the first is kept, the second gives the line of the kernel set last.\<close>

lemma first_reading:
  assumes "cleared s" and "good_reading J (global_device_id s) r t p"
  shows "variorum_call J r s = Inr (s\<lparr>global_power := (p, d_zero), global_time := (t, 0)\<rparr>)"
  using assms by (simp add: good_reading_call cleared_def store_power_def store_time_def report_energy_def)

definition estimate :: "int \<Rightarrow> double \<Rightarrow> int \<Rightarrow> double \<Rightarrow> double outcome" where
  "estimate t0 p0 t1 p1 = obind (d_to_int (dadd p1 p0)) (\<lambda>average_power. Inr (energy_of average_power t0 t1))"

lemma second_reading:
  assumes "global_power s = (p0, d_zero)" and "global_time s = (t0, 0)" and "t0 \<noteq> 0" and "\<not> deq p0 d_zero"
    and "good_reading J (global_device_id s) r t1 p1"
  shows "variorum_call J r s = obind (estimate t0 p0 t1 p1) (\<lambda>energy.
    Inr ((append_file (energy_line s energy) s)\<lparr>global_time := (0, 0), global_power := (d_zero, d_zero)\<rparr>))"
proof -
  have "\<not> deq p1 d_zero" using assms(5) by (simp add: good_reading_def)
  with assms show ?thesis
    by (cases "d_to_int (dadd p1 p0)")
      (simp_all add: good_reading_call store_power_def store_time_def report_energy_def estimate_def Let_def
        append_file_def energy_line_def)
qed

section \<open>What is written\<close>

lemma set_kernel_sel [simp]:
  "global_power (set_kernel n d s) = global_power s" "global_time (set_kernel n d s) = global_time s"
  "global_device_id (set_kernel n d s) = esi_device_id (identifier_from_devid d)"
  "global_filename (set_kernel n d s) = global_filename s" "vc_files (set_kernel n d s) = vc_files s"
  "cleared (set_kernel n d s) = cleared s"
  by (simp_all add: set_kernel_def Let_def cleared_def)

lemma append_file_sel [simp]:
  "global_device_id (append_file ts s) = global_device_id s" "global_filename (append_file ts s) = global_filename s"
  by (simp_all add: append_file_def)

definition dev_number :: "u32 \<Rightarrow> u32" where
  "dev_number devID = esi_device_id (identifier_from_devid devID)"

definition kernel_line :: "string \<Rightarrow> u32 \<Rightarrow> double \<Rightarrow> token list" where
  "kernel_line n devID energy = energy_line (set_kernel n devID (variorum_initial Map.empty)) energy"

lemma energy_line_kernel:
  "energy_line (s\<lparr>global_power := x, global_time := y\<rparr>) e = energy_line s e"
  "energy_line (set_kernel n d s) e = kernel_line n d e"
  by (simp_all add: energy_line_def kernel_line_def set_kernel_def Let_def)

definition contents :: "variorum_state \<Rightarrow> token list" where
  "contents s = (case vc_files s (global_filename s) of None \<Rightarrow> [] | Some ts \<Rightarrow> ts)"

definition reads :: "'j jansson \<Rightarrow> u32 \<Rightarrow> int \<times> string \<Rightarrow> int \<times> double \<Rightarrow> bool" where
  "reads J d r tp = good_reading J d r (fst tp) (snd tp)"

text \<open>
  A state with one reading taken, and the call that takes the second: the line is about the kernel
  whose begin came last.
\<close>

lemma pair_first:
  assumes "cleared s" and "reads J (dev_number devID) r tp"
  shows "vc_next J s (VBegin k r (Some n) devID) =
    Inr ((set_kernel n devID s)\<lparr>global_power := (snd tp, d_zero), global_time := (fst tp, 0)\<rparr>)"
  using assms first_reading [of "set_kernel n devID s" J r "fst tp" "snd tp"]
  by (simp add: vc_begin_parallel_def reads_def dev_number_def)

lemma pair_second:
  assumes "vc_next J s e = variorum_call J r (f s)" and "global_device_id (f s) = d" and "reads J d r tp1"
    and "global_power (f s) = (snd tp0, d_zero)" "global_time (f s) = (fst tp0, 0)" "fst tp0 \<noteq> 0" "\<not> deq (snd tp0) d_zero"
    and "estimate (fst tp0) (snd tp0) (fst tp1) (snd tp1) = Inr e'" and "global_filename (f s) \<noteq> []"
  shows "\<exists>s'. vc_next J s e = Inr s' \<and> cleared s' \<and> global_filename s' = global_filename (f s)
    \<and> global_device_id s' = d \<and> contents s' = contents (f s) @ energy_line (f s) e'
    \<and> global_kernel_name s' = global_kernel_name (f s) \<and> (\<forall>x. energy_line s' x = energy_line (f s) x)"
  using second_reading [of "f s" "snd tp0" "fst tp0" J r "fst tp1" "snd tp1"] assms
  by (auto simp: reads_def cleared_def contents_def append_file_def energy_line_def split: option.splits)

lemma reads_nonzero: "reads J d r tp \<Longrightarrow> fst tp \<noteq> 0 \<and> \<not> deq (snd tp) d_zero"
  by (simp add: reads_def good_reading_def)

text \<open>Kernels run one after the other: kind, name, device, the two results with their readings, the estimate.\<close>

datatype kernel_use = Use pkind string u32 "int \<times> string" "int \<times> double" "int \<times> string" "int \<times> double" u64 double

fun use_events :: "kernel_use \<Rightarrow> variorum_event list" where
  "use_events (Use k n d r0 tp0 r1 tp1 i e) = [VBegin k r0 (Some n) d, VEnd k r1 i]"

fun use_good :: "'j jansson \<Rightarrow> kernel_use \<Rightarrow> bool" where
  "use_good J (Use k n d r0 tp0 r1 tp1 i e) = (reads J (dev_number d) r0 tp0 \<and> reads J (dev_number d) r1 tp1 \<and>
     estimate (fst tp0) (snd tp0) (fst tp1) (snd tp1) = Inr e)"

fun use_line :: "kernel_use \<Rightarrow> token list" where
  "use_line (Use k n d r0 tp0 r1 tp1 i e) = kernel_line n d e"

lemma one_use:
  assumes "cleared s" and "global_filename s \<noteq> []" and "use_good J u"
  shows "\<exists>s'. run_events (vc_next J) s (use_events u) = Inr s' \<and> cleared s'
    \<and> global_filename s' = global_filename s \<and> contents s' = contents s @ use_line u"
proof (cases u)
  case (Use k n d r0 tp0 r1 tp1 i e)
  with assms(3) have r0: "reads J (dev_number d) r0 tp0" and r1: "reads J (dev_number d) r1 tp1"
    and e: "estimate (fst tp0) (snd tp0) (fst tp1) (snd tp1) = Inr e" by simp_all
  let ?s1 = "(set_kernel n d s)\<lparr>global_power := (snd tp0, d_zero), global_time := (fst tp0, 0)\<rparr>"
  have s1: "vc_next J s (VBegin k r0 (Some n) d) = Inr ?s1" by (rule pair_first [OF assms(1) r0])
  have "vc_next J ?s1 (VEnd k r1 i) = variorum_call J r1 ?s1" by (simp add: vc_end_parallel_def)
  then obtain s2 where "vc_next J ?s1 (VEnd k r1 i) = Inr s2" "cleared s2" "global_filename s2 = global_filename s"
    "contents s2 = contents ?s1 @ energy_line ?s1 e"
    using pair_second [of J ?s1 "VEnd k r1 i" r1 "\<lambda>s. s" "dev_number d" tp1 tp0 e] r1 e reads_nonzero [OF r0] assms(2)
    by (auto simp: dev_number_def)
  moreover have "contents ?s1 = contents s" by (simp add: contents_def)
  ultimately show ?thesis using s1 Use by (simp add: energy_line_kernel)
qed

lemma uses_written:
  assumes "cleared s" and "global_filename s \<noteq> []" and "\<forall>u \<in> set us. use_good J u"
  shows "\<exists>s'. run_events (vc_next J) s (concat (map use_events us)) = Inr s' \<and> cleared s'
    \<and> global_filename s' = global_filename s \<and> contents s' = contents s @ concat (map use_line us)"
  using assms
proof (induction us arbitrary: s)
  case (Cons u us)
  obtain s1 where s1: "run_events (vc_next J) s (use_events u) = Inr s1" "cleared s1"
    "global_filename s1 = global_filename s" "contents s1 = contents s @ use_line u"
    using one_use [OF Cons.prems(1,2), of J u] Cons.prems(3) by auto
  from Cons.IH [of s1] s1 Cons.prems obtain s2 where "run_events (vc_next J) s1 (concat (map use_events us)) = Inr s2"
    "cleared s2" "global_filename s2 = global_filename s" "contents s2 = contents s1 @ concat (map use_line us)" by auto
  with s1 show ?case by (simp add: run_events_append)
qed simp

text \<open>
  C26. Kernels that run one after the other, each read at its begin and its end, get one line each in
  the output file, in order, with the kernel's own name, device, instance and type and the energy
  estimated from its own two readings: half the sum of the powers, in whole watts, times the time between them.
\<close>

theorem variorum_energy_lines:
  assumes "cleared s" and "global_filename s \<noteq> []" and "\<forall>u \<in> set us. use_good J u"
  shows "\<exists>s'. run_events (vc_next J) s (concat (map use_events us)) = Inr s' \<and> cleared s'
    \<and> contents s' = contents s @ concat (map use_line us)"
  using uses_written [OF assms] by blast

text \<open>
  C36. Readings are paired as they come, whoever asked for them: with a kernel inside another the file
  gets two lines under the inner kernel's name, one for the time between the two begins and one for the time
  between the two ends, and none for the outer kernel or for the time the inner one ran.
\<close>

theorem variorum_nested_kernels:
  assumes "cleared s" and "global_filename s \<noteq> []"
    and "reads J (dev_number d) r0 tp0" and "reads J (dev_number d') r1 tp1"
    and "reads J (dev_number d') r2 tp2" and "reads J (dev_number d') r3 tp3"
    and "estimate (fst tp0) (snd tp0) (fst tp1) (snd tp1) = Inr e1"
    and "estimate (fst tp2) (snd tp2) (fst tp3) (snd tp3) = Inr e2"
  shows "\<exists>s'. run_events (vc_next J) s [VBegin k r0 (Some outer) d, VBegin k' r1 (Some inner) d', VEnd k' r2 i', VEnd k r3 i] = Inr s'
    \<and> contents s' = contents s @ kernel_line inner d' e1 @ kernel_line inner d' e2"
proof -
  let ?s1 = "(set_kernel outer d s)\<lparr>global_power := (snd tp0, d_zero), global_time := (fst tp0, 0)\<rparr>"
  have s1: "vc_next J s (VBegin k r0 (Some outer) d) = Inr ?s1" by (rule pair_first [OF assms(1,3)])
  have "vc_next J ?s1 (VBegin k' r1 (Some inner) d') = variorum_call J r1 (set_kernel inner d' ?s1)"
    by (simp add: vc_begin_parallel_def)
  then obtain s2 where s2: "vc_next J ?s1 (VBegin k' r1 (Some inner) d') = Inr s2" "cleared s2"
    "global_filename s2 = global_filename s" "global_device_id s2 = dev_number d'"
    "contents s2 = contents (set_kernel inner d' ?s1) @ kernel_line inner d' e1"
    "\<forall>x. energy_line s2 x = kernel_line inner d' x"
    using pair_second [of J ?s1 "VBegin k' r1 (Some inner) d'" r1 "set_kernel inner d'" "dev_number d'" tp1 tp0 e1]
      assms(2,4,7) reads_nonzero [OF assms(3)] by (auto simp: dev_number_def energy_line_kernel)
  let ?s3 = "s2\<lparr>global_power := (snd tp2, d_zero), global_time := (fst tp2, 0)\<rparr>"
  have s3: "vc_next J s2 (VEnd k' r2 i') = Inr ?s3"
    using first_reading [OF s2(2)] assms(5) s2(4) by (simp add: vc_end_parallel_def reads_def)
  have "vc_next J ?s3 (VEnd k r3 i) = variorum_call J r3 ?s3" by (simp add: vc_end_parallel_def)
  then obtain s4 where "vc_next J ?s3 (VEnd k r3 i) = Inr s4" "contents s4 = contents ?s3 @ energy_line ?s3 e2"
    using pair_second [of J ?s3 "VEnd k r3 i" r3 "\<lambda>s. s" "dev_number d'" tp3 tp2 e2]
      assms(2,6,8) reads_nonzero [OF assms(5)] s2(3,4) by auto
  moreover have "contents (set_kernel inner d' ?s1) = contents s" "contents ?s3 = contents s2"
    by (simp_all add: contents_def)
  ultimately show ?thesis using s1 s2 s3 by (simp add: energy_line_kernel)
qed

text \<open>Without the initialisation, which the table of callbacks does not have, nothing is ever written.\<close>

definition unwritten :: "(string \<rightharpoonup> token list) \<Rightarrow> variorum_state \<Rightarrow> bool" where
  "unwritten fs s \<longleftrightarrow> global_filename s = [] \<and> vc_files s = fs"

lemma unwritten_simps [simp]:
  "unwritten fs (vc_cerr t s) = unwritten fs s" "unwritten fs (store_time x s) = unwritten fs s"
  "unwritten fs (store_power p s) = unwritten fs s" "unwritten fs (set_kernel n d s) = unwritten fs s"
  by (simp_all add: unwritten_def vc_cerr_def store_time_def store_power_def split: prod.splits)

lemma unwritten_report: "unwritten fs s \<Longrightarrow> report_energy s = Inr s' \<Longrightarrow> unwritten fs s'"
  by (auto simp: unwritten_def report_energy_def append_file_def obind_Inr Let_def split: prod.splits if_splits)

lemma unwritten_reading: "unwritten fs (take_reading J t s) = unwritten fs s"
  by (simp add: take_reading_def Let_def split_def if_distrib [of "unwritten fs"])

lemma unwritten_call: "unwritten fs s \<Longrightarrow> variorum_call J r s = Inr s' \<Longrightarrow> unwritten fs s'"
  using unwritten_report [of fs "take_reading J (snd r) s" s']
  by (auto simp: variorum_call_def unwritten_reading split: prod.splits if_splits)

lemma unwritten_next: "unwritten fs s \<Longrightarrow> vc_next J s e = Inr s' \<Longrightarrow> unwritten fs s'"
proof (cases e)
  case (VBegin k r name d)
  assume "unwritten fs s" "vc_next J s e = Inr s'"
  with VBegin show ?thesis
    using unwritten_call [of fs "set_kernel (the name) d s" J r s']
    by (auto simp: vc_begin_parallel_def split: option.splits)
qed (auto simp: vc_end_parallel_def intro: unwritten_call)

lemma variorum_without_init:
  assumes "run_events (vc_next J) (variorum_initial fs) es = Inr s"
  shows "vc_files s = fs"
proof -
  have "unwritten fs (variorum_initial fs)" by (simp add: variorum_initial_def unwritten_def)
  with run_events_invariant [of "unwritten fs" "vc_next J" "variorum_initial fs" es s] unwritten_next assms
  have "unwritten fs s" by blast
  then show ?thesis by (simp add: unwritten_def)
qed

text \<open>Without a file the readings are paired all the same.\<close>

lemma one_use_returns:
  assumes "cleared s" and "use_good J u"
  shows "\<exists>s'. run_events (vc_next J) s (use_events u) = Inr s' \<and> cleared s'"
proof (cases u)
  case (Use k n d r0 tp0 r1 tp1 i e)
  with assms(2) have r0: "reads J (dev_number d) r0 tp0" and r1: "reads J (dev_number d) r1 tp1"
    and e: "estimate (fst tp0) (snd tp0) (fst tp1) (snd tp1) = Inr e" by simp_all
  let ?s1 = "(set_kernel n d s)\<lparr>global_power := (snd tp0, d_zero), global_time := (fst tp0, 0)\<rparr>"
  have s1: "vc_next J s (VBegin k r0 (Some n) d) = Inr ?s1" by (rule pair_first [OF assms(1) r0])
  have "\<exists>s2. vc_next J ?s1 (VEnd k r1 i) = Inr s2 \<and> cleared s2"
    using second_reading [of ?s1 "snd tp0" "fst tp0" J r1 "fst tp1" "snd tp1"] r1 e reads_nonzero [OF r0]
    by (simp add: vc_end_parallel_def reads_def dev_number_def cleared_def)
  with s1 Use show ?thesis by auto
qed

lemma uses_return:
  "cleared s \<Longrightarrow> \<forall>u \<in> set us. use_good J u \<Longrightarrow> \<exists>s'. run_events (vc_next J) s (concat (map use_events us)) = Inr s'"
proof (induction us arbitrary: s)
  case (Cons u us)
  then obtain s1 where "run_events (vc_next J) s (use_events u) = Inr s1" "cleared s1"
    using one_use_returns [of s J u] by auto
  with Cons show ?case by (simp add: run_events_append)
qed simp

text \<open>A JSON library that finds one node with one GPU, at the time the text spells and at 100 watts.\<close>

definition sample_jansson :: "(nat \<times> int) jansson" where
  "sample_jansson = \<lparr>json_loads = (\<lambda>t. Some (0, atoi t)), json_error_text = (\<lambda>t. []),
     json_object_foreach = (\<lambda>v. case v of Some (n, t) \<Rightarrow> [(''node'', (1, t))] | None \<Rightarrow> []),
     json_is_object = (\<lambda>v. v \<noteq> None),
     json_object_get = (\<lambda>v key. case v of None \<Rightarrow> None | Some (n, t) \<Rightarrow>
        if key = ''socket_0'' then Some (2, t) else if key = ''timestamp'' then Some (3, t) else Some (4, t)),
     json_integer_value = (\<lambda>v. case v of Some (n, t) \<Rightarrow> t | None \<Rightarrow> 0),
     json_is_number = (\<lambda>v. v \<noteq> None), json_number_value = (\<lambda>v. d_of_nat 100)\<rparr>"

lemma scale_nonzero: "scale \<noteq> 0"
  by (rule less_imp_neq [OF scale_pos, symmetric])

lemma sample_estimate: "estimate t0 (d_of_nat 100) t1 (d_of_nat 100) = Inr (energy_of 200 t0 t1)"
proof -
  have u: "s_units (d_of_nat 100) = 100 * scale" "s_units (d_of_nat 200) = 200 * scale" by (simp_all add: s_units_d_of_nat)
  then have "dadd (d_of_nat 100) (d_of_nat 100) = d_of_nat 200"
    by (simp add: dadd_def d_of_nat_finite) (simp add: d_of_nat_def)
  moreover have "d_to_int (d_of_nat 200) = Inr 200"
    using u scale_nonzero by (simp add: d_to_int_def d_of_nat_finite Let_def)
  ultimately have "d_to_int (dadd (d_of_nat 100) (d_of_nat 100)) = Inr 200" by simp
  then show ?thesis by (simp add: estimate_def)
qed

lemma sample_reads: "atoi t \<noteq> 0 \<Longrightarrow> reads sample_jansson d (0, t) (atoi t, d_of_nat 100)"
proof -
  assume "atoi t \<noteq> 0"
  moreover have "\<not> deq (d_of_nat 100) d_zero"
    using scale_nonzero by (simp add: deq_def s_units_d_of_nat)
  ultimately show ?thesis by (simp add: reads_def good_reading_def sample_jansson_def Let_def)
qed

definition sample_state :: variorum_state where
  "sample_state = (variorum_initial Map.empty)\<lparr>global_filename := ''out''\<rparr>"

lemma sample_state: "cleared sample_state" "global_filename sample_state = ''out''" "contents sample_state = []"
  by (simp_all add: sample_state_def cleared_def variorum_initial_def contents_def)

lemma sample_times: "atoi ''1000'' = 1000" "atoi ''3000'' = 3000"
  by code_simp+

theorem variorum_energy_lines_witness:
  "\<exists>s. run_events (vc_next sample_jansson) sample_state [VBegin ParFor (0, ''1000'') (Some ''k'') 0, VEnd ParFor (0, ''3000'') 0] = Inr s
    \<and> contents s = kernel_line ''k'' 0 (energy_of 200 1000 3000)"
proof -
  let ?u = "Use ParFor ''k'' 0 (0, ''1000'') (1000, d_of_nat 100) (0, ''3000'') (3000, d_of_nat 100) 0 (energy_of 200 1000 3000)"
  have "\<forall>u \<in> set [?u]. use_good sample_jansson u"
    using sample_reads [of "''1000''"] sample_reads [of "''3000''"] by (simp add: sample_times sample_estimate)
  from variorum_energy_lines [OF sample_state(1) _ this] sample_state show ?thesis by auto
qed

theorem variorum_nested_kernels_witness:
  "\<exists>s. run_events (vc_next sample_jansson) sample_state
      [VBegin ParFor (0, ''1000'') (Some ''outer'') 0, VBegin ParFor (0, ''3000'') (Some ''inner'') 0,
       VEnd ParFor (0, ''1000'') 1, VEnd ParFor (0, ''3000'') 0] = Inr s
    \<and> contents s = kernel_line ''inner'' 0 (energy_of 200 1000 3000) @ kernel_line ''inner'' 0 (energy_of 200 1000 3000)"
proof -
  have r: "reads sample_jansson d (0, ''1000'') (1000, d_of_nat 100)" "reads sample_jansson d (0, ''3000'') (3000, d_of_nat 100)" for d
    using sample_reads [of "''1000''"] sample_reads [of "''3000''"] by (simp_all add: sample_times)
  have e: "estimate (fst (1000, d_of_nat 100)) (snd (1000, d_of_nat 100)) (fst (3000, d_of_nat 100)) (snd (3000, d_of_nat 100))
      = Inr (energy_of 200 1000 3000)" by (simp add: sample_estimate)
  have "global_filename sample_state \<noteq> []" by (simp add: sample_state)
  from variorum_nested_kernels [OF sample_state(1) this r(1) r(2) r(1) r(2) e e]
  show ?thesis unfolding sample_state append_Nil by blast
qed

end
