(* ===== verification/Dispatch.thy ===== *)
theory Dispatch
  imports Event_Sets Variorum_Connector
begin

text \<open>
  A tool behind its table of callbacks: at each event the runtime calls the function in the event's slot, if
  there is one. A tool can be loaded as a library of its own, its table being the symbols it exports, or through the
  dispatcher in \<open>profiling/all/kp_all.cpp\<close>. Shown for the Variorum connector, whose two tables differ,
  what the difference does to its output.
\<close>

section \<open>Loaded tools\<close>

text \<open>
  \<open>function h e s\<close> is the function named \<open>h\<close> called with the arguments that the event \<open>e\<close> carries;
  a null pointer is not called.
\<close>

definition loaded_next ::
  "(handler \<Rightarrow> 'e \<Rightarrow> 's \<Rightarrow> 's outcome) \<Rightarrow> ('e \<Rightarrow> slot) \<Rightarrow> EventSet \<Rightarrow> 's \<Rightarrow> 'e \<Rightarrow> 's outcome" where
  "loaded_next function slot_of table s e =
     (case table (slot_of e) of None \<Rightarrow> Inr s | Some (Fn t h) \<Rightarrow> function h e s)"

fun begin_slot :: "pkind \<Rightarrow> slot" where
  "begin_slot ParFor = S_begin_parallel_for"
| "begin_slot ParReduce = S_begin_parallel_reduce"
| "begin_slot ParScan = S_begin_parallel_scan"

fun end_slot :: "pkind \<Rightarrow> slot" where
  "end_slot ParFor = S_end_parallel_for"
| "end_slot ParReduce = S_end_parallel_reduce"
| "end_slot ParScan = S_end_parallel_scan"

fun begin_handler :: "pkind \<Rightarrow> handler" where
  "begin_handler ParFor = H_begin_parallel_for"
| "begin_handler ParReduce = H_begin_parallel_reduce"
| "begin_handler ParScan = H_begin_parallel_scan"

fun end_handler :: "pkind \<Rightarrow> handler" where
  "end_handler ParFor = H_end_parallel_for"
| "end_handler ParReduce = H_end_parallel_reduce"
| "end_handler ParScan = H_end_parallel_scan"

section \<open>The Variorum connector\<close>

text \<open>
  What the runtime reports: the initialisation, with the value of the environment variable that names the
  output file, and kernels.
\<close>

datatype variorum_report = Initialize "string option" int u64 | Kernel variorum_event

fun vc_slot :: "variorum_report \<Rightarrow> slot" where
  "vc_slot (Initialize env q v) = S_init"
| "vc_slot (Kernel (VBegin k r name d)) = begin_slot k"
| "vc_slot (Kernel (VEnd k r i)) = end_slot k"

fun vc_function :: "'j jansson \<Rightarrow> handler \<Rightarrow> variorum_report \<Rightarrow> variorum_state \<Rightarrow> variorum_state outcome" where
  "vc_function J h (Initialize env q v) s =
     (if h = H_init_library then Inr (vc_init_library env q v s) else Inl (Undefined ''arguments''))"
| "vc_function J h (Kernel (VBegin k r name d)) s =
     (if h = begin_handler k then vc_begin_parallel J k r name d s else Inl (Undefined ''arguments''))"
| "vc_function J h (Kernel (VEnd k r i)) s =
     (if h = end_handler k then vc_end_parallel J k r i s else Inl (Undefined ''arguments''))"

abbreviation vc_loaded :: "'j jansson \<Rightarrow> EventSet \<Rightarrow> variorum_state \<Rightarrow> variorum_report \<Rightarrow> variorum_state outcome" where
  "vc_loaded J \<equiv> loaded_next (vc_function J) vc_slot"

lemma exported_kernel:
  "vc_loaded J (exported T_VariorumConnector VariorumConnector_exports) s (Kernel e) = vc_next J s e"
proof (cases e)
  case (VBegin k r name d)
  then show ?thesis by (cases k) (simp_all add: loaded_next_def exported_def VariorumConnector_exports_def)
next
  case (VEnd k r i)
  then show ?thesis by (cases k) (simp_all add: loaded_next_def exported_def VariorumConnector_exports_def)
qed

lemma dispatched_kernel: "vc_loaded J VariorumConnector_event_set s (Kernel e) = vc_next J s e"
proof (cases e)
  case (VBegin k r name d)
  then show ?thesis by (cases k) (simp_all add: loaded_next_def event_set_def VariorumConnector_event_set_def)
next
  case (VEnd k r i)
  then show ?thesis by (cases k) (simp_all add: loaded_next_def event_set_def VariorumConnector_event_set_def)
qed

lemma kernels_run:
  assumes "\<And>s e. step s (Kernel e) = vc_next J s e"
  shows "run_events step s (map Kernel es) = run_events (vc_next J) s es"
  by (induction es arbitrary: s) (simp_all add: assms split: sum.splits)

lemma initialize_run:
  "vc_loaded J (exported T_VariorumConnector VariorumConnector_exports) s (Initialize env q v) = Inr (vc_init_library env q v s)"
  "vc_loaded J VariorumConnector_event_set s (Initialize env q v) = Inr s"
  by (simp_all add: loaded_next_def exported_def VariorumConnector_exports_def event_set_def VariorumConnector_event_set_def)

lemma dispatcher_variorum:
  "cfg_variorum cfg \<Longrightarrow> get_event_set cali cfg ''variorum'' c = Inr table \<Longrightarrow> table = VariorumConnector_event_set"
  by (auto simp: get_event_set_def handlers_def split: if_splits)

text \<open>The file the environment names has been created and is empty.\<close>

lemma initialized:
  assumes "env = Some f" and "f \<noteq> []"
  shows "cleared (vc_init_library env q v (variorum_initial fs)) \<and> global_filename (vc_init_library env q v (variorum_initial fs)) = f
    \<and> contents (vc_init_library env q v (variorum_initial fs)) = []"
  using assms by (simp add: vc_init_library_def create_file_def get_file_name_def variorum_initial_def cleared_def contents_def)

text \<open>
  C30. The Variorum connector reports nothing when it is selected through the dispatcher. For the same
  events, an initialisation and kernels one after the other with good readings, the connector loaded as a
  library of its own writes a line for each kernel into the file the environment names; through the
  dispatcher, whose table has no \<open>init\<close>, it takes all the readings but every file stays as it was.
\<close>

theorem variorum_silent_dispatched:
  assumes "cfg_variorum cfg" and "get_event_set cali cfg ''variorum'' c = Inr table"
    and "env = Some f" and "f \<noteq> []" and "\<forall>u \<in> set us. use_good J u"
  shows "\<exists>s s'. run_events (vc_loaded J (exported T_VariorumConnector VariorumConnector_exports)) (variorum_initial fs)
        (Initialize env q v # map Kernel (concat (map use_events us))) = Inr s
      \<and> global_filename s = f \<and> contents s = concat (map use_line us)
      \<and> run_events (vc_loaded J table) (variorum_initial fs)
        (Initialize env q v # map Kernel (concat (map use_events us))) = Inr s'
      \<and> vc_files s' = fs"
proof -
  note i = initialized [OF assms(3,4), of q v fs]
  let ?s0 = "vc_init_library env q v (variorum_initial fs)"
  from i assms(4) obtain s where s: "run_events (vc_next J) ?s0 (concat (map use_events us)) = Inr s"
    "global_filename s = f" "contents s = concat (map use_line us)"
    using uses_written [of ?s0 us J] assms(5) by auto
  have "cleared (variorum_initial fs)" by (simp add: cleared_def variorum_initial_def)
  then obtain s' where "run_events (vc_next J) (variorum_initial fs) (concat (map use_events us)) = Inr s'"
    using uses_return assms(5) by blast
  moreover from variorum_without_init [OF this] have "vc_files s' = fs" .
  ultimately show ?thesis
    using s dispatcher_variorum [OF assms(1,2)]
    by (simp add: initialize_run kernels_run [OF exported_kernel] kernels_run [OF dispatched_kernel])
qed

definition variorum_build :: build_config where
  "variorum_build = \<lparr>cfg_win32 = False, cfg_use_mpi = False, cfg_systemtap = False, cfg_variorum = True,
     cfg_vtune = False, cfg_caliper = False, cfg_nvtx = False, cfg_roctx = False\<rparr>"

theorem variorum_silent_dispatched_witness:
  "\<exists>s s' table. get_event_set (\<lambda>c s. None) variorum_build ''variorum'' [] = Inr table
    \<and> run_events (vc_loaded sample_jansson (exported T_VariorumConnector VariorumConnector_exports)) (variorum_initial Map.empty)
        [Initialize (Some ''out'') 0 20211015, Kernel (VBegin ParFor (0, ''1000'') (Some ''k'') 0), Kernel (VEnd ParFor (0, ''3000'') 0)] = Inr s
    \<and> contents s = kernel_line ''k'' 0 (energy_of 200 1000 3000)
    \<and> run_events (vc_loaded sample_jansson table) (variorum_initial Map.empty)
        [Initialize (Some ''out'') 0 20211015, Kernel (VBegin ParFor (0, ''1000'') (Some ''k'') 0), Kernel (VEnd ParFor (0, ''3000'') 0)] = Inr s'
    \<and> vc_files s' = Map.empty"
proof -
  let ?u = "Use ParFor ''k'' 0 (0, ''1000'') (1000, d_of_nat 100) (0, ''3000'') (3000, d_of_nat 100) 0 (energy_of 200 1000 3000)"
  have u: "\<forall>u \<in> set [?u]. use_good sample_jansson u"
    using sample_reads [of "''1000''"] sample_reads [of "''3000''"] by (simp add: sample_times sample_estimate)
  have t: "get_event_set (\<lambda>c s. None) variorum_build ''variorum'' [] = Inr VariorumConnector_event_set"
    by (simp add: get_event_set_def handlers_def variorum_build_def)
  from variorum_silent_dispatched [OF _ t refl _ u, of "''out''" Map.empty 0 20211015] t show ?thesis
    by (auto simp: variorum_build_def)
qed

end
