(* ===== verification/Perfetto_Connector.thy ===== *)
theory Perfetto_Connector
  imports Contracts Interface
begin

text \<open>
  The Perfetto connector, \<open>profiling/perfetto-connector/libperfetto-connector.cpp\<close>: callbacks become
  events of a trace. The Perfetto SDK is known by the calls made to it; whether it has a category enabled
  is an argument of the callbacks, and so is the trace it gives back at the end.
\<close>

section \<open>Environment variables\<close>

text \<open>The number at the start of a string, after white space and a sign.\<close>

definition number_at :: "string \<Rightarrow> int option" where
  "number_at s = (let t = dropWhile is_space s;
       u = (case t of c # cs \<Rightarrow> if c = CHR ''-'' \<or> c = CHR ''+'' then cs else t | [] \<Rightarrow> t);
       neg = (t \<noteq> [] \<and> hd t = CHR ''-'')
     in if u \<noteq> [] \<and> is_digit (hd u) then Some ((if neg then -1 else 1) * int (digits_val 0 u)) else None)"

text \<open>\<open>istringstream >> int\<close>: 0 without a number, the nearest \<open>int\<close> where it does not fit.\<close>

definition stream_int :: "string \<Rightarrow> int" where
  "stream_int s = (case number_at s of None \<Rightarrow> 0 | Some i \<Rightarrow> max (- (2 ^ 31)) (min (2 ^ 31 - 1) i))"

definition stoi :: "string \<Rightarrow> int outcome" where
  "stoi s = (case number_at s of None \<Rightarrow> Inl (Throw ''std::invalid_argument'')
     | Some i \<Rightarrow> if i < - (2 ^ 31) \<or> 2 ^ 31 \<le> i then Inl (Throw ''std::out_of_range'') else Inr i)"

text \<open>\<open>get_env\<close> for an \<open>int\<close> and for a string; \<open>env\<close> is \<open>getenv\<close>.\<close>

definition get_env_int :: "(string \<Rightarrow> string option) \<Rightarrow> string \<Rightarrow> int \<Rightarrow> int" where
  "get_env_int env name d = (case env name of Some v \<Rightarrow> stream_int v | None \<Rightarrow> d)"

definition get_env_string :: "(string \<Rightarrow> string option) \<Rightarrow> string \<Rightarrow> string \<Rightarrow> string" where
  "get_env_string env name d = (case env name of Some v \<Rightarrow> v | None \<Rightarrow> d)"

text \<open>\<open>getenv(name) && stoi(getenv(name)) != 0\<close>.\<close>

definition env_flag :: "(string \<Rightarrow> string option) \<Rightarrow> string \<Rightarrow> bool outcome" where
  "env_flag env name = (case env name of None \<Rightarrow> Inr False | Some v \<Rightarrow> obind (stoi v) (\<lambda>i. Inr (i \<noteq> 0)))"

section \<open>State\<close>

datatype FillPolicy = DISCARD | RING_BUFFER

text \<open>What is set of \<open>TracingInitArgs\<close> and \<open>TraceConfig\<close>.\<close>

record perfetto_config =
  pc_backends :: u32
  pc_shmem_size_hint_kb :: u32
  pc_buffer_size_kb :: u32
  pc_fill_policy :: FillPolicy
  pc_data_source :: string

datatype annotation = DString string | DUint u64 | DPointer u64 | DBool bool

datatype trace_event =
    Slice_begin string "string option" "(string \<times> annotation) list"
  | Slice_end string
  | Instant string "string option" "(string \<times> annotation) list"

datatype perfetto_call =
    Tracing_Initialize perfetto_config | TrackEvent_Register | NewTrace | Session_Setup perfetto_config
  | StartBlocking | TrackEvent_Flush | FlushBlocking | StopBlocking | ReadTraceBlocking

record perfetto_state =
  tracing_session :: bool
  pf_calls :: "perfetto_call list"
  pf_trace :: "trace_event list"
  pf_stdout :: "token list"
  pf_stderr :: "token list"
  pf_file :: "(string \<times> u8 list) option"

definition perfetto_initial :: perfetto_state where
  "perfetto_initial = \<lparr>tracing_session = False, pf_calls = [], pf_trace = [], pf_stdout = [], pf_stderr = [], pf_file = None\<rparr>"

definition pf_print :: "string \<Rightarrow> perfetto_state \<Rightarrow> perfetto_state" where
  "pf_print t s = s\<lparr>pf_stdout := pf_stdout s @ [Txt t]\<rparr>"

definition pf_rule :: string where
  "pf_rule = ''-----------------------------------------------------------''"

text \<open>The enumerators of the SDK's \<open>BackendType\<close>.\<close>

definition kInProcessBackend :: u32 where "kInProcessBackend = 1"
definition kSystemBackend :: u32 where "kSystemBackend = 2"

section \<open>Initialisation and finalisation\<close>

definition perfetto_backends :: "(string \<Rightarrow> string option) \<Rightarrow> u32 outcome" where
  "perfetto_backends env =
     obind (env_flag env ''KOKKOSP_PERFETTO_INPROCESS_BACKEND'') (\<lambda>f.
     let backends = (if f then 0 OR kInProcessBackend else 0) in
     obind (env_flag env ''KOKKOSP_PERFETTO_SYSTEM_BACKEND'') (\<lambda>f.
     let backends = (if f then backends OR kInProcessBackend else backends) in
     Inr (if backends = 0 then backends OR kInProcessBackend else backends)))"

definition pf_init_library :: "(string \<Rightarrow> string option) \<Rightarrow> int \<Rightarrow> u64 \<Rightarrow> perfetto_state \<Rightarrow> perfetto_state outcome" where
  "pf_init_library env loadSeq interfaceVer s =
     (let s = pf_print (pf_rule @ eol @ ''KokkosP: Perfetto Connector (sequence is '' @ dec_int loadSeq
            @ '', version: '' @ dec_nat (unat interfaceVer) @ '')'' @ eol @ pf_rule @ eol) s;
          shmem_size_hint = get_env_int env ''KOKKOSP_PERFETTO_SHMEM_SIZE_HINT_KB'' 10000;
          buffer_size = get_env_int env ''KOKKOSP_PERFETTO_BUFFER_SIZE_KB'' (1000 * 1000);
          fill_policy_name = get_env_string env ''KOKKOSP_PERFETTO_FILL_POLICY'' ''discard''
      in obind (perfetto_backends env) (\<lambda>backends.
         let c = \<lparr>pc_backends = backends, pc_shmem_size_hint_kb = word_of_int shmem_size_hint,
                  pc_buffer_size_kb = word_of_int buffer_size,
                  pc_fill_policy = (if fill_policy_name = ''discard'' then DISCARD else RING_BUFFER),
                  pc_data_source = ''track_event''\<rparr>
         in Inr (s\<lparr>tracing_session := True, pf_calls := pf_calls s @
              [Tracing_Initialize c, TrackEvent_Register, NewTrace, Session_Setup c, StartBlocking]\<rparr>)))"

text \<open>\<open>trace_data\<close> is what reading the trace gives, \<open>opens\<close> whether the output file can be opened.\<close>

definition pf_finalize_library ::
  "(string \<Rightarrow> string option) \<Rightarrow> u8 list \<Rightarrow> bool \<Rightarrow> perfetto_state \<Rightarrow> perfetto_state outcome" where
  "pf_finalize_library env trace_data opens s =
     (let s = pf_print (pf_rule @ eol @ ''KokkosP: Finalizing Perfetto Connector... '' @ eol) s in
      if \<not> tracing_session s then Inl (Undefined ''tracing_session is null'')
      else
        (let s = s\<lparr>pf_calls := pf_calls s @ [TrackEvent_Flush, FlushBlocking, StopBlocking]\<rparr>;
             s = pf_print ''Reading trace data... '' s;
             s = s\<lparr>pf_calls := pf_calls s @ [ReadTraceBlocking]\<rparr>;
             fname = get_env_string env ''KOKKOSP_PERFETTO_OUTPUT_FILE'' ''kokkosp-perfetto.pftrace'';
             s = (if trace_data = [] then s
                  else if opens then (pf_print (''Writing '' @ [CHR 0x27] @ fname @ [CHR 0x27] @ ''... '') s)
                    \<lparr>pf_file := Some (fname, trace_data)\<rparr>
                  else s\<lparr>pf_stderr := pf_stderr s @ [Txt (''Error opening '' @ fname @ eol)]\<rparr>)
         in Inr (pf_print (''Done'' @ eol @ pf_rule @ eol) s)))"

section \<open>Trace events\<close>

text \<open>The macros record an event if the category is enabled.\<close>

definition trace_in :: "(string \<Rightarrow> bool) \<Rightarrow> string \<Rightarrow> trace_event \<Rightarrow> perfetto_state \<Rightarrow> perfetto_state" where
  "trace_in en cat e s = (if en cat then s\<lparr>pf_trace := pf_trace s @ [e]\<rparr> else s)"

fun category_of :: "pkind \<Rightarrow> string" where
  "category_of ParFor = ''kokkos.parallel_for''"
| "category_of ParReduce = ''kokkos.parallel_reduce''"
| "category_of ParScan = ''kokkos.parallel_scan''"

text \<open>The three begin callbacks and the three end callbacks differ in the category only.\<close>

definition pf_begin_parallel :: "(string \<Rightarrow> bool) \<Rightarrow> pkind \<Rightarrow> string option \<Rightarrow> u32 \<Rightarrow> perfetto_state \<Rightarrow> perfetto_state" where
  "pf_begin_parallel en k name dev_id = trace_in en (category_of k)
     (Slice_begin (category_of k) name [(''device'', DUint (ucast dev_id))])"

definition pf_end_parallel :: "(string \<Rightarrow> bool) \<Rightarrow> pkind \<Rightarrow> u64 \<Rightarrow> perfetto_state \<Rightarrow> perfetto_state" where
  "pf_end_parallel en k kID = trace_in en (category_of k) (Slice_end (category_of k))"

definition pf_push_profile_region :: "(string \<Rightarrow> bool) \<Rightarrow> string option \<Rightarrow> perfetto_state \<Rightarrow> perfetto_state" where
  "pf_push_profile_region en name = trace_in en ''kokkos.region'' (Slice_begin ''kokkos.region'' name [])"

definition pf_pop_profile_region :: "(string \<Rightarrow> bool) \<Rightarrow> perfetto_state \<Rightarrow> perfetto_state" where
  "pf_pop_profile_region en = trace_in en ''kokkos.region'' (Slice_end ''kokkos.region'')"

text \<open>The annotations of a copy are made by a function that runs only if the category is enabled.\<close>

definition pf_begin_deep_copy :: "(string \<Rightarrow> bool) \<Rightarrow> SpaceHandle \<Rightarrow> string option \<Rightarrow> u64 \<Rightarrow> SpaceHandle \<Rightarrow> string option \<Rightarrow>
  u64 \<Rightarrow> u64 \<Rightarrow> perfetto_state \<Rightarrow> perfetto_state outcome" where
  "pf_begin_deep_copy en dst_handle dst_name dst_ptr src_handle src_name src_ptr n s =
     (if \<not> en ''kokkos.deep_copy'' then Inr s
      else case (dst_name, src_name) of
        (Some d, Some c) \<Rightarrow> Inr (trace_in en ''kokkos.deep_copy'' (Slice_begin ''kokkos.deep_copy'' (Some (d @ ''->'' @ c))
          [(''size'', DUint n), (''dest_type'', DString (cstr (sh_name dst_handle))),
           (''src_type'', DString (cstr (sh_name src_handle))),
           (''dest_address'', DPointer dst_ptr), (''src_address'', DPointer src_ptr)]) s)
      | _ \<Rightarrow> Inl (Undefined ''stream insertion of a null pointer''))"

definition pf_end_deep_copy :: "(string \<Rightarrow> bool) \<Rightarrow> perfetto_state \<Rightarrow> perfetto_state" where
  "pf_end_deep_copy en = trace_in en ''kokkos.deep_copy'' (Slice_end ''kokkos.deep_copy'')"

definition pf_allocate_data ::
  "(string \<Rightarrow> bool) \<Rightarrow> SpaceHandle \<Rightarrow> string option \<Rightarrow> u64 \<Rightarrow> u64 \<Rightarrow> perfetto_state \<Rightarrow> perfetto_state" where
  "pf_allocate_data en h name ptr n = trace_in en ''kokkos.allocate'' (Instant ''kokkos.allocate'' name
     [(''type'', DString (cstr (sh_name h))), (''size'', DUint n)])"

definition pf_deallocate_data ::
  "(string \<Rightarrow> bool) \<Rightarrow> SpaceHandle \<Rightarrow> string option \<Rightarrow> u64 \<Rightarrow> u64 \<Rightarrow> perfetto_state \<Rightarrow> perfetto_state" where
  "pf_deallocate_data en h name ptr n = trace_in en ''kokkos.deallocate'' (Instant ''kokkos.deallocate'' name
     [(''type'', DString (cstr (sh_name h))), (''size'', DUint n)])"

definition pf_profile_event :: "(string \<Rightarrow> bool) \<Rightarrow> string option \<Rightarrow> perfetto_state \<Rightarrow> perfetto_state" where
  "pf_profile_event en name = trace_in en ''kokkos.profile_event'' (Instant ''kokkos.profile_event'' name [])"

definition pf_dual_view_sync :: "(string \<Rightarrow> bool) \<Rightarrow> string option \<Rightarrow> u64 \<Rightarrow> bool \<Rightarrow> perfetto_state \<Rightarrow> perfetto_state" where
  "pf_dual_view_sync en name ptr is_device = trace_in en ''kokkos.dual_view_sync'' (Instant ''kokkos.dual_view_sync'' name
     [(''address'', DPointer ptr), (''is_device'', DBool is_device)])"

definition pf_dual_view_modify :: "(string \<Rightarrow> bool) \<Rightarrow> string option \<Rightarrow> u64 \<Rightarrow> bool \<Rightarrow> perfetto_state \<Rightarrow> perfetto_state" where
  "pf_dual_view_modify en name ptr is_device = trace_in en ''kokkos.dual_view_modify''
     (Instant ''kokkos.dual_view_modify'' name [(''address'', DPointer ptr), (''is_device'', DBool is_device)])"

section \<open>What is set up\<close>

lemma env_flag_Inl: "env_flag env n = Inl x \<longleftrightarrow> (\<exists>t. env n = Some t \<and> stoi t = Inl x)"
  by (auto simp: env_flag_def obind_def split: option.splits sum.splits)

lemma perfetto_backends_cases:
  "(case perfetto_backends env of
      Inl x \<Rightarrow> \<exists>n t. n \<in> {''KOKKOSP_PERFETTO_INPROCESS_BACKEND'', ''KOKKOSP_PERFETTO_SYSTEM_BACKEND''}
        \<and> env n = Some t \<and> stoi t = Inl x
    | Inr b \<Rightarrow> b = kInProcessBackend)"
proof (cases "env_flag env ''KOKKOSP_PERFETTO_INPROCESS_BACKEND''")
  case (Inl x)
  then have "perfetto_backends env = Inl x" by (simp add: perfetto_backends_def)
  with env_flag_Inl [THEN iffD1, OF Inl] show ?thesis by auto
next
  case f: (Inr f)
  show ?thesis
  proof (cases "env_flag env ''KOKKOSP_PERFETTO_SYSTEM_BACKEND''")
    case (Inl x)
    with f have "perfetto_backends env = Inl x" by (simp add: perfetto_backends_def Let_def)
    with env_flag_Inl [THEN iffD1, OF Inl] show ?thesis by auto
  next
    case (Inr g)
    with f show ?thesis by (simp add: perfetto_backends_def kInProcessBackend_def Let_def)
  qed
qed

text \<open>
  The initialisation starts one session with the buffer the environment asks for, or it throws
  because one of the two backend variables is not an \<open>int\<close>. The backend is the in-process one whatever the
  variables say: the variable for the system backend selects the in-process backend too.
\<close>

theorem perfetto_init_in_process:
  "(case pf_init_library env loadSeq v s of
      Inl x \<Rightarrow> \<exists>n t. n \<in> {''KOKKOSP_PERFETTO_INPROCESS_BACKEND'', ''KOKKOSP_PERFETTO_SYSTEM_BACKEND''}
        \<and> env n = Some t \<and> stoi t = Inl x
    | Inr s' \<Rightarrow> tracing_session s' \<and> (\<exists>c. pf_calls s' = pf_calls s @
          [Tracing_Initialize c, TrackEvent_Register, NewTrace, Session_Setup c, StartBlocking]
        \<and> pc_backends c = kInProcessBackend \<and> pc_backends c AND kSystemBackend = 0
        \<and> pc_buffer_size_kb c = word_of_int (get_env_int env ''KOKKOSP_PERFETTO_BUFFER_SIZE_KB'' 1000000)
        \<and> pc_fill_policy c = (if get_env_string env ''KOKKOSP_PERFETTO_FILL_POLICY'' ''discard'' = ''discard''
            then DISCARD else RING_BUFFER)))"
proof (cases "perfetto_backends env")
  case (Inl x)
  with perfetto_backends_cases [of env] show ?thesis by (simp add: pf_init_library_def Let_def)
next
  case (Inr b)
  with perfetto_backends_cases [of env] have "b = kInProcessBackend" by simp
  with Inr show ?thesis by (simp add: pf_init_library_def pf_print_def kInProcessBackend_def kSystemBackend_def Let_def)
qed

section \<open>Slices\<close>

datatype slice_open =
    PfKernel pkind "string option" u32 | PfRegion "string option"
  | PfCopy SpaceHandle "string option" u64 SpaceHandle "string option" u64 u64

datatype slice_close = PfEndKernel pkind u64 | PfEndRegion | PfEndCopy

datatype slice_other =
    PfAllocate SpaceHandle "string option" u64 u64 | PfDeallocate SpaceHandle "string option" u64 u64
  | PfEvent "string option" | PfSync "string option" u64 bool | PfModify "string option" u64 bool

abbreviation all_enabled :: "string \<Rightarrow> bool" where
  "all_enabled \<equiv> (\<lambda>c. True)"

fun pf_opening :: "(string \<Rightarrow> bool) \<Rightarrow> perfetto_state \<Rightarrow> slice_open \<Rightarrow> perfetto_state outcome" where
  "pf_opening en s (PfKernel k name d) = Inr (pf_begin_parallel en k name d s)"
| "pf_opening en s (PfRegion name) = Inr (pf_push_profile_region en name s)"
| "pf_opening en s (PfCopy dh dn dp sh sn sp n) = pf_begin_deep_copy en dh dn dp sh sn sp n s"

fun pf_closing :: "(string \<Rightarrow> bool) \<Rightarrow> perfetto_state \<Rightarrow> slice_close \<Rightarrow> perfetto_state outcome" where
  "pf_closing en s (PfEndKernel k i) = Inr (pf_end_parallel en k i s)"
| "pf_closing en s PfEndRegion = Inr (pf_pop_profile_region en s)"
| "pf_closing en s PfEndCopy = Inr (pf_end_deep_copy en s)"

fun pf_other :: "(string \<Rightarrow> bool) \<Rightarrow> perfetto_state \<Rightarrow> slice_other \<Rightarrow> perfetto_state outcome" where
  "pf_other en s (PfAllocate h l p n) = Inr (pf_allocate_data en h l p n s)"
| "pf_other en s (PfDeallocate h l p n) = Inr (pf_deallocate_data en h l p n s)"
| "pf_other en s (PfEvent name) = Inr (pf_profile_event en name s)"
| "pf_other en s (PfSync name p d) = Inr (pf_dual_view_sync en name p d s)"
| "pf_other en s (PfModify name p d) = Inr (pf_dual_view_modify en name p d s)"

fun pf_next :: "(string \<Rightarrow> bool) \<Rightarrow> perfetto_state \<Rightarrow> (slice_open, slice_close, slice_other) bracket \<Rightarrow> perfetto_state outcome" where
  "pf_next en s (Open a) = pf_opening en s a"
| "pf_next en s (Close b) = pf_closing en s b"
| "pf_next en s (Other c) = pf_other en s c"

text \<open>The slices open on the track, innermost first: an end closes the innermost.\<close>

fun open_slices :: "trace_event list \<Rightarrow> (string \<times> string option) list \<Rightarrow> (string \<times> string option) list" where
  "open_slices [] fs = fs"
| "open_slices (Slice_begin c n as # es) fs = open_slices es ((c, n) # fs)"
| "open_slices (Slice_end c # es) fs = open_slices es (tl fs)"
| "open_slices (Instant c n as # es) fs = open_slices es fs"

lemma open_slices_append [simp]: "open_slices (xs @ ys) fs = open_slices ys (open_slices xs fs)"
  by (induction xs fs rule: open_slices.induct) simp_all

definition pf_frames :: "perfetto_state \<Rightarrow> (string \<times> string option) list" where
  "pf_frames s = open_slices (pf_trace s) []"

lemmas pf_slice_defs = pf_begin_parallel_def pf_push_profile_region_def pf_begin_deep_copy_def pf_end_parallel_def
  pf_pop_profile_region_def pf_end_deep_copy_def pf_allocate_data_def pf_deallocate_data_def pf_profile_event_def
  pf_dual_view_sync_def pf_dual_view_modify_def trace_in_def pf_frames_def

interpretation pf: frame_stack "pf_opening all_enabled" "pf_closing all_enabled" "pf_other all_enabled" pf_frames "\<lambda>s. True"
proof
  show "True \<and> (\<exists>f. pf_frames s' = f # pf_frames s)" if "pf_opening all_enabled s a = Inr s'" for s a s'
    using that by (cases a) (auto simp: pf_slice_defs split: option.splits)
  show "True \<and> pf_frames s' = fs" if "pf_closing all_enabled s b = Inr s'" "pf_frames s = f # fs" for s b s' f fs
    using that by (cases b) (auto simp: pf_slice_defs)
  show "True \<and> pf_frames s' = pf_frames s" if "pf_other all_enabled s c = Inr s'" for s c s'
    using that by (cases c) (auto simp: pf_slice_defs)
qed

lemma pf_next_step: "pf_next all_enabled s e = pf.fs_step s e"
  by (cases e) simp_all

text \<open>With every category enabled, callbacks that balance leave the slices open that were open before.\<close>

lemma perfetto_slices_balanced:
  "balanced es \<Longrightarrow> run_events (pf_next all_enabled) s es = Inr s' \<Longrightarrow> pf_frames s' = pf_frames s"
  using pf.balanced_restores_kind [of "pf_next all_enabled" "\<lambda>e. e", OF pf_next_step] by simp

section \<open>Which end closes which slice\<close>

text \<open>
  The macros that end a slice name its category only, and the trace closes the innermost slice whatever its
  category. \<open>closings\<close> reads a trace: for each end, its category and the slice it closes, if one is open.
\<close>

fun closings :: "trace_event list \<Rightarrow> (string \<times> string option) list \<Rightarrow> (string \<times> (string \<times> string option) option) list" where
  "closings [] fs = []"
| "closings (Slice_begin c n as # es) fs = closings es ((c, n) # fs)"
| "closings (Slice_end c # es) [] = (c, None) # closings es []"
| "closings (Slice_end c # es) (f # fs) = (c, Some f) # closings es fs"
| "closings (Instant c n as # es) fs = closings es fs"

lemma closings_append: "closings (xs @ ys) fs = closings xs fs @ closings ys (open_slices xs fs)"
  by (induction xs fs rule: closings.induct) simp_all

text \<open>The slice a callback opens, and the callback that is to close it.\<close>

fun slice_of :: "slice_open \<Rightarrow> string \<times> string option" where
  "slice_of (PfKernel k name d) = (category_of k, name)"
| "slice_of (PfRegion name) = (''kokkos.region'', name)"
| "slice_of (PfCopy dh dn dp sh sn sp n) = (''kokkos.deep_copy'', Some (the dn @ ''->'' @ the sn))"

fun closes :: "slice_open \<Rightarrow> slice_close \<Rightarrow> bool" where
  "closes (PfKernel k name d) (PfEndKernel k' i) = (k' = k)"
| "closes (PfRegion name) PfEndRegion = True"
| "closes (PfCopy dh dn dp sh sn sp n) PfEndCopy = True"
| "closes a b = False"

text \<open>Programs that close everything they open, the innermost first.\<close>

inductive nested_calls :: "(slice_open, slice_close, slice_other) bracket list \<Rightarrow> bool" where
  nil: "nested_calls []"
| other: "nested_calls xs \<Longrightarrow> nested_calls (Other c # xs)"
| frame: "nested_calls xs \<Longrightarrow> nested_calls ys \<Longrightarrow> closes a b \<Longrightarrow> nested_calls (Open a # xs @ Close b # ys)"

text \<open>The slices of a program in the order they end; \<open>fs\<close> are those open at the start.\<close>

fun program_slices :: "(slice_open, slice_close, slice_other) bracket list \<Rightarrow> (string \<times> string option) list \<Rightarrow> (string \<times> string option) list" where
  "program_slices [] fs = []"
| "program_slices (Open a # es) fs = program_slices es (slice_of a # fs)"
| "program_slices (Close b # es) [] = program_slices es []"
| "program_slices (Close b # es) (f # fs) = f # program_slices es fs"
| "program_slices (Other c # es) fs = program_slices es fs"

lemma program_slices_nested:
  "nested_calls es \<Longrightarrow> program_slices (es @ es') fs = program_slices es [] @ program_slices es' fs"
proof (induction es arbitrary: es' fs rule: nested_calls.induct)
  case (frame xs ys a b)
  have "program_slices (Open a # xs @ Close b # ys @ es') fs
      = program_slices xs [] @ slice_of a # program_slices ys [] @ program_slices es' fs"
    by (simp add: frame.IH)
  moreover have "program_slices (Open a # xs @ Close b # ys) [] = program_slices xs [] @ slice_of a # program_slices ys []"
    using frame.IH(1) [of "Close b # ys" "[slice_of a]"] by simp
  ultimately show ?case by simp
qed simp_all

lemma opening_trace:
  "pf_opening en s a = Inr s' \<Longrightarrow> \<exists>as. pf_trace s' = pf_trace s
    @ (if en (fst (slice_of a)) then [Slice_begin (fst (slice_of a)) (snd (slice_of a)) as] else [])"
  by (cases a) (auto simp: pf_slice_defs split: option.splits if_splits)

lemma closing_trace:
  "pf_closing en s b = Inr s' \<Longrightarrow> closes a b \<Longrightarrow> pf_trace s' = pf_trace s
    @ (if en (fst (slice_of a)) then [Slice_end (fst (slice_of a))] else [])"
  by (cases a; cases b) (auto simp: pf_slice_defs)

lemma other_trace:
  "pf_other en s c = Inr s' \<Longrightarrow> \<exists>t. pf_trace s' = pf_trace s @ t \<and> (\<forall>fs. closings t fs = [] \<and> open_slices t fs = fs)"
  by (cases c) (auto simp: pf_slice_defs)

lemma nested_trace:
  "nested_calls es \<Longrightarrow> run_events (pf_next en) s es = Inr s' \<Longrightarrow> \<exists>t. pf_trace s' = pf_trace s @ t
    \<and> (\<forall>fs. open_slices t fs = fs \<and> closings t fs = map (\<lambda>f. (fst f, Some f)) (filter (\<lambda>f. en (fst f)) (program_slices es [])))"
proof (induction es arbitrary: s s' rule: nested_calls.induct)
  case (other xs c)
  then obtain s1 where s1: "pf_other en s c = Inr s1" "run_events (pf_next en) s1 xs = Inr s'" by (auto split: sum.splits)
  from other_trace [OF s1(1)] other.IH [OF s1(2)] show ?case by (force simp: closings_append)
next
  case (frame xs ys a b)
  then obtain s1 s2 s3 where s: "pf_opening en s a = Inr s1" "run_events (pf_next en) s1 xs = Inr s2"
    "pf_closing en s2 b = Inr s3" "run_events (pf_next en) s3 ys = Inr s'"
    by (auto simp: run_events_append split: sum.splits)
  from opening_trace [OF s(1)] obtain as where t1: "pf_trace s1 = pf_trace s
    @ (if en (fst (slice_of a)) then [Slice_begin (fst (slice_of a)) (snd (slice_of a)) as] else [])" by blast
  from frame.IH(1) [OF s(2)] frame.IH(2) [OF s(4)] obtain u v where
      u: "pf_trace s2 = pf_trace s1 @ u" "\<forall>fs. open_slices u fs = fs
        \<and> closings u fs = map (\<lambda>f. (fst f, Some f)) (filter (\<lambda>f. en (fst f)) (program_slices xs []))"
    and v: "pf_trace s' = pf_trace s3 @ v" "\<forall>fs. open_slices v fs = fs
        \<and> closings v fs = map (\<lambda>f. (fst f, Some f)) (filter (\<lambda>f. en (fst f)) (program_slices ys []))" by blast
  have p: "program_slices (Open a # xs @ Close b # ys) [] = program_slices xs [] @ slice_of a # program_slices ys []"
    using program_slices_nested [OF frame.hyps(1), of "Close b # ys" "[slice_of a]"] by simp
  show ?case
    unfolding p using t1 u v closing_trace [OF s(3) frame.hyps(3)]
    by (intro exI [of _ "(if en (fst (slice_of a)) then [Slice_begin (fst (slice_of a)) (snd (slice_of a)) as] else []) @ u
        @ (if en (fst (slice_of a)) then [Slice_end (fst (slice_of a))] else []) @ v"]) (simp add: closings_append)
qed simp

text \<open>
  C23. Every end closes its own slice, whichever categories are recorded. In a program that closes what it
  opens, innermost first, each end in the trace closes the slice of the callback it belongs to, in the
  category it names; the slices closed are those of the enabled categories, in the order the program closes
  them, and the slices open before are open again. Leaving a category out takes out its slices and nothing else.
\<close>

theorem perfetto_ends_own_slice:
  assumes "nested_calls es" and "run_events (pf_next en) s es = Inr s'"
  shows "closings (pf_trace s') [] = closings (pf_trace s) []
      @ map (\<lambda>f. (fst f, Some f)) (filter (\<lambda>f. en (fst f)) (program_slices es []))
    \<and> open_slices (pf_trace s') [] = open_slices (pf_trace s) []"
proof -
  from nested_trace [OF assms] obtain u where u: "pf_trace s' = pf_trace s @ u"
    "\<forall>fs. open_slices u fs = fs \<and> closings u fs = map (\<lambda>f. (fst f, Some f)) (filter (\<lambda>f. en (fst f)) (program_slices es []))"
    by blast
  then show ?thesis by (simp add: closings_append)
qed

definition slice_program :: "(slice_open, slice_close, slice_other) bracket list" where
  "slice_program = [Open (PfKernel ParFor (Some ''init'') 0), Close (PfEndKernel ParFor 0),
     Open (PfRegion (Some ''solve'')), Other (PfEvent (Some ''step'')),
     Open (PfKernel ParReduce (Some ''dot'') 1), Close (PfEndKernel ParReduce 1), Close PfEndRegion]"

lemma slice_program_nested: "nested_calls slice_program"
proof -
  have dot: "nested_calls [Open (PfKernel ParReduce (Some ''dot'') 1), Close (PfEndKernel ParReduce 1)]"
    using nested_calls.frame [OF nested_calls.nil nested_calls.nil,
        of "PfKernel ParReduce (Some ''dot'') 1" "PfEndKernel ParReduce 1"] by simp
  have solve: "nested_calls [Open (PfRegion (Some ''solve'')), Other (PfEvent (Some ''step'')),
     Open (PfKernel ParReduce (Some ''dot'') 1), Close (PfEndKernel ParReduce 1), Close PfEndRegion]"
    using nested_calls.frame [OF nested_calls.other [OF dot] nested_calls.nil,
        of "PfRegion (Some ''solve'')" PfEndRegion "PfEvent (Some ''step'')"] by simp
  show ?thesis
    using nested_calls.frame [OF nested_calls.nil solve, of "PfKernel ParFor (Some ''init'') 0" "PfEndKernel ParFor 0"]
    by (simp add: slice_program_def)
qed

theorem perfetto_ends_own_slice_witness:
  "\<exists>s. run_events (pf_next (\<lambda>c. c \<noteq> ''kokkos.region'')) perfetto_initial slice_program = Inr s
    \<and> closings (pf_trace s) [] =
      [(''kokkos.parallel_for'', Some (''kokkos.parallel_for'', Some ''init'')),
       (''kokkos.parallel_reduce'', Some (''kokkos.parallel_reduce'', Some ''dot''))]"
proof -
  obtain s where s: "run_events (pf_next (\<lambda>c. c \<noteq> ''kokkos.region'')) perfetto_initial slice_program = Inr s"
    by (simp add: slice_program_def)
  from perfetto_ends_own_slice [OF slice_program_nested s] s show ?thesis
    by (simp add: perfetto_initial_def) (simp add: slice_program_def)
qed

end
