(* ===== verification/Spec2Isabelle.thy ===== *)
theory Spec2Isabelle
  imports Event_Sets C_Interface Timer_Campaign Stack_Mpi Sampler Kernel_Filter Three_Tools
    Memory_Tools High_Water Chrome_Tracing Kernel_Logger Energy_Daemon
    Papi_Connector Range_Connectors Domain_Connectors Systemtap_Connector Dispatch
    Perfetto_Connector
begin

text \<open>
  Kokkos Tools: libraries that the Kokkos runtime loads and calls back when a program begins and ends
  kernels, fences, profiling regions, deep copies and allocations of memory.

  The program. Each tool under \<open>src/profiling\<close>, \<open>src/debugging\<close> and \<open>src/common\<close> is a set of C
  functions \<open>kokkosp_...\<close> over the tool's own static variables. They reach Kokkos in one of two ways:
  as symbols of a library of its own (the \<open>EXPOSE_\<close> macros of \<open>profiling/all/kp_core.hpp\<close>), or as the
  table of function pointers a tool's \<open>get_event_set\<close> fills in, which the dispatcher in
  \<open>profiling/all/kp_all.cpp\<close> selects by name. The sampler and the kernel filter are tools between Kokkos
  and another tool, which they load as their child library.

  The model. A tool's static variables are a record, a callback is a function from the record (and
  the callback's arguments) to the new record, and a callback that may not return gives an \<open>outcome\<close>:
  \<open>Inl\<close> says how it stops (\<open>exit\<close>, \<open>abort\<close> or a failed assertion, an exception, or an operation the
  language leaves undefined), \<open>Inr\<close> is the result. A run is a list of events, \<open>run_events\<close>. What a
  tool prints or writes is a list of tokens. Machine integers have their width; \<open>double\<close> is the IEEE
  format at bit level. Arguments of the definitions stand for what the environment supplies: clock
  readings, environment variables, host name, \<open>ru_maxrss\<close>, the value of \<open>rand()\<close>, and, as functions,
  \<open>__cxa_demangle\<close>, \<open>strtod\<close> and \<open>atof\<close>, \<open>std::sort\<close> (any function that meets its contract),
  \<open>std::regex\<close>, \<open>dlopen\<close>, the child library, \<open>MPI_Reduce\<close>, the Caliper table and the libraries behind
  the connectors.

  The theories.
  \<^item> \<open>Prelude\<close>: words, outcomes, runs, decimal numbers, tokens, \<open>atoi\<close>, \<open>strtok\<close>, \<open>strcmp\<close>.
    \<open>Double\<close>: IEEE doubles, that rounding is monotone and exact on what is representable.
    \<open>Contracts\<close>: the interfaces as locales, \<open>id_source\<close> (issued identifiers are consecutive),
    \<open>frame_stack\<close> (balanced callbacks restore the open frames), \<open>byte_codec\<close>, \<open>key_order\<close>.
    \<open>Ordered_Map\<close>: \<open>std::map\<close> and \<open>std::set\<close>. \<open>Std_Sort\<close>: the contract of \<open>std::sort\<close> and a function
    that meets it.
  \<^item> \<open>Interface\<close>, \<open>Event_Sets\<close> and \<open>C_Interface\<close>: device identifiers (packing and unpacking agree), the
    exported symbols and tables of all tools, the dispatcher (where the two ways agree and where not, and
    that begin and end callbacks come in pairs); the C types that cross the boundary with their layout on
    x86-64 (the table of callbacks keeps it when callbacks are added) and the parameters of the callbacks,
    compared with those of the pointers but for what pointers point to. \<open>Dispatch\<close> drives a tool through its
    table, and shows what the missing \<open>init\<close> of the Variorum connector's table does to its output.
  \<^item> \<open>Kernel_Info\<close>, \<open>Kernel_Timer\<close>, \<open>Timer_Spec\<close>, \<open>Timer_Report\<close>, \<open>Timer_Reader\<close>, with \<open>Demangle\<close>: the simple
    kernel timer (\<open>profiling/simple-kernel-timer\<close>, \<open>common/utils/demangle.hpp\<close>): its records and their
    binary form (reading gives back what was written), its callbacks with the invariant of the shared
    objects, an abstract specification from labels to times and counts with the refinement, the text and
    JSON reports, the file written at the end and the programs that read it back. \<open>Timer_Campaign\<close> puts
    them together: from the callbacks of several processes to the counts in the combined report.
  \<^item> \<open>Stack_Tree\<close>, \<open>Stack_State\<close>, \<open>Stack_Totals\<close>, \<open>Stack_Report\<close>, \<open>Stack_Seconds\<close>, \<open>Stack_Mpi\<close>: the space-time
    stack
    (\<open>profiling/space-time-stack/kp_space_time_stack.cpp\<close>): the tree of call paths with its
    inversion, the state with frames, allocation sets and high-water marks and its invariant, the totals
    at the end, and the reports. With MPI all ranks are modelled together, one tree each, and a collective
    is a function of their contributions: the queue of nodes is a \<open>partial_function\<close>, proved to return,
    and after it all ranks have the same nodes with the same times. \<open>Stack_Seconds\<close> has the times of the inverted
    tree where they are whole numbers, from which the doubled sum of the bottom-up report follows.
  \<^item> \<open>Child_Library\<close>, \<open>Sampler\<close>, \<open>Kernel_Filter\<close>: the tools with a child library
    (\<open>common/kokkos-sampler\<close>, \<open>common/kernel-filter\<close>): which kernels reach the child, that each of them
    ends in it as it should, and where identifiers can be confused. The child is watched: \<open>logged\<close> wraps
    any child with a record of the calls made to it. \<open>Tool_Chain\<close> puts the kernel timer in the place of
    the child: what the timer holds behind the sampler or the filter is what it would hold in a program of
    the kernels passed on alone, and where the filter's identifiers break this. \<open>Three_Tools\<close> has all three in
    a row: the sampler is shown to run any child on the program of the sampled kernels, here the filter. The contract of a tool with
    a child is the locale \<open>child_client\<close>.
  \<^item> \<open>Memory_Tracking\<close>, \<open>Events_Tracking\<close>, \<open>Memory_Tools\<close>, \<open>High_Water\<close>: memory usage, memory events and the two high-water
    mark tools (\<open>profiling/memory-usage\<close>, \<open>memory-events\<close>, \<open>memory-hwm\<close>, \<open>memory-hwm-mpi\<close>): the usage
    files against a specification of a space's history, the bound of 16 spaces, the event log, and that the two
    copies of the tracking code, each modelled from its own file, agree.
  \<^item> \<open>Chrome_Tracing\<close> and \<open>Kernel_Logger\<close> (\<open>profiling/chrome-tracing\<close>, \<open>debugging/kernel-logger\<close>): the
    trace file against a specification by frames, the log with the regions around each kernel.
  \<^item> \<open>Energy_Daemon\<close> (\<open>profiling/energy-profiler\<close>): a thread that calls a function until it is told to
    stop, as a step relation over the interleavings with its caller and the clock. The flag they share is not
    atomic; executions record the accesses to it, and every one that stops the thread has a data race.
  \<^item> The connectors, which hand the callbacks on to a profiler. The profiler's library is known by the calls
    made to it, which the state keeps as a list, and what it returns is an argument. \<open>Papi_Connector\<close>
    (\<open>profiling/papi-connector\<close>): nested callbacks are nested regions, and what stopping a section does to
    them. \<open>Range_Connectors\<close> (\<open>nvtx-connector\<close>, \<open>roctx-connector\<close>): ranges of kernels, regions, sections and
    fences, and that the two agree but for the fences of the tools. \<open>Domain_Connectors\<close>
    (\<open>nvtx-focused-connector\<close>, \<open>vtune-connector\<close>, \<open>vtune-focused-connector\<close>): one domain per name, with
    the contract of the three as the locale \<open>domain_tool\<close>. \<open>Systemtap_Connector\<close> (\<open>systemtap-connector\<close>):
    the probes fired. \<open>Variorum_Connector\<close> (\<open>variorum-connector\<close>): pairs of readings and the energy
    lines. \<open>Perfetto_Connector\<close> (\<open>perfetto-connector/libperfetto-connector.cpp\<close>): the configuration of the
    session, and that every end in the trace closes its own slice, whichever categories are recorded.
  Bounds. No fuel is used: the loop of the reduction over MPI is a partial function that is proved to
  return (the paths that some rank has and that are not reduced yet), other loops over files and queues end by a measure (the bytes or characters not
  read yet, the nodes of the tree not visited yet), the rest by the structure of their list. The bounds of
  the code are kept as they are: 512 nested regions in the kernel timer, 16 memory spaces and 64-character
  names, lines of 65535 characters in the filter file, identifiers modulo \<open>2 ^ 64\<close>; the properties that
  need a counter not to wrap say so.

  Assertions are modelled as compiled in. The mutex of the memory tools serialises their callbacks, so
  a run of them is a sequence.

  Not modelled. Failures and deadlocks of MPI itself: collectives are functions of the contributions,
  called in the same order by every rank. The text of floating-point numbers and pointers, which the C library chooses: they
  are tokens. Whether files can be opened, except where a tool tests it. The vendored Perfetto SDK,
  third-party code. Calls of the tuning callbacks, which no tool has: their types and places in the table
  are in \<open>C_Interface\<close>. The tests, examples and build files.
\<close>

end
